(* ===== verification/Flash_Prelude.thy ===== *)
theory Flash_Prelude
  imports Main "HOL-Library.Word"
begin

text \<open>
  The vocabulary every component of the development shares: the faults a C++ run can end in
  and the result type that carries them, the C integer conversions the source performs
  (\<open>size_t\<close> to \<open>int\<close>, \<open>long\<close> to \<open>size_t\<close>), the operations of \<open>std::string\<close> that the parser
  uses (\<open>find\<close>, \<open>substr\<close>, iterator ranges, \<open>std::to_string\<close>, \<open>c_str\<close>), and the collections
  of simplification rules that carry the component proofs.
\<close>

section \<open>Collections\<close>

named_theorems step_defs "definitions unfolded when one operation is executed symbolically"
named_theorems frame_simps "the fields an operation leaves alone"

section \<open>Faults and results\<close>

text \<open>
  A run of the C++ code that leaves the defined behaviour of the language, or that an
  \<open>assert\<close> stops, is a value: the model never lets such a run continue.
\<close>

datatype fault =
    UseAfterFree        \<comment> \<open>a member of a destroyed object is used\<close>
  | AssertFailed        \<comment> \<open>an \<open>assert\<close> is violated: the process aborts\<close>
  | OutOfRange          \<comment> \<open>an index or iterator outside the string or vector\<close>
  | SignedOverflow      \<comment> \<open>\<open>int\<close> arithmetic leaves the 32-bit range\<close>
  | MissingReturn       \<comment> \<open>control flows off the end of a value-returning function\<close>
  | UninitialisedRead   \<comment> \<open>a member is read before anything was stored in it\<close>
  | NullPointer         \<comment> \<open>a null pointer is dereferenced\<close>
  | LogicError          \<comment> \<open>a \<open>std::logic_error\<close> leaves the code\<close>

type_synonym 'a result = "fault + 'a"

definition bindR :: "'a result \<Rightarrow> ('a \<Rightarrow> 'b result) \<Rightarrow> 'b result" where
  "bindR m f = (case m of Inl e \<Rightarrow> Inl e | Inr x \<Rightarrow> f x)"

lemma bindR_simps [simp]:
  "bindR (Inl e) f = Inl e"
  "bindR (Inr x) f = f x"
  by (simp_all add: bindR_def)

lemma bindR_Inr_iff: "bindR m f = Inr y \<longleftrightarrow> (\<exists>x. m = Inr x \<and> f x = Inr y)"
  by (cases m) auto

lemma bindR_InrE [elim!]:
  assumes "bindR m f = Inr y"
  obtains x where "m = Inr x" "f x = Inr y"
  using assms by (cases m) auto

lemma bindR_assoc: "bindR (bindR m f) g = bindR m (\<lambda>x. bindR (f x) g)"
  by (cases m) auto

lemma bindR_cong [fundef_cong]:
  "m = m' \<Longrightarrow> (\<And>x. m' = Inr x \<Longrightarrow> f x = f' x) \<Longrightarrow> bindR m f = bindR m' f'"
  by (cases m') auto

lemma bindR_split:
  "P (bindR m f) \<longleftrightarrow> (\<forall>e. m = Inl e \<longrightarrow> P (Inl e)) \<and> (\<forall>x. m = Inr x \<longrightarrow> P (f x))"
  by (cases m) auto

text \<open>Running an action for each element of a vector, stopping at the first fault.\<close>

fun forR :: "('a \<Rightarrow> 'w \<Rightarrow> 'w result) \<Rightarrow> 'a list \<Rightarrow> 'w \<Rightarrow> 'w result" where
  "forR f [] w = Inr w"
| "forR f (x # xs) w = bindR (f x w) (forR f xs)"

lemma forR_append: "forR f (xs @ ys) w = bindR (forR f xs w) (forR f ys)"
  by (induction xs arbitrary: w) (auto simp: bindR_assoc fun_eq_iff intro: bindR_cong)

lemma forR_invariant:
  assumes "\<And>x w w'. x \<in> set xs \<Longrightarrow> I w \<Longrightarrow> f x w = Inr w' \<Longrightarrow> I w'"
    and "I w" and "forR f xs w = Inr w'"
  shows "I w'"
  using assms by (induction xs arbitrary: w) (auto simp: bindR_Inr_iff)

section \<open>C integers\<close>

text \<open>
  \<open>c_int\<close> is the conversion of a 64-bit quantity to a 32-bit \<open>int\<close> (modulo $2^{32}$, as GCC
  documents it), \<open>size_t\<close> the conversion of a signed quantity to the unsigned 64-bit type.
\<close>

definition c_int :: "int \<Rightarrow> int" where
  "c_int x = (x + 2 ^ 31) mod 2 ^ 32 - 2 ^ 31"

definition size_t :: "int \<Rightarrow> nat" where
  "size_t x = nat (x mod 2 ^ 64)"

lemma c_int_small [simp]: "- (2 ^ 31) \<le> x \<Longrightarrow> x < 2 ^ 31 \<Longrightarrow> c_int x = x"
  by (simp add: c_int_def)

lemma c_int_nat [simp]: "n < 2 ^ 31 \<Longrightarrow> c_int (int n) = int n"
  by (rule c_int_small) auto

lemma c_int_bounds: "- (2 ^ 31) \<le> c_int x" "c_int x < 2 ^ 31"
proof -
  have "0 \<le> (x + 2 ^ 31) mod 2 ^ 32" "(x + 2 ^ 31) mod 2 ^ 32 < 2 ^ 32" by simp_all
  then show "- (2 ^ 31) \<le> c_int x" "c_int x < 2 ^ 31" by (simp_all add: c_int_def)
qed

lemma size_t_small [simp]: "0 \<le> x \<Longrightarrow> x < 2 ^ 64 \<Longrightarrow> size_t x = nat x"
  by (simp add: size_t_def)

lemma size_t_bound: "size_t x < 2 ^ 64"
proof -
  have "x mod 2 ^ 64 < 2 ^ 64" "0 \<le> x mod 2 ^ 64" by simp_all
  then show ?thesis by (simp add: size_t_def nat_less_iff)
qed

lemma nat_int_plus [simp]:
  "nat (int n + 1) = Suc n" "nat (1 + int n) = Suc n" "nat (int n + numeral k) = n + numeral k"
  by (simp_all add: nat_add_distrib)

text \<open>\<open>e + 1\<close> on an \<open>int\<close> that may already be \<open>INT_MAX\<close>.\<close>

definition inc_int :: "int \<Rightarrow> int result" where
  "inc_int x = (if x = 2 ^ 31 - 1 then Inl SignedOverflow else Inr (x + 1))"

lemma inc_int_ok: "x < 2 ^ 31 - 1 \<Longrightarrow> inc_int x = Inr (x + 1)"
  by (simp add: inc_int_def)

section \<open>\<open>std::string\<close>\<close>

text \<open>
  \<open>find pat s pos\<close> is \<open>s.find(pat, pos)\<close>: the least index at or after \<open>pos\<close> where \<open>pat\<close>
  occurs, \<open>None\<close> for \<open>npos\<close>. The source stores the result in an \<open>int\<close>, which turns \<open>npos\<close>
  into \<open>-1\<close> (\<open>int_pos\<close>).
\<close>

fun find_sub :: "string \<Rightarrow> string \<Rightarrow> nat option" where
  "find_sub pat [] = (if pat = [] then Some 0 else None)"
| "find_sub pat (c # s) =
     (if take (length pat) (c # s) = pat then Some 0 else map_option Suc (find_sub pat s))"

definition find_from :: "string \<Rightarrow> string \<Rightarrow> nat \<Rightarrow> nat option" where
  "find_from pat s pos =
     (if pos \<le> length s then map_option ((+) pos) (find_sub pat (drop pos s)) else None)"

fun int_pos :: "nat option \<Rightarrow> int" where
  "int_pos None = -1"
| "int_pos (Some n) = c_int (int n)"

text \<open>\<open>s.substr(pos, n)\<close> throws \<open>std::out_of_range\<close> when \<open>pos\<close> is past the end.\<close>

definition substr :: "string \<Rightarrow> nat \<Rightarrow> nat \<Rightarrow> string result" where
  "substr s pos n = (if pos \<le> length s then Inr (take n (drop pos s)) else Inl OutOfRange)"

text \<open>\<open>s.substr(pos)\<close>, up to the end of the string.\<close>

definition substr_to_end :: "string \<Rightarrow> nat \<Rightarrow> string result" where
  "substr_to_end s pos = (if pos \<le> length s then Inr (drop pos s) else Inl OutOfRange)"

text \<open>
  \<open>std::string(s.begin() + a, s.begin() + b)\<close>: defined only for a range inside the string.
\<close>

definition iter_range :: "string \<Rightarrow> int \<Rightarrow> int \<Rightarrow> string result" where
  "iter_range s a b =
     (if 0 \<le> a \<and> a \<le> b \<and> b \<le> int (length s)
      then Inr (take (nat (b - a)) (drop (nat a) s)) else Inl OutOfRange)"

text \<open>What a C function sees of \<open>s.c_str()\<close>: the characters before the first NUL.\<close>

definition c_str :: "string \<Rightarrow> string" where
  "c_str s = takeWhile (\<lambda>c. c \<noteq> CHR 0x00) s"

text \<open>\<open>std::to_string\<close> on a non-negative integer.\<close>

definition digit_char :: "nat \<Rightarrow> char" where
  "digit_char d = ''0123456789'' ! (d mod 10)"

fun to_string :: "nat \<Rightarrow> string" where
  "to_string n = (if n < 10 then [digit_char n] else to_string (n div 10) @ [digit_char (n mod 10)])"

declare to_string.simps [simp del]

definition CRLF :: string where
  "CRLF = [CHR 0x0D, CHR 0x0A]"

definition CR :: char where
  "CR = CHR 0x0D"

definition LF :: char where
  "LF = CHR 0x0A"

subsection \<open>Searching\<close>

lemma find_sub_bound: "find_sub pat s = Some n \<Longrightarrow> n + length pat \<le> length s"
proof (induction pat s arbitrary: n rule: find_sub.induct)
  case (2 pat c s)
  show ?case
  proof (cases "take (length pat) (c # s) = pat")
    case True
    then have "length pat \<le> length (c # s)" by (metis length_take min.cobounded1 min_def)
    with True 2 show ?thesis by simp
  next
    case False
    with 2 show ?thesis by auto
  qed
qed (auto split: if_splits)

lemma find_sub_found: "find_sub pat s = Some n \<Longrightarrow> take (length pat) (drop n s) = pat"
  by (induction pat s arbitrary: n rule: find_sub.induct) (auto split: if_splits)

lemma find_sub_char: "find_sub [c] s = (if c \<in> set s then Some (length (takeWhile (\<lambda>d. d \<noteq> c) s)) else None)"
  by (induction s) auto

lemma find_sub_char_append:
  "c \<notin> set a \<Longrightarrow> find_sub [c] (a @ c # b) = Some (length a)"
  by (induction a) auto

lemma length_takeWhile_less:
  "c \<in> set s \<Longrightarrow> length (takeWhile (\<lambda>d. d \<noteq> c) s) < length s"
  by (induction s) auto

lemma split_at_char:
  "c \<in> set s \<Longrightarrow>
     s = takeWhile (\<lambda>d. d \<noteq> c) s @ c # drop (Suc (length (takeWhile (\<lambda>d. d \<noteq> c) s))) s"
  by (induction s) auto

lemma take_length_takeWhile [simp]: "take (length (takeWhile P s)) s = takeWhile P s"
  by (induction s) auto

lemma takeWhile_char_id: "c \<notin> set s \<Longrightarrow> takeWhile (\<lambda>d. d \<noteq> c) s = s"
  by (simp add: takeWhile_eq_all_conv) metis

lemma find_from_bound:
  "find_from pat s pos = Some n \<Longrightarrow> pos \<le> n \<and> n + length pat \<le> length s"
  by (auto simp: find_from_def split: if_splits dest!: find_sub_bound)

lemma find_from_0 [simp]: "find_from pat s 0 = find_sub pat s"
  by (cases "find_sub pat s") (simp_all add: find_from_def)

lemma find_from_char_append:
  assumes "c \<notin> set b"
  shows "find_from [c] (a @ b @ c # d) (length a) = Some (length a + length b)"
  using assms by (simp add: find_from_def find_sub_char_append)

lemma int_pos_nonneg:
  "0 \<le> int_pos p \<Longrightarrow> \<exists>n. p = Some n"
  by (cases p) auto

lemma int_pos_neg_iff: "(\<forall>n. p = Some n \<longrightarrow> n < 2 ^ 31) \<Longrightarrow> int_pos p < 0 \<longleftrightarrow> p = None"
  by (cases p) auto

subsection \<open>Decimal numerals\<close>

text \<open>Reading a numeral back, the inverse the length headers rely on.\<close>

definition char_digit :: "char \<Rightarrow> nat" where
  "char_digit c = of_char c - 48"

definition of_decimal :: "string \<Rightarrow> nat" where
  "of_decimal s = foldl (\<lambda>n c. 10 * n + char_digit c) 0 s"

lemma digit_cases: "d < 10 \<Longrightarrow> d \<in> {0, 1, 2, 3, 4, 5, 6, 7, 8, 9 :: nat}"
  by auto

lemma char_digit_digit_char: "d < 10 \<Longrightarrow> char_digit (digit_char d) = d"
  by (drule digit_cases) (auto simp: char_digit_def digit_char_def)

lemma of_decimal_snoc: "of_decimal (s @ [c]) = 10 * of_decimal s + char_digit c"
  by (simp add: of_decimal_def)

lemma of_decimal_to_string [simp]: "of_decimal (to_string n) = n"
proof (induction n rule: to_string.induct)
  case (1 n)
  show ?case
  proof (cases "n < 10")
    case True
    then show ?thesis
      by (simp add: to_string.simps [of n] of_decimal_def char_digit_digit_char)
  next
    case False
    with "1.IH" show ?thesis
      by (simp add: to_string.simps [of n] of_decimal_snoc char_digit_digit_char)
  qed
qed

lemma digit_char_not_NUL [simp]: "digit_char d \<noteq> CHR 0x00"
proof -
  have "d mod 10 \<in> {0, 1, 2, 3, 4, 5, 6, 7, 8, 9}" by (rule digit_cases) simp
  then show ?thesis by (auto simp: digit_char_def)
qed

lemma to_string_no_NUL: "CHR 0x00 \<notin> set (to_string n)"
  by (induction n rule: to_string.induct)
    (subst to_string.simps, auto simp: digit_char_not_NUL [symmetric])

lemma length_to_string_bound: "n < 10 ^ k \<Longrightarrow> 0 < k \<Longrightarrow> length (to_string n) \<le> k"
proof (induction k arbitrary: n)
  case (Suc k)
  show ?case
  proof (cases "n < 10")
    case True
    then show ?thesis by (simp add: to_string.simps [of n])
  next
    case False
    then have "0 < k" using Suc.prems by (cases k) auto
    moreover from Suc.prems have "n div 10 < 10 ^ k" by (auto simp: div_less_iff_less_mult mult.commute)
    ultimately show ?thesis using False Suc.IH by (simp add: to_string.simps [of n])
  qed
qed simp

lemma c_str_id: "CHR 0x00 \<notin> set s \<Longrightarrow> c_str s = s"
  unfolding c_str_def by (simp add: takeWhile_eq_all_conv) metis

lemma substr_ok [simp]: "pos \<le> length s \<Longrightarrow> substr s pos n = Inr (take n (drop pos s))"
  by (simp add: substr_def)

lemma substr_0: "substr s 0 n = Inr (take n s)"
  by simp

lemma substr_to_end_ok [simp]: "pos \<le> length s \<Longrightarrow> substr_to_end s pos = Inr (drop pos s)"
  by (simp add: substr_to_end_def)

lemma iter_range_nat:
  "a \<le> b \<Longrightarrow> b \<le> length s \<Longrightarrow> iter_range s (int a) (int b) = Inr (take (b - a) (drop a s))"
  by (simp add: iter_range_def nat_diff_distrib)

end
