(* ===== verification/Http_Data.thy ===== *)
theory Http_Data
  imports Flash_Prelude
begin

text \<open>
  The data of one HTTP connection, \<^verbatim>\<open>src/Server/Http.h\<close>: the enumerations with the source's
  constructors and the members of class \<open>Http\<close> as a record (\<open>eventloop_\<close> is the reactor the
  object lives in; other objects are referred to by their identity, a number).
\<close>

datatype HttpVersion = HTTP_10 | HTTP_11

datatype ProcessState =
  STATE_PARSE_URI | STATE_PARSE_HEADER | STATE_PARSE_BODY | STATE_PROCESS | STATE_FINISH

datatype ParseURIState = PARSE_URI_AGAIN | PARSE_URI_ERROR | PARSE_URI_SUCCESS

datatype ParseHeaderState = PARSE_HEADER_AGAIN | PARSE_HEADER_SUCCESS | PARSE_HEADER_ERROR

datatype HeaderLineState =
  H_START | H_KEY | H_COLON | H_SPACES_AFTER_COLON | H_VALUE | H_CR | H_LF | H_END_CR | H_END_LF

datatype ProcessRequestState = ProcessSuccess | ProcessError

datatype ConnectionState = CONNECTED | DISCONNECTING | DISCONNECTED

datatype HttpMethod = METHOD_GET | METHOD_POST

text \<open>
  \<open>method_\<close> has no initialiser in the constructor, so a new object has none. \<open>timer_\<close> is a weak
  pointer: the identity of a timer node that may be gone.
\<close>

record Http =
  channel :: nat
  sock_fd :: int
  read_buffer :: string
  write_buffer :: string
  http_method :: "HttpMethod option"
  file_path :: string
  http_version :: HttpVersion
  header_kv :: "string \<Rightarrow> string option"
  header_line_state :: HeaderLineState
  keep_alive :: bool
  process_state :: ProcessState
  connectionState :: ConnectionState
  has_error :: bool
  timer :: "nat option"

definition new_Http :: "nat \<Rightarrow> int \<Rightarrow> bool \<Rightarrow> Http" where
  "new_Http c fd alive =
     \<lparr>channel = c, sock_fd = fd, read_buffer = [], write_buffer = [], http_method = None,
      file_path = [], http_version = HTTP_11, header_kv = Map.empty,
      header_line_state = H_START, keep_alive = alive, process_state = STATE_PARSE_URI,
      connectionState = CONNECTED, has_error = False, timer = None\<rparr>"

section \<open>The order of the processing states\<close>

text \<open>
  The enumerators are numbered in the order a request passes through them; comparing the states
  is comparing those numbers.
\<close>

fun process_code :: "ProcessState \<Rightarrow> nat" where
  "process_code STATE_PARSE_URI = 1"
| "process_code STATE_PARSE_HEADER = 2"
| "process_code STATE_PARSE_BODY = 3"
| "process_code STATE_PROCESS = 4"
| "process_code STATE_FINISH = 5"

lemma process_code_inj: "process_code s = process_code t \<Longrightarrow> s = t"
  by (cases s; cases t) simp_all

instantiation ProcessState :: linorder
begin

definition less_eq_ProcessState :: "ProcessState \<Rightarrow> ProcessState \<Rightarrow> bool" where
  "less_eq_ProcessState s t \<longleftrightarrow> process_code s \<le> process_code t"

definition less_ProcessState :: "ProcessState \<Rightarrow> ProcessState \<Rightarrow> bool" where
  "less_ProcessState s t \<longleftrightarrow> process_code s < process_code t"

instance
  by standard (auto simp: less_eq_ProcessState_def less_ProcessState_def process_code_inj)

end

lemma ProcessState_le_iff [simp]:
  "STATE_PARSE_URI \<le> s"
  "s \<le> STATE_FINISH"
  "STATE_PARSE_HEADER \<le> STATE_PARSE_BODY" "STATE_PARSE_HEADER \<le> STATE_PROCESS"
  by (cases s; simp add: less_eq_ProcessState_def)+

end
