(* ===== verification/SocketIO.thy ===== *)
theory SocketIO
  imports Flash_Prelude
begin

text \<open>
  \<^verbatim>\<open>src/Utils/Utils.cpp\<close>: the read and write loops over a non-blocking descriptor and
  the set-up of the listening socket. The kernel is the environment: the results its calls
  will give are scripts held in the state (\<open>rd_script\<close>, \<open>wr_script\<close>) or arguments, over which
  the lemmas quantify. A socket whose script is used up has nothing more to report and answers
  \<open>EAGAIN\<close>, as a non-blocking descriptor does. \<open>sent\<close> holds the bytes the kernel has accepted.
\<close>

section \<open>System calls as data\<close>

datatype errno = EAGAIN | EINTR | EOTHER nat

text \<open>One \<open>read\<close>: the bytes it stored (none at end of file), or its \<open>errno\<close>.\<close>

datatype read_res = ReadOk string | ReadFail errno

text \<open>One \<open>write\<close>: the number of bytes it took (at most those offered), or its \<open>errno\<close>.\<close>

datatype write_res = WroteOk nat | WriteFail errno

record sock =
  rd_script :: "read_res list"
  wr_script :: "write_res list"
  sent :: string

definition MAX_BUF_SIZE :: nat where
  "MAX_BUF_SIZE = 4 * 1024"

section \<open>\<open>ReadFromFd\<close>\<close>

text \<open>
  The \<open>while(true)\<close> loop: the result is the value returned, the buffer, whether \<open>zero\<close> was set
  and the calls left.
\<close>

fun ReadFromFd_loop :: "read_res list \<Rightarrow> string \<Rightarrow> int \<Rightarrow> int \<times> string \<times> bool \<times> read_res list" where
  "ReadFromFd_loop [] in_buffer read_size = (read_size, in_buffer, False, [])"
| "ReadFromFd_loop (ReadFail e # rs) in_buffer read_size =
     (case e of
        EAGAIN \<Rightarrow> (read_size, in_buffer, False, rs)
      | EINTR \<Rightarrow> ReadFromFd_loop rs in_buffer read_size
      | EOTHER _ \<Rightarrow> (-1, in_buffer, False, rs))"
| "ReadFromFd_loop (ReadOk d # rs) in_buffer read_size =
     (if d = [] then (read_size, in_buffer, True, rs)
      else ReadFromFd_loop rs (in_buffer @ d) (read_size + int (length d)))"

definition ReadFromFd :: "sock \<Rightarrow> string \<Rightarrow> int \<times> string \<times> bool \<times> sock" where
  "ReadFromFd s in_buffer =
     (let (n, b, zero, rs) = ReadFromFd_loop (rd_script s) in_buffer 0
      in (n, b, zero, s\<lparr>rd_script := rs\<rparr>))"

subsection \<open>What the loop delivers\<close>

text \<open>
  The declarative reading: the calls up to the first one that ends the loop, and what they
  carried.
\<close>

fun continues :: "read_res \<Rightarrow> bool" where
  "continues (ReadOk d) = (d \<noteq> [])"
| "continues (ReadFail e) = (e = EINTR)"

fun payload :: "read_res \<Rightarrow> string" where
  "payload (ReadOk d) = d"
| "payload (ReadFail e) = []"

definition delivered :: "read_res list \<Rightarrow> string" where
  "delivered rs = concat (map payload (takeWhile continues rs))"

fun hard_error :: "read_res list \<Rightarrow> bool" where
  "hard_error (ReadFail (EOTHER _) # _) = True"
| "hard_error _ = False"

fun at_eof :: "read_res list \<Rightarrow> bool" where
  "at_eof (ReadOk [] # _) = True"
| "at_eof _ = False"

lemma ReadFromFd_loop_spec:
  "ReadFromFd_loop rs b n =
     (let stop = dropWhile continues rs in
      (if hard_error stop then -1 else n + int (length (delivered rs)),
       b @ delivered rs, at_eof stop, drop 1 stop))"
proof (induction rs b n rule: ReadFromFd_loop.induct)
  case (2 e rs b n)
  then show ?case by (cases e) (simp_all add: delivered_def Let_def)
next
  case (3 d rs b n)
  then show ?case by (cases d) (auto simp: delivered_def Let_def)
qed (simp add: delivered_def)

lemma ReadFromFd_spec:
  "ReadFromFd s b =
     (let stop = dropWhile continues (rd_script s) in
      (if hard_error stop then -1 else int (length (delivered (rd_script s))),
       b @ delivered (rd_script s), at_eof stop, s\<lparr>rd_script := drop 1 stop\<rparr>))"
  by (simp add: ReadFromFd_def ReadFromFd_loop_spec Let_def)

text \<open>A batch of results that go on, up to the call that finds nothing more.\<close>

lemma delivered_batch:
  assumes "list_all continues rs"
  shows "delivered (rs @ ReadFail EAGAIN # later) = delivered rs"
    "dropWhile continues (rs @ ReadFail EAGAIN # later) = ReadFail EAGAIN # later"
proof -
  have c: "takeWhile continues rs = rs" "\<forall>r\<in>set rs. continues r"
    using assms by (simp_all add: takeWhile_eq_all_conv list_all_iff)
  show "delivered (rs @ ReadFail EAGAIN # later) = delivered rs" using c(2) by (simp add: delivered_def takeWhile_append c(1))
  show "dropWhile continues (rs @ ReadFail EAGAIN # later) = ReadFail EAGAIN # later"
    using c(2) by (simp add: dropWhile_append2)
qed

lemma ReadFromFd_batch:
  assumes "rd_script s = rs @ ReadFail EAGAIN # later" "list_all continues rs"
  shows "ReadFromFd s b = (int (length (delivered rs)), b @ delivered rs, False, s\<lparr>rd_script := later\<rparr>)"
  using delivered_batch [OF assms(2)] assms(1) by (simp add: ReadFromFd_spec)

text \<open>Bytes still to be read: what bounds the work of the handlers above.\<close>

definition rd_bytes :: "sock \<Rightarrow> nat" where
  "rd_bytes s = length (concat (map payload (rd_script s)))"

lemma rd_bytes_split:
  "length (delivered rs) + length (concat (map payload (drop 1 (dropWhile continues rs))))
     \<le> length (concat (map payload rs))"
proof -
  have "concat (map payload rs) =
      delivered rs @ concat (map payload (dropWhile continues rs))"
    by (metis concat_append delivered_def map_append takeWhile_dropWhile_id)
  moreover have "length (concat (map payload (drop 1 xs))) \<le> length (concat (map payload xs))" for xs
    by (cases xs) auto
  ultimately show ?thesis by simp
qed

lemma ReadFromFd_bytes:
  "ReadFromFd s b = (n, b', zero, s') \<Longrightarrow> length b' + rd_bytes s' \<le> length b + rd_bytes s"
  using rd_bytes_split [of "rd_script s"]
  by (auto simp: ReadFromFd_spec rd_bytes_def Let_def)

lemma ReadFromFd_frame:
  "ReadFromFd s b = (n, b', zero, s') \<Longrightarrow> sent s' = sent s \<and> wr_script s' = wr_script s"
  by (auto simp: ReadFromFd_spec Let_def)

section \<open>\<open>WriteToFd\<close> on a string\<close>

text \<open>
  The loop over the unwritten suffix \<open>ptr\<close>. It ends by falling out of the loop (\<open>True\<close>) or by
  the early \<open>return -1\<close> (\<open>False\<close>).
\<close>

fun WriteStr_loop ::
  "write_res list \<Rightarrow> string \<Rightarrow> nat \<Rightarrow> string \<Rightarrow> bool \<times> nat \<times> string \<times> write_res list" where
  "WriteStr_loop ws [] writen_sum out = (True, writen_sum, out, ws)"
| "WriteStr_loop [] (c # ptr) writen_sum out = (True, writen_sum, out, [])"
| "WriteStr_loop (WriteFail e # ws) (c # ptr) writen_sum out =
     (case e of
        EINTR \<Rightarrow> WriteStr_loop ws (c # ptr) writen_sum out
      | EAGAIN \<Rightarrow> (True, writen_sum, out, ws)
      | EOTHER _ \<Rightarrow> (False, writen_sum, out, ws))"
| "WriteStr_loop (WroteOk k # ws) (c # ptr) writen_sum out =
     (let writen = min k (length (c # ptr)) in
      if writen = 0 then (True, writen_sum, out, ws)
      else WriteStr_loop ws (drop writen (c # ptr)) (writen_sum + writen)
             (out @ take writen (c # ptr)))"

definition WriteToFd_str :: "sock \<Rightarrow> string \<Rightarrow> int \<times> string \<times> sock" where
  "WriteToFd_str s out_buffer =
     (let (ok, writen_sum, out, ws) = WriteStr_loop (wr_script s) out_buffer 0 [];
          s' = s\<lparr>wr_script := ws, sent := sent s @ out\<rparr>
      in if ok then (int writen_sum, drop writen_sum out_buffer, s') else (-1, out_buffer, s'))"

text \<open>A \<open>write\<close> that took \<open>m\<close> bytes, then a loop that took \<open>p\<close>, took a prefix together.\<close>

lemma take_append_split: "drop m xs = p @ q \<Longrightarrow> xs = (take m xs @ p) @ q"
  by (metis append.assoc append_take_drop_id)

lemma WriteStr_loop_split:
  "WriteStr_loop ws ptr n out = (ok, n', out', ws') \<Longrightarrow>
     \<exists>p q. ptr = p @ q \<and> out' = out @ p \<and> n' = n + length p"
proof (induction ws ptr n out arbitrary: ok n' out' ws' rule: WriteStr_loop.induct)
  case (3 e ws c ptr n out)
  then show ?case by (cases e) auto
next
  case (4 k ws c ptr n out)
  show ?case
  proof (cases "min k (length (c # ptr)) = 0")
    case True
    with "4.prems" show ?thesis by auto
  next
    case False
    let ?m = "min k (length (c # ptr))"
    from "4.prems" False have "WriteStr_loop ws (drop ?m (c # ptr)) (n + ?m)
        (out @ take ?m (c # ptr)) = (ok, n', out', ws')"
      by (simp only: WriteStr_loop.simps Let_def if_False)
    from "4.IH" [OF refl False this] obtain p q where
      "drop ?m (c # ptr) = p @ q" "out' = (out @ take ?m (c # ptr)) @ p"
      "n' = n + ?m + length p" by blast
    then show ?thesis using take_append_split [of ?m "c # ptr" p q]
      by (intro exI [of _ "take ?m (c # ptr) @ p"] exI [of _ q] conjI) auto
  qed
qed auto

text \<open>
  The contract of the call, in both its outcomes: without an error the bytes sent and the bytes
  kept are together the buffer, in order; after a hard error the buffer still holds everything,
  also the prefix that had been sent.
\<close>

lemma WriteToFd_str_cases:
  assumes "WriteToFd_str s b = (r, b', s')"
  obtains p q where "b = p @ q" "r = int (length p)" "b' = q" "sent s' = sent s @ p"
    "rd_script s' = rd_script s"
  | p q where "b = p @ q" "r = -1" "b' = b" "sent s' = sent s @ p" "rd_script s' = rd_script s"
proof -
  obtain ok n out ws where l: "WriteStr_loop (wr_script s) b 0 [] = (ok, n, out, ws)"
    by (metis prod_cases4)
  from WriteStr_loop_split [OF l] obtain p q where pq: "b = p @ q" "out = p" "n = length p"
    by auto
  show thesis
  proof (cases ok)
    case True
    with l assms pq have "r = int (length p)" "b' = q" "sent s' = sent s @ p"
      "rd_script s' = rd_script s" by (auto simp: WriteToFd_str_def)
    with pq show thesis by (intro that(1))
  next
    case False
    with l assms pq have "r = -1" "b' = b" "sent s' = sent s @ p"
      "rd_script s' = rd_script s" by (auto simp: WriteToFd_str_def)
    with pq show thesis by (intro that(2))
  qed
qed

lemma WriteToFd_str_frame:
  "WriteToFd_str s b = (r, b', s') \<Longrightarrow> rd_script s' = rd_script s"
  by (erule WriteToFd_str_cases) auto

lemma WriteToFd_str_rd_bytes [frame_simps]:
  "WriteToFd_str s b = (r, b', s') \<Longrightarrow> rd_bytes s' = rd_bytes s"
  by (simp add: rd_bytes_def WriteToFd_str_frame)

lemma WriteToFd_str_length: "WriteToFd_str s b = (r, b', s') \<Longrightarrow> length b' \<le> length b"
  by (erule WriteToFd_str_cases) auto

text \<open>On a writable socket, one that takes everything at once, the buffer empties.\<close>

lemma WriteToFd_str_all:
  assumes "wr_script s = WroteOk k # ws" "length b \<le> k" "b \<noteq> []"
  shows "WriteToFd_str s b = (int (length b), [], s\<lparr>wr_script := ws, sent := sent s @ b\<rparr>)"
  using assms by (cases b) (simp_all add: WriteToFd_str_def min_def)

lemma WriteToFd_str_Nil [simp]: "WriteToFd_str s [] = (0, [], s)"
  by (simp add: WriteToFd_str_def)

section \<open>\<open>WriteToFd\<close> on a raw buffer\<close>

text \<open>
  The other overload, which the error pages and the wake-up use. A \<open>write\<close> that takes nothing
  falls through to the end of the loop body and is tried again.
\<close>

fun WriteBuf_loop ::
  "write_res list \<Rightarrow> string \<Rightarrow> nat \<Rightarrow> string \<Rightarrow> int \<times> string \<times> write_res list" where
  "WriteBuf_loop ws [] writeSum out = (int writeSum, out, ws)"
| "WriteBuf_loop [] (c # ptr) writeSum out = (int writeSum, out, [])"
| "WriteBuf_loop (WriteFail e # ws) (c # ptr) writeSum out =
     (case e of
        EINTR \<Rightarrow> WriteBuf_loop ws (c # ptr) writeSum out
      | EAGAIN \<Rightarrow> (int writeSum, out, ws)
      | EOTHER _ \<Rightarrow> (-1, out, ws))"
| "WriteBuf_loop (WroteOk k # ws) (c # ptr) writeSum out =
     (let nwritten = min k (length (c # ptr)) in
      WriteBuf_loop ws (drop nwritten (c # ptr)) (writeSum + nwritten)
        (out @ take nwritten (c # ptr)))"

definition WriteToFd_buf :: "sock \<Rightarrow> string \<Rightarrow> int \<times> sock" where
  "WriteToFd_buf s buff =
     (let (r, out, ws) = WriteBuf_loop (wr_script s) buff 0 []
      in (r, s\<lparr>wr_script := ws, sent := sent s @ out\<rparr>))"

lemma WriteBuf_loop_split:
  "WriteBuf_loop ws ptr n out = (r, out', ws') \<Longrightarrow>
     \<exists>p q. ptr = p @ q \<and> out' = out @ p \<and> (r = -1 \<or> r = int (n + length p))"
proof (induction ws ptr n out arbitrary: r out' ws' rule: WriteBuf_loop.induct)
  case (3 e ws c ptr n out)
  then show ?case by (cases e) auto
next
  case (4 k ws c ptr n out)
  let ?m = "min k (length (c # ptr))"
  from "4.prems" have "WriteBuf_loop ws (drop ?m (c # ptr)) (n + ?m)
      (out @ take ?m (c # ptr)) = (r, out', ws')"
    by (simp only: WriteBuf_loop.simps Let_def)
  from "4.IH" [OF refl this] obtain p q where
    "drop ?m (c # ptr) = p @ q" "out' = (out @ take ?m (c # ptr)) @ p"
    "r = -1 \<or> r = int (n + ?m + length p)" by blast
  then show ?case using take_append_split [of ?m "c # ptr" p q]
    by (intro exI [of _ "take ?m (c # ptr) @ p"] exI [of _ q] conjI) auto
qed auto

lemma WriteToFd_buf_split:
  assumes "WriteToFd_buf s b = (r, s')"
  obtains p q where "b = p @ q" "sent s' = sent s @ p" "r = -1 \<or> r = int (length p)"
    "rd_script s' = rd_script s"
proof -
  obtain r' out ws where l: "WriteBuf_loop (wr_script s) b 0 [] = (r', out, ws)"
    by (metis prod_cases3)
  from WriteBuf_loop_split [OF l] obtain p q where "b = p @ q" "out = p"
    "r' = -1 \<or> r' = int (length p)" by auto
  moreover from l assms have "r' = r" "sent s' = sent s @ out" "rd_script s' = rd_script s"
    by (auto simp: WriteToFd_buf_def)
  ultimately show thesis by (intro that) auto
qed

lemma WriteToFd_buf_rd_bytes [frame_simps]:
  "WriteToFd_buf s b = (r, s') \<Longrightarrow> rd_bytes s' = rd_bytes s"
  by (auto elim: WriteToFd_buf_split simp: rd_bytes_def)

lemma WriteToFd_buf_all:
  assumes "wr_script s = WroteOk k # ws" "length b \<le> k" "b \<noteq> []"
  shows "WriteToFd_buf s b = (int (length b), s\<lparr>wr_script := ws, sent := sent s @ b\<rparr>)"
  using assms by (cases b) (simp_all add: WriteToFd_buf_def min_def)

section \<open>The contract of an output stream\<close>

text \<open>
  What the response path needs of a string writer: nothing is lost, duplicated or reordered
  unless the call reports an error.
\<close>

locale output_stream =
  fixes wr :: "'s \<Rightarrow> string \<Rightarrow> int \<times> string \<times> 's"
    and out :: "'s \<Rightarrow> string"
  assumes accepted: "wr s b = (r, b', s') \<Longrightarrow> r \<noteq> -1 \<Longrightarrow> \<exists>p. b = p @ b' \<and> out s' = out s @ p"
    and failed: "wr s b = (-1, b', s') \<Longrightarrow> b' = b \<and> (\<exists>p q. b = p @ q \<and> out s' = out s @ p)"
begin

lemma conserve: "wr s b = (r, b', s') \<Longrightarrow> r \<noteq> -1 \<Longrightarrow> out s' @ b' = out s @ b"
  by (drule (1) accepted) auto

lemma grows: "wr s b = (r, b', s') \<Longrightarrow> \<exists>p q. b = p @ q \<and> out s' = out s @ p"
  by (cases "r = -1") (auto dest: accepted failed)

text \<open>Calling the writer again and again with what it left over.\<close>

fun retry :: "nat \<Rightarrow> 's \<Rightarrow> string \<Rightarrow> bool \<times> string \<times> 's" where
  "retry 0 s b = (True, b, s)"
| "retry (Suc n) s b =
     (let (r, b', s') = wr s b in
      let (ok, b'', s'') = retry n s' b' in (r \<noteq> -1 \<and> ok, b'', s''))"

lemma retry_conserve: "retry n s b = (True, b', s') \<Longrightarrow> out s' @ b' = out s @ b"
proof (induction n arbitrary: s b)
  case (Suc n)
  obtain r c t where w: "wr s b = (r, c, t)" by (metis prod_cases3)
  with Suc.prems have "retry n t c = (True, b', s')" "r \<noteq> -1"
    by (auto simp: Let_def split: prod.splits)
  with Suc.IH conserve [OF w] show ?case by metis
qed simp

end

interpretation sockout: output_stream WriteToFd_str sent
proof unfold_locales
  fix s b r b' s'
  assume "WriteToFd_str s b = (r, b', s')" "r \<noteq> -1"
  then show "\<exists>p. b = p @ b' \<and> sent s' = sent s @ p" by (auto elim!: WriteToFd_str_cases)
next
  fix s b b' s'
  assume "WriteToFd_str s b = (-1, b', s')"
  then show "b' = b \<and> (\<exists>p q. b = p @ q \<and> sent s' = sent s @ p)"
    by (auto elim!: WriteToFd_str_cases)
qed

section \<open>Properties\<close>

text \<open>
  \<open>ReadFromFd\<close> appends to the buffer exactly the bytes the reads delivered before the first
  one that stops the loop; an interrupted read does not stop it, an end of stream sets \<open>zero\<close>,
  and an error other than \<open>EAGAIN\<close> is the result -1 with the bytes already appended.
\<close>

theorem ReadFromFd_delivers:
  "ReadFromFd s b =
     (let stop = dropWhile continues (rd_script s); got = delivered (rd_script s) in
      (if hard_error stop then -1 else int (length got), b @ got, at_eof stop,
       s\<lparr>rd_script := drop 1 stop\<rparr>))"
  by (simp add: ReadFromFd_spec Let_def)

text \<open>
  A call of \<open>WriteToFd\<close> on a string that does not report an error neither loses nor
  duplicates nor reorders a byte: what was sent and what is kept are together what was to be
  sent, and the result is the number of bytes taken.
\<close>

theorem WriteToFd_conserves:
  assumes "WriteToFd_str s b = (r, b', s')" "r \<noteq> -1"
  shows "sent s' @ b' = sent s @ b \<and> r = int (length b) - int (length b')"
  using assms(1)
proof (cases rule: WriteToFd_str_cases)
  case (2 p q)
  with assms(2) show ?thesis by simp
qed simp

lemma WriteToFd_conserves_witness:
  "let s = \<lparr>rd_script = [], wr_script = [WroteOk 2, WriteFail EINTR, WriteFail EAGAIN], sent = ''x''\<rparr>
   in sent (s\<lparr>wr_script := [], sent := ''xab''\<rparr>) @ ''c'' = sent s @ ''abc'' \<and>
      (2::int) = int (length ''abc'') - int (length ''c'')"
  using WriteToFd_conserves [of
    "\<lparr>rd_script = [], wr_script = [WroteOk 2, WriteFail EINTR, WriteFail EAGAIN], sent = ''x''\<rparr>"
    "''abc''" 2 "''c''" "\<lparr>rd_script = [], wr_script = [], sent = ''xab''\<rparr>"]
  by (simp add: WriteToFd_str_def)

end
