(* ===== verification/Channel.thy ===== *)
theory Channel
  imports Flash_Prelude
begin

unbundle bit_operations_syntax

text \<open>
  \<^verbatim>\<open>src/Server/Channel.h\<close> and \<^verbatim>\<open>src/Server/Channel.cpp\<close>: a channel watches one descriptor and
  dispatches the events \<open>epoll\<close> reports for it to its callbacks. The type of a bound callback is a
  parameter (\<open>'cb\<close>); running one is the argument \<open>run\<close> of the handlers. The holder is a weak
  pointer, here the identity of the object it points to, which may be gone.
\<close>

section \<open>Event masks\<close>

type_synonym events = "32 word"

definition EPOLLIN :: events where "EPOLLIN = 0x001"
definition EPOLLPRI :: events where "EPOLLPRI = 0x002"
definition EPOLLOUT :: events where "EPOLLOUT = 0x004"
definition EPOLLERR :: events where "EPOLLERR = 0x008"
definition EPOLLHUP :: events where "EPOLLHUP = 0x010"
definition EPOLLRDHUP :: events where "EPOLLRDHUP = 0x2000"
definition EPOLLET :: events where "EPOLLET = 0x80000000"

lemmas event_defs = EPOLLIN_def EPOLLPRI_def EPOLLOUT_def EPOLLERR_def EPOLLHUP_def
  EPOLLRDHUP_def EPOLLET_def

text \<open>The C condition \<^verbatim>\<open>events & mask\<close>.\<close>

definition has_event :: "events \<Rightarrow> events \<Rightarrow> bool" where
  "has_event ev bits \<longleftrightarrow> ev AND bits \<noteq> 0"

lemma event_masks [simp]:
  "has_event 0 m = False"
  "has_event (EPOLLOUT OR EPOLLET) EPOLLOUT" "\<not> has_event (EPOLLOUT OR EPOLLET) EPOLLIN"
  "has_event (EPOLLIN OR EPOLLET) EPOLLIN" "\<not> has_event (EPOLLIN OR EPOLLET) EPOLLOUT"
  "has_event EPOLLIN EPOLLIN" "\<not> has_event EPOLLIN EPOLLOUT"
  "has_event EPOLLOUT EPOLLOUT" "\<not> has_event EPOLLOUT EPOLLIN"
  "\<not> has_event EPOLLIN EPOLLERR" "\<not> has_event EPOLLOUT EPOLLERR"
  "\<not> has_event EPOLLIN EPOLLHUP" "\<not> has_event EPOLLOUT EPOLLHUP"
  "EPOLLIN \<noteq> 0" "EPOLLOUT \<noteq> 0" "EPOLLET \<noteq> 0"
  by (simp_all add: has_event_def event_defs)

lemma has_event_or [simp]: "has_event (a OR b) m \<longleftrightarrow> has_event a m \<or> has_event b m"
  by (simp add: has_event_def word_ao_dist or_eq_0_iff)

section \<open>The channel\<close>

text \<open>\<open>active_events_\<close> is not initialised by the constructor.\<close>

record 'cb Channel =
  chan_fd :: int
  holder :: "nat option"
  active_events :: "events option"
  to_listen_events :: events
  read_callback :: "'cb option"
  write_callback :: "'cb option"
  error_callback :: "'cb option"
  conn_callback :: "'cb option"

definition new_Channel :: "int \<Rightarrow> 'cb Channel" where
  "new_Channel fd =
     \<lparr>chan_fd = fd, holder = None, active_events = None, to_listen_events = 0,
      read_callback = None, write_callback = None, error_callback = None, conn_callback = None\<rparr>"

definition Getfd :: "'cb Channel \<Rightarrow> int" where "Getfd ch = chan_fd ch"

definition Setfd :: "int \<Rightarrow> 'cb Channel \<Rightarrow> 'cb Channel" where
  "Setfd fd ch = ch\<lparr>chan_fd := fd\<rparr>"

definition GetToListenEvents :: "'cb Channel \<Rightarrow> events" where
  "GetToListenEvents ch = to_listen_events ch"

definition SetToListenEvents :: "events \<Rightarrow> 'cb Channel \<Rightarrow> 'cb Channel" where
  "SetToListenEvents new_events ch = ch\<lparr>to_listen_events := new_events\<rparr>"

definition SetActiveEvents :: "events \<Rightarrow> 'cb Channel \<Rightarrow> 'cb Channel" where
  "SetActiveEvents ev ch = ch\<lparr>active_events := Some ev\<rparr>"

definition SetReadCallback :: "'cb \<Rightarrow> 'cb Channel \<Rightarrow> 'cb Channel" where
  "SetReadCallback cb ch = ch\<lparr>read_callback := Some cb\<rparr>"

definition SetWriteCallback :: "'cb \<Rightarrow> 'cb Channel \<Rightarrow> 'cb Channel" where
  "SetWriteCallback cb ch = ch\<lparr>write_callback := Some cb\<rparr>"

definition SetErrorCallback :: "'cb \<Rightarrow> 'cb Channel \<Rightarrow> 'cb Channel" where
  "SetErrorCallback cb ch = ch\<lparr>error_callback := Some cb\<rparr>"

definition SetConnCallback :: "'cb \<Rightarrow> 'cb Channel \<Rightarrow> 'cb Channel" where
  "SetConnCallback cb ch = ch\<lparr>conn_callback := Some cb\<rparr>"

definition SetHolder :: "nat \<Rightarrow> 'cb Channel \<Rightarrow> 'cb Channel" where
  "SetHolder h ch = ch\<lparr>holder := Some h\<rparr>"

text \<open>\<open>lock()\<close> on the weak pointer: the object if it is still there.\<close>

definition GetHolder :: "(nat \<Rightarrow> 'a option) \<Rightarrow> 'cb Channel \<Rightarrow> nat option" where
  "GetHolder objects ch =
     (case holder ch of None \<Rightarrow> None | Some h \<Rightarrow> if objects h = None then None else Some h)"

lemmas channel_defs [simp] = Getfd_def Setfd_def GetToListenEvents_def SetToListenEvents_def
  SetActiveEvents_def SetReadCallback_def SetWriteCallback_def SetErrorCallback_def
  SetConnCallback_def SetHolder_def

section \<open>Dispatching events\<close>

definition call :: "('cb \<Rightarrow> 'w \<Rightarrow> 'w result) \<Rightarrow> 'cb option \<Rightarrow> 'w \<Rightarrow> 'w result" where
  "call run cb w = (case cb of None \<Rightarrow> Inr w | Some f \<Rightarrow> run f w)"

definition Channel_HandleRead :: "('cb \<Rightarrow> 'w \<Rightarrow> 'w result) \<Rightarrow> 'cb Channel \<Rightarrow> 'w \<Rightarrow> 'w result" where
  "Channel_HandleRead run ch = call run (read_callback ch)"

definition Channel_HandleWrite :: "('cb \<Rightarrow> 'w \<Rightarrow> 'w result) \<Rightarrow> 'cb Channel \<Rightarrow> 'w \<Rightarrow> 'w result" where
  "Channel_HandleWrite run ch = call run (write_callback ch)"

definition Channel_HandleError :: "('cb \<Rightarrow> 'w \<Rightarrow> 'w result) \<Rightarrow> 'cb Channel \<Rightarrow> 'w \<Rightarrow> 'w result" where
  "Channel_HandleError run ch = call run (error_callback ch)"

definition Channel_HandleConn :: "('cb \<Rightarrow> 'w \<Rightarrow> 'w result) \<Rightarrow> 'cb Channel \<Rightarrow> 'w \<Rightarrow> 'w result" where
  "Channel_HandleConn run ch = call run (conn_callback ch)"

text \<open>
  The callbacks of a channel are set before it is registered and its active events by the poller,
  so one look at the channel serves the whole dispatch.
\<close>

definition HandleEvents :: "('cb \<Rightarrow> 'w \<Rightarrow> 'w result) \<Rightarrow> 'cb Channel \<Rightarrow> 'w \<Rightarrow> 'w result" where
  "HandleEvents run ch w =
     (case active_events ch of
        None \<Rightarrow> Inl UninitialisedRead
      | Some ev \<Rightarrow>
          if has_event ev EPOLLHUP \<and> \<not> has_event ev EPOLLIN then Inr w
          else
            bindR (if has_event ev EPOLLOUT then Channel_HandleWrite run ch w else Inr w) (\<lambda>w.
            bindR (if has_event ev (EPOLLIN OR EPOLLPRI OR EPOLLRDHUP)
                   then Channel_HandleRead run ch w else Inr w) (\<lambda>w.
            bindR (if has_event ev EPOLLERR then Channel_HandleError run ch w else Inr w) (\<lambda>w.
            Channel_HandleConn run ch w))))"

text \<open>The callbacks a mask selects, in the order they run.\<close>

definition bound :: "bool \<Rightarrow> 'cb option \<Rightarrow> 'cb list" where
  "bound guard cb = (if guard then case cb of None \<Rightarrow> [] | Some f \<Rightarrow> [f] else [])"

definition selected :: "'cb Channel \<Rightarrow> events \<Rightarrow> 'cb list" where
  "selected ch ev =
     (if has_event ev EPOLLHUP \<and> \<not> has_event ev EPOLLIN then []
      else bound (has_event ev EPOLLOUT) (write_callback ch) @
        bound (has_event ev (EPOLLIN OR EPOLLPRI OR EPOLLRDHUP)) (read_callback ch) @
        bound (has_event ev EPOLLERR) (error_callback ch) @
        bound True (conn_callback ch))"

lemma forR_bound: "forR run (bound guard cb) = (if guard then call run cb else Inr)"
  by (auto simp: fun_eq_iff bound_def call_def bindR_def split: option.split sum.split)

lemma forR_append_fun: "forR run (xs @ ys) = (\<lambda>w. bindR (forR run xs w) (forR run ys))"
  by (simp add: fun_eq_iff forR_append)

lemma HandleEvents_selected:
  assumes "active_events ch = Some ev"
  shows "HandleEvents run ch w = forR run (selected ch ev) w"
  by (simp add: HandleEvents_def selected_def assms forR_append_fun forR_bound Channel_HandleRead_def
      Channel_HandleWrite_def Channel_HandleError_def Channel_HandleConn_def
      del: has_event_or if_split cong: if_cong)

section \<open>Properties\<close>

text \<open>
  \<open>HandleEvents\<close> runs the callbacks that are set, in the order write, read, error, connection:
  the first three when the active events ask for them, the last in any case; a hang-up without
  input runs nothing, not even the connection callback that would close the connection.
\<close>

theorem HandleEvents_order:
  assumes "active_events ch = Some ev"
  shows "HandleEvents run ch w = forR run
    (if has_event ev EPOLLHUP \<and> \<not> has_event ev EPOLLIN then []
     else bound (has_event ev EPOLLOUT) (write_callback ch) @
       bound (has_event ev EPOLLIN \<or> has_event ev EPOLLPRI \<or> has_event ev EPOLLRDHUP) (read_callback ch) @
       bound (has_event ev EPOLLERR) (error_callback ch) @ bound True (conn_callback ch)) w"
proof -
  have "has_event ev (EPOLLIN OR EPOLLPRI OR EPOLLRDHUP) \<longleftrightarrow>
      has_event ev EPOLLIN \<or> has_event ev EPOLLPRI \<or> has_event ev EPOLLRDHUP"
    by (simp add: has_event_def word_ao_dist2 or_eq_0_iff)
  then show ?thesis unfolding HandleEvents_selected [OF assms] selected_def by (simp only:)
qed

lemma HandleEvents_order_witness:
  "HandleEvents (\<lambda>cb w. Inr (w @ [cb]))
     \<lparr>chan_fd = 5, holder = None, active_events = Some (EPOLLIN OR EPOLLOUT), to_listen_events = 0,
      read_callback = Some ''r'', write_callback = Some ''w'', error_callback = Some ''e'',
      conn_callback = Some ''c''\<rparr> [] = Inr [''w'', ''r'', ''c'']"
  by (subst HandleEvents_order, simp, simp add: bound_def)

end
