(* ===== verification/Reactor_State.thy ===== *)
theory Reactor_State
  imports Http_Data SocketIO Channel
begin

text \<open>
  The state one event-loop thread works on: the objects on its heap and the members of its
  \<open>Epoll\<close> and \<open>TimerManager\<close>. Objects have identities (numbers); an \<open>Http\<close> object or a timer
  node that has been destroyed is not in its map any more. The \<open>shared_ptr\<close>s to \<open>Http\<close> objects are
  counted as the library counts them, and the destructor runs when the last one is dropped.
  Channels are reached through \<open>shared_ptr\<close>s that their users hold during the use, and their
  destructor only prints, so they are never taken out of their map.

  The environment is part of the state as well: the answers of the clock, the scripts of the
  sockets, and the log of the calls made to the kernel (whose results the code ignores).
\<close>

section \<open>Callbacks, timer nodes, system calls\<close>

text \<open>
  The functions the source makes into callbacks: those bound to an \<open>Http\<close> object, which is the
  argument, and the two the server sets on its listening channel.
\<close>

datatype server_callback = CB_HandleNewConn | CB_new_read

datatype Http_Callback =
  CB_HandleRead nat | CB_HandleWrite nat | CB_HandleCurrentConn nat | CB_Init nat
| CB_Server server_callback

record TimerNode =
  is_deleted :: bool
  expire_time :: nat
  node_data :: "nat option"

datatype ctl_op = EPOLL_CTL_ADD | EPOLL_CTL_MOD | EPOLL_CTL_DEL

datatype syscall = Sys_epoll_ctl ctl_op int events | Sys_close int

section \<open>The reactor\<close>

text \<open>
  \<open>fd2channel\<close> and \<open>fd2http\<close> map descriptors to pointers; \<open>Some None\<close> is an entry that holds a
  null pointer. \<open>timer_node_queue\<close> is the priority queue, the top first. A time is a pair of
  seconds and microseconds; call \<open>i\<close> of \<open>gettimeofday\<close> answers \<open>clock i\<close>.
\<close>

record reactor =
  https :: "nat \<Rightarrow> Http option"
  http_rc :: "nat \<Rightarrow> nat"
  channels :: "nat \<Rightarrow> Http_Callback Channel"
  nodes :: "nat \<Rightarrow> TimerNode option"
  next_id :: nat
  fd2channel :: "int \<Rightarrow> nat option option"
  fd2http :: "int \<Rightarrow> nat option option"
  timer_node_queue :: "nat list"
  clock :: "nat \<Rightarrow> nat \<times> nat"
  clock_reads :: nat
  socks :: "int \<Rightarrow> sock"
  sys_log :: "syscall list"

section \<open>Access to the heap\<close>

text \<open>Using a member of a destroyed \<open>Http\<close> object is a fault.\<close>

definition with_http :: "'a reactor_scheme \<Rightarrow> nat \<Rightarrow> (Http \<Rightarrow> 'b result) \<Rightarrow> 'b result" where
  "with_http w h k = (case https w h of None \<Rightarrow> Inl UseAfterFree | Some x \<Rightarrow> k x)"

definition put_http :: "nat \<Rightarrow> Http \<Rightarrow> 'a reactor_scheme \<Rightarrow> 'a reactor_scheme" where
  "put_http h x w = w\<lparr>https := (https w)(h \<mapsto> x)\<rparr>"

definition put_channel :: "nat \<Rightarrow> Http_Callback Channel \<Rightarrow> 'a reactor_scheme \<Rightarrow> 'a reactor_scheme" where
  "put_channel c ch w = w\<lparr>channels := (channels w)(c := ch)\<rparr>"

definition put_sock :: "int \<Rightarrow> sock \<Rightarrow> 'a reactor_scheme \<Rightarrow> 'a reactor_scheme" where
  "put_sock fd sk w = w\<lparr>socks := (socks w)(fd := sk)\<rparr>"

definition log_call :: "syscall \<Rightarrow> 'a reactor_scheme \<Rightarrow> 'a reactor_scheme" where
  "log_call c w = w\<lparr>sys_log := sys_log w @ [c]\<rparr>"

text \<open>Copying and dropping a \<open>shared_ptr<Http>\<close>; the last drop runs \<open>~Http\<close>, which closes the
  descriptor.\<close>

definition destroy_Http :: "nat \<Rightarrow> 'a reactor_scheme \<Rightarrow> 'a reactor_scheme" where
  "destroy_Http h w =
     (case https w h of
        None \<Rightarrow> w
      | Some x \<Rightarrow> log_call (Sys_close (sock_fd x)) (w\<lparr>https := (https w)(h := None)\<rparr>))"

definition retain :: "nat \<Rightarrow> 'a reactor_scheme \<Rightarrow> 'a reactor_scheme" where
  "retain h w = w\<lparr>http_rc := (http_rc w)(h := http_rc w h + 1)\<rparr>"

definition release :: "nat \<Rightarrow> 'a reactor_scheme \<Rightarrow> 'a reactor_scheme" where
  "release h w =
     (let w' = w\<lparr>http_rc := (http_rc w)(h := http_rc w h - 1)\<rparr>
      in if http_rc w' h = 0 then destroy_Http h w' else w')"

lemma with_http_simps [simp]:
  "https w h = Some x \<Longrightarrow> with_http w h k = k x"
  "https w h = None \<Longrightarrow> with_http w h k = Inl UseAfterFree"
  by (simp_all add: with_http_def)

lemma with_http_InrE [elim!]:
  assumes "with_http w h k = Inr y"
  obtains x where "https w h = Some x" "k x = Inr y"
  using assms by (cases "https w h") auto

lemma put_http_sel [simp]:
  "https (put_http h x w) = (https w)(h \<mapsto> x)" "http_rc (put_http h x w) = http_rc w"
  "channels (put_http h x w) = channels w" "nodes (put_http h x w) = nodes w"
  "next_id (put_http h x w) = next_id w" "fd2channel (put_http h x w) = fd2channel w"
  "fd2http (put_http h x w) = fd2http w" "timer_node_queue (put_http h x w) = timer_node_queue w"
  "clock (put_http h x w) = clock w" "clock_reads (put_http h x w) = clock_reads w"
  "socks (put_http h x w) = socks w" "sys_log (put_http h x w) = sys_log w"
  "reactor.more (put_http h x w) = reactor.more w"
  by (simp_all add: put_http_def)

lemma put_channel_sel [simp]:
  "https (put_channel c ch w) = https w" "http_rc (put_channel c ch w) = http_rc w"
  "channels (put_channel c ch w) = (channels w)(c := ch)" "nodes (put_channel c ch w) = nodes w"
  "next_id (put_channel c ch w) = next_id w" "fd2channel (put_channel c ch w) = fd2channel w"
  "fd2http (put_channel c ch w) = fd2http w"
  "timer_node_queue (put_channel c ch w) = timer_node_queue w"
  "clock (put_channel c ch w) = clock w" "clock_reads (put_channel c ch w) = clock_reads w"
  "socks (put_channel c ch w) = socks w" "sys_log (put_channel c ch w) = sys_log w"
  "reactor.more (put_channel c ch w) = reactor.more w"
  by (simp_all add: put_channel_def)

lemma put_sock_sel [simp]:
  "https (put_sock fd sk w) = https w" "http_rc (put_sock fd sk w) = http_rc w"
  "channels (put_sock fd sk w) = channels w" "nodes (put_sock fd sk w) = nodes w"
  "next_id (put_sock fd sk w) = next_id w" "fd2channel (put_sock fd sk w) = fd2channel w"
  "fd2http (put_sock fd sk w) = fd2http w"
  "timer_node_queue (put_sock fd sk w) = timer_node_queue w"
  "clock (put_sock fd sk w) = clock w" "clock_reads (put_sock fd sk w) = clock_reads w"
  "socks (put_sock fd sk w) = (socks w)(fd := sk)" "sys_log (put_sock fd sk w) = sys_log w"
  "reactor.more (put_sock fd sk w) = reactor.more w"
  by (simp_all add: put_sock_def)

lemma log_call_sel [simp]:
  "https (log_call c w) = https w" "http_rc (log_call c w) = http_rc w"
  "channels (log_call c w) = channels w" "nodes (log_call c w) = nodes w"
  "next_id (log_call c w) = next_id w" "fd2channel (log_call c w) = fd2channel w"
  "fd2http (log_call c w) = fd2http w" "timer_node_queue (log_call c w) = timer_node_queue w"
  "clock (log_call c w) = clock w" "clock_reads (log_call c w) = clock_reads w"
  "socks (log_call c w) = socks w" "sys_log (log_call c w) = sys_log w @ [c]"
  "reactor.more (log_call c w) = reactor.more w"
  by (simp_all add: log_call_def)

lemma retain_sel [simp]:
  "https (retain h w) = https w" "http_rc (retain h w) = (http_rc w)(h := Suc (http_rc w h))"
  "channels (retain h w) = channels w" "nodes (retain h w) = nodes w"
  "next_id (retain h w) = next_id w" "fd2channel (retain h w) = fd2channel w"
  "fd2http (retain h w) = fd2http w" "timer_node_queue (retain h w) = timer_node_queue w"
  "clock (retain h w) = clock w" "clock_reads (retain h w) = clock_reads w"
  "socks (retain h w) = socks w" "sys_log (retain h w) = sys_log w"
  "reactor.more (retain h w) = reactor.more w"
  by (simp_all add: retain_def)

lemma release_sel [simp]:
  "https (release h w) = (if http_rc w h \<le> 1 then (https w)(h := None) else https w)"
  "http_rc (release h w) = (http_rc w)(h := http_rc w h - 1)"
  "channels (release h w) = channels w" "nodes (release h w) = nodes w"
  "next_id (release h w) = next_id w" "fd2channel (release h w) = fd2channel w"
  "fd2http (release h w) = fd2http w" "timer_node_queue (release h w) = timer_node_queue w"
  "clock (release h w) = clock w" "clock_reads (release h w) = clock_reads w"
  "socks (release h w) = socks w"
  "sys_log (release h w) = (case https w h of
     Some x \<Rightarrow> if http_rc w h \<le> 1 then sys_log w @ [Sys_close (sock_fd x)] else sys_log w
   | None \<Rightarrow> sys_log w)"
  "reactor.more (release h w) = reactor.more w"
  by (auto simp: release_def destroy_Http_def Let_def fun_eq_iff split: option.split)

text \<open>Members read and written through the object's own channel.\<close>

definition chan_of :: "'a reactor_scheme \<Rightarrow> Http \<Rightarrow> Http_Callback Channel" where
  "chan_of w x = channels w (channel x)"

definition sock_of :: "'a reactor_scheme \<Rightarrow> Http \<Rightarrow> sock" where
  "sock_of w x = socks w (sock_fd x)"

end
