(* ===== verification/Timer.thy ===== *)
theory Timer
  imports Reactor_State "HOL-Library.Multiset"
begin

text \<open>
  \<^verbatim>\<open>src/Utils/Timer.h\<close> and \<^verbatim>\<open>src/Utils/Timer.cpp\<close>: timer nodes and the manager's priority
  queue, up to the destructor of a node, which closes a connection and is modelled with the
  connection. The contract of \<open>std::priority_queue\<close> that the manager relies on is the locale
  \<open>min_queue\<close>; the model keeps the queue as a list ordered by expiry time.
\<close>

section \<open>Time\<close>

text \<open>
  Milliseconds within a period of 1000 seconds: the source reduces the seconds modulo 1000.
\<close>

definition wrapped_ms :: "nat \<times> nat \<Rightarrow> nat" where
  "wrapped_ms now = (fst now mod 1000) * 1000 + snd now div 1000"

definition deadline :: "nat \<times> nat \<Rightarrow> int \<Rightarrow> nat" where
  "deadline now timeout = size_t (int (wrapped_ms now) + timeout)"

definition gettimeofday :: "'a reactor_scheme \<Rightarrow> (nat \<times> nat) \<times> 'a reactor_scheme" where
  "gettimeofday w = (clock w (clock_reads w), w\<lparr>clock_reads := Suc (clock_reads w)\<rparr>)"

text \<open>A proper time value has less than a million microseconds.\<close>

definition proper_time :: "nat \<times> nat \<Rightarrow> bool" where
  "proper_time now \<longleftrightarrow> snd now < 1000000"

lemma wrapped_ms_bound: "proper_time now \<Longrightarrow> wrapped_ms now < 1000000"
proof -
  assume "proper_time now"
  then have "snd now div 1000 < 1000" by (simp add: proper_time_def div_less_iff_less_mult)
  moreover have "fst now mod 1000 \<le> 999" using mod_less_divisor [of 1000 "fst now"] by linarith
  ultimately show ?thesis by (simp add: wrapped_ms_def)
qed

lemma deadline_eq:
  assumes "proper_time now" "0 \<le> timeout" "timeout < 2 ^ 31"
  shows "deadline now timeout = wrapped_ms now + nat timeout"
  using wrapped_ms_bound [OF assms(1)] assms(2,3) by (simp add: deadline_def nat_add_distrib)

section \<open>Timer nodes\<close>

definition new_TimerNode :: "nat \<Rightarrow> int \<Rightarrow> 'a reactor_scheme \<Rightarrow> nat \<times> 'a reactor_scheme" where
  "new_TimerNode h timeout w =
     (let (now, w) = gettimeofday w; n = next_id w in
      (n, retain h (w\<lparr>next_id := Suc n,
           nodes := (nodes w)(n \<mapsto> \<lparr>is_deleted = False, expire_time = deadline now timeout,
                                   node_data = Some h\<rparr>)\<rparr>)))"

definition Update :: "nat \<Rightarrow> int \<Rightarrow> 'a reactor_scheme \<Rightarrow> 'a reactor_scheme result" where
  "Update n timeout w =
     (case nodes w n of
        None \<Rightarrow> Inl UseAfterFree
      | Some t \<Rightarrow>
          let (now, w) = gettimeofday w in
          Inr (w\<lparr>nodes := (nodes w)(n \<mapsto> t\<lparr>expire_time := deadline now timeout\<rparr>)\<rparr>))"

definition SetDeleted :: "TimerNode \<Rightarrow> TimerNode" where
  "SetDeleted t = t\<lparr>is_deleted := True\<rparr>"

definition IsExpired :: "nat \<Rightarrow> 'a reactor_scheme \<Rightarrow> (bool \<times> 'a reactor_scheme) result" where
  "IsExpired n w =
     (case nodes w n of
        None \<Rightarrow> Inl UseAfterFree
      | Some t \<Rightarrow>
          let (now, w) = gettimeofday w; nowms = wrapped_ms now in
          if nowms < expire_time t then Inr (False, w)
          else Inr (True, w\<lparr>nodes := (nodes w)(n \<mapsto> SetDeleted t)\<rparr>))"

definition IsDeleted :: "nat \<Rightarrow> 'a reactor_scheme \<Rightarrow> bool result" where
  "IsDeleted n w =
     (case nodes w n of None \<Rightarrow> Inl UseAfterFree | Some t \<Rightarrow> Inr (is_deleted t))"

text \<open>\<open>data_.reset()\<close> may destroy the connection; the node itself is held by the caller.\<close>

definition ClearNode :: "nat \<Rightarrow> 'a reactor_scheme \<Rightarrow> 'a reactor_scheme result" where
  "ClearNode n w =
     (case nodes w n of
        None \<Rightarrow> Inl UseAfterFree
      | Some t \<Rightarrow>
          let w' = w\<lparr>nodes := (nodes w)(n \<mapsto> SetDeleted (t\<lparr>node_data := None\<rparr>))\<rparr>
          in Inr (case node_data t of None \<Rightarrow> w' | Some h \<Rightarrow> release h w'))"

section \<open>The priority queue\<close>

text \<open>
  What a heap ordered by a key promises its client: it holds what was pushed, its top has the
  least key, popping takes exactly the top away.
\<close>

locale min_queue =
  fixes push :: "'a \<Rightarrow> 'q \<Rightarrow> 'q"
    and top :: "'q \<Rightarrow> 'a"
    and pop :: "'q \<Rightarrow> 'q"
    and elems :: "'q \<Rightarrow> 'a multiset"
    and key :: "'a \<Rightarrow> nat"
    and wf :: "'q \<Rightarrow> bool"
  assumes push_wf: "wf q \<Longrightarrow> wf (push x q)"
    and push_elems: "wf q \<Longrightarrow> elems (push x q) = add_mset x (elems q)"
    and top_in: "wf q \<Longrightarrow> elems q \<noteq> {#} \<Longrightarrow> top q \<in># elems q"
    and top_min: "wf q \<Longrightarrow> y \<in># elems q \<Longrightarrow> key (top q) \<le> key y"
    and pop_wf: "wf q \<Longrightarrow> elems q \<noteq> {#} \<Longrightarrow> wf (pop q)"
    and pop_elems: "wf q \<Longrightarrow> elems q \<noteq> {#} \<Longrightarrow> elems (pop q) = elems q - {#top q#}"
begin

lemma none_due: "wf q \<Longrightarrow> t < key (top q) \<Longrightarrow> y \<in># elems q \<Longrightarrow> t < key y"
  using top_min order_less_le_trans by blast

text \<open>Popping while the top is due leaves exactly what is not due.\<close>

fun drain :: "nat \<Rightarrow> nat \<Rightarrow> 'q \<Rightarrow> 'q" where
  "drain 0 t q = q"
| "drain (Suc n) t q =
     (if elems q \<noteq> {#} \<and> key (top q) \<le> t then drain n t (pop q) else q)"

lemma drain_elems:
  "wf q \<Longrightarrow> size (elems q) \<le> n \<Longrightarrow> elems (drain n t q) = filter_mset (\<lambda>x. t < key x) (elems q)"
proof (induction n arbitrary: q)
  case (Suc n)
  show ?case
  proof (cases "elems q \<noteq> {#} \<and> key (top q) \<le> t")
    case True
    with Suc.prems have split: "elems q = add_mset (top q) (elems (pop q))"
      using top_in pop_elems by simp
    moreover have "wf (pop q)" using True Suc.prems pop_wf by blast
    ultimately show ?thesis using Suc True by simp
  next
    case False
    have "filter_mset (\<lambda>x. t < key x) (elems q) = elems q"
    proof (cases "elems q = {#}")
      case True
      then show ?thesis by simp
    next
      case nonempty: False
      with False have "t < key (top q)" by simp
      then show ?thesis using none_due Suc.prems by (simp add: filter_mset_eq_conv)
    qed
    with False show ?thesis by (auto simp del: filter_mset_eq_conv)
  qed
qed simp

end

definition queue_ordered :: "('a \<Rightarrow> nat) \<Rightarrow> 'a list \<Rightarrow> bool" where
  "queue_ordered key q \<longleftrightarrow> sorted (map key q)"

interpretation timerq: min_queue "insort_key key" hd tl mset key "queue_ordered key"
  for key :: "'a \<Rightarrow> nat"
proof unfold_locales
  fix q :: "'a list" and x y :: 'a
  show "queue_ordered key q \<Longrightarrow> queue_ordered key (insort_key key x q)"
    by (simp add: queue_ordered_def sorted_insort_key)
  show "mset (insort_key key x q) = add_mset x (mset q)"
    by (induction q) auto
  show "mset q \<noteq> {#} \<Longrightarrow> hd q \<in># mset q"
    by (cases q) auto
  show "queue_ordered key q \<Longrightarrow> y \<in># mset q \<Longrightarrow> key (hd q) \<le> key y"
    by (cases q) (auto simp: queue_ordered_def)
  show "queue_ordered key q \<Longrightarrow> mset q \<noteq> {#} \<Longrightarrow> queue_ordered key (tl q)"
    by (cases q) (auto simp: queue_ordered_def)
  show "mset q \<noteq> {#} \<Longrightarrow> mset (tl q) = mset q - {#hd q#}"
    by (cases q) auto
qed

text \<open>
  The comparison object \<open>TimerCmp\<close> looks at the expiry times of the nodes, so the key of a node
  identity is read from the heap. \<open>a > b\<close> makes the earliest node the top.
\<close>

definition node_key :: "(nat \<Rightarrow> TimerNode option) \<Rightarrow> nat \<Rightarrow> nat" where
  "node_key ns n = (case ns n of None \<Rightarrow> 0 | Some t \<Rightarrow> expire_time t)"

definition TimerCmp :: "TimerNode \<Rightarrow> TimerNode \<Rightarrow> bool" where
  "TimerCmp a b \<longleftrightarrow> expire_time a > expire_time b"

lemma node_key_Some [simp]: "ns n = Some t \<Longrightarrow> node_key ns n = expire_time t"
  by (simp add: node_key_def)

section \<open>Adding a timer\<close>

definition LinkTimer :: "nat \<Rightarrow> Http \<Rightarrow> Http" where
  "LinkTimer n x = x\<lparr>timer := Some n\<rparr>"

definition AddTimerNode :: "nat \<Rightarrow> int \<Rightarrow> 'a reactor_scheme \<Rightarrow> 'a reactor_scheme result" where
  "AddTimerNode h timeout w =
     (let (n, w) = new_TimerNode h timeout w;
          w = w\<lparr>timer_node_queue := insort_key (node_key (nodes w)) n (timer_node_queue w)\<rparr>
      in with_http w h (\<lambda>x. Inr (put_http h (LinkTimer n x) w)))"

section \<open>Properties\<close>

text \<open>Whole milliseconds since the epoch.\<close>

definition ms :: "nat \<times> nat \<Rightarrow> nat" where
  "ms now = fst now * 1000 + snd now div 1000"

lemma ms_split: "ms now = (fst now div 1000) * 1000000 + wrapped_ms now"
  using div_mult_mod_eq [of "fst now" 1000] unfolding ms_def wrapped_ms_def by linarith

text \<open>
  C30. Within one period of 1000 seconds a timer expires exactly when its time has passed: asked at
  \<open>now\<close>, a node made at \<open>t0\<close> answers that it is expired if and only if at least \<open>timeout\<close>
  milliseconds (of whole milliseconds) lie between; an expired node is marked as deleted.
\<close>

theorem IsExpired_exact:
  assumes "proper_time t0" "proper_time now" "fst t0 div 1000 = fst now div 1000"
    and "0 \<le> timeout" "timeout < 2 ^ 31"
    and "nodes w n = Some t" "expire_time t = deadline t0 timeout" "clock w (clock_reads w) = now"
  shows "\<exists>w'. IsExpired n w = Inr (ms t0 + nat timeout \<le> ms now, w') \<and>
    nodes w' = (nodes w)(n \<mapsto> t\<lparr>is_deleted := is_deleted t \<or> ms t0 + nat timeout \<le> ms now\<rparr>)"
proof -
  have e: "wrapped_ms now < expire_time t \<longleftrightarrow> \<not> ms t0 + nat timeout \<le> ms now"
    using deadline_eq [OF assms(1,4,5)] ms_split [of t0] ms_split [of now] assms(3,7) by auto
  show ?thesis
  proof (cases "wrapped_ms now < expire_time t")
    case True
    with e assms show ?thesis by (auto simp: IsExpired_def gettimeofday_def)
  next
    case False
    with e assms show ?thesis by (auto simp: IsExpired_def gettimeofday_def SetDeleted_def)
  qed
qed

text \<open>A heap with one timer node, for the concrete instances.\<close>

definition timer_heap :: "nat \<Rightarrow> nat \<times> nat \<Rightarrow> reactor" where
  "timer_heap e now =
     \<lparr>https = Map.empty, http_rc = (\<lambda>_. 0), channels = (\<lambda>_. new_Channel 0),
      nodes = [0 \<mapsto> \<lparr>is_deleted = False, expire_time = e, node_data = Some 1\<rparr>], next_id = 2,
      fd2channel = Map.empty, fd2http = Map.empty, timer_node_queue = [0], clock = (\<lambda>_. now),
      clock_reads = 0, socks = (\<lambda>_. \<lparr>rd_script = [], wr_script = [], sent = []\<rparr>), sys_log = []\<rparr>"

lemma IsExpired_exact_witness:
  "\<exists>w'. IsExpired 0 (timer_heap (deadline (1662, 5000) 3000) (1665, 4000)) = Inr (False, w')"
  using IsExpired_exact [of "(1662, 5000)" "(1665, 4000)" 3000
    "timer_heap (deadline (1662, 5000) 3000) (1665, 4000)" 0
    "\<lparr>is_deleted = False, expire_time = deadline (1662, 5000) 3000, node_data = Some 1\<rparr>"]
  by (auto simp: timer_heap_def proper_time_def ms_def)

text \<open>
  A timer whose deadline passes the end of the 1000-second period it is set in never expires:
  the deadline is not wrapped and no later time of day reaches it.
\<close>

theorem IsExpired_never:
  assumes "proper_time t0" "0 \<le> timeout" "timeout < 2 ^ 31"
    and "1000000 \<le> (fst t0 mod 1000) * 1000 + snd t0 div 1000 + nat timeout"
    and "nodes w n = Some t" "expire_time t = deadline t0 timeout"
    and "proper_time (clock w (clock_reads w))"
  shows "\<exists>w'. IsExpired n w = Inr (False, w') \<and> nodes w' = nodes w"
proof -
  have "wrapped_ms (clock w (clock_reads w)) < expire_time t"
    using wrapped_ms_bound [OF assms(7)] deadline_eq [OF assms(1-3)] assms(4,6)
    by (simp add: wrapped_ms_def)
  with assms(5) show ?thesis by (simp add: IsExpired_def gettimeofday_def)
qed

lemma IsExpired_never_witness:
  "\<exists>w'. IsExpired 0 (timer_heap (deadline (1999, 0) 60000) (9000000, 0)) = Inr (False, w')"
  using IsExpired_never [of "(1999, 0)" 60000 "timer_heap (deadline (1999, 0) 60000) (9000000, 0)" 0
    "\<lparr>is_deleted = False, expire_time = deadline (1999, 0) 60000, node_data = Some 1\<rparr>"]
  by (auto simp: timer_heap_def proper_time_def)

end
