(* ===== verification/Epoll.thy ===== *)
theory Epoll
  imports Timer
begin

text \<open>
  \<^verbatim>\<open>src/Server/Epoll.h\<close> and \<^verbatim>\<open>src/Server/Epoll.cpp\<close>: registration of channels with the
  kernel and with the two tables, and the poll. Results of \<open>epoll_ctl\<close> only reach \<open>perror\<close>, so
  the calls are logged; what \<open>epoll_wait\<close> returns is an argument of \<open>EpollWait\<close>.
\<close>

section \<open>Tables keyed by descriptor\<close>

text \<open>
  \<open>insert\<close> of \<open>unordered_map\<close> does nothing when the key is present; \<open>operator[]\<close> adds a null
  entry when it is not; \<open>erase\<close> answers how many entries it removed.
\<close>

definition map_insert :: "'k \<Rightarrow> 'v \<Rightarrow> ('k \<Rightarrow> 'v option) \<Rightarrow> ('k \<Rightarrow> 'v option)" where
  "map_insert k v m = (if m k = None then m(k \<mapsto> v) else m)"

definition map_index :: "'k \<Rightarrow> ('k \<Rightarrow> 'v option option) \<Rightarrow> 'v option \<times> ('k \<Rightarrow> 'v option option)" where
  "map_index k m = (case m k of Some v \<Rightarrow> (v, m) | None \<Rightarrow> (None, m(k \<mapsto> None)))"

definition map_erase :: "'k \<Rightarrow> ('k \<Rightarrow> 'v option) \<Rightarrow> nat \<times> ('k \<Rightarrow> 'v option)" where
  "map_erase k m = (if m k = None then 0 else 1, m(k := None))"

text \<open>The contract the registration code relies on.\<close>

locale fd_table =
  fixes ins :: "'k \<Rightarrow> 'v \<Rightarrow> 'm \<Rightarrow> 'm"
    and erase :: "'k \<Rightarrow> 'm \<Rightarrow> nat \<times> 'm"
    and look :: "'m \<Rightarrow> 'k \<Rightarrow> 'v option"
  assumes ins_new: "look m k = None \<Longrightarrow> look (ins k v m) = (look m)(k := Some v)"
    and ins_old: "look m k \<noteq> None \<Longrightarrow> look (ins k v m) = look m"
    and erase_count: "fst (erase k m) = (if look m k = None then 0 else 1)"
    and erase_look: "look (snd (erase k m)) = (look m)(k := None)"
begin

lemma ins_present: "look (ins k v m) k \<noteq> None"
  using ins_new ins_old by (cases "look m k") (simp_all add: fun_eq_iff)

lemma erase_after_ins: "fst (erase k (ins k v m)) = 1"
  using ins_present by (simp add: erase_count)

lemma erase_twice: "fst (erase k (snd (erase k m))) = 0"
  by (simp add: erase_count erase_look)

lemma ins_first_wins: "look (ins k v' (ins k v m)) = look (ins k v m)"
  using ins_present ins_old by blast

end

interpretation fdmap: fd_table map_insert map_erase "\<lambda>m. m"
  by unfold_locales (auto simp: map_insert_def map_erase_def)

section \<open>Registration\<close>

definition add_timer :: "nat \<Rightarrow> int \<Rightarrow> 'a reactor_scheme \<Rightarrow> 'a reactor_scheme result" where
  "add_timer c timeout w =
     (case GetHolder (https w) (channels w c) of
        None \<Rightarrow> Inr w
      | Some h \<Rightarrow> AddTimerNode h timeout w)"

definition EpollAdd :: "nat \<Rightarrow> int \<Rightarrow> 'a reactor_scheme \<Rightarrow> 'a reactor_scheme result" where
  "EpollAdd c timeout w =
     (let fd = Getfd (channels w c);
          w = log_call (Sys_epoll_ctl EPOLL_CTL_ADD fd (GetToListenEvents (channels w c))) w
      in bindR (if timeout > 0 then add_timer c timeout w else Inr w) (\<lambda>w.
         let w = w\<lparr>fd2channel := map_insert fd (Some c) (fd2channel w)\<rparr>;
             held = GetHolder (https w) (channels w c);
             fresh = fd2http w fd = None;
             w = w\<lparr>fd2http := map_insert fd held (fd2http w)\<rparr>
         in Inr (case held of Some h \<Rightarrow> if fresh then retain h w else w | None \<Rightarrow> w)))"

definition EpollModify :: "nat \<Rightarrow> int \<Rightarrow> 'a reactor_scheme \<Rightarrow> 'a reactor_scheme result" where
  "EpollModify c timeout w =
     (let fd = Getfd (channels w c);
          w = log_call (Sys_epoll_ctl EPOLL_CTL_MOD fd (GetToListenEvents (channels w c))) w
      in if timeout > 0 then add_timer c timeout w else Inr w)"

definition EpollDel :: "nat \<Rightarrow> 'a reactor_scheme \<Rightarrow> 'a reactor_scheme result" where
  "EpollDel c w =
     (let fd = Getfd (channels w c);
          w = log_call (Sys_epoll_ctl EPOLL_CTL_DEL fd (GetToListenEvents (channels w c))) w;
          (n, m) = map_erase fd (fd2channel w);
          w = w\<lparr>fd2channel := m\<rparr>
      in if n \<noteq> 1 then Inl AssertFailed
         else
           let held = fd2http w fd;
               w = w\<lparr>fd2http := snd (map_erase fd (fd2http w))\<rparr>
           in Inr (case held of Some (Some h) \<Rightarrow> release h w | _ \<Rightarrow> w))"

text \<open>Deregistration in one equation: the assertion, then both entries and the reference.\<close>

lemma EpollDel_eq:
  "EpollDel c w =
     (let fd = chan_fd (channels w c);
          v = (log_call (Sys_epoll_ctl EPOLL_CTL_DEL fd (to_listen_events (channels w c))) w)
                \<lparr>fd2channel := (fd2channel w)(fd := None), fd2http := (fd2http w)(fd := None)\<rparr>
      in if fd2channel w fd = None then Inl AssertFailed
         else Inr (case fd2http w fd of Some (Some h) \<Rightarrow> release h v | _ \<Rightarrow> v))"
  by (simp add: EpollDel_def map_erase_def Let_def)

section \<open>Polling\<close>

text \<open>
  The loop over the events \<open>epoll_wait\<close> returned (none when it failed): the channels found, in
  order, with their active events set and their wanted events cleared.
\<close>

fun EpollWait :: "(int \<times> events) list \<Rightarrow> 'a reactor_scheme \<Rightarrow> nat list \<times> 'a reactor_scheme" where
  "EpollWait [] w = ([], w)"
| "EpollWait ((fd, ev) # returned) w =
     (let (ch, m) = map_index fd (fd2channel w); w = w\<lparr>fd2channel := m\<rparr> in
      case ch of
        None \<Rightarrow> EpollWait returned w
      | Some c \<Rightarrow>
          let w = put_channel c (SetToListenEvents 0 (SetActiveEvents ev (channels w c))) w;
              (active, w) = EpollWait returned w
          in (c # active, w))"

end
