(* ===== verification/Http_URI.thy ===== *)
theory Http_URI
  imports Http_Data
begin

text \<open>
  \<open>Http::ParseURI\<close> of \<^verbatim>\<open>src/Server/Http.cpp\<close>: the request line is cut off the read buffer, then
  searched for the method, the path and the version. The three searches are definitions of their
  own, composed by \<open>ParseURI\<close>. Positions are \<open>int\<close>s obtained from \<open>size_t\<close>, as in the source.
\<close>

section \<open>The delimiter\<close>

text \<open>
  The source searches for \<^verbatim>\<open>'/r'\<close>, a character constant of two characters. Its type is
  \<open>int\<close> and its value (GCC, the compiler the build names) is the first character times 256 plus
  the second; \<open>find\<close> takes a \<open>char\<close>, so the value is reduced to its low byte.
\<close>

definition multichar :: "char \<Rightarrow> char \<Rightarrow> nat" where
  "multichar a b = of_char a * 256 + of_char b"

definition uri_delimiter :: char where
  "uri_delimiter = char_of (multichar (CHR ''/'') (CHR ''r''))"

lemma uri_delimiter_eq [simp]: "uri_delimiter = CHR ''r''"
  by (simp add: uri_delimiter_def multichar_def char_of_def)

section \<open>Method, path, version\<close>

definition ParseURI_method :: "string \<Rightarrow> (HttpMethod \<times> int) option" where
  "ParseURI_method header_line =
     (let posGet = int_pos (find_sub ''GET'' header_line);
          posPost = int_pos (find_sub ''POST'' header_line)
      in if posGet \<ge> 0 then Some (METHOD_GET, posGet)
         else if posPost \<ge> 0 then Some (METHOD_POST, posPost)
         else None)"

text \<open>
  The path search ends in one of three ways: no slash (the default page, success at once), no
  space after it (an error), or a path and the position from which the version is searched.
\<close>

datatype uri_path = NoSlash | NoSpace | PathAt string int

definition ParseURI_path :: "string \<Rightarrow> int \<Rightarrow> uri_path result" where
  "ParseURI_path header_line start =
     (let pos = int_pos (find_from ''/'' header_line (nat start)) in
      if pos < 0 then Inr NoSlash
      else let space_pos = int_pos (find_from '' '' header_line (nat pos)) in
        if space_pos < 0 then Inr NoSpace
        else if space_pos - pos > 1 then
          bindR (inc_int pos) (\<lambda>after.
          bindR (substr header_line (nat after) (nat (space_pos - pos - 1))) (\<lambda>path.
            let question_mark_pos = int_pos (find_sub ''?'' path) in
            if question_mark_pos \<ge> 0
            then bindR (substr path 0 (nat question_mark_pos)) (\<lambda>path. Inr (PathAt path space_pos))
            else Inr (PathAt path space_pos)))
        else Inr (PathAt ''index.html'' space_pos))"

definition ParseURI_version :: "string \<Rightarrow> int \<Rightarrow> HttpVersion option result" where
  "ParseURI_version header_line start =
     (let pos = int_pos (find_from ''/'' header_line (nat start)) in
      if pos < 0 then Inr None
      else if size_t (int (length header_line) - pos) \<le> 3 then Inr None
      else bindR (inc_int pos) (\<lambda>after.
           bindR (substr header_line (nat after) 3) (\<lambda>version.
             if version = ''1.0'' then Inr (Some HTTP_10)
             else if version = ''1.1'' then Inr (Some HTTP_11)
             else Inr None)))"

section \<open>\<open>ParseURI\<close>\<close>

text \<open>The part after the request line has been cut off the buffer.\<close>

definition ParseURI_line :: "string \<Rightarrow> Http \<Rightarrow> (ParseURIState \<times> Http) result" where
  "ParseURI_line header_line x =
     (case ParseURI_method header_line of
        None \<Rightarrow> Inr (PARSE_URI_ERROR, x)
      | Some (m, start) \<Rightarrow>
          let x = x\<lparr>http_method := Some m\<rparr> in
          bindR (ParseURI_path header_line start) (\<lambda>p.
            case p of
              NoSlash \<Rightarrow>
                Inr (PARSE_URI_SUCCESS, x\<lparr>file_path := ''index.html'', http_version := HTTP_11\<rparr>)
            | NoSpace \<Rightarrow> Inr (PARSE_URI_ERROR, x)
            | PathAt path space_pos \<Rightarrow>
                let x = x\<lparr>file_path := path\<rparr> in
                bindR (ParseURI_version header_line space_pos) (\<lambda>v.
                  case v of
                    None \<Rightarrow> Inr (PARSE_URI_ERROR, x)
                  | Some version \<Rightarrow> Inr (PARSE_URI_SUCCESS, x\<lparr>http_version := version\<rparr>))))"

definition ParseURI :: "Http \<Rightarrow> (ParseURIState \<times> Http) result" where
  "ParseURI x =
     (let pos = int_pos (find_sub [uri_delimiter] (read_buffer x)) in
      if pos < 0 then Inr (PARSE_URI_AGAIN, x)
      else
        bindR (substr (read_buffer x) 0 (nat pos)) (\<lambda>header_line.
        bindR (inc_int pos) (\<lambda>after.
        bindR (if int (length (read_buffer x)) > after
               then substr_to_end (read_buffer x) (nat after) else Inr []) (\<lambda>rest.
        ParseURI_line header_line (x\<lparr>read_buffer := rest\<rparr>)))))"

text \<open>The request line, and what stays in the buffer after it.\<close>

definition uri_line :: "string \<Rightarrow> string" where
  "uri_line s = takeWhile (\<lambda>c. c \<noteq> uri_delimiter) s"

definition uri_rest :: "string \<Rightarrow> string" where
  "uri_rest s = drop (Suc (length (uri_line s))) s"

subsection \<open>No fault\<close>

lemma int_pos_find:
  assumes "0 \<le> int_pos (find_from pat s n)" "length s < 2 ^ 31" "pat \<noteq> []"
  obtains k where "find_from pat s n = Some k" "int_pos (find_from pat s n) = int k"
    "n \<le> k" "k + length pat \<le> length s"
proof -
  from assms(1) obtain k where k: "find_from pat s n = Some k"
    by (auto dest: int_pos_nonneg)
  with find_from_bound have b: "n \<le> k" "k + length pat \<le> length s" by blast+
  with assms(2) have "int_pos (find_from pat s n) = int k" using k by simp
  with k b that show thesis by blast
qed

lemma ParseURI_path_total:
  assumes "length s < 2 ^ 31"
  shows "\<exists>p. ParseURI_path s start = Inr p"
proof (cases "0 \<le> int_pos (find_from ''/'' s (nat start))")
  case False
  then show ?thesis by (simp add: ParseURI_path_def)
next
  case True
  then obtain k where k: "int_pos (find_from ''/'' s (nat start)) = int k" "k < length s"
    by (rule int_pos_find) (use assms in auto)
  then have "inc_int (int k) = Inr (int (Suc k))" using assms by (simp add: inc_int_ok)
  with k show ?thesis
    by (simp add: ParseURI_path_def Let_def find_sub_char split: bindR_split)
qed

lemma ParseURI_version_total:
  assumes "length s < 2 ^ 31"
  shows "\<exists>v. ParseURI_version s start = Inr v"
proof (cases "0 \<le> int_pos (find_from ''/'' s (nat start))")
  case False
  then show ?thesis by (simp add: ParseURI_version_def)
next
  case True
  then obtain k where k: "int_pos (find_from ''/'' s (nat start)) = int k" "k < length s"
    by (rule int_pos_find) (use assms in auto)
  then have "inc_int (int k) = Inr (int (Suc k))" using assms by (simp add: inc_int_ok)
  with k show ?thesis by (simp add: ParseURI_version_def Let_def)
qed

lemma ParseURI_line_total:
  assumes "length s < 2 ^ 31"
  shows "\<exists>r x'. ParseURI_line s x = Inr (r, x')"
proof (cases "ParseURI_method s")
  case None
  then show ?thesis by (simp add: ParseURI_line_def)
next
  case (Some mp)
  obtain m start where mp: "mp = (m, start)" by (cases mp)
  obtain p where p: "ParseURI_path s start = Inr p" using ParseURI_path_total [OF assms] by blast
  show ?thesis
  proof (cases p)
    case (PathAt path sp)
    obtain v where "ParseURI_version s sp = Inr v" using ParseURI_version_total [OF assms] by blast
    with Some mp p PathAt show ?thesis
      by (cases v) (simp_all add: ParseURI_line_def Let_def)
  qed (use Some mp p in \<open>simp_all add: ParseURI_line_def Let_def\<close>)
qed

subsection \<open>Cutting the line\<close>

lemma ParseURI_no_delimiter:
  assumes "uri_delimiter \<notin> set (read_buffer x)"
  shows "ParseURI x = Inr (PARSE_URI_AGAIN, x)"
  using assms by (simp add: ParseURI_def find_sub_char)

lemma uri_line_bound: "uri_delimiter \<in> set s \<Longrightarrow> length (uri_line s) < length s"
  unfolding uri_line_def by (rule length_takeWhile_less)

lemma uri_split: "uri_delimiter \<in> set s \<Longrightarrow> s = uri_line s @ uri_delimiter # uri_rest s"
  unfolding uri_line_def uri_rest_def by (rule split_at_char)

lemma ParseURI_delimiter:
  assumes "uri_delimiter \<in> set (read_buffer x)" "length (read_buffer x) < 2 ^ 31"
  shows "ParseURI x =
    ParseURI_line (uri_line (read_buffer x)) (x\<lparr>read_buffer := uri_rest (read_buffer x)\<rparr>)"
proof -
  let ?b = "read_buffer x" and ?n = "length (uri_line (read_buffer x))"
  from assms(1) have f: "find_sub [uri_delimiter] ?b = Some ?n"
    by (simp add: find_sub_char uri_line_def)
  have n: "?n < length ?b" using assms(1) by (rule uri_line_bound)
  with assms(2) have "?n < 2 ^ 31 - 1" by simp
  then have i: "inc_int (int ?n) = Inr (int (Suc ?n))" "c_int (int ?n) = int ?n"
    by (simp_all add: inc_int_ok)
  have t: "take ?n ?b = uri_line ?b" by (simp add: uri_line_def)
  have r: "(if int (length ?b) > int (Suc ?n) then substr_to_end ?b (nat (int (Suc ?n))) else Inr [])
      = Inr (uri_rest ?b)"
    using n by (auto simp: uri_rest_def simp del: of_nat_Suc)
  show ?thesis unfolding ParseURI_def Let_def f int_pos.simps i
    using r t by (simp add: i del: of_nat_Suc)
qed

theorem ParseURI_total:
  assumes "length (read_buffer x) < 2 ^ 31"
  shows "\<exists>r x'. ParseURI x = Inr (r, x')"
proof (cases "uri_delimiter \<in> set (read_buffer x)")
  case True
  have "length (uri_line (read_buffer x)) < 2 ^ 31"
    using uri_line_bound [OF True] assms by simp
  then show ?thesis using ParseURI_line_total ParseURI_delimiter [OF True assms] by simp
next
  case False
  then show ?thesis by (simp add: ParseURI_no_delimiter)
qed

subsection \<open>Well-formed request lines\<close>

lemma uri_line_append:
  assumes "CHR ''r'' \<notin> set a" "s = a @ CHR ''r'' # rest"
  shows "uri_line s = a" "uri_rest s = rest" "uri_delimiter \<in> set s"
  using assms by (simp_all add: uri_line_def uri_rest_def takeWhile_append takeWhile_eq_all_conv)

text \<open>
  A request line up to its version digit: method, one space, a slash, the path, an optional
  query, one space, the protocol and its version.
\<close>

definition request_line :: "string \<Rightarrow> string \<Rightarrow> string \<Rightarrow> char \<Rightarrow> string" where
  "request_line meth path query d = meth @ '' /'' @ path @ query @ '' HTTP/1.'' @ [d]"

lemma find_slash_space:
  assumes "CHR ''/'' \<notin> set a" "CHR '' '' \<notin> set b" "s = a @ ''/'' @ b @ '' '' @ t"
  shows "find_from ''/'' s 0 = Some (length a)"
    "find_from '' '' s (length a) = Some (Suc (length a + length b))"
proof -
  show "find_from ''/'' s 0 = Some (length a)"
    using assms(1,3) by (simp add: find_sub_char_append)
  show "find_from '' '' s (length a) = Some (Suc (length a + length b))"
    using find_from_char_append [of "CHR '' ''" "CHR ''/'' # b" a t] assms(2,3) by simp
qed

text \<open>The file name the path and query stand for.\<close>

definition uri_file :: "string \<Rightarrow> string \<Rightarrow> string" where
  "uri_file path query = (if path @ query = [] then ''index.html'' else path)"

lemma ParseURI_path_found:
  assumes "find_from ''/'' s start = Some n" "find_from '' '' s n = Some m" "Suc n < m"
    and "length s < 2 ^ 31"
  shows "ParseURI_path s (int start) =
    Inr (PathAt (takeWhile (\<lambda>c. c \<noteq> CHR ''?'') (take (m - n - 1) (drop (Suc n) s))) (int m))"
proof -
  from find_from_bound [OF assms(2)] assms(3,4) have b: "m < length s" "m < 2 ^ 31" "n < 2 ^ 31 - 1"
    by simp_all
  define p where "p = take (m - n - 1) (drop (Suc n) s)"
  have k: "nat (int m - int n - 1) = m - n - 1" using assms(3) by linarith
  have sub: "substr s (Suc n) (nat (int m - int n - 1)) = Inr p"
    unfolding k p_def using b assms(3) by simp
  have "length p < 2 ^ 31" using b by (simp add: p_def)
  then have "length (takeWhile (\<lambda>c. c \<noteq> CHR ''?'') p) < 2 ^ 31"
    using length_takeWhile_le [of "\<lambda>c. c \<noteq> CHR ''?''" p] by simp
  then have "ParseURI_path s (int start) =
      Inr (PathAt (takeWhile (\<lambda>c. c \<noteq> CHR ''?'') p) (int m))"
    using b assms
    by (simp add: ParseURI_path_def Let_def inc_int_ok find_sub_char sub substr_0 takeWhile_char_id
        del: substr_ok)
  then show ?thesis by (simp only: p_def)
qed

lemma ParseURI_path_none:
  assumes "find_from ''/'' s start = Some n" "find_from '' '' s n = Some (Suc n)" "length s < 2 ^ 31"
  shows "ParseURI_path s (int start) = Inr (PathAt ''index.html'' (int (Suc n)))"
  using assms find_from_bound [OF assms(2)]
  by (simp add: ParseURI_path_def Let_def del: of_nat_Suc)

lemma ParseURI_path_ok:
  assumes s: "s = a @ ''/'' @ path @ query @ '' '' @ t" and "CHR ''/'' \<notin> set a"
    and "CHR '' '' \<notin> set (path @ query)" and "CHR ''?'' \<notin> set path"
    and q: "query = [] \<or> hd query = CHR ''?''" and len: "length s < 2 ^ 31"
  shows "ParseURI_path s 0 =
    Inr (PathAt (uri_file path query) (int (Suc (length a + length (path @ query)))))"
proof -
  let ?n = "length a" and ?m = "Suc (length a + length (path @ query))"
  have f: "find_from ''/'' s 0 = Some ?n" "find_from '' '' s ?n = Some ?m"
    using find_slash_space [of a "path @ query" s t] assms(1-3) by simp_all
  show ?thesis
  proof (cases "path @ query = []")
    case True
    then show ?thesis using ParseURI_path_none [of s 0 ?n] f len by (simp add: uri_file_def)
  next
    case False
    have "takeWhile (\<lambda>c. c \<noteq> CHR ''?'') (path @ query) = path"
      using assms(4) q by (cases query) (auto simp: takeWhile_append takeWhile_eq_all_conv)
    moreover have "take (?m - ?n - 1) (drop (Suc ?n) s) = path @ query" using s by simp
    moreover have "Suc ?n < ?m" using False by (cases path) auto
    ultimately show ?thesis
      using ParseURI_path_found [of s 0 ?n ?m] f len False by (simp add: uri_file_def)
  qed
qed

lemma ParseURI_version_found:
  assumes "find_from ''/'' s start = Some n" "n + 3 < length s" "length s < 2 ^ 31"
  shows "ParseURI_version s (int start) =
    Inr (let version = take 3 (drop (Suc n) s) in
         if version = ''1.0'' then Some HTTP_10
         else if version = ''1.1'' then Some HTTP_11 else None)"
proof -
  have "size_t (int (length s) - int n) = length s - n" using assms by simp
  then show ?thesis using assms by (simp add: ParseURI_version_def Let_def inc_int_ok)
qed

lemma ParseURI_version_ok:
  assumes s: "s = a @ '' HTTP/1.'' @ [d] @ t" and len: "length s < 2 ^ 31"
    and d: "d = CHR ''0'' \<or> d = CHR ''1''"
  shows "ParseURI_version s (int (length a)) =
    Inr (Some (if d = CHR ''1'' then HTTP_11 else HTTP_10))"
proof -
  have f: "find_from ''/'' s (length a) = Some (length a + 5)"
    using find_from_char_append [of "CHR ''/''" "'' HTTP''" a "''1.'' @ [d] @ t"] s by simp
  have "take 3 (drop (Suc (length a + 5)) s) = ''1.'' @ [d]" using s by simp
  with d ParseURI_version_found [OF f] s len show ?thesis by auto
qed

lemma find_GET [simp]: "find_sub ''GET'' (CHR ''G'' # CHR ''E'' # CHR ''T'' # s) = Some 0"
  by simp

lemma ParseURI_method_GET: "ParseURI_method (''GET'' @ s) = Some (METHOD_GET, 0)"
  by (simp add: ParseURI_method_def)

lemma ParseURI_method_POST: "find_sub ''GET'' (''POST'' @ s) = None \<Longrightarrow> ParseURI_method (''POST'' @ s) = Some (METHOD_POST, 0)"
  by (simp add: ParseURI_method_def)

text \<open>What is left is the same for both methods.\<close>

lemma ParseURI_line_request:
  assumes m: "ParseURI_method (request_line meth path query d @ t) = Some (m, 0)" and "CHR ''/'' \<notin> set meth"
    and "CHR '' '' \<notin> set (path @ query)" "CHR ''?'' \<notin> set path"
    and "query = [] \<or> hd query = CHR ''?''" "d = CHR ''0'' \<or> d = CHR ''1''"
    and "length (request_line meth path query d @ t) < 2 ^ 31"
  shows "ParseURI_line (request_line meth path query d @ t) x =
    Inr (PARSE_URI_SUCCESS, x\<lparr>http_method := Some m, file_path := uri_file path query,
      http_version := if d = CHR ''1'' then HTTP_11 else HTTP_10\<rparr>)"
proof -
  let ?s = "request_line meth path query d @ t" and ?n = "length (meth @ '' /'' @ path @ query)"
  have p: "ParseURI_path ?s 0 = Inr (PathAt (uri_file path query) (int ?n))"
    using ParseURI_path_ok [of ?s "meth @ '' ''" path query "''HTTP/1.'' @ [d] @ t"] assms
    by (simp add: request_line_def)
  have v: "ParseURI_version ?s (int ?n) = Inr (Some (if d = CHR ''1'' then HTTP_11 else HTTP_10))"
    using ParseURI_version_ok [of ?s "meth @ '' /'' @ path @ query" d t] assms
    by (simp add: request_line_def)
  show ?thesis unfolding ParseURI_line_def m option.case prod.case Let_def p bindR_simps uri_path.case v
    by simp
qed

text \<open>A path cut by the delimiter: no space follows the slash.\<close>

lemma ParseURI_line_no_space:
  assumes "CHR '' '' \<notin> set a" "length (''GET /'' @ a) < 2 ^ 31"
  shows "ParseURI_line (''GET /'' @ a) x =
    Inr (PARSE_URI_ERROR, x\<lparr>http_method := Some METHOD_GET\<rparr>)"
proof -
  have "find_from ''/'' (''GET /'' @ a) 0 = Some 4"
    using find_sub_char_append [of "CHR ''/''" "''GET ''" a] by simp
  moreover have "find_from '' '' (''GET /'' @ a) 4 = None"
    using assms by (simp add: find_from_def find_sub_char)
  ultimately have "ParseURI_path (''GET /'' @ a) 0 = Inr NoSpace"
    by (simp add: ParseURI_path_def Let_def del: append_Cons)
  with ParseURI_method_GET [of "'' /'' @ a"] show ?thesis
    by (simp add: ParseURI_line_def Let_def)
qed

subsection \<open>What a call changes\<close>

definition uri_frame :: "Http \<Rightarrow> Http \<Rightarrow> bool" where
  "uri_frame x x' \<longleftrightarrow>
     x' = x\<lparr>read_buffer := read_buffer x', http_method := http_method x',
        file_path := file_path x', http_version := http_version x'\<rparr>"

lemma ParseURI_line_frame:
  assumes "ParseURI_line s x = Inr (r, x')"
  shows "uri_frame x x' \<and> read_buffer x' = read_buffer x \<and> r \<noteq> PARSE_URI_AGAIN \<and>
    (r = PARSE_URI_SUCCESS \<longrightarrow> http_method x' \<noteq> None)"
  using assms
  by (auto simp: ParseURI_line_def Let_def uri_frame_def
      split: option.split_asm uri_path.split_asm)

lemma uri_frame_trans: "uri_frame x y \<Longrightarrow> uri_frame y z \<Longrightarrow> uri_frame x z"
  by (cases x; cases y; cases z) (simp add: uri_frame_def)

lemma ParseURI_delimiter_frame:
  assumes "uri_delimiter \<in> set (read_buffer x)" "length (read_buffer x) < 2 ^ 31"
    and "ParseURI x = Inr (r, x')"
  shows "r \<noteq> PARSE_URI_AGAIN" "read_buffer x' = uri_rest (read_buffer x)"
  using ParseURI_line_frame [OF assms(3) [unfolded ParseURI_delimiter [OF assms(1,2)]]] by simp_all

text \<open>A well-formed line at the front of the buffer.\<close>

lemma ParseURI_request_line:
  assumes "read_buffer x = request_line meth path query d @ t @ CHR ''r'' # rest"
    and "ParseURI_method (request_line meth path query d @ t) = Some (m, 0)"
    and "CHR ''/'' \<notin> set meth" "CHR ''r'' \<notin> set (meth @ path @ query @ t)"
    and "CHR '' '' \<notin> set (path @ query)" "CHR ''?'' \<notin> set path"
    and "query = [] \<or> hd query = CHR ''?''" "d = CHR ''0'' \<or> d = CHR ''1''"
    and "length (read_buffer x) < 2 ^ 31"
  shows "ParseURI x = Inr (PARSE_URI_SUCCESS,
    x\<lparr>read_buffer := rest, http_method := Some m, file_path := uri_file path query,
      http_version := if d = CHR ''1'' then HTTP_11 else HTTP_10\<rparr>)"
proof -
  let ?l = "request_line meth path query d @ t"
  have "CHR ''r'' \<notin> set ?l" using assms(4,8) by (auto simp: request_line_def)
  from uri_line_append [OF this, of "read_buffer x" rest] assms(1)
  have "uri_line (read_buffer x) = ?l" "uri_rest (read_buffer x) = rest"
    "uri_delimiter \<in> set (read_buffer x)" by simp_all
  moreover have "length ?l < 2 ^ 31" using assms(1,9) by simp
  ultimately show ?thesis
    using ParseURI_delimiter [of x] ParseURI_line_request [OF assms(2,3,5-8)] assms(9) by simp
qed

lemma ParseURI_get_line:
  assumes "read_buffer x = request_line ''GET'' path query d @ t @ CHR ''r'' # rest"
    and "CHR ''r'' \<notin> set (path @ query @ t)"
    and "CHR '' '' \<notin> set (path @ query)" "CHR ''?'' \<notin> set path"
    and "query = [] \<or> hd query = CHR ''?''" "d = CHR ''0'' \<or> d = CHR ''1''"
    and "length (read_buffer x) < 2 ^ 31"
  shows "ParseURI x = Inr (PARSE_URI_SUCCESS,
    x\<lparr>read_buffer := rest, http_method := Some METHOD_GET, file_path := uri_file path query,
      http_version := if d = CHR ''1'' then HTTP_11 else HTTP_10\<rparr>)"
proof (rule ParseURI_request_line [OF assms(1) _ _ _ assms(3-7)])
  show "ParseURI_method (request_line ''GET'' path query d @ t) = Some (METHOD_GET, 0)"
    using ParseURI_method_GET by (simp add: request_line_def)
qed (use assms(2) in auto)

lemma ParseURI_post_line:
  assumes "read_buffer x = request_line ''POST'' path query d @ t @ CHR ''r'' # rest"
    and "find_sub ''GET'' (request_line ''POST'' path query d @ t) = None"
    and "CHR ''r'' \<notin> set (path @ query @ t)"
    and "CHR '' '' \<notin> set (path @ query)" "CHR ''?'' \<notin> set path"
    and "query = [] \<or> hd query = CHR ''?''" "d = CHR ''0'' \<or> d = CHR ''1''"
    and "length (read_buffer x) < 2 ^ 31"
  shows "ParseURI x = Inr (PARSE_URI_SUCCESS,
    x\<lparr>read_buffer := rest, http_method := Some METHOD_POST, file_path := uri_file path query,
      http_version := if d = CHR ''1'' then HTTP_11 else HTTP_10\<rparr>)"
proof (rule ParseURI_request_line [OF assms(1) _ _ _ assms(4-8)])
  show "ParseURI_method (request_line ''POST'' path query d @ t) = Some (METHOD_POST, 0)"
    using assms(2) ParseURI_method_POST by (simp add: request_line_def)
qed (use assms(3) in auto)

section \<open>Properties\<close>

text \<open>
  The buffer is asked for more exactly when it holds no letter \<open>r\<close>: the delimiter is not the
  carriage return the source means.
\<close>

theorem ParseURI_again_iff:
  assumes "length (read_buffer x) < 2 ^ 31"
  shows "(\<exists>x'. ParseURI x = Inr (PARSE_URI_AGAIN, x')) \<longleftrightarrow> CHR ''r'' \<notin> set (read_buffer x)"
proof (cases "CHR ''r'' \<in> set (read_buffer x)")
  case True
  then have "uri_delimiter \<in> set (read_buffer x)" by simp
  from ParseURI_delimiter_frame(1) [OF this assms] True show ?thesis by blast
next
  case False
  then show ?thesis by (simp add: ParseURI_no_delimiter)
qed

lemma ParseURI_again_witness:
  "\<exists>x'. ParseURI ((new_Http 0 7 True)\<lparr>read_buffer := ''GET / HTTP/1.1'' @ CRLF\<rparr>) =
     Inr (PARSE_URI_AGAIN, x')"
  using ParseURI_again_iff [of "(new_Http 0 7 True)\<lparr>read_buffer := ''GET / HTTP/1.1'' @ CRLF\<rparr>"]
  by (simp add: new_Http_def CRLF_def)

text \<open>
  C9. A well-formed GET line without the letter \<open>r\<close> before the end of its version is parsed: the
  file is the path without its query (\<open>index.html\<close> for the bare slash), the version is the one
  given, and the buffer goes on behind the next letter \<open>r\<close>.
\<close>

theorem ParseURI_get:
  assumes "read_buffer x = request_line ''GET'' path query d @ t @ CHR ''r'' # rest"
    and "CHR ''r'' \<notin> set (path @ query @ t)"
    and "CHR '' '' \<notin> set (path @ query)" "CHR ''?'' \<notin> set path"
    and "query = [] \<or> hd query = CHR ''?''" "d = CHR ''0'' \<or> d = CHR ''1''"
    and "length (read_buffer x) < 2 ^ 31"
  shows "ParseURI x = Inr (PARSE_URI_SUCCESS,
    x\<lparr>read_buffer := rest, http_method := Some METHOD_GET, file_path := uri_file path query,
      http_version := if d = CHR ''1'' then HTTP_11 else HTTP_10\<rparr>)"
  by (rule ParseURI_get_line [OF assms])

lemma ParseURI_get_witness:
  "ParseURI ((new_Http 0 7 True)\<lparr>read_buffer := ''GET /a.html?q=1 HTTP/1.1'' @ CRLF @ ''User: x''\<rparr>) =
     Inr (PARSE_URI_SUCCESS, (new_Http 0 7 True)\<lparr>read_buffer := '': x'', http_method := Some METHOD_GET,
       file_path := ''a.html'', http_version := HTTP_11\<rparr>)"
  using ParseURI_get [of
    "(new_Http 0 7 True)\<lparr>read_buffer := ''GET /a.html?q=1 HTTP/1.1'' @ CRLF @ ''User: x''\<rparr>"
    "''a.html''" "''?q=1''" "CHR ''1''" "CRLF @ ''Use''" "'': x''"]
  by (simp add: request_line_def uri_file_def CRLF_def)

text \<open>
  C28. A GET request whose path contains the letter \<open>r\<close> is refused, whatever follows: the line is
  cut inside the path, where no space has been seen.
\<close>

theorem ParseURI_rejects_r:
  assumes "read_buffer x = ''GET /'' @ a @ CHR ''r'' # rest"
    and "CHR ''r'' \<notin> set a" "CHR '' '' \<notin> set a" "length (read_buffer x) < 2 ^ 31"
  shows "ParseURI x =
    Inr (PARSE_URI_ERROR, x\<lparr>read_buffer := rest, http_method := Some METHOD_GET\<rparr>)"
proof -
  have "CHR ''r'' \<notin> set (''GET /'' @ a)" using assms(2) by simp
  from uri_line_append [OF this, of "read_buffer x" rest] assms(1)
  have "uri_line (read_buffer x) = ''GET /'' @ a" "uri_rest (read_buffer x) = rest"
    "uri_delimiter \<in> set (read_buffer x)" by simp_all
  then show ?thesis
    using ParseURI_delimiter [of x] ParseURI_line_no_space [OF assms(3)] assms(1,4) by simp
qed

lemma ParseURI_rejects_r_witness:
  "ParseURI ((new_Http 0 7 True)\<lparr>read_buffer := ''GET /search HTTP/1.1'' @ CRLF\<rparr>) =
     Inr (PARSE_URI_ERROR, (new_Http 0 7 True)\<lparr>read_buffer := ''ch HTTP/1.1'' @ CRLF,
       http_method := Some METHOD_GET\<rparr>)"
  using ParseURI_rejects_r [of "(new_Http 0 7 True)\<lparr>read_buffer := ''GET /search HTTP/1.1'' @ CRLF\<rparr>"
    "''sea''" "''ch HTTP/1.1'' @ CRLF"]
  by (simp add: CRLF_def)

text \<open>
  \<open>ParseURI\<close> has no undefined behaviour on any buffer an \<open>int\<close> can index, and an answer
  other than \<open>PARSE_URI_AGAIN\<close> takes at least one byte off the buffer.
\<close>

theorem ParseURI_progress:
  assumes "length (read_buffer x) < 2 ^ 31"
  shows "\<exists>r x'. ParseURI x = Inr (r, x') \<and>
    (if r = PARSE_URI_AGAIN then x' = x else length (read_buffer x') < length (read_buffer x))"
proof (cases "uri_delimiter \<in> set (read_buffer x)")
  case True
  obtain r x' where r: "ParseURI x = Inr (r, x')" using ParseURI_total [OF assms] by blast
  have "length (uri_rest (read_buffer x)) < length (read_buffer x)"
    using uri_line_bound [OF True] by (simp add: uri_rest_def)
  with r ParseURI_delimiter_frame [OF True assms r] show ?thesis by auto
next
  case False
  then show ?thesis by (simp add: ParseURI_no_delimiter)
qed

lemma ParseURI_progress_witness:
  "let x = (new_Http 0 7 True)\<lparr>read_buffer := ''PUT /r''\<rparr> in
   \<exists>r x'. ParseURI x = Inr (r, x') \<and>
    (if r = PARSE_URI_AGAIN then x' = x else length (read_buffer x') < length (read_buffer x))"
  unfolding Let_def by (rule ParseURI_progress) simp

end
