(* ===== verification/Http_Headers.thy ===== *)
theory Http_Headers
  imports Http_Data
begin

text \<open>
  \<open>Http::ParseHeaders\<close> of \<^verbatim>\<open>src/Server/Http.cpp\<close>: the character automaton over the read
  buffer. The local variables of the function and the member \<open>header_line_state\<close> are one record;
  a step treats one character, the loop runs over the buffer by index. A second definition, over
  the characters alone, is the reference the indexed loop is proved equal to; a grammar of header
  blocks describes exactly what is accepted.
\<close>

section \<open>The automaton of the source\<close>

record HeaderScan =
  scan_state :: HeaderLineState
  scan_kv :: "string \<Rightarrow> string option"
  key_start :: int
  key_end :: int
  value_start :: int
  value_end :: int
  now_read_line_begin :: int
  notFinish :: bool

text \<open>
  One pass of the loop body at index \<open>i\<close>. The boolean is true where the source returns
  \<open>PARSE_HEADER_ERROR\<close>.
\<close>

definition scan_step :: "string \<Rightarrow> nat \<Rightarrow> HeaderScan \<Rightarrow> (bool \<times> HeaderScan) result" where
  "scan_step str i s =
     (let c = str ! i; idx = c_int (int i) in
      case scan_state s of
        H_START \<Rightarrow>
          if c = LF \<or> c = CR then Inr (False, s)
          else Inr (False, s\<lparr>scan_state := H_KEY, key_start := idx, now_read_line_begin := idx\<rparr>)
      | H_KEY \<Rightarrow>
          if c = CHR '':'' then
            let s = s\<lparr>key_end := idx\<rparr> in
            if key_end s - key_start s \<le> 0 then Inr (True, s)
            else Inr (False, s\<lparr>scan_state := H_COLON\<rparr>)
          else if c = LF \<or> c = CR then Inr (True, s)
          else Inr (False, s)
      | H_COLON \<Rightarrow>
          if c = CHR '' '' then Inr (False, s\<lparr>scan_state := H_SPACES_AFTER_COLON\<rparr>)
          else Inr (True, s)
      | H_SPACES_AFTER_COLON \<Rightarrow> Inr (False, s\<lparr>scan_state := H_VALUE, value_start := idx\<rparr>)
      | H_VALUE \<Rightarrow>
          if c = CR then
            let s = s\<lparr>scan_state := H_CR, value_end := idx\<rparr> in
            if value_end s - value_start s \<le> 0 then Inr (True, s) else Inr (False, s)
          else if size_t (int i - value_start s) > 255 then Inr (True, s)
          else Inr (False, s)
      | H_CR \<Rightarrow>
          if c = LF then
            let s = s\<lparr>scan_state := H_LF\<rparr> in
            bindR (iter_range str (key_start s) (key_end s)) (\<lambda>key.
            bindR (iter_range str (value_start s) (value_end s)) (\<lambda>value.
            Inr (False, s\<lparr>scan_kv := (scan_kv s)(key \<mapsto> value), now_read_line_begin := idx\<rparr>)))
          else Inr (True, s)
      | H_LF \<Rightarrow>
          if c = CR then Inr (False, s\<lparr>scan_state := H_END_CR\<rparr>)
          else Inr (False, s\<lparr>key_start := idx, scan_state := H_KEY\<rparr>)
      | H_END_CR \<Rightarrow>
          if c = LF then Inr (False, s\<lparr>scan_state := H_END_LF\<rparr>) else Inr (True, s)
      | H_END_LF \<Rightarrow>
          Inr (False, s\<lparr>notFinish := False, key_start := idx, now_read_line_begin := idx\<rparr>))"

text \<open>The loop: the index where it stopped, and whether it stopped by the error return.\<close>

function ParseHeaders_loop ::
  "string \<Rightarrow> nat \<Rightarrow> HeaderScan \<Rightarrow> (bool \<times> nat \<times> HeaderScan) result" where
  "ParseHeaders_loop str i s =
     (if i < length str \<and> notFinish s then
        bindR (scan_step str i s) (\<lambda>(err, s').
          if err then Inr (True, i, s') else ParseHeaders_loop str (Suc i) s')
      else Inr (False, i, s))"
  by pat_completeness auto
termination
  by (relation "measure (\<lambda>(str, i, s). length str - i)") auto

declare ParseHeaders_loop.simps [simp del]

definition scan_init :: "HeaderLineState \<Rightarrow> (string \<Rightarrow> string option) \<Rightarrow> HeaderScan" where
  "scan_init st kv =
     \<lparr>scan_state = st, scan_kv = kv, key_start = -1, key_end = -1, value_start = -1,
      value_end = -1, now_read_line_begin = 0, notFinish = True\<rparr>"

definition ParseHeaders :: "Http \<Rightarrow> (ParseHeaderState \<times> Http) result" where
  "ParseHeaders x =
     bindR (ParseHeaders_loop (read_buffer x) 0 (scan_init (header_line_state x) (header_kv x)))
       (\<lambda>(err, i, s).
          let x' = x\<lparr>header_line_state := scan_state s, header_kv := scan_kv s\<rparr> in
          if err then Inr (PARSE_HEADER_ERROR, x')
          else if scan_state s = H_END_LF then
            bindR (substr_to_end (read_buffer x) i) (\<lambda>rest.
            Inr (PARSE_HEADER_SUCCESS, x'\<lparr>read_buffer := rest\<rparr>))
          else
            bindR (substr_to_end (read_buffer x) (size_t (now_read_line_begin s))) (\<lambda>rest.
            Inr (PARSE_HEADER_AGAIN, x'\<lparr>read_buffer := rest\<rparr>)))"

section \<open>The reference: the automaton over characters\<close>

text \<open>
  The same decisions without indices: the key and the value read so far are accumulated.
  \<open>RDone\<close> carries what is left of the input: the character looked at in state \<open>H_END_LF\<close> is
  not part of it.
\<close>

datatype scan_result =
    RBad
  | RDone "string \<Rightarrow> string option" string
  | RMore HeaderLineState "string \<Rightarrow> string option"

fun hdr_ref ::
  "HeaderLineState \<Rightarrow> string \<Rightarrow> string \<Rightarrow> (string \<Rightarrow> string option) \<Rightarrow> string \<Rightarrow> scan_result" where
  "hdr_ref st k v kv [] = (if st = H_END_LF then RDone kv [] else RMore st kv)"
| "hdr_ref H_START k v kv (c # cs) =
     (if c = LF \<or> c = CR then hdr_ref H_START k v kv cs else hdr_ref H_KEY [c] v kv cs)"
| "hdr_ref H_KEY k v kv (c # cs) =
     (if c = CHR '':'' then hdr_ref H_COLON k v kv cs
      else if c = LF \<or> c = CR then RBad else hdr_ref H_KEY (k @ [c]) v kv cs)"
| "hdr_ref H_COLON k v kv (c # cs) =
     (if c = CHR '' '' then hdr_ref H_SPACES_AFTER_COLON k v kv cs else RBad)"
| "hdr_ref H_SPACES_AFTER_COLON k v kv (c # cs) = hdr_ref H_VALUE k [c] kv cs"
| "hdr_ref H_VALUE k v kv (c # cs) =
     (if c = CR then hdr_ref H_CR k v kv cs
      else if length v > 255 then RBad else hdr_ref H_VALUE k (v @ [c]) kv cs)"
| "hdr_ref H_CR k v kv (c # cs) =
     (if c = LF then hdr_ref H_LF [] [] (kv(k \<mapsto> v)) cs else RBad)"
| "hdr_ref H_LF k v kv (c # cs) =
     (if c = CR then hdr_ref H_END_CR k v kv cs else hdr_ref H_KEY [c] v kv cs)"
| "hdr_ref H_END_CR k v kv (c # cs) =
     (if c = LF then hdr_ref H_END_LF k v kv cs else RBad)"
| "hdr_ref H_END_LF k v kv (c # cs) = RDone kv cs"

section \<open>The loop refines the reference\<close>

definition slice :: "nat \<Rightarrow> nat \<Rightarrow> string \<Rightarrow> string" where
  "slice a b s = take (b - a) (drop a s)"

lemma slice_snoc: "a \<le> i \<Longrightarrow> i < length s \<Longrightarrow> slice a (Suc i) s = slice a i s @ [s ! i]"
  by (simp add: slice_def Suc_diff_le take_Suc_conv_app_nth)

lemma slice_single: "i < length s \<Longrightarrow> slice i (Suc i) s = [s ! i]"
  by (simp add: slice_snoc) (simp add: slice_def)

lemma length_slice: "b \<le> length s \<Longrightarrow> length (slice a b s) = b - a"
  by (simp add: slice_def)

lemma iter_range_slice:
  "a \<le> b \<Longrightarrow> b \<le> length s \<Longrightarrow> iter_range s (int a) (int b) = Inr (slice a b s)"
  by (simp add: iter_range_nat slice_def)

text \<open>How the positions of the source stand for the texts of the reference.\<close>

definition key_at :: "string \<Rightarrow> nat \<Rightarrow> HeaderScan \<Rightarrow> string \<Rightarrow> bool" where
  "key_at str i s k \<longleftrightarrow>
     (\<exists>a b. key_start s = int a \<and> key_end s = int b \<and> a < b \<and> b \<le> i \<and> k = slice a b str)"

fun scan_rel :: "string \<Rightarrow> nat \<Rightarrow> HeaderScan \<Rightarrow> string \<Rightarrow> string \<Rightarrow> HeaderLineState \<Rightarrow> bool" where
  "scan_rel str i s k v H_KEY \<longleftrightarrow> (\<exists>a. key_start s = int a \<and> a < i \<and> k = slice a i str)"
| "scan_rel str i s k v H_COLON \<longleftrightarrow> key_at str i s k"
| "scan_rel str i s k v H_SPACES_AFTER_COLON \<longleftrightarrow> key_at str i s k"
| "scan_rel str i s k v H_VALUE \<longleftrightarrow>
     key_at str i s k \<and> (\<exists>d. value_start s = int d \<and> d < i \<and> v = slice d i str)"
| "scan_rel str i s k v H_CR \<longleftrightarrow>
     key_at str i s k \<and>
     (\<exists>d e. value_start s = int d \<and> value_end s = int e \<and> d < e \<and> e \<le> i \<and> v = slice d e str)"
| "scan_rel str i s k v _ \<longleftrightarrow> True"

definition scan_inv :: "string \<Rightarrow> nat \<Rightarrow> HeaderScan \<Rightarrow> string \<Rightarrow> string \<Rightarrow> bool" where
  "scan_inv str i s k v \<longleftrightarrow>
     i \<le> length str \<and> notFinish s \<and> 0 \<le> now_read_line_begin s \<and>
     now_read_line_begin s \<le> int (length str) \<and> scan_rel str i s k v (scan_state s)"

lemma key_at_mono: "key_at str i s k \<Longrightarrow> key_start s' = key_start s \<Longrightarrow> key_end s' = key_end s \<Longrightarrow>
    key_at str (Suc i) s' k"
  by (auto simp: key_at_def)

text \<open>The result of the loop and the result of the reference.\<close>

fun same_outcome :: "string \<Rightarrow> (bool \<times> nat \<times> HeaderScan) result \<Rightarrow> scan_result \<Rightarrow> bool" where
  "same_outcome str (Inr (True, _, _)) r \<longleftrightarrow> r = RBad"
| "same_outcome str (Inr (False, i, s)) r \<longleftrightarrow>
     i \<le> length str \<and> 0 \<le> now_read_line_begin s \<and> now_read_line_begin s \<le> int (length str) \<and>
     r = (if scan_state s = H_END_LF then RDone (scan_kv s) (drop i str)
          else RMore (scan_state s) (scan_kv s))"
| "same_outcome str (Inl _) r \<longleftrightarrow> False"

definition step_ok :: "string \<Rightarrow> nat \<Rightarrow> HeaderScan \<Rightarrow> string \<Rightarrow> string \<Rightarrow> bool" where
  "step_ok str i s k v \<longleftrightarrow>
     (\<exists>s'. scan_step str i s = Inr (True, s') \<and>
        (\<forall>cs. hdr_ref (scan_state s) k v (scan_kv s) (str ! i # cs) = RBad)) \<or>
     (\<exists>s' k' v'. scan_step str i s = Inr (False, s') \<and> scan_inv str (Suc i) s' k' v' \<and>
        (\<forall>cs. hdr_ref (scan_state s) k v (scan_kv s) (str ! i # cs) =
          hdr_ref (scan_state s') k' v' (scan_kv s') cs))"

lemma step_okI_bad:
  assumes "scan_step str i s = Inr (True, s')"
    "\<And>cs. hdr_ref (scan_state s) k v (scan_kv s) (str ! i # cs) = RBad"
  shows "step_ok str i s k v"
  using assms by (auto simp: step_ok_def)

lemma step_okI:
  assumes "scan_step str i s = Inr (False, s')" "scan_inv str (Suc i) s' k' v'"
    "\<And>cs. hdr_ref (scan_state s) k v (scan_kv s) (str ! i # cs) =
          hdr_ref (scan_state s') k' v' (scan_kv s') cs"
  shows "step_ok str i s k v"
  using assms by (auto simp: step_ok_def)

lemmas scan_unfold = scan_inv_def scan_step_def Let_def

lemma step_H_START:
  assumes "scan_inv str i s k v" "i < length str" "length str < 2 ^ 31" "scan_state s = H_START"
  shows "step_ok str i s k v"
proof (cases "str ! i = LF \<or> str ! i = CR")
  case True
  then show ?thesis
    by (intro step_okI [of _ _ _ s k v]) (use assms in \<open>auto simp: scan_unfold\<close>)
next
  case False
  then show ?thesis
    by (intro step_okI [of _ _ _
          "s\<lparr>scan_state := H_KEY, key_start := int i, now_read_line_begin := int i\<rparr>" "[str ! i]" v])
      (use assms in \<open>auto simp: scan_unfold slice_single\<close>)
qed

lemma step_H_KEY:
  assumes "scan_inv str i s k v" "i < length str" "length str < 2 ^ 31" "scan_state s = H_KEY"
  shows "step_ok str i s k v"
proof -
  from assms obtain a where a: "key_start s = int a" "a < i" "k = slice a i str"
    by (auto simp: scan_inv_def)
  consider (colon) "str ! i = CHR '':''" | (bad) "str ! i = LF \<or> str ! i = CR"
    | (char) "str ! i \<noteq> CHR '':''" "str ! i \<noteq> LF" "str ! i \<noteq> CR" by blast
  then show ?thesis
  proof cases
    case colon
    then show ?thesis
      by (intro step_okI [of _ _ _ "s\<lparr>key_end := int i, scan_state := H_COLON\<rparr>" k v])
        (use assms a in \<open>auto simp: scan_unfold key_at_def LF_def CR_def\<close>)
  next
    case bad
    then show ?thesis
      by (intro step_okI_bad [of _ _ _ s]) (use assms a in \<open>auto simp: scan_unfold LF_def CR_def\<close>)
  next
    case char
    then show ?thesis
      by (intro step_okI [of _ _ _ s "k @ [str ! i]" v])
        (use assms a in \<open>auto simp: scan_unfold slice_snoc\<close>)
  qed
qed

lemma step_H_COLON:
  assumes "scan_inv str i s k v" "i < length str" "length str < 2 ^ 31" "scan_state s = H_COLON"
  shows "step_ok str i s k v"
proof (cases "str ! i = CHR '' ''")
  case True
  then show ?thesis
    by (intro step_okI [of _ _ _ "s\<lparr>scan_state := H_SPACES_AFTER_COLON\<rparr>" k v])
      (use assms in \<open>auto simp: scan_unfold elim: key_at_mono\<close>)
next
  case False
  then show ?thesis
    by (intro step_okI_bad [of _ _ _ s]) (use assms in \<open>auto simp: scan_unfold\<close>)
qed

lemma step_H_SPACES:
  assumes "scan_inv str i s k v" "i < length str" "length str < 2 ^ 31"
    "scan_state s = H_SPACES_AFTER_COLON"
  shows "step_ok str i s k v"
  by (intro step_okI [of _ _ _ "s\<lparr>scan_state := H_VALUE, value_start := int i\<rparr>" k "[str ! i]"])
    (use assms in \<open>auto simp: scan_unfold slice_single elim: key_at_mono\<close>)

lemma step_H_VALUE:
  assumes "scan_inv str i s k v" "i < length str" "length str < 2 ^ 31" "scan_state s = H_VALUE"
  shows "step_ok str i s k v"
proof -
  from assms obtain d where d: "value_start s = int d" "d < i" "v = slice d i str"
    "key_at str i s k" by (auto simp: scan_inv_def)
  then have l: "length v = i - d" and sz: "size_t (int i - int d) = i - d"
    using assms(2,3) by (simp_all add: length_slice)
  consider (cr) "str ! i = CR" | (long) "str ! i \<noteq> CR" "length v > 255"
    | (char) "str ! i \<noteq> CR" "\<not> length v > 255" by blast
  then show ?thesis
  proof cases
    case cr
    then show ?thesis
      by (intro step_okI [of _ _ _ "s\<lparr>scan_state := H_CR, value_end := int i\<rparr>" k v])
        (use assms d in \<open>auto simp: scan_unfold elim: key_at_mono\<close>)
  next
    case long
    then show ?thesis
      by (intro step_okI_bad [of _ _ _ s]) (use assms d l sz in \<open>auto simp: scan_unfold\<close>)
  next
    case char
    then show ?thesis
      by (intro step_okI [of _ _ _ s k "v @ [str ! i]"])
        (use assms d l sz in \<open>auto simp: scan_unfold slice_snoc elim: key_at_mono\<close>)
  qed
qed

lemma step_H_CR:
  assumes "scan_inv str i s k v" "i < length str" "length str < 2 ^ 31" "scan_state s = H_CR"
  shows "step_ok str i s k v"
proof (cases "str ! i = LF")
  case True
  from assms have "iter_range str (key_start s) (key_end s) = Inr k"
    "iter_range str (value_start s) (value_end s) = Inr v"
    by (auto simp: scan_inv_def key_at_def iter_range_slice)
  with True show ?thesis
    by (intro step_okI [of _ _ _ "s\<lparr>scan_state := H_LF, scan_kv := (scan_kv s)(k \<mapsto> v),
          now_read_line_begin := int i\<rparr>" "[]" "[]"])
      (use assms in \<open>auto simp: scan_unfold\<close>)
next
  case False
  then show ?thesis
    by (intro step_okI_bad [of _ _ _ s]) (use assms in \<open>auto simp: scan_unfold\<close>)
qed

lemma step_H_LF:
  assumes "scan_inv str i s k v" "i < length str" "length str < 2 ^ 31" "scan_state s = H_LF"
  shows "step_ok str i s k v"
proof (cases "str ! i = CR")
  case True
  then show ?thesis
    by (intro step_okI [of _ _ _ "s\<lparr>scan_state := H_END_CR\<rparr>" k v])
      (use assms in \<open>auto simp: scan_unfold\<close>)
next
  case False
  then show ?thesis
    by (intro step_okI [of _ _ _ "s\<lparr>key_start := int i, scan_state := H_KEY\<rparr>" "[str ! i]" v])
      (use assms in \<open>auto simp: scan_unfold slice_single\<close>)
qed

lemma step_H_END_CR:
  assumes "scan_inv str i s k v" "i < length str" "length str < 2 ^ 31" "scan_state s = H_END_CR"
  shows "step_ok str i s k v"
proof (cases "str ! i = LF")
  case True
  then show ?thesis
    by (intro step_okI [of _ _ _ "s\<lparr>scan_state := H_END_LF\<rparr>" k v])
      (use assms in \<open>auto simp: scan_unfold\<close>)
next
  case False
  then show ?thesis
    by (intro step_okI_bad [of _ _ _ s]) (use assms in \<open>auto simp: scan_unfold\<close>)
qed

lemma scan_step_sim:
  assumes "scan_inv str i s k v" "i < length str" "length str < 2 ^ 31" "scan_state s \<noteq> H_END_LF"
  shows "step_ok str i s k v"
  using assms step_H_START step_H_KEY step_H_COLON step_H_SPACES step_H_VALUE step_H_CR step_H_LF
    step_H_END_CR by (cases "scan_state s") simp_all

lemma loop_sim:
  assumes "scan_inv str i s k v" "length str < 2 ^ 31"
  shows "same_outcome str (ParseHeaders_loop str i s)
    (hdr_ref (scan_state s) k v (scan_kv s) (drop i str))"
  using assms(1)
proof (induction "length str - i" arbitrary: i s k v)
  case 0
  then have "i = length str" by (simp add: scan_inv_def)
  with 0 show ?case by (auto simp: ParseHeaders_loop.simps [of str "length str" s] scan_inv_def)
next
  case (Suc n)
  then have i: "i < length str" by simp
  then have d: "drop i str = str ! i # drop (Suc i) str" by (simp add: Cons_nth_drop_Suc)
  have nf: "notFinish s" using Suc.prems by (simp add: scan_inv_def)
  show ?case
  proof (cases "scan_state s = H_END_LF")
    case True
    let ?s = "s\<lparr>notFinish := False, key_start := int i, now_read_line_begin := int i\<rparr>"
    from True i assms(2) have st: "scan_step str i s = Inr (False, ?s)"
      by (simp add: scan_step_def Let_def)
    have "ParseHeaders_loop str (Suc i) ?s = Inr (False, Suc i, ?s)"
      by (simp add: ParseHeaders_loop.simps [of str "Suc i"])
    with st i nf have "ParseHeaders_loop str i s = Inr (False, Suc i, ?s)"
      by (simp add: ParseHeaders_loop.simps [of str i])
    with True i d show ?thesis by simp
  next
    case False
    from scan_step_sim [OF Suc.prems i assms(2) False] have "step_ok str i s k v" .
    then consider (bad) s' where "scan_step str i s = Inr (True, s')"
        "hdr_ref (scan_state s) k v (scan_kv s) (str ! i # drop (Suc i) str) = RBad"
      | (ok) s' k' v' where "scan_step str i s = Inr (False, s')" "scan_inv str (Suc i) s' k' v'"
        "hdr_ref (scan_state s) k v (scan_kv s) (str ! i # drop (Suc i) str) =
          hdr_ref (scan_state s') k' v' (scan_kv s') (drop (Suc i) str)"
      unfolding step_ok_def by blast
    then show ?thesis
    proof cases
      case bad
      with i nf d show ?thesis by (simp add: ParseHeaders_loop.simps [of str i])
    next
      case ok
      have "same_outcome str (ParseHeaders_loop str (Suc i) s')
          (hdr_ref (scan_state s') k' v' (scan_kv s') (drop (Suc i) str))"
        by (rule Suc.hyps(1)) (use Suc.hyps(2) ok(2) in auto)
      with ok i nf d show ?thesis by (simp add: ParseHeaders_loop.simps [of str i])
    qed
  qed
qed

text \<open>
  The whole function, from a state that does not refer to positions of an earlier call: the three
  answers and everything they change.
\<close>

definition position_free :: "HeaderLineState \<Rightarrow> bool" where
  "position_free st \<longleftrightarrow> st \<in> {H_START, H_LF, H_END_CR, H_END_LF}"

fun parsed_as :: "Http \<Rightarrow> (ParseHeaderState \<times> Http) result \<Rightarrow> scan_result \<Rightarrow> bool" where
  "parsed_as x r RBad \<longleftrightarrow>
     (\<exists>st kv. r = Inr (PARSE_HEADER_ERROR, x\<lparr>header_line_state := st, header_kv := kv\<rparr>))"
| "parsed_as x r (RDone kv rest) \<longleftrightarrow>
     r = Inr (PARSE_HEADER_SUCCESS,
       x\<lparr>header_line_state := H_END_LF, header_kv := kv, read_buffer := rest\<rparr>)"
| "parsed_as x r (RMore st kv) \<longleftrightarrow>
     (\<exists>n \<le> length (read_buffer x). r = Inr (PARSE_HEADER_AGAIN,
       x\<lparr>header_line_state := st, header_kv := kv, read_buffer := drop n (read_buffer x)\<rparr>))"

lemma ParseHeaders_refines:
  assumes "position_free (header_line_state x)" "length (read_buffer x) < 2 ^ 31"
  shows "parsed_as x (ParseHeaders x)
    (hdr_ref (header_line_state x) [] [] (header_kv x) (read_buffer x))"
proof -
  let ?s = "scan_init (header_line_state x) (header_kv x)" and ?b = "read_buffer x"
  have "scan_inv ?b 0 ?s [] []"
    using assms(1) by (auto simp: scan_inv_def scan_init_def position_free_def)
  from loop_sim [OF this assms(2)]
  have sim: "same_outcome ?b (ParseHeaders_loop ?b 0 ?s)
      (hdr_ref (header_line_state x) [] [] (header_kv x) ?b)"
    by (simp add: scan_init_def)
  then obtain err i s where l: "ParseHeaders_loop ?b 0 ?s = Inr (err, i, s)"
    by (cases "ParseHeaders_loop ?b 0 ?s") auto
  show ?thesis
  proof (cases err)
    case True
    with sim l show ?thesis by (auto simp: ParseHeaders_def)
  next
    case False
    with sim l have b: "i \<le> length ?b" "0 \<le> now_read_line_begin s"
      "now_read_line_begin s \<le> int (length ?b)" by auto
    then have "size_t (now_read_line_begin s) \<le> length ?b" using assms(2) by simp
    with sim l False b show ?thesis
      by (auto simp: ParseHeaders_def Let_def intro!: exI [of _ "size_t (now_read_line_begin s)"])
  qed
qed

section \<open>The grammar of header blocks\<close>

text \<open>
  A field is a key, a colon, one space and a value. The first character of a key and of a value is
  not looked at by the automaton (but for the line ends before a key), the others are; a value has
  between 1 and 256 characters. A block is one or more fields, each closed by a line end, and an
  empty line.
\<close>

fun valid_field :: "string \<times> string \<Rightarrow> bool" where
  "valid_field (k, v) \<longleftrightarrow>
     k \<noteq> [] \<and> hd k \<noteq> CR \<and> set (tl k) \<inter> {CHR '':'', CR, LF} = {} \<and>
     v \<noteq> [] \<and> CR \<notin> set (tl v) \<and> length v \<le> 256"

fun render_field :: "string \<times> string \<Rightarrow> string" where
  "render_field (k, v) = k @ '': '' @ v @ [CR, LF]"

definition render_headers :: "(string \<times> string) list \<Rightarrow> string" where
  "render_headers hs = concat (map render_field hs) @ [CR, LF]"

definition store_fields ::
  "(string \<Rightarrow> string option) \<Rightarrow> (string \<times> string) list \<Rightarrow> string \<Rightarrow> string option" where
  "store_fields kv hs = foldl (\<lambda>m (k, v). m(k \<mapsto> v)) kv hs"

text \<open>Line ends before the first key are skipped, so the first key does not start with one.\<close>

definition header_block :: "string \<Rightarrow> (string \<times> string) list \<Rightarrow> bool" where
  "header_block skip hs \<longleftrightarrow>
     set skip \<subseteq> {CR, LF} \<and> hs \<noteq> [] \<and> list_all valid_field hs \<and> hd (fst (hd hs)) \<noteq> LF"

lemma store_fields_simps [simp]:
  "store_fields kv [] = kv"
  "store_fields kv ((k, v) # hs) = store_fields (kv(k \<mapsto> v)) hs"
  by (simp_all add: store_fields_def)

lemma CR_LF_neq [simp]: "CR \<noteq> LF" "LF \<noteq> CR" "CR \<noteq> CHR '':''" "LF \<noteq> CHR '':''"
  "CR \<noteq> CHR '' ''" "LF \<noteq> CHR '' ''" "CHR '':'' \<noteq> CR" "CHR '':'' \<noteq> LF"
  by (simp_all add: CR_def LF_def)

subsection \<open>Completeness: a block is accepted\<close>

lemma ref_key_chars:
  "set a \<inter> {CHR '':'', CR, LF} = {} \<Longrightarrow>
     hdr_ref H_KEY k v kv (a @ s) = hdr_ref H_KEY (k @ a) v kv s"
  by (induction a arbitrary: k) auto

lemma ref_value_chars:
  "CR \<notin> set a \<Longrightarrow> length v + length a \<le> 256 \<Longrightarrow>
     hdr_ref H_VALUE k v kv (a @ s) = hdr_ref H_VALUE k (v @ a) kv s"
  by (induction a arbitrary: v) auto

lemma ref_field:
  assumes "valid_field (k, v)"
  shows "hdr_ref H_KEY [hd k] w kv (tl k @ '': '' @ v @ [CR, LF] @ s) =
    hdr_ref H_LF [] [] (kv(k \<mapsto> v)) s"
proof -
  from assms have k: "[hd k] @ tl k = k" and v: "v = hd v # tl v" by simp_all
  have "hdr_ref H_KEY [hd k] w kv (tl k @ '': '' @ v @ [CR, LF] @ s) =
      hdr_ref H_KEY ([hd k] @ tl k) w kv ('': '' @ v @ [CR, LF] @ s)"
    by (rule ref_key_chars) (use assms in simp)
  also have "\<dots> = hdr_ref H_SPACES_AFTER_COLON k w kv (v @ [CR, LF] @ s)"
    unfolding k by simp
  also have "\<dots> = hdr_ref H_VALUE k [hd v] kv (tl v @ [CR, LF] @ s)"
    by (subst v) simp
  also have "\<dots> = hdr_ref H_VALUE k ([hd v] @ tl v) kv ([CR, LF] @ s)"
    by (rule ref_value_chars) (use assms in auto)
  also have "\<dots> = hdr_ref H_LF [] [] (kv(k \<mapsto> v)) s"
    using v by simp
  finally show ?thesis .
qed

lemma ref_fields:
  "list_all valid_field hs \<Longrightarrow>
     hdr_ref H_LF k v kv (render_headers hs @ t) = RDone (store_fields kv hs) (drop 1 t)"
proof (induction hs arbitrary: k v kv)
  case Nil
  then show ?case by (cases t) (simp_all add: render_headers_def)
next
  case (Cons h hs)
  obtain a b where h: "h = (a, b)" by (cases h)
  with Cons.prems have f: "valid_field (a, b)" by simp
  then have "hdr_ref H_LF k v kv (a @ s) = hdr_ref H_KEY [hd a] v kv (tl a @ s)" for s
    by (cases a) simp_all
  then have "hdr_ref H_LF k v kv (render_headers (h # hs) @ t) =
      hdr_ref H_KEY [hd a] v kv (tl a @ '': '' @ b @ [CR, LF] @ render_headers hs @ t)"
    by (simp add: h render_headers_def)
  also have "\<dots> = RDone (store_fields kv (h # hs)) (drop 1 t)"
    unfolding ref_field [OF f] using Cons h by simp
  finally show ?case .
qed

lemma ref_skip:
  "set skip \<subseteq> {CR, LF} \<Longrightarrow> hdr_ref H_START k v kv (skip @ s) = hdr_ref H_START k v kv s"
  by (induction skip) auto

lemma ref_complete:
  assumes "header_block skip hs"
  shows "hdr_ref H_START k v kv (skip @ render_headers hs @ t) =
    RDone (store_fields kv hs) (drop 1 t)"
proof -
  from assms obtain a b hs' where h: "hs = (a, b) # hs'" by (cases hs) (auto simp: header_block_def)
  with assms have f: "valid_field (a, b)" "hd a \<noteq> LF" "list_all valid_field hs'"
    by (auto simp: header_block_def)
  then have a: "hdr_ref H_START k v kv (a @ s) = hdr_ref H_KEY [hd a] v kv (tl a @ s)" for s
    by (cases a) auto
  have "hdr_ref H_START k v kv (skip @ render_headers hs @ t) =
      hdr_ref H_START k v kv (a @ '': '' @ b @ [CR, LF] @ render_headers hs' @ t)"
    using assms h by (simp add: header_block_def ref_skip render_headers_def)
  also have "\<dots> = hdr_ref H_KEY [hd a] v kv (tl a @ '': '' @ b @ [CR, LF] @ render_headers hs' @ t)"
    by (rule a)
  also have "\<dots> = RDone (store_fields kv hs) (drop 1 t)"
    unfolding ref_field [OF f(1)] using ref_fields [OF f(3)] h by simp
  finally show ?thesis .
qed

subsection \<open>Soundness: what is accepted is a block\<close>

text \<open>
  The text of the line being read, and what the automaton has already checked of it, by state.
\<close>

fun line_text :: "HeaderLineState \<Rightarrow> string \<Rightarrow> string \<Rightarrow> string" where
  "line_text H_KEY k v = k"
| "line_text H_COLON k v = k @ '':''"
| "line_text H_SPACES_AFTER_COLON k v = k @ '': ''"
| "line_text H_VALUE k v = k @ '': '' @ v"
| "line_text H_CR k v = k @ '': '' @ v @ [CR]"
| "line_text H_END_CR k v = [CR]"
| "line_text H_END_LF k v = [CR, LF]"
| "line_text _ k v = []"

definition key_ok :: "string \<Rightarrow> bool" where
  "key_ok k \<longleftrightarrow> k \<noteq> [] \<and> hd k \<noteq> CR \<and> set (tl k) \<inter> {CHR '':'', CR, LF} = {}"

definition value_ok :: "string \<Rightarrow> bool" where
  "value_ok v \<longleftrightarrow> v \<noteq> [] \<and> CR \<notin> set (tl v) \<and> length v \<le> 256"

lemma valid_field_iff: "valid_field (k, v) \<longleftrightarrow> key_ok k \<and> value_ok v"
  by (auto simp: key_ok_def value_ok_def)

fun line_ok :: "HeaderLineState \<Rightarrow> string \<Rightarrow> string \<Rightarrow> bool" where
  "line_ok H_START k v = False"
| "line_ok H_VALUE k v = (key_ok k \<and> value_ok v)"
| "line_ok H_CR k v = (key_ok k \<and> value_ok v)"
| "line_ok H_LF k v = True"
| "line_ok H_END_CR k v = True"
| "line_ok H_END_LF k v = True"
| "line_ok _ k v = key_ok k"

definition in_field :: "HeaderLineState \<Rightarrow> bool" where
  "in_field st \<longleftrightarrow> st \<in> {H_KEY, H_COLON, H_SPACES_AFTER_COLON, H_VALUE, H_CR}"

lemma key_ok_single: "c \<noteq> CR \<Longrightarrow> key_ok [c]"
  by (simp add: key_ok_def)

lemma key_ok_snoc: "key_ok k \<Longrightarrow> c \<notin> {CHR '':'', CR, LF} \<Longrightarrow> key_ok (k @ [c])"
  by (cases k) (auto simp: key_ok_def)

lemma value_ok_single: "value_ok [c]"
  by (simp add: value_ok_def)

lemma value_ok_snoc: "value_ok v \<Longrightarrow> c \<noteq> CR \<Longrightarrow> length v \<le> 255 \<Longrightarrow> value_ok (v @ [c])"
  by (cases v) (auto simp: value_ok_def)

definition accepts_block ::
  "HeaderLineState \<Rightarrow> string \<Rightarrow> (string \<Rightarrow> string option) \<Rightarrow> (string \<Rightarrow> string option) \<Rightarrow> string \<Rightarrow> bool" where
  "accepts_block st s kv kv' rest \<longleftrightarrow>
     (\<exists>hs t. s = render_headers hs @ t \<and> list_all valid_field hs \<and> rest = drop 1 t \<and>
        kv' = store_fields kv hs \<and> (in_field st \<longrightarrow> hs \<noteq> []))"

lemma accepts_end: "accepts_block H_END_LF (CR # LF # s) kv kv (drop 1 s)"
  unfolding accepts_block_def
  by (intro exI [of _ "[]"] exI [of _ s]) (simp add: render_headers_def in_field_def)

lemma accepts_field:
  assumes "accepts_block H_LF s (kv(k \<mapsto> v)) kv' rest" "valid_field (k, v)"
  shows "accepts_block H_CR (k @ '': '' @ v @ [CR, LF] @ s) kv kv' rest"
proof -
  from assms(1) obtain hs t where "s = render_headers hs @ t" "list_all valid_field hs"
    "rest = drop 1 t" "kv' = store_fields (kv(k \<mapsto> v)) hs" unfolding accepts_block_def by blast
  then show ?thesis unfolding accepts_block_def
    by (intro exI [of _ "(k, v) # hs"] exI [of _ t])
      (use assms(2) in \<open>simp add: render_headers_def\<close>)
qed

lemma accepts_cong:
  "accepts_block st s kv kv' rest \<Longrightarrow> s = s' \<Longrightarrow> (in_field st' \<longrightarrow> in_field st) \<Longrightarrow>
     accepts_block st' s' kv kv' rest"
  unfolding accepts_block_def by blast

lemma ref_sound:
  "hdr_ref st k v kv s = RDone kv' rest \<Longrightarrow> line_ok st k v \<Longrightarrow>
     accepts_block st (line_text st k v @ s) kv kv' rest"
proof (induction st k v kv s rule: hdr_ref.induct)
  case (1 st k v kv)
  then show ?case using accepts_end [of "[]"] by (simp split: if_splits)
next
  case (3 k v kv c cs)
  show ?case
  proof (cases "c = CHR '':''")
    case True
    with 3 have "accepts_block H_COLON (k @ '':'' @ cs) kv kv' rest" by simp
    then show ?thesis by (rule accepts_cong) (simp_all add: True in_field_def)
  next
    case False
    with 3 have "accepts_block H_KEY ((k @ [c]) @ cs) kv kv' rest"
      by (simp add: key_ok_snoc split: if_splits)
    then show ?thesis by simp
  qed
next
  case (4 k v kv c cs)
  then have "accepts_block H_SPACES_AFTER_COLON (k @ '': '' @ cs) kv kv' rest" "c = CHR '' ''"
    by (simp_all split: if_splits)
  then show ?case by (auto elim: accepts_cong simp: in_field_def)
next
  case (5 k v kv c cs)
  then have "accepts_block H_VALUE (k @ '': '' @ [c] @ cs) kv kv' rest"
    by (simp add: value_ok_single)
  then show ?case by (rule accepts_cong) (simp_all add: in_field_def)
next
  case (6 k v kv c cs)
  show ?case
  proof (cases "c = CR")
    case True
    with 6 have "accepts_block H_CR (k @ '': '' @ v @ [CR] @ cs) kv kv' rest" by simp
    then show ?thesis by (rule accepts_cong) (simp_all add: True in_field_def)
  next
    case False
    with 6 have "accepts_block H_VALUE (k @ '': '' @ (v @ [c]) @ cs) kv kv' rest"
      by (simp add: value_ok_snoc split: if_splits)
    then show ?thesis by simp
  qed
next
  case (7 k v kv c cs)
  then have c: "c = LF" "hdr_ref H_LF [] [] (kv(k \<mapsto> v)) cs = RDone kv' rest"
    by (simp_all split: if_splits)
  from 7(1) [OF c] have "accepts_block H_LF cs (kv(k \<mapsto> v)) kv' rest"
    by (simp only: line_text.simps line_ok.simps append_Nil simp_thms)
  moreover have "valid_field (k, v)" using 7(3) by (simp only: valid_field_iff line_ok.simps)
  ultimately have "accepts_block H_CR (k @ '': '' @ v @ [CR, LF] @ cs) kv kv' rest"
    by (rule accepts_field)
  then show ?case by (simp add: c(1))
next
  case (8 k v kv c cs)
  show ?case
  proof (cases "c = CR")
    case True
    with 8 have "accepts_block H_END_CR (CR # cs) kv kv' rest" by simp
    then show ?thesis by (rule accepts_cong) (simp_all add: True in_field_def)
  next
    case False
    with 8 have "accepts_block H_KEY ([c] @ cs) kv kv' rest" by (simp add: key_ok_single)
    then show ?thesis by (rule accepts_cong) (simp_all add: in_field_def)
  qed
next
  case (9 k v kv c cs)
  then have "accepts_block H_END_LF (CR # LF # cs) kv kv' rest" "c = LF"
    by (simp_all split: if_splits)
  then show ?case by (auto elim: accepts_cong simp: in_field_def)
next
  case (10 k v kv c cs)
  then show ?case using accepts_end [of "c # cs" kv] by simp
qed simp

lemma ref_start_sound:
  "hdr_ref H_START k v kv s = RDone kv' rest \<Longrightarrow>
     \<exists>skip hs t. header_block skip hs \<and> s = skip @ render_headers hs @ t \<and> rest = drop 1 t \<and>
       kv' = store_fields kv hs"
proof (induction s)
  case (Cons c s)
  show ?case
  proof (cases "c = LF \<or> c = CR")
    case True
    with Cons obtain skip hs t where "header_block skip hs" "s = skip @ render_headers hs @ t"
      "rest = drop 1 t" "kv' = store_fields kv hs" by auto
    with True show ?thesis
      by (intro exI [of _ "c # skip"] exI [of _ hs] exI [of _ t]) (auto simp: header_block_def)
  next
    case False
    with Cons.prems have "hdr_ref H_KEY [c] v kv s = RDone kv' rest" by simp
    from ref_sound [OF this] False obtain hs t where *: "c # s = render_headers hs @ t"
      "list_all valid_field hs" "rest = drop 1 t" "kv' = store_fields kv hs" "hs \<noteq> []"
      by (auto simp: accepts_block_def in_field_def key_ok_single)
    then obtain a b hs' where h: "hs = (a, b) # hs'" by (cases hs) auto
    with * have "hd a = c" by (cases a) (auto simp: render_headers_def)
    with False * h show ?thesis
      by (intro exI [of _ "[]"] exI [of _ hs] exI [of _ t]) (auto simp: header_block_def)
  qed
qed simp

section \<open>Calls that resume inside a line\<close>

text \<open>
  The positions are locals: a call that finds the automaton in the middle of a line starts with
  \<open>-1\<close> in all of them. The lemmas run the loop over the characters of a key and of a value.
\<close>

lemma loop_step:
  assumes "i < length str" "notFinish s" "scan_step str i s = Inr (False, s')"
  shows "ParseHeaders_loop str i s = ParseHeaders_loop str (Suc i) s'"
  using assms by (simp add: ParseHeaders_loop.simps [of str i s])

lemma loop_fault:
  assumes "i < length str" "notFinish s" "scan_step str i s = Inl e"
  shows "ParseHeaders_loop str i s = Inl e"
  using assms by (simp add: ParseHeaders_loop.simps [of str i s])

lemma loop_key_run:
  assumes "str = a @ k @ b" "set k \<inter> {CHR '':'', CR, LF} = {}" "scan_state s = H_KEY" "notFinish s"
  shows "ParseHeaders_loop str (length a) s = ParseHeaders_loop str (length (a @ k)) s"
  using assms
proof (induction k arbitrary: a)
  case (Cons c k)
  have "ParseHeaders_loop str (length a) s = ParseHeaders_loop str (Suc (length a)) s"
    by (rule loop_step) (use Cons.prems in \<open>auto simp: scan_step_def\<close>)
  also have "\<dots> = ParseHeaders_loop str (length ((a @ [c]) @ k)) s"
    using Cons.IH [of "a @ [c]"] Cons.prems by simp
  finally show ?case by simp
qed simp

lemma loop_value_run:
  assumes "str = a @ v @ b" "CR \<notin> set v" "scan_state s = H_VALUE" "notFinish s"
    and "value_start s = int d" "d \<le> length a" "length a + length v \<le> d + 256"
  shows "ParseHeaders_loop str (length a) s = ParseHeaders_loop str (length (a @ v)) s"
  using assms
proof (induction v arbitrary: a)
  case (Cons c v)
  have "int (length a) - int d = int (length a - d)" using Cons.prems by simp
  moreover have "size_t (int (length a - d)) = length a - d" "length a - d \<le> 255"
    using Cons.prems by simp_all
  ultimately have "ParseHeaders_loop str (length a) s = ParseHeaders_loop str (Suc (length a)) s"
    by (intro loop_step) (use Cons.prems in \<open>auto simp: scan_step_def Let_def\<close>)
  also have "\<dots> = ParseHeaders_loop str (length ((a @ [c]) @ v)) s"
    using Cons.IH [of "a @ [c]"] Cons.prems by simp
  finally show ?case by simp
qed simp

lemma loop_resume_key:
  assumes str: "str = k @ '': '' @ v @ [CR, LF] @ t" and k: "set k \<inter> {CHR '':'', CR, LF} = {}"
    and v: "value_ok v" and len: "length str < 2 ^ 31"
  shows "ParseHeaders_loop str 0 (scan_init H_KEY kv) = Inl OutOfRange"
proof -
  let ?n = "length k" and ?m = "length k + 2 + length v"
  let ?s0 = "scan_init H_KEY kv"
  let ?s1 = "?s0\<lparr>key_end := int ?n, scan_state := H_COLON\<rparr>"
  let ?s2 = "?s1\<lparr>scan_state := H_SPACES_AFTER_COLON\<rparr>"
  let ?s3 = "?s2\<lparr>scan_state := H_VALUE, value_start := int (?n + 2)\<rparr>"
  let ?s4 = "?s3\<lparr>scan_state := H_CR, value_end := int ?m\<rparr>"
  from v obtain c w where w: "v = c # w" "CR \<notin> set w" "length w \<le> 255"
    by (cases v) (auto simp: value_ok_def)
  have b: "?m + 1 < length str" "c_int (int ?n) = int ?n" "c_int (int (?n + 2)) = int (?n + 2)"
    "c_int (int ?m) = int ?m" using str len by simp_all
  have at: "str ! ?n = CHR '':''" "str ! Suc ?n = CHR '' ''" "str ! ?m = CR" "str ! Suc ?m = LF"
    using str by (simp_all add: nth_append)
  have "ParseHeaders_loop str 0 ?s0 = ParseHeaders_loop str ?n ?s0"
    using loop_key_run [of str "[]" k _ ?s0] str k by (simp add: scan_init_def)
  also have "\<dots> = ParseHeaders_loop str (Suc ?n) ?s1"
    by (rule loop_step) (use b at in \<open>simp_all add: scan_step_def scan_init_def Let_def\<close>)
  also have "\<dots> = ParseHeaders_loop str (Suc (Suc ?n)) ?s2"
    by (rule loop_step) (use b at in \<open>simp_all add: scan_step_def scan_init_def Let_def\<close>)
  also have "\<dots> = ParseHeaders_loop str (Suc (Suc (Suc ?n))) ?s3"
    by (rule loop_step) (use b at in \<open>simp_all add: scan_step_def scan_init_def Let_def\<close>)
  also have "\<dots> = ParseHeaders_loop str ?m ?s3"
    using loop_value_run [of str "k @ '': '' @ [c]" w "[CR, LF] @ t" ?s3 "?n + 2"] str w
    by (simp add: scan_init_def add_ac)
  also have "\<dots> = ParseHeaders_loop str (Suc ?m) ?s4"
    by (rule loop_step) (use b at w in \<open>simp_all add: scan_step_def scan_init_def Let_def\<close>)
  also have "\<dots> = Inl OutOfRange"
    by (rule loop_fault)
      (use b at in \<open>simp_all add: scan_step_def scan_init_def Let_def iter_range_def\<close>)
  finally show ?thesis .
qed

lemma loop_partial_key:
  assumes "k \<noteq> []" "set k \<inter> {CHR '':'', CR, LF} = {}" "length k < 2 ^ 31"
  shows "ParseHeaders_loop k 0 (scan_init H_START kv) =
    Inr (False, length k, (scan_init H_KEY kv)\<lparr>key_start := 0\<rparr>)"
proof -
  let ?s = "(scan_init H_KEY kv)\<lparr>key_start := 0\<rparr>"
  from assms obtain c w where k: "k = [c] @ w" by (cases k) auto
  have "ParseHeaders_loop k 0 (scan_init H_START kv) = ParseHeaders_loop k (Suc 0) ?s"
    by (rule loop_step) (use assms k in \<open>auto simp: scan_step_def scan_init_def\<close>)
  also have "\<dots> = ParseHeaders_loop k (length k) ?s"
    using loop_key_run [of k "[c]" w "[]" ?s] assms k by (auto simp: scan_init_def)
  also have "\<dots> = Inr (False, length k, ?s)"
    by (simp add: ParseHeaders_loop.simps [of k "length k"])
  finally show ?thesis .
qed

lemma iter_range_mid:
  "iter_range (a @ v @ b) (int (length a)) (int (length a + length v)) = Inr v"
  by (simp add: iter_range_nat del: of_nat_add)

text \<open>Over a whole field that the automaton sees from its beginning.\<close>

lemma loop_field:
  assumes str: "str = a @ render_field (k, v) @ t" and len: "length str < 2 ^ 31" and f: "valid_field (k, v)"
    and s: "scan_state s = H_LF \<or> scan_state s = H_START \<and> hd k \<noteq> LF" "notFinish s"
  shows "\<exists>s'. ParseHeaders_loop str (length a) s = ParseHeaders_loop str (length (a @ render_field (k, v))) s' \<and>
    scan_state s' = H_LF \<and> notFinish s' \<and> scan_kv s' = (scan_kv s)(k \<mapsto> v) \<and>
    now_read_line_begin s' = int (length (a @ render_field (k, v)) - 1)"
proof -
  from f obtain c w where k: "k = c # w" "c \<noteq> CR" "set w \<inter> {CHR '':'', CR, LF} = {}" by (cases k) auto
  from f obtain d y where v: "v = d # y" "CR \<notin> set y" "length y \<le> 255" by (cases v) auto
  let ?p = "length a" and ?n = "length a + length k" and ?m = "length a + length k + 2 + length v"
  let ?s1 = "if scan_state s = H_LF then s\<lparr>key_start := int ?p, scan_state := H_KEY\<rparr>
    else s\<lparr>scan_state := H_KEY, key_start := int ?p, now_read_line_begin := int ?p\<rparr>"
  let ?s2 = "?s1\<lparr>key_end := int ?n, scan_state := H_COLON\<rparr>"
  let ?s3 = "?s2\<lparr>scan_state := H_SPACES_AFTER_COLON\<rparr>"
  let ?s4 = "?s3\<lparr>scan_state := H_VALUE, value_start := int (?n + 2)\<rparr>"
  let ?s5 = "?s4\<lparr>scan_state := H_CR, value_end := int ?m\<rparr>"
  let ?s6 = "?s5\<lparr>scan_state := H_LF, scan_kv := (scan_kv s)(k \<mapsto> v), now_read_line_begin := int (Suc ?m)\<rparr>"
  have str': "str = a @ k @ '': '' @ v @ [CR, LF] @ t" using str by simp
  have b: "?m + 1 < length str" "c_int (int ?p) = int ?p" "c_int (int ?n) = int ?n" "c_int (int (?n + 2)) = int (?n + 2)"
    "c_int (int ?m) = int ?m" "c_int (int (Suc ?m)) = int (Suc ?m)" using str' len by simp_all
  have at: "str ! ?p = c" "str ! ?n = CHR '':''" "str ! Suc ?n = CHR '' ''" "str ! ?m = CR" "str ! Suc ?m = LF"
    using str' k(1) by (simp_all add: nth_append)
  have "ParseHeaders_loop str ?p s = ParseHeaders_loop str (Suc ?p) ?s1"
    by (rule loop_step) (use b at s k(1,2) in \<open>auto simp: scan_step_def Let_def\<close>)
  also have "\<dots> = ParseHeaders_loop str ?n ?s1"
    using loop_key_run [of str "a @ [c]" w "'': '' @ v @ [CR, LF] @ t" ?s1] str' k s(2) by simp
  also have "\<dots> = ParseHeaders_loop str (Suc ?n) ?s2"
    by (rule loop_step) (use b at s k(1) in \<open>auto simp: scan_step_def Let_def\<close>)
  also have "\<dots> = ParseHeaders_loop str (Suc (Suc ?n)) ?s3"
    by (rule loop_step) (use b at s in \<open>auto simp: scan_step_def Let_def\<close>)
  also have "\<dots> = ParseHeaders_loop str (Suc (Suc (Suc ?n))) ?s4"
    by (rule loop_step) (use b at s in \<open>auto simp: scan_step_def Let_def\<close>)
  also have "\<dots> = ParseHeaders_loop str ?m ?s4"
    using loop_value_run [of str "a @ k @ '': '' @ [d]" y "[CR, LF] @ t" ?s4 "?n + 2"] str' v s(2)
    by (simp add: add_ac)
  also have "\<dots> = ParseHeaders_loop str (Suc ?m) ?s5"
    by (rule loop_step) (use b at v s in \<open>auto simp: scan_step_def Let_def\<close>)
  also have "\<dots> = ParseHeaders_loop str (Suc (Suc ?m)) ?s6"
  proof (rule loop_step)
    have "iter_range str (int ?p) (int ?n) = Inr k" "iter_range str (int (?n + 2)) (int ?m) = Inr v"
      using iter_range_mid [of a k "'': '' @ v @ [CR, LF] @ t"]
        iter_range_mid [of "a @ k @ '': ''" v "[CR, LF] @ t"] str' by (simp_all add: add_ac)
    then show "scan_step str (Suc ?m) ?s5 = Inr (False, ?s6)"
      using b at by (simp add: scan_step_def Let_def)
  qed (use b s in auto)
  finally show ?thesis using s(2) by (intro exI [of _ ?s6]) (simp add: add.assoc)
qed

lemma loop_fields:
  assumes "str = a @ concat (map render_field hs) @ t" "length str < 2 ^ 31" "list_all valid_field hs"
    and "hs \<noteq> []" "scan_state s = H_LF \<or> scan_state s = H_START \<and> hd (fst (hd hs)) \<noteq> LF" "notFinish s"
  shows "\<exists>s'. ParseHeaders_loop str (length a) s = ParseHeaders_loop str (length (a @ concat (map render_field hs))) s' \<and>
    scan_state s' = H_LF \<and> notFinish s' \<and> scan_kv s' = store_fields (scan_kv s) hs \<and>
    now_read_line_begin s' = int (length (a @ concat (map render_field hs)) - 1)"
  using assms
proof (induction hs arbitrary: a s)
  case (Cons h hs)
  obtain k v where h: "h = (k, v)" by (cases h)
  have str: "str = a @ render_field (k, v) @ concat (map render_field hs) @ t" using Cons.prems(1) h by simp
  have f: "valid_field (k, v)" "scan_state s = H_LF \<or> scan_state s = H_START \<and> hd k \<noteq> LF"
    using Cons.prems(3,5) h by auto
  obtain s1 where s1: "ParseHeaders_loop str (length a) s = ParseHeaders_loop str (length (a @ render_field (k, v))) s1"
    "scan_state s1 = H_LF" "notFinish s1" "scan_kv s1 = (scan_kv s)(k \<mapsto> v)"
    "now_read_line_begin s1 = int (length (a @ render_field (k, v)) - 1)"
    using loop_field [OF str Cons.prems(2) f Cons.prems(6)] by blast
  show ?case
  proof (cases "hs = []")
    case True
    then show ?thesis using s1 h by (intro exI [of _ s1]) (simp add: store_fields_def)
  next
    case False
    have "str = (a @ render_field (k, v)) @ concat (map render_field hs) @ t" using str by simp
    from Cons.IH [OF this Cons.prems(2) _ False, of s1] Cons.prems(3) s1(2,3) obtain s2 where
      s2: "ParseHeaders_loop str (length (a @ render_field (k, v))) s1 =
          ParseHeaders_loop str (length ((a @ render_field (k, v)) @ concat (map render_field hs))) s2"
        "scan_state s2 = H_LF" "notFinish s2" "scan_kv s2 = store_fields (scan_kv s1) hs"
        "now_read_line_begin s2 = int (length ((a @ render_field (k, v)) @ concat (map render_field hs)) - 1)" by auto
    show ?thesis using s1(1,4) s2 h by (intro exI [of _ s2]) (simp add: store_fields_def)
  qed
qed simp

text \<open>A buffer that ends inside the key of a line after the first.\<close>

lemma loop_later_key:
  assumes str: "str = concat (map render_field hs) @ k" and len: "length str < 2 ^ 31"
    and hs: "list_all valid_field hs" "hs \<noteq> []" "hd (fst (hd hs)) \<noteq> LF"
    and k: "k \<noteq> []" "set k \<inter> {CHR '':'', CR, LF} = {}"
  shows "\<exists>s. ParseHeaders_loop str 0 (scan_init H_START kv) = Inr (False, length str, s) \<and> scan_state s = H_KEY \<and>
    scan_kv s = store_fields kv hs \<and> now_read_line_begin s = int (length (concat (map render_field hs)) - 1)"
proof -
  let ?f = "concat (map render_field hs)"
  obtain s1 where s1: "ParseHeaders_loop str 0 (scan_init H_START kv) = ParseHeaders_loop str (length ?f) s1"
    "scan_state s1 = H_LF" "notFinish s1" "scan_kv s1 = store_fields kv hs" "now_read_line_begin s1 = int (length ?f - 1)"
    using loop_fields [of str "[]" hs k "scan_init H_START kv"] str len hs by (auto simp: scan_init_def)
  obtain c w where cw: "k = c # w" using k(1) by (cases k) auto
  let ?s = "s1\<lparr>key_start := int (length ?f), scan_state := H_KEY\<rparr>"
  have b: "length ?f < length str" "c_int (int (length ?f)) = int (length ?f)" "str ! length ?f = c"
    using str len cw by (simp_all add: nth_append)
  have "ParseHeaders_loop str (length ?f) s1 = ParseHeaders_loop str (Suc (length ?f)) ?s"
    by (rule loop_step) (use b s1 k cw in \<open>auto simp: scan_step_def\<close>)
  also have "\<dots> = ParseHeaders_loop str (length str) ?s"
    using loop_key_run [of str "?f @ [c]" w "[]" ?s] str cw k(2) s1(3) by simp
  also have "\<dots> = Inr (False, length str, ?s)" by (simp add: ParseHeaders_loop.simps [of str "length str"])
  finally show ?thesis using s1 by (intro exI [of _ ?s]) simp
qed

lemma fields_end:
  assumes "hs \<noteq> []"
  shows "drop (length (concat (map render_field hs)) - 1) (concat (map render_field hs) @ k) = LF # k"
proof -
  obtain hs' h where "hs = hs' @ [h]" using assms by (meson rev_exhaust)
  moreover obtain a b where "h = (a, b)" by (cases h)
  ultimately have "concat (map render_field hs) = (concat (map render_field hs') @ a @ '': '' @ b @ [CR]) @ [LF]" by simp
  then obtain A where "concat (map render_field hs) = A @ [LF]" by blast
  then show ?thesis by simp
qed

section \<open>Properties\<close>

text \<open>
  C18. The indexed loop of \<open>ParseHeaders\<close>, with its eight positions, decides and stores exactly
  what the automaton over characters does, and it never leaves the buffer, when the call does not
  start in the middle of a line.
\<close>

theorem ParseHeaders_refines_reference:
  assumes "header_line_state x \<in> {H_START, H_LF, H_END_CR, H_END_LF}"
    and "length (read_buffer x) < 2 ^ 31"
  shows "parsed_as x (ParseHeaders x)
    (hdr_ref (header_line_state x) [] [] (header_kv x) (read_buffer x))"
  using ParseHeaders_refines assms by (simp add: position_free_def)

lemma ParseHeaders_refines_reference_witness:
  "let x = (new_Http 0 7 True)\<lparr>read_buffer := ''A: b'' @ [CR, LF] @ ''C''\<rparr> in
   parsed_as x (ParseHeaders x) (RMore H_KEY [''A'' \<mapsto> ''b''])"
proof -
  let ?x = "(new_Http 0 7 True)\<lparr>read_buffer := ''A: b'' @ [CR, LF] @ ''C''\<rparr>"
  have "hdr_ref (header_line_state ?x) [] [] (header_kv ?x) (read_buffer ?x) =
      RMore H_KEY [''A'' \<mapsto> ''b'']"
    by (simp add: new_Http_def CR_def LF_def)
  with ParseHeaders_refines_reference [of ?x] show ?thesis by (simp add: new_Http_def)
qed

text \<open>
  C8. A call from the start state answers \<open>PARSE_HEADER_SUCCESS\<close> exactly on the buffers that
  begin with a block of the grammar; it stores the fields in order, a later field with the same
  name overwriting, and it drops one character after the block, the first of a following request.
\<close>

theorem ParseHeaders_success_iff:
  assumes "header_line_state x = H_START" "length (read_buffer x) < 2 ^ 31"
  shows "ParseHeaders x = Inr (PARSE_HEADER_SUCCESS, x') \<longleftrightarrow>
    (\<exists>skip hs t. header_block skip hs \<and> read_buffer x = skip @ render_headers hs @ t \<and>
       x' = x\<lparr>header_line_state := H_END_LF, header_kv := store_fields (header_kv x) hs,
              read_buffer := drop 1 t\<rparr>)"
proof -
  let ?r = "hdr_ref H_START [] [] (header_kv x) (read_buffer x)"
  have p: "parsed_as x (ParseHeaders x) ?r"
    using ParseHeaders_refines [of x] assms by (simp add: position_free_def)
  show ?thesis
  proof
    assume s: "ParseHeaders x = Inr (PARSE_HEADER_SUCCESS, x')"
    with p obtain kv rest where "?r = RDone kv rest" by (cases ?r) auto
    with p s ref_start_sound [of "[]" "[]" "header_kv x" "read_buffer x" kv rest]
    show "\<exists>skip hs t. header_block skip hs \<and> read_buffer x = skip @ render_headers hs @ t \<and>
       x' = x\<lparr>header_line_state := H_END_LF, header_kv := store_fields (header_kv x) hs,
              read_buffer := drop 1 t\<rparr>" by auto
  next
    assume "\<exists>skip hs t. header_block skip hs \<and> read_buffer x = skip @ render_headers hs @ t \<and>
       x' = x\<lparr>header_line_state := H_END_LF, header_kv := store_fields (header_kv x) hs,
              read_buffer := drop 1 t\<rparr>"
    then obtain skip hs t where "header_block skip hs" "read_buffer x = skip @ render_headers hs @ t"
      "x' = x\<lparr>header_line_state := H_END_LF, header_kv := store_fields (header_kv x) hs,
              read_buffer := drop 1 t\<rparr>" by blast
    with p ref_complete show "ParseHeaders x = Inr (PARSE_HEADER_SUCCESS, x')" by simp
  qed
qed

lemma ParseHeaders_success_iff_witness:
  "ParseHeaders ((new_Http 0 7 True)\<lparr>read_buffer := ''A: b'' @ [CR, LF, CR, LF] @ ''GET''\<rparr>) =
     Inr (PARSE_HEADER_SUCCESS, (new_Http 0 7 True)\<lparr>header_line_state := H_END_LF,
       header_kv := [''A'' \<mapsto> ''b''], read_buffer := ''ET''\<rparr>)"
  by (rule ParseHeaders_success_iff [THEN iffD2],
      simp add: new_Http_def, simp,
      intro exI [of _ "[]"] exI [of _ "[(''A'', ''b'')]"] exI [of _ "''GET''"])
    (simp add: header_block_def render_headers_def new_Http_def CR_def LF_def)

text \<open>
  C29. A header line with a value of 1 to 256 characters that arrives in two pieces, cut inside its
  key, is never read. If it is the first
  line, the first call leaves the automaton in \<open>H_KEY\<close>, and the second, whose \<open>key_start\<close> is -1 again,
  builds the key from an iterator before the beginning of the buffer. If complete lines come before it,
  the first call keeps the buffer from the line feed before the key on, and with this line feed in
  state \<open>H_KEY\<close> the second answers \<open>PARSE_HEADER_ERROR\<close>, whatever arrives.
\<close>

theorem ParseHeaders_split_key:
  assumes "key1 \<noteq> []" "set (key1 @ key2) \<inter> {CHR '':'', CR, LF} = {}" "value_ok v"
    and "length (concat (map render_field hs) @ key1 @ key2 @ '': '' @ v @ [CR, LF] @ t) < 2 ^ 31"
    and "list_all valid_field hs" "hs \<noteq> [] \<longrightarrow> hd (fst (hd hs)) \<noteq> LF"
    and "header_line_state x = H_START" "read_buffer x = concat (map render_field hs) @ key1"
  shows "if hs = []
    then ParseHeaders x = Inr (PARSE_HEADER_AGAIN, x\<lparr>header_line_state := H_KEY\<rparr>) \<and>
      ParseHeaders (x\<lparr>header_line_state := H_KEY,
        read_buffer := key1 @ key2 @ '': '' @ v @ [CR, LF] @ t\<rparr>) = Inl OutOfRange
    else let y = x\<lparr>header_line_state := H_KEY, header_kv := store_fields (header_kv x) hs, read_buffer := LF # key1\<rparr> in
      ParseHeaders x = Inr (PARSE_HEADER_AGAIN, y) \<and>
      (\<forall>more. ParseHeaders (y\<lparr>read_buffer := read_buffer y @ more\<rparr>) =
         Inr (PARSE_HEADER_ERROR, y\<lparr>read_buffer := read_buffer y @ more\<rparr>))"
proof (cases "hs = []")
  case True
  have "length key1 < 2 ^ 31" "set key1 \<inter> {CHR '':'', CR, LF} = {}" using assms(2,4) by auto
  with loop_partial_key [of key1 "header_kv x"] assms(1,7,8) True
  have "ParseHeaders x = Inr (PARSE_HEADER_AGAIN, x\<lparr>header_line_state := H_KEY\<rparr>)"
    by (cases x) (simp add: ParseHeaders_def scan_init_def substr_to_end_def)
  moreover from loop_resume_key [OF _ assms(2,3), of _ t "header_kv x"] assms(4) True
  have "ParseHeaders (x\<lparr>header_line_state := H_KEY,
      read_buffer := key1 @ key2 @ '': '' @ v @ [CR, LF] @ t\<rparr>) = Inl OutOfRange"
    by (simp add: ParseHeaders_def)
  ultimately show ?thesis using True by simp
next
  case False
  let ?f = "concat (map render_field hs)"
  have k: "set key1 \<inter> {CHR '':'', CR, LF} = {}" "length (?f @ key1) < 2 ^ 31" using assms(2,4) by auto
  obtain s where s: "ParseHeaders_loop (read_buffer x) 0 (scan_init H_START (header_kv x)) = Inr (False, length (read_buffer x), s)"
    "scan_state s = H_KEY" "scan_kv s = store_fields (header_kv x) hs" "now_read_line_begin s = int (length ?f - 1)"
    using loop_later_key [OF assms(8) _ assms(5) False _ assms(1) k(1), of "header_kv x"] assms(6,8) False k(2) by auto
  let ?y = "x\<lparr>header_line_state := H_KEY, header_kv := store_fields (header_kv x) hs, read_buffer := LF # key1\<rparr>"
  have n: "size_t (int (length ?f - 1)) = length ?f - 1" "length ?f - 1 \<le> length (?f @ key1)" using k(2) by simp_all
  have "ParseHeaders x = Inr (PARSE_HEADER_AGAIN, ?y)"
    using s assms(7) n fields_end [OF False, of key1]
    by (simp add: ParseHeaders_def assms(8) substr_to_end_def Let_def)
  moreover have "ParseHeaders (?y\<lparr>read_buffer := read_buffer ?y @ more\<rparr>) =
      Inr (PARSE_HEADER_ERROR, ?y\<lparr>read_buffer := read_buffer ?y @ more\<rparr>)" for more
    by (simp add: ParseHeaders_def ParseHeaders_loop.simps [of _ 0] scan_step_def scan_init_def LF_def)
  ultimately show ?thesis using False by (simp add: Let_def)
qed

lemma ParseHeaders_split_key_witness:
  "ParseHeaders ((new_Http 0 7 True)\<lparr>header_line_state := H_KEY,
     read_buffer := ''Host: x'' @ [CR, LF]\<rparr>) = Inl OutOfRange \<and>
   ParseHeaders ((new_Http 0 7 True)\<lparr>read_buffer := ''A: b'' @ [CR, LF] @ ''Ho''\<rparr>) =
     Inr (PARSE_HEADER_AGAIN, (new_Http 0 7 True)\<lparr>header_line_state := H_KEY, header_kv := [''A'' \<mapsto> ''b''],
       read_buffer := LF # ''Ho''\<rparr>)"
proof
  show "ParseHeaders ((new_Http 0 7 True)\<lparr>header_line_state := H_KEY,
      read_buffer := ''Host: x'' @ [CR, LF]\<rparr>) = Inl OutOfRange"
    using ParseHeaders_split_key [of "''Ho''" "''st''" "''x''" "[]" "[]" "(new_Http 0 7 True)\<lparr>read_buffer := ''Ho''\<rparr>"]
    by (simp add: new_Http_def value_ok_def CR_def LF_def)
  show "ParseHeaders ((new_Http 0 7 True)\<lparr>read_buffer := ''A: b'' @ [CR, LF] @ ''Ho''\<rparr>) =
      Inr (PARSE_HEADER_AGAIN, (new_Http 0 7 True)\<lparr>header_line_state := H_KEY, header_kv := [''A'' \<mapsto> ''b''],
        read_buffer := LF # ''Ho''\<rparr>)"
    using ParseHeaders_split_key [of "''Ho''" "''st''" "''x''" "[(''A'', ''b'')]" "[]"
        "(new_Http 0 7 True)\<lparr>read_buffer := ''A: b'' @ [CR, LF] @ ''Ho''\<rparr>"]
    by (simp add: new_Http_def value_ok_def CR_def LF_def Let_def store_fields_def)
qed

end
