(* ===== verification/Http_Response.thy ===== *)
theory Http_Response
  imports Http_Data SocketIO
begin

text \<open>
  The responses of \<^verbatim>\<open>src/Server/Http.cpp\<close>: the table of content types, \<open>ProcessRequest\<close> that
  builds the answer to a GET request in the write buffer, and the error page \<open>HandleError\<close> writes
  straight to the descriptor. The file system is the parameter \<open>files\<close>: what \<open>stat\<close>, \<open>open\<close> and
  \<open>mmap\<close> answer.
\<close>

section \<open>Content types\<close>

definition resource_type_map :: "(string \<times> string) list" where
  "resource_type_map =
    [(''.html'', ''text/html''),
     (''.avi'', ''video/x-msvideo''),
     (''.bmp'', ''image/bmp''),
     (''.c'', ''text/plain''),
     (''.doc'', ''application/msword''),
     (''.gif'', ''image/gif''),
     (''.gz'', ''application/x-gzip''),
     (''.htm'', ''text/html''),
     (''.ico'', ''image/x-icon''),
     (''.jpg'', ''image/jpeg''),
     (''.png'', ''image/png''),
     (''.txt'', ''text/plain''),
     (''.mp3'', ''audio/mp3''),
     (''default'', ''text/html'')]"

text \<open>\<open>operator[]\<close> on a missing key would insert an empty string.\<close>

definition GetResourceType :: "string \<Rightarrow> string" where
  "GetResourceType suffix =
     (case map_of resource_type_map suffix of
        None \<Rightarrow> (case map_of resource_type_map ''default'' of None \<Rightarrow> [] | Some t \<Rightarrow> t)
      | Some t \<Rightarrow> t)"

definition content_type :: "string \<Rightarrow> string result" where
  "content_type path =
     (let dot_pos = int_pos (find_sub ''.'' path) in
      if dot_pos < 0 then Inr (GetResourceType ''default'')
      else bindR (substr_to_end path (nat dot_pos)) (\<lambda>suffix. Inr (GetResourceType suffix)))"

lemma GetResourceType_unknown:
  "suffix \<notin> fst ` set resource_type_map \<Longrightarrow> GetResourceType suffix = ''text/html''"
proof -
  assume "suffix \<notin> fst ` set resource_type_map"
  then have "map_of resource_type_map suffix = None" by (simp add: map_of_eq_None_iff)
  then show ?thesis by (simp add: GetResourceType_def) (simp add: resource_type_map_def)
qed

lemma content_type_total:
  assumes "length path < 2 ^ 31"
  shows "content_type path =
    Inr (GetResourceType (if CHR ''.'' \<in> set path then dropWhile (\<lambda>c. c \<noteq> CHR ''.'') path
                          else ''default''))"
proof (cases "CHR ''.'' \<in> set path")
  case True
  let ?n = "length (takeWhile (\<lambda>c. c \<noteq> CHR ''.'') path)"
  have "?n < length path" using True by (rule length_takeWhile_less)
  then show ?thesis
    using True assms by (simp add: content_type_def find_sub_char dropWhile_eq_drop)
next
  case False
  then show ?thesis by (simp add: content_type_def find_sub_char)
qed

section \<open>Error pages\<close>

definition SEND_BUFF_SIZE :: nat where
  "SEND_BUFF_SIZE = 4096"

text \<open>The title is UTF-8 text, given here by its bytes.\<close>

definition error_title :: string where
  "error_title =
    [CHR 0xE5, CHR 0x93, CHR 0x8E, CHR ''~'', CHR 0xE5, CHR 0x87, CHR 0xBA,
     CHR 0xE9, CHR 0x94, CHR 0x99, CHR 0xE4, CHR 0xBA, CHR 0x86]"

definition error_body :: "nat \<Rightarrow> string \<Rightarrow> string" where
  "error_body err_code err_msg =
     ''<html><title>'' @ error_title @ ''</title>'' @
     ''<body bgcolor='' @ [CHR 0x22] @ ''ffffff'' @ [CHR 0x22] @ ''>'' @
     to_string err_code @ '' '' @ err_msg @
     ''<hr><em> Flash Web Server</em>'' @ [LF] @ ''</body></html>''"

definition error_header :: "nat \<Rightarrow> string \<Rightarrow> string" where
  "error_header err_code err_msg =
     ''HTTP/1.1 '' @ to_string err_code @ '' '' @ err_msg @ CRLF @
     ''Content-Type: text/html'' @ CRLF @
     ''Connection: Close'' @ CRLF @
     ''Content-Length: '' @ to_string (length (error_body err_code err_msg)) @ CRLF @
     ''Server: Flash Web Server'' @ CRLF @
     CRLF"

text \<open>
  \<open>sprintf\<close> into the 4096 bytes of \<open>send_buff\<close> stores the characters up to the first NUL and a
  terminator; \<open>strlen\<close> of the result is sent. A failed write is only reported with \<open>perror\<close>.
\<close>

definition send_page :: "sock \<Rightarrow> string \<Rightarrow> sock result" where
  "send_page sk text =
     (if length (c_str text) + 1 > SEND_BUFF_SIZE then Inl OutOfRange
      else Inr (snd (WriteToFd_buf sk (c_str text))))"

definition HandleErrorPage :: "sock \<Rightarrow> nat \<Rightarrow> string \<Rightarrow> sock result" where
  "HandleErrorPage sk err_code err_msg =
     bindR (send_page sk (error_header err_code err_msg)) (\<lambda>sk.
     send_page sk (error_body err_code err_msg))"

text \<open>A page without NUL characters and short enough for the buffer.\<close>

lemma error_body_no_NUL: "CHR 0x00 \<notin> set msg \<Longrightarrow> CHR 0x00 \<notin> set (error_body code msg)"
  using to_string_no_NUL [of code] by (auto simp: error_body_def error_title_def LF_def)

lemma error_header_no_NUL: "CHR 0x00 \<notin> set msg \<Longrightarrow> CHR 0x00 \<notin> set (error_header code msg)"
  using to_string_no_NUL by (auto simp: error_header_def CRLF_def)

lemma error_body_length:
  "length (error_body code msg) = 103 + length (to_string code) + length msg"
  by (simp add: error_body_def error_title_def)

lemma error_header_length:
  "length (error_header code msg) \<le> 130 + length (to_string code) + length msg +
    length (to_string (length (error_body code msg)))"
  by (simp add: error_header_def CRLF_def)

lemma page_fits:
  assumes "code < 1000" "length msg \<le> 3000"
  shows "length (error_header code msg) < SEND_BUFF_SIZE" "length (error_body code msg) < SEND_BUFF_SIZE"
proof -
  have c: "length (to_string code) \<le> 3" using length_to_string_bound [of code 3] assms(1) by simp
  then have b: "length (error_body code msg) < 4000" using assms(2) by (simp add: error_body_length)
  then have "length (to_string (length (error_body code msg))) \<le> 4"
    using length_to_string_bound [of _ 4] by simp
  with c assms(2) error_header_length [of code msg]
  show "length (error_header code msg) < SEND_BUFF_SIZE" by (simp add: SEND_BUFF_SIZE_def)
  show "length (error_body code msg) < SEND_BUFF_SIZE" using b by (simp add: SEND_BUFF_SIZE_def)
qed

lemma send_page_ok:
  assumes "CHR 0x00 \<notin> set text" "length text < SEND_BUFF_SIZE"
  shows "send_page sk text = Inr (snd (WriteToFd_buf sk text))"
  using assms by (simp add: send_page_def c_str_id)

lemma HandleErrorPage_total:
  assumes "code < 1000" "length msg \<le> 3000" "CHR 0x00 \<notin> set msg"
  shows "HandleErrorPage sk code msg =
    Inr (snd (WriteToFd_buf (snd (WriteToFd_buf sk (error_header code msg))) (error_body code msg)))"
  using assms page_fits [of code msg]
  by (simp add: HandleErrorPage_def send_page_ok error_header_no_NUL error_body_no_NUL)

lemma send_page_frame:
  "send_page sk text = Inr sk' \<Longrightarrow> rd_script sk' = rd_script sk \<and> (\<exists>p. sent sk' = sent sk @ p)"
  by (cases "WriteToFd_buf sk (c_str text)")
    (auto simp: send_page_def elim: WriteToFd_buf_split split: if_splits)

lemma HandleErrorPage_frame:
  "HandleErrorPage sk code msg = Inr sk' \<Longrightarrow>
     rd_script sk' = rd_script sk \<and> (\<exists>p. sent sk' = sent sk @ p)"
  by (auto simp: HandleErrorPage_def dest!: send_page_frame)

section \<open>\<open>ProcessRequest\<close>\<close>

text \<open>
  The file system as the handler sees it: the size \<open>stat\<close> reports, the handle \<open>open\<close> gives, the
  bytes \<open>mmap\<close> maps for a handle and a length (\<open>None\<close> for each call that fails).
\<close>

record files =
  fs_stat :: "string \<Rightarrow> nat option"
  fs_open :: "string \<Rightarrow> nat option"
  fs_mmap :: "nat \<Rightarrow> nat \<Rightarrow> string option"

definition DEFAULT_EXPIRE_TIME :: int where
  "DEFAULT_EXPIRE_TIME = 3 * 1000"

definition DEFAULT_KEEP_ALIVE_TIME :: int where
  "DEFAULT_KEEP_ALIVE_TIME = 60 * 1000"

definition state_line :: "HttpVersion \<Rightarrow> string" where
  "state_line v =
     ''HTTP/'' @ (case v of HTTP_11 \<Rightarrow> ''1.1'' | HTTP_10 \<Rightarrow> ''1.0'') @ '' 200 OK'' @ CRLF"

definition wants_keep_alive :: "(string \<Rightarrow> string option) \<Rightarrow> bool" where
  "wants_keep_alive kv \<longleftrightarrow>
     (case kv ''Connection'' of None \<Rightarrow> False
      | Some v \<Rightarrow> v = ''Keep-Alive'' \<or> v = ''keep-alive'')"

definition keep_alive_header :: string where
  "keep_alive_header =
     ''Connection: Keep-Alive'' @ CRLF @ ''Keep-Alive: timeout='' @
     to_string (nat DEFAULT_KEEP_ALIVE_TIME) @ CRLF"

definition entity_header :: "string \<Rightarrow> nat \<Rightarrow> string" where
  "entity_header filetype st_size =
     ''Content-Type: '' @ filetype @ CRLF @
     ''Content-Length: '' @ to_string st_size @ CRLF @
     ''Server: FlashWeb Server'' @ CRLF @ CRLF"

definition ProcessRequest ::
  "files \<Rightarrow> Http \<Rightarrow> sock \<Rightarrow> (ProcessRequestState \<times> Http \<times> sock) result" where
  "ProcessRequest fs x sk =
     (case http_method x of
        None \<Rightarrow> Inl UninitialisedRead
      | Some METHOD_POST \<Rightarrow> Inl MissingReturn
      | Some METHOD_GET \<Rightarrow>
          let x = x\<lparr>write_buffer := write_buffer x @ state_line (http_version x)\<rparr>;
              alive = wants_keep_alive (header_kv x);
              header = (if alive then keep_alive_header else []);
              x = (if alive then x\<lparr>keep_alive := True\<rparr> else x);
              path = c_str (file_path x)
          in case fs_stat fs path of
            None \<Rightarrow>
              bindR (HandleErrorPage sk 404 ''Not Found!'') (\<lambda>sk. Inr (ProcessError, x, sk))
          | Some st_size \<Rightarrow>
              bindR (content_type (file_path x)) (\<lambda>filetype.
              let x = x\<lparr>write_buffer := write_buffer x @ header @ entity_header filetype st_size\<rparr> in
              case fs_open fs path of
                None \<Rightarrow>
                  bindR (HandleErrorPage sk 404 ''Not Found!'') (\<lambda>sk.
                  Inr (ProcessError, x\<lparr>write_buffer := []\<rparr>, sk))
              | Some file_fd \<Rightarrow>
                  (case fs_mmap fs file_fd st_size of
                     None \<Rightarrow>
                       bindR (HandleErrorPage sk 404 ''Not Found!'') (\<lambda>sk.
                       Inr (ProcessError, x\<lparr>write_buffer := []\<rparr>, sk))
                   | Some bytes \<Rightarrow>
                       Inr (ProcessSuccess, x\<lparr>write_buffer := write_buffer x @ bytes\<rparr>, sk))))"

text \<open>The response a GET request for an existing file gets, as one piece of text.\<close>

definition response :: "HttpVersion \<Rightarrow> bool \<Rightarrow> string \<Rightarrow> string \<Rightarrow> string" where
  "response v alive path body =
     state_line v @ (if alive then keep_alive_header else []) @
     entity_header
       (GetResourceType (if CHR ''.'' \<in> set path then dropWhile (\<lambda>c. c \<noteq> CHR ''.'') path
                         else ''default''))
       (length body) @ body"

text \<open>A readable regular file: \<open>stat\<close>, \<open>open\<close> and \<open>mmap\<close> agree on its bytes.\<close>

definition readable_file :: "files \<Rightarrow> string \<Rightarrow> string \<Rightarrow> bool" where
  "readable_file fs path bytes \<longleftrightarrow>
     fs_stat fs path = Some (length bytes) \<and>
     (case fs_open fs path of None \<Rightarrow> False
      | Some h \<Rightarrow> fs_mmap fs h (length bytes) = Some bytes)"

lemma ProcessRequest_ok:
  assumes "http_method x = Some METHOD_GET" "readable_file fs (c_str (file_path x)) bytes"
    and "length (file_path x) < 2 ^ 31"
  shows "ProcessRequest fs x sk = Inr (ProcessSuccess,
    x\<lparr>keep_alive := (keep_alive x \<or> wants_keep_alive (header_kv x)),
      write_buffer := write_buffer x @
        response (http_version x) (wants_keep_alive (header_kv x)) (file_path x) bytes\<rparr>, sk)"
  using assms content_type_total [OF assms(3)]
  by (auto simp: ProcessRequest_def readable_file_def response_def Let_def split: option.splits)

lemma ProcessRequest_missing:
  assumes "http_method x = Some METHOD_GET" "fs_stat fs (c_str (file_path x)) = None"
  shows "ProcessRequest fs x sk =
    bindR (HandleErrorPage sk 404 ''Not Found!'') (\<lambda>sk. Inr (ProcessError,
      x\<lparr>write_buffer := write_buffer x @ state_line (http_version x),
        keep_alive := (keep_alive x \<or> wants_keep_alive (header_kv x))\<rparr>, sk))"
  using assms by (auto simp: ProcessRequest_def Let_def)

text \<open>What the handler changes: the write buffer, and \<open>keep_alive_\<close> to true at most.\<close>

definition process_frame :: "Http \<Rightarrow> Http \<Rightarrow> bool" where
  "process_frame x x' \<longleftrightarrow>
     x' = x\<lparr>write_buffer := write_buffer x', keep_alive := keep_alive x'\<rparr> \<and>
     (keep_alive x \<longrightarrow> keep_alive x')"

lemma ProcessRequest_frame:
  assumes "ProcessRequest fs x sk = Inr (r, x', sk')"
  shows "process_frame x x' \<and> rd_script sk' = rd_script sk \<and> (\<exists>p. sent sk' = sent sk @ p)"
  using assms
  by (auto simp: ProcessRequest_def process_frame_def Let_def
      split: option.split_asm HttpMethod.split_asm if_split_asm dest!: HandleErrorPage_frame)

text \<open>With a stored GET request, no fault: the pages fit their buffer, the suffix its string.\<close>

lemma not_found_page: "HandleErrorPage sk 404 ''Not Found!'' \<noteq> Inl e"
  by (simp add: HandleErrorPage_total)

lemma ProcessRequest_total:
  assumes "http_method x = Some METHOD_GET" "length (file_path x) < 2 ^ 31"
  shows "\<exists>r x' sk'. ProcessRequest fs x sk = Inr (r, x', sk')"
  using assms content_type_total [OF assms(2)]
  by (auto simp: ProcessRequest_def Let_def HandleErrorPage_total split: option.split)

section \<open>Properties\<close>

text \<open>
  C21. A GET request for a readable file appends one complete response to the write buffer, whose
  Content-Length, read back as a decimal number, is the length of the body that follows.
\<close>

theorem ProcessRequest_response:
  assumes "http_method x = Some METHOD_GET" "readable_file fs (c_str (file_path x)) bytes"
    and "length (file_path x) < 2 ^ 31"
  shows "\<exists>front len. ProcessRequest fs x sk = Inr (ProcessSuccess,
      x\<lparr>keep_alive := (keep_alive x \<or> wants_keep_alive (header_kv x)),
        write_buffer := write_buffer x @ state_line (http_version x) @ front @
          ''Content-Length: '' @ len @ CRLF @ ''Server: FlashWeb Server'' @ CRLF @ CRLF @ bytes\<rparr>, sk) \<and>
    of_decimal len = length bytes"
proof (intro exI conjI)
  let ?type = "GetResourceType (if CHR ''.'' \<in> set (file_path x)
    then dropWhile (\<lambda>c. c \<noteq> CHR ''.'') (file_path x) else ''default'')"
  show "ProcessRequest fs x sk = Inr (ProcessSuccess,
      x\<lparr>keep_alive := (keep_alive x \<or> wants_keep_alive (header_kv x)),
        write_buffer := write_buffer x @ state_line (http_version x) @
          ((if wants_keep_alive (header_kv x) then keep_alive_header else []) @
            ''Content-Type: '' @ ?type @ CRLF) @
          ''Content-Length: '' @ to_string (length bytes) @ CRLF @
          ''Server: FlashWeb Server'' @ CRLF @ CRLF @ bytes\<rparr>, sk)"
    using ProcessRequest_ok [OF assms] by (simp add: response_def entity_header_def)
  show "of_decimal (to_string (length bytes)) = length bytes"
    by (rule of_decimal_to_string)
qed

text \<open>A file system with one file.\<close>

definition one_file :: "string \<Rightarrow> string \<Rightarrow> files" where
  "one_file path bytes =
     \<lparr>fs_stat = [path \<mapsto> length bytes], fs_open = [path \<mapsto> 3],
      fs_mmap = (\<lambda>h n. if h = 3 then Some (take n bytes) else None)\<rparr>"

lemma one_file_readable: "readable_file (one_file path bytes) path bytes"
  by (simp add: readable_file_def one_file_def)

lemma ProcessRequest_response_witness:
  "\<exists>y. ProcessRequest (one_file ''index.html'' ''hello'')
     ((new_Http 0 7 True)\<lparr>http_method := Some METHOD_GET, file_path := ''index.html''\<rparr>)
     \<lparr>rd_script = [], wr_script = [], sent = []\<rparr> =
     Inr (ProcessSuccess, y, \<lparr>rd_script = [], wr_script = [], sent = []\<rparr>)"
proof -
  have "c_str ''index.html'' = ''index.html''" by (simp add: c_str_def)
  then show ?thesis
    using ProcessRequest_response [of
      "(new_Http 0 7 True)\<lparr>http_method := Some METHOD_GET, file_path := ''index.html''\<rparr>"
      "one_file ''index.html'' ''hello''" "''hello''" "\<lparr>rd_script = [], wr_script = [], sent = []\<rparr>"]
      one_file_readable [of "''index.html''" "''hello''"] by auto
qed

text \<open>
  C36. An error page is one header and one body whose length the header announces; both fit the
  buffer they are printed into, so for the codes and messages of the source there is no overflow,
  and on a socket that takes them they are sent whole.
\<close>

theorem HandleErrorPage_sends:
  assumes "code < 1000" "length msg \<le> 3000" "CHR 0x00 \<notin> set msg"
    and "wr_script sk = WroteOk k # WroteOk m # ws" "4096 \<le> k" "4096 \<le> m"
  shows "\<exists>front len. HandleErrorPage sk code msg = Inr (sk\<lparr>wr_script := ws,
      sent := sent sk @ front @ ''Content-Length: '' @ len @ CRLF @
        ''Server: Flash Web Server'' @ CRLF @ CRLF @ error_body code msg\<rparr>) \<and>
    of_decimal len = length (error_body code msg)"
proof (intro exI conjI)
  note fit = page_fits [OF assms(1,2)]
  have ne: "error_header code msg \<noteq> []" "error_body code msg \<noteq> []"
    by (simp_all add: error_header_def error_body_def)
  show "HandleErrorPage sk code msg = Inr (sk\<lparr>wr_script := ws,
      sent := sent sk @ (''HTTP/1.1 '' @ to_string code @ '' '' @ msg @ CRLF @
          ''Content-Type: text/html'' @ CRLF @ ''Connection: Close'' @ CRLF) @
        ''Content-Length: '' @ to_string (length (error_body code msg)) @ CRLF @
        ''Server: Flash Web Server'' @ CRLF @ CRLF @ error_body code msg\<rparr>)"
    using HandleErrorPage_total [OF assms(1-3)] assms(4-6) fit ne
    by (simp add: WriteToFd_buf_all SEND_BUFF_SIZE_def) (simp add: error_header_def)
  show "of_decimal (to_string (length (error_body code msg))) = length (error_body code msg)"
    by (rule of_decimal_to_string)
qed

lemma HandleErrorPage_sends_witness:
  "\<exists>s. HandleErrorPage \<lparr>rd_script = [], wr_script = [WroteOk 4096, WroteOk 4096], sent = []\<rparr> 400
     ''Bad Request'' = Inr s"
  using HandleErrorPage_sends [of 400 "''Bad Request''"
    "\<lparr>rd_script = [], wr_script = [WroteOk 4096, WroteOk 4096], sent = []\<rparr>" 4096 4096 "[]"] by auto

text \<open>
  The type sent for a file is looked up with everything from the first dot of its path on: a
  path without a dot, and a path whose text from the first dot is not in the table, for example one
  with two dots, is announced as \<open>text/html\<close>.
\<close>

theorem content_type_default:
  assumes "length path < 2 ^ 31"
    and "CHR ''.'' \<in> set path \<Longrightarrow>
      dropWhile (\<lambda>c. c \<noteq> CHR ''.'') path \<notin> fst ` set resource_type_map"
  shows "content_type path = Inr ''text/html''"
proof (cases "CHR ''.'' \<in> set path")
  case True
  with content_type_total [OF assms(1)] GetResourceType_unknown [OF assms(2)] show ?thesis by simp
next
  case False
  have "GetResourceType ''default'' = ''text/html''"
    by (simp add: GetResourceType_def resource_type_map_def)
  with content_type_total [OF assms(1)] False show ?thesis by simp
qed

lemma content_type_default_witness: "content_type ''min.x.css'' = Inr ''text/html''"
  by (rule content_type_default) (simp_all add: resource_type_map_def)

text \<open>
  A request for a file that does not exist is answered with the page 404, after the caller's
  status line has already been put into the write buffer, and reported as an error; the file is
  never opened.
\<close>

theorem ProcessRequest_not_found:
  assumes "http_method x = Some METHOD_GET" "fs_stat fs (c_str (file_path x)) = None"
  shows "\<exists>sk'. HandleErrorPage sk 404 ''Not Found!'' = Inr sk' \<and>
    ProcessRequest fs x sk = Inr (ProcessError,
      x\<lparr>write_buffer := write_buffer x @ state_line (http_version x),
        keep_alive := (keep_alive x \<or> wants_keep_alive (header_kv x))\<rparr>, sk')"
  using ProcessRequest_missing [OF assms, of sk] by (simp add: HandleErrorPage_total)

lemma ProcessRequest_not_found_witness:
  "\<exists>y s. ProcessRequest (one_file ''a'' ''b'')
     ((new_Http 0 7 True)\<lparr>http_method := Some METHOD_GET, file_path := ''c''\<rparr>)
     \<lparr>rd_script = [], wr_script = [], sent = []\<rparr> = Inr (ProcessError, y, s)"
  using ProcessRequest_not_found [of
    "(new_Http 0 7 True)\<lparr>http_method := Some METHOD_GET, file_path := ''c''\<rparr>" "one_file ''a'' ''b''"
    "\<lparr>rd_script = [], wr_script = [], sent = []\<rparr>"]
  by (auto simp: one_file_def c_str_def)

end
