(* ===== verification/Http_Conn.thy ===== *)
theory Http_Conn
  imports Epoll Http_URI Http_Headers Http_Response
begin

text \<open>
  The handlers of \<^verbatim>\<open>src/Server/Http.cpp\<close>: what the read, write and connection callbacks of a
  channel do to the connection, the descriptor, the tables and the timers, and the destructor of
  a timer node with \<open>TimerManager::HandleExpire\<close> from \<^verbatim>\<open>src/Utils/Timer.cpp\<close>, which close
  connections. A handler is a function of the reactor and of the object it is bound to.
\<close>

section \<open>Closing and timers\<close>

text \<open>\<open>EventLoop::AddToEpoller\<close>, \<open>UpdateEpoller\<close> and \<open>RemoveFromEpoller\<close> forward to the poller.\<close>

definition AddToEpoller :: "nat \<Rightarrow> int \<Rightarrow> 'a reactor_scheme \<Rightarrow> 'a reactor_scheme result" where
  "AddToEpoller c timeout w = EpollAdd c timeout w"

definition UpdateEpoller :: "nat \<Rightarrow> int \<Rightarrow> 'a reactor_scheme \<Rightarrow> 'a reactor_scheme result" where
  "UpdateEpoller c timeout w = EpollModify c timeout w"

definition RemoveFromEpoller :: "nat \<Rightarrow> 'a reactor_scheme \<Rightarrow> 'a reactor_scheme result" where
  "RemoveFromEpoller c w = EpollDel c w"

definition HandleClose :: "nat \<Rightarrow> 'a reactor_scheme \<Rightarrow> 'a reactor_scheme result" where
  "HandleClose h w =
     with_http w h (\<lambda>x.
       RemoveFromEpoller (channel x) (put_http h (x\<lparr>connectionState := DISCONNECTED\<rparr>) w))"

text \<open>
  \<open>timer_.lock()\<close> succeeds while the node is in the queue. \<open>ClearNode\<close> may drop the last reference
  to this very object; the reset of \<open>timer_\<close> that follows then uses a destroyed object.
\<close>

definition seperateTimer :: "nat \<Rightarrow> 'a reactor_scheme \<Rightarrow> 'a reactor_scheme result" where
  "seperateTimer h w =
     with_http w h (\<lambda>x.
       case timer x of
         None \<Rightarrow> Inr w
       | Some n \<Rightarrow>
           if nodes w n = None then Inr w
           else
             bindR (ClearNode n w) (\<lambda>w.
             with_http w h (\<lambda>x. Inr (put_http h (x\<lparr>timer := None\<rparr>) w))))"

definition reset :: "nat \<Rightarrow> 'a reactor_scheme \<Rightarrow> 'a reactor_scheme result" where
  "reset h w =
     with_http w h (\<lambda>x.
       seperateTimer h (put_http h (x\<lparr>file_path := [], process_state := STATE_PARSE_URI,
         header_line_state := H_START, header_kv := Map.empty\<rparr>) w))"

definition Init :: "nat \<Rightarrow> 'a reactor_scheme \<Rightarrow> 'a reactor_scheme result" where
  "Init h w =
     with_http w h (\<lambda>x.
       let c = channel x;
           w = put_channel c (SetHolder h (channels w c)) w;
           w = put_channel c (SetToListenEvents (EPOLLIN OR EPOLLET) (channels w c)) w
       in AddToEpoller c DEFAULT_EXPIRE_TIME w)"

section \<open>Writing\<close>

text \<open>The write buffer is offered twice: the result of the first call is not used.\<close>

definition HandleWrite :: "nat \<Rightarrow> 'a reactor_scheme \<Rightarrow> 'a reactor_scheme result" where
  "HandleWrite h w =
     with_http w h (\<lambda>x.
       if \<not> has_error x \<and> connectionState x \<noteq> DISCONNECTED then
         let ev = GetToListenEvents (chan_of w x);
             (write_size, buf, sk) = WriteToFd_str (sock_of w x) (write_buffer x);
             (r, buf, sk) = WriteToFd_str sk buf;
             w = put_http h (x\<lparr>write_buffer := buf\<rparr>) (put_sock (sock_fd x) sk w)
         in if length buf > 0
            then Inr (put_channel (channel x) (SetToListenEvents (ev OR EPOLLOUT) (chan_of w x)) w)
            else Inr w
       else Inr w)"

section \<open>Reading\<close>

text \<open>
  The parts of the \<^verbatim>\<open>do { ... } while(false)\<close> block. The boolean is false where the source
  leaves the block with \<open>break\<close>.
\<close>

definition read_uri :: "Http \<Rightarrow> sock \<Rightarrow> (bool \<times> Http \<times> sock) result" where
  "read_uri x sk =
     (if process_state x = STATE_PARSE_URI then
        bindR (ParseURI x) (\<lambda>(r, x).
          case r of
            PARSE_URI_AGAIN \<Rightarrow> Inr (False, x, sk)
          | PARSE_URI_ERROR \<Rightarrow>
              bindR (HandleErrorPage sk 400 ''Bad Request'') (\<lambda>sk.
              Inr (False, x\<lparr>has_error := True\<rparr>, sk))
          | PARSE_URI_SUCCESS \<Rightarrow> Inr (True, x\<lparr>process_state := STATE_PARSE_HEADER\<rparr>, sk))
      else Inr (True, x, sk))"

definition read_header :: "Http \<Rightarrow> sock \<Rightarrow> (bool \<times> Http \<times> sock) result" where
  "read_header x sk =
     (if process_state x = STATE_PARSE_HEADER then
        bindR (ParseHeaders x) (\<lambda>(r, x).
          case r of
            PARSE_HEADER_AGAIN \<Rightarrow> Inr (False, x, sk)
          | PARSE_HEADER_ERROR \<Rightarrow>
              bindR (HandleErrorPage sk 400 ''Bad Request'') (\<lambda>sk.
              Inr (False, x\<lparr>has_error := True\<rparr>, sk))
          | PARSE_HEADER_SUCCESS \<Rightarrow>
              (case http_method x of
                 None \<Rightarrow> Inl UninitialisedRead
               | Some METHOD_POST \<Rightarrow> Inr (True, x\<lparr>process_state := STATE_PARSE_BODY\<rparr>, sk)
               | Some METHOD_GET \<Rightarrow> Inr (True, x\<lparr>process_state := STATE_PROCESS\<rparr>, sk)))
      else Inr (True, x, sk))"

text \<open>In state \<open>STATE_PARSE_BODY\<close> the source does nothing.\<close>

definition read_process :: "files \<Rightarrow> Http \<Rightarrow> sock \<Rightarrow> (bool \<times> Http \<times> sock) result" where
  "read_process fs x sk =
     (if process_state x = STATE_PROCESS then
        bindR (ProcessRequest fs x sk) (\<lambda>(r, x, sk).
          case r of
            ProcessError \<Rightarrow>
              bindR (HandleErrorPage sk 400 ''Bad Request'') (\<lambda>sk.
              Inr (False, x\<lparr>has_error := True\<rparr>, sk))
          | ProcessSuccess \<Rightarrow> Inr (True, x\<lparr>process_state := STATE_FINISH\<rparr>, sk))
      else Inr (True, x, sk))"

definition and_then ::
  "(bool \<times> Http \<times> sock) result \<Rightarrow> (Http \<Rightarrow> sock \<Rightarrow> (bool \<times> Http \<times> sock) result) \<Rightarrow>
     (bool \<times> Http \<times> sock) result" where
  "and_then m f = bindR m (\<lambda>(go, x, sk). if go then f x sk else Inr (False, x, sk))"

definition read_stages :: "files \<Rightarrow> Http \<Rightarrow> sock \<Rightarrow> (bool \<times> Http \<times> sock) result" where
  "read_stages fs x sk = and_then (and_then (read_uri x sk) read_header) (read_process fs)"

definition HandleRead_body :: "files \<Rightarrow> Http \<Rightarrow> sock \<Rightarrow> (Http \<times> sock) result" where
  "HandleRead_body fs x sk =
     (let (size, buf, zero, sk) = ReadFromFd sk (read_buffer x);
          read_size = c_int size;
          x = x\<lparr>read_buffer := buf\<rparr>
      in if connectionState x = DISCONNECTING then Inr (x\<lparr>read_buffer := []\<rparr>, sk)
         else if read_size < 0 then
           bindR (HandleErrorPage sk 400 ''Bad Request'') (\<lambda>sk. Inr (x\<lparr>has_error := True\<rparr>, sk))
         else
           let x = (if zero then x\<lparr>connectionState := DISCONNECTING\<rparr> else x) in
           if zero \<and> read_size = 0 then Inr (x, sk)
           else bindR (read_stages fs x sk) (\<lambda>(go, x, sk). Inr (x, sk)))"

text \<open>
  One activation of \<open>HandleRead\<close>; the boolean is true where it ends by calling itself for the next
  request in the buffer. \<open>ev\<close> is the mask read on entry.
\<close>

definition HandleRead_round ::
  "files \<Rightarrow> nat \<Rightarrow> 'a reactor_scheme \<Rightarrow> (bool \<times> 'a reactor_scheme) result" where
  "HandleRead_round fs h w =
     with_http w h (\<lambda>x.
       let ev = GetToListenEvents (chan_of w x) in
       bindR (HandleRead_body fs x (sock_of w x)) (\<lambda>(x', sk).
         let w = put_http h x' (put_sock (sock_fd x) sk w) in
         if \<not> has_error x' then
           bindR (if length (write_buffer x') > 0 then HandleWrite h w else Inr w) (\<lambda>w.
           with_http w h (\<lambda>x.
             if \<not> has_error x \<and> process_state x = STATE_FINISH then
               bindR (reset h w) (\<lambda>w.
               with_http w h (\<lambda>x.
                 Inr (length (read_buffer x) > 0 \<and> connectionState x \<noteq> DISCONNECTING, w)))
             else if \<not> has_error x \<and> connectionState x \<noteq> DISCONNECTED then
               Inr (False, put_channel (channel x) (SetToListenEvents (ev OR EPOLLIN) (chan_of w x)) w)
             else Inr (False, w)))
         else bindR (HandleClose h w) (\<lambda>w. Inr (False, w))))"

subsection \<open>What the block keeps, and what it consumes\<close>

definition body_frame :: "Http \<Rightarrow> Http \<Rightarrow> bool" where
  "body_frame x x' \<longleftrightarrow>
     channel x' = channel x \<and> sock_fd x' = sock_fd x \<and> timer x' = timer x \<and>
     (keep_alive x \<longrightarrow> keep_alive x') \<and> (connectionState x' = DISCONNECTED \<longleftrightarrow>
       connectionState x = DISCONNECTED)"

lemma body_frame_refl [simp]: "body_frame x x"
  by (simp add: body_frame_def)

lemma body_frame_trans: "body_frame x y \<Longrightarrow> body_frame y z \<Longrightarrow> body_frame x z"
  by (auto simp: body_frame_def)

text \<open>The bytes a connection still has before it: in its buffer and in its socket.\<close>

definition pending :: "Http \<Rightarrow> sock \<Rightarrow> nat" where
  "pending x sk = length (read_buffer x) + rd_bytes sk"

lemma ParseURI_consumes:
  assumes "ParseURI x = Inr (r, x')"
  shows "uri_frame x x' \<and> length (read_buffer x') \<le> length (read_buffer x) \<and>
    (r \<noteq> PARSE_URI_AGAIN \<longrightarrow> length (read_buffer x') < length (read_buffer x)) \<and>
    (r = PARSE_URI_SUCCESS \<longrightarrow> http_method x' \<noteq> None)"
proof (cases "int_pos (find_sub [uri_delimiter] (read_buffer x)) < 0")
  case True
  with assms show ?thesis by (auto simp: ParseURI_def uri_frame_def)
next
  case False
  then obtain n where n: "find_sub [uri_delimiter] (read_buffer x) = Some n" "0 \<le> c_int (int n)"
    by (cases "find_sub [uri_delimiter] (read_buffer x)") auto
  from find_sub_bound [OF n(1)] have ne: "0 < length (read_buffer x)" by auto
  from assms n False obtain line rest where
    r: "ParseURI_line line (x\<lparr>read_buffer := rest\<rparr>) = Inr (r, x')"
      "length rest < length (read_buffer x)"
    using ne by (auto simp: ParseURI_def Let_def inc_int_def substr_to_end_def split: if_split_asm)
  have "uri_frame x (x\<lparr>read_buffer := rest\<rparr>)" by (simp add: uri_frame_def)
  with r ParseURI_line_frame [OF r(1)] uri_frame_trans show ?thesis by auto
qed

definition header_frame :: "Http \<Rightarrow> Http \<Rightarrow> bool" where
  "header_frame x x' \<longleftrightarrow>
     x' = x\<lparr>read_buffer := read_buffer x', header_line_state := header_line_state x',
        header_kv := header_kv x'\<rparr>"

lemma ParseHeaders_frame:
  assumes "ParseHeaders x = Inr (r, x')"
  shows "header_frame x x' \<and> length (read_buffer x') \<le> length (read_buffer x)"
  using assms
  by (auto simp: ParseHeaders_def header_frame_def Let_def substr_to_end_def split: if_split_asm)

lemma uri_body_frame: "uri_frame x x' \<Longrightarrow> body_frame x x'"
  by (cases x; cases x') (simp add: uri_frame_def body_frame_def)

lemma header_body_frame: "header_frame x x' \<Longrightarrow> body_frame x x'"
  by (cases x; cases x') (simp add: header_frame_def body_frame_def)

lemma process_body_frame: "process_frame x x' \<Longrightarrow> body_frame x x'"
  by (cases x; cases x') (simp add: process_frame_def body_frame_def)

lemma uri_frame_same:
  "uri_frame x x' \<Longrightarrow> process_state x' = process_state x"
  "uri_frame x x' \<Longrightarrow> has_error x' = has_error x"
  "uri_frame x x' \<Longrightarrow> write_buffer x' = write_buffer x"
  "uri_frame x x' \<Longrightarrow> connectionState x' = connectionState x"
  "uri_frame x x' \<Longrightarrow> header_line_state x' = header_line_state x"
  by (cases x; cases x'; simp add: uri_frame_def)+

lemma header_frame_same:
  "header_frame x x' \<Longrightarrow> process_state x' = process_state x"
  "header_frame x x' \<Longrightarrow> has_error x' = has_error x"
  "header_frame x x' \<Longrightarrow> write_buffer x' = write_buffer x"
  "header_frame x x' \<Longrightarrow> connectionState x' = connectionState x"
  "header_frame x x' \<Longrightarrow> http_method x' = http_method x"
  by (cases x; cases x'; simp add: header_frame_def)+

lemma process_frame_same:
  "process_frame x x' \<Longrightarrow> process_state x' = process_state x"
  "process_frame x x' \<Longrightarrow> has_error x' = has_error x"
  "process_frame x x' \<Longrightarrow> connectionState x' = connectionState x"
  "process_frame x x' \<Longrightarrow> read_buffer x' = read_buffer x"
  by (cases x; cases x'; simp add: process_frame_def)+

text \<open>What every stage keeps.\<close>

definition stage_frame :: "Http \<Rightarrow> sock \<Rightarrow> Http \<Rightarrow> sock \<Rightarrow> bool" where
  "stage_frame x sk x' sk' \<longleftrightarrow>
     body_frame x x' \<and> rd_script sk' = rd_script sk \<and>
     length (read_buffer x') \<le> length (read_buffer x)"

lemma stage_frame_refl [simp]: "stage_frame x sk x sk"
  by (simp add: stage_frame_def)

lemma stage_frame_trans:
  "stage_frame x sk y s \<Longrightarrow> stage_frame y s z s' \<Longrightarrow> stage_frame x sk z s'"
  by (auto simp: stage_frame_def elim: body_frame_trans)

lemma stage_frame_update [simp]:
  "stage_frame x sk (y\<lparr>process_state := p\<rparr>) s = stage_frame x sk y s"
  "stage_frame x sk (y\<lparr>has_error := e\<rparr>) s = stage_frame x sk y s"
  by (simp_all add: stage_frame_def body_frame_def)

lemma stage_frame_page:
  "HandleErrorPage s code msg = Inr s' \<Longrightarrow> stage_frame x sk y s \<Longrightarrow> stage_frame x sk y s'"
  by (auto simp: stage_frame_def dest: HandleErrorPage_frame)

lemma read_uri_frame:
  assumes "read_uri x sk = Inr (go, x', sk')"
  shows "stage_frame x sk x' sk' \<and> (process_state x = STATE_PARSE_URI \<longrightarrow>
    (if go then length (read_buffer x') < length (read_buffer x)
     else process_state x' = STATE_PARSE_URI))"
proof (cases "process_state x = STATE_PARSE_URI")
  case True
  with assms obtain r y where p: "ParseURI x = Inr (r, y)" by (auto simp: read_uri_def)
  note c = ParseURI_consumes [OF p]
  then have "stage_frame x sk y sk" "process_state y = process_state x"
    by (auto simp: stage_frame_def uri_body_frame uri_frame_same)
  with assms True p c show ?thesis
    by (cases r) (auto simp: read_uri_def intro: stage_frame_page)
next
  case False
  with assms show ?thesis by (auto simp: read_uri_def)
qed

lemma read_header_frame:
  assumes "read_header x sk = Inr (go, x', sk')"
  shows "stage_frame x sk x' sk' \<and> (\<not> go \<longrightarrow> process_state x' = process_state x) \<and>
    (process_state x' = STATE_FINISH \<longrightarrow> process_state x = STATE_FINISH) "
proof (cases "process_state x = STATE_PARSE_HEADER")
  case True
  with assms obtain r y where p: "ParseHeaders x = Inr (r, y)" by (auto simp: read_header_def)
  note c = ParseHeaders_frame [OF p]
  then have "stage_frame x sk y sk" "process_state y = process_state x"
    by (auto simp: stage_frame_def header_body_frame header_frame_same)
  with assms True p show ?thesis
    by (cases r) (auto simp: read_header_def intro: stage_frame_page
        split: option.split_asm HttpMethod.split_asm)
next
  case False
  with assms show ?thesis by (auto simp: read_header_def)
qed

lemma read_process_frame:
  assumes "read_process fs x sk = Inr (go, x', sk')"
  shows "stage_frame x sk x' sk'"
proof (cases "process_state x = STATE_PROCESS")
  case True
  with assms obtain r y s where p: "ProcessRequest fs x sk = Inr (r, y, s)"
    by (auto simp: read_process_def)
  from ProcessRequest_frame [OF p] have "stage_frame x sk y s"
    by (auto simp: stage_frame_def process_body_frame process_frame_same)
  with assms True p show ?thesis
    by (cases r) (auto simp: read_process_def intro: stage_frame_page)
next
  case False
  with assms show ?thesis by (auto simp: read_process_def)
qed

lemma and_thenE:
  assumes "and_then m f = Inr (go, x, s)"
  obtains "m = Inr (False, x, s)" "\<not> go"
  | y t where "m = Inr (True, y, t)" "f y t = Inr (go, x, s)"
  using assms by (auto simp: and_then_def split: if_split_asm)

lemma read_stages_frame:
  assumes "read_stages fs x sk = Inr (go, x', sk')"
  shows "stage_frame x sk x' sk'"
  using assms unfolding read_stages_def
  by (blast elim!: and_thenE
      dest: read_uri_frame read_header_frame read_process_frame intro: stage_frame_trans)

lemma read_stages_consumes:
  assumes "read_stages fs x sk = Inr (go, x', sk')" "process_state x = STATE_PARSE_URI"
    and "process_state x' = STATE_FINISH"
  shows "length (read_buffer x') < length (read_buffer x)"
  using assms(1) unfolding read_stages_def
proof (cases rule: and_thenE)
  case 1
  from 1(1) show ?thesis
  proof (cases rule: and_thenE)
    case 1
    then show ?thesis using read_uri_frame [OF 1(1)] assms(2,3) by simp
  next
    case (2 y t)
    then show ?thesis
      using read_uri_frame [OF 2(1)] read_header_frame [OF 2(2)] assms(2)
      by (auto simp: stage_frame_def)
  qed
next
  case (2 z u)
  from 2(1) obtain y t where y: "read_uri x sk = Inr (True, y, t)" "read_header y t = Inr (True, z, u)"
    by (auto elim: and_thenE)
  then show ?thesis
    using read_uri_frame [OF y(1)] read_header_frame [OF y(2)] read_process_frame [OF 2(2)] assms(2)
    by (auto simp: stage_frame_def)
qed

lemma ReadFromFd_pending:
  assumes "ReadFromFd sk (read_buffer x) = (n, b, zero, sk')"
  shows "pending (x\<lparr>read_buffer := b\<rparr>) sk' \<le> pending x sk"
  using ReadFromFd_bytes [OF assms] by (simp add: pending_def)

lemma stage_frame_pending: "stage_frame x sk x' sk' \<Longrightarrow> pending x' sk' \<le> pending x sk"
  by (simp add: stage_frame_def pending_def rd_bytes_def)

lemma HandleRead_body_frame:
  assumes "HandleRead_body fs x sk = Inr (x', sk')"
  shows "channel x' = channel x \<and> sock_fd x' = sock_fd x \<and> timer x' = timer x \<and>
    (keep_alive x \<longrightarrow> keep_alive x') \<and> pending x' sk' \<le> pending x sk \<and>
    (process_state x = STATE_PARSE_URI \<and> process_state x' = STATE_FINISH \<longrightarrow>
      pending x' sk' < pending x sk)"
proof -
  obtain n b zero t where r: "ReadFromFd sk (read_buffer x) = (n, b, zero, t)"
    by (metis prod_cases4)
  define y where "y = x\<lparr>read_buffer := b,
    connectionState := (if zero then DISCONNECTING else connectionState x)\<rparr>"
  have y: "channel y = channel x" "sock_fd y = sock_fd x" "timer y = timer x"
    "keep_alive y = keep_alive x" "process_state y = process_state x" "read_buffer y = b"
    "pending y t \<le> pending x sk"
    using ReadFromFd_pending [OF r] by (simp_all add: y_def pending_def)
  have upd: "(if zero then (x\<lparr>read_buffer := b\<rparr>)\<lparr>connectionState := DISCONNECTING\<rparr>
      else x\<lparr>read_buffer := b\<rparr>) = y" by (simp add: y_def)
  consider (discard) "x' = x\<lparr>read_buffer := []\<rparr>" "sk' = t"
    | (failed) e where "HandleErrorPage t 400 ''Bad Request'' = Inr sk'"
        "x' = x\<lparr>read_buffer := b, has_error := e\<rparr>"
    | (closed) "x' = y" "sk' = t"
    | (stages) go where "read_stages fs y t = Inr (go, x', sk')"
    using assms by (auto simp: HandleRead_body_def r Let_def upd split: if_split_asm)
  then show ?thesis
  proof cases
    case discard
    with y show ?thesis by (auto simp: pending_def)
  next
    case failed
    with y HandleErrorPage_frame [OF failed(1)] show ?thesis
      by (auto simp: pending_def rd_bytes_def)
  next
    case closed
    with y show ?thesis by auto
  next
    case stages
    from read_stages_frame [OF stages] have f: "body_frame y x'" "pending x' sk' \<le> pending y t"
      "rd_bytes sk' = rd_bytes t"
      by (auto simp: stage_frame_pending) (auto simp: stage_frame_def rd_bytes_def)
    moreover have "process_state y = STATE_PARSE_URI \<and> process_state x' = STATE_FINISH \<longrightarrow>
        pending x' sk' < pending y t"
      using read_stages_consumes [OF stages] f(3) by (simp add: pending_def)
    ultimately show ?thesis using y by (auto simp: body_frame_def)
  qed
qed

subsection \<open>Termination of the recursion\<close>

lemma HandleWrite_http:
  assumes "HandleWrite h w = Inr w'" "https w h = Some x"
  shows "\<exists>b. https w' = (https w)(h \<mapsto> x\<lparr>write_buffer := b\<rparr>) \<and> length b \<le> length (write_buffer x) \<and>
    (\<exists>sk. socks w' = (socks w)(sock_fd x := sk) \<and> rd_script sk = rd_script (sock_of w x)) \<and>
    nodes w' = nodes w \<and> http_rc w' = http_rc w"
proof -
  obtain n b s where w1: "WriteToFd_str (sock_of w x) (write_buffer x) = (n, b, s)"
    by (metis prod_cases3)
  obtain m c t where w2: "WriteToFd_str s b = (m, c, t)" by (metis prod_cases3)
  have "rd_script t = rd_script (sock_of w x)"
    using WriteToFd_str_frame [OF w1] WriteToFd_str_frame [OF w2] by simp
  moreover have "length c \<le> length (write_buffer x)"
    using WriteToFd_str_length [OF w1] WriteToFd_str_length [OF w2] by simp
  ultimately have active: ?thesis if "\<not> has_error x" "connectionState x \<noteq> DISCONNECTED"
    using that assms w1 w2
    by (intro exI [of _ c] conjI exI [of _ t])
      (auto simp: HandleWrite_def Let_def sock_of_def split: if_split_asm)
  have idle: ?thesis if "has_error x \<or> connectionState x = DISCONNECTED"
    using that assms
    by (intro exI [of _ "write_buffer x"] conjI exI [of _ "socks w (sock_fd x)"])
      (auto simp: HandleWrite_def sock_of_def)
  show ?thesis using active idle by blast
qed

lemma ClearNode_fields:
  assumes "ClearNode n w = Inr w'"
  shows "socks w' = socks w" "\<And>h y. https w' h = Some y \<Longrightarrow> https w h = Some y"
  using assms by (auto simp: ClearNode_def Let_def split: option.split_asm if_split_asm)

lemma seperateTimer_http:
  assumes "seperateTimer h w = Inr w'" "https w h = Some x"
  shows "socks w' = socks w \<and> (\<exists>t. https w' h = Some (x\<lparr>timer := t\<rparr>))"
proof (cases "timer x")
  case None
  with assms show ?thesis by (auto simp: seperateTimer_def intro: exI [of _ None])
next
  case (Some n)
  show ?thesis
  proof (cases "nodes w n")
    case None
    with assms Some show ?thesis by (auto simp: seperateTimer_def intro: exI [of _ "Some n"])
  next
    case (Some t)
    with assms \<open>timer x = Some n\<close> obtain v y where v: "ClearNode n w = Inr v" "https v h = Some y"
      "w' = put_http h (y\<lparr>timer := None\<rparr>) v"
      by (auto simp: seperateTimer_def)
    from ClearNode_fields [OF v(1)] v(2) assms(2) have "y = x" "socks v = socks w" by auto
    with v show ?thesis by auto
  qed
qed

lemma reset_http:
  assumes "reset h w = Inr w'" "https w h = Some x"
  shows "socks w' = socks w \<and> (\<exists>t. https w' h = Some (x\<lparr>file_path := [],
    process_state := STATE_PARSE_URI, header_line_state := H_START, header_kv := Map.empty,
    timer := t\<rparr>))"
proof -
  let ?x = "x\<lparr>file_path := [], process_state := STATE_PARSE_URI, header_line_state := H_START,
    header_kv := Map.empty\<rparr>"
  from assms have "seperateTimer h (put_http h ?x w) = Inr w'" by (simp add: reset_def)
  from seperateTimer_http [OF this, of ?x] show ?thesis by simp
qed

definition read_measure :: "nat \<Rightarrow> 'a reactor_scheme \<Rightarrow> nat" where
  "read_measure h w =
     (case https w h of
        None \<Rightarrow> 0
      | Some x \<Rightarrow> 2 * pending x (sock_of w x) + (if process_state x = STATE_PARSE_URI then 0 else 1))"

lemma HandleRead_round_decreases:
  assumes "HandleRead_round fs h w = Inr (True, w')"
  shows "read_measure h w' < read_measure h w"
proof -
  from assms obtain x where x: "https w h = Some x"
    by (auto simp: HandleRead_round_def)
  from assms x obtain y sk where y: "HandleRead_body fs x (sock_of w x) = Inr (y, sk)"
    by (auto simp: HandleRead_round_def)
  let ?w1 = "put_http h y (put_sock (sock_fd x) sk w)"
  from assms x y obtain w2 z where
    w2: "(if length (write_buffer y) > 0 then HandleWrite h ?w1 else Inr ?w1) = Inr w2"
    and z: "https w2 h = Some z" "process_state z = STATE_FINISH"
    and r: "reset h w2 = Inr w'"
    by (auto simp: HandleRead_round_def Let_def split: if_split_asm)
  note b = HandleRead_body_frame [OF y]
  have "(\<exists>c. z = y\<lparr>write_buffer := c\<rparr>) \<and> rd_script (sock_of w2 z) = rd_script sk"
  proof (cases "length (write_buffer y) > 0")
    case True
    with w2 have "HandleWrite h ?w1 = Inr w2" by simp
    from HandleWrite_http [OF this, of y] z b show ?thesis by (auto simp: sock_of_def)
  next
    case False
    with w2 z b show ?thesis by (auto simp: sock_of_def intro: exI [of _ "write_buffer y"])
  qed
  then have p: "process_state y = STATE_FINISH" "pending z (sock_of w2 z) = pending y sk"
    "sock_fd z = sock_fd y"
    using z by (auto simp: pending_def rd_bytes_def)
  from reset_http [OF r z(1)] obtain u where u: "https w' h = Some u"
    "process_state u = STATE_PARSE_URI" "pending u (sock_of w' u) = pending z (sock_of w2 z)"
    by (auto simp: pending_def sock_of_def)
  show ?thesis using x u p b by (auto simp: read_measure_def)
qed

text \<open>
  \<open>HandleRead\<close> itself. Each further round has less input before it, so the recursion the source
  writes as a call at its end stops.
\<close>

function HandleRead :: "files \<Rightarrow> nat \<Rightarrow> 'a reactor_scheme \<Rightarrow> 'a reactor_scheme result" where
  "HandleRead fs h w =
     bindR (HandleRead_round fs h w) (\<lambda>(again, w').
       if again then HandleRead fs h w' else Inr w')"
  by pat_completeness auto
termination
  by (relation "measure (\<lambda>(fs, h, w). read_measure h w)") (auto dest: HandleRead_round_decreases)

declare HandleRead.simps [simp del]

section \<open>After the events\<close>

definition HandleCurrentConn :: "nat \<Rightarrow> 'a reactor_scheme \<Rightarrow> 'a reactor_scheme result" where
  "HandleCurrentConn h w =
     bindR (seperateTimer h w) (\<lambda>w.
     with_http w h (\<lambda>x.
       let c = channel x; ev = GetToListenEvents (channels w c);
           listen = (\<lambda>e. put_channel c (SetToListenEvents e (channels w c)) w) in
       if \<not> has_error x \<and> connectionState x = CONNECTED then
         if ev \<noteq> 0 then
           let w = listen (EPOLLOUT OR EPOLLET) in
           if keep_alive x then UpdateEpoller c DEFAULT_KEEP_ALIVE_TIME w
           else UpdateEpoller c DEFAULT_EXPIRE_TIME w
         else if keep_alive x then
           UpdateEpoller c DEFAULT_KEEP_ALIVE_TIME (listen (ev OR (EPOLLIN OR EPOLLET)))
         else HandleClose h w
       else if \<not> has_error x \<and> connectionState x = DISCONNECTING then
         if has_event ev EPOLLOUT then Inr (listen (EPOLLOUT OR EPOLLET))
         else HandleClose h w
       else Inr w))"

section \<open>Expiry\<close>

text \<open>
  \<open>~TimerNode\<close>, run when the queue's pointer and the local one are gone: it closes the connection
  the node still refers to, then drops that reference.
\<close>

definition destroy_TimerNode :: "nat \<Rightarrow> 'a reactor_scheme \<Rightarrow> 'a reactor_scheme result" where
  "destroy_TimerNode n w =
     (case nodes w n of
        None \<Rightarrow> Inl UseAfterFree
      | Some t \<Rightarrow>
          let w = w\<lparr>nodes := (nodes w)(n := None)\<rparr> in
          case node_data t of
            None \<Rightarrow> Inr w
          | Some h \<Rightarrow> bindR (HandleClose h w) (\<lambda>w. Inr (release h w)))"

lemma EpollDel_queue:
  assumes "EpollDel c w = Inr w'"
  shows "timer_node_queue w' = timer_node_queue w"
  using assms [symmetric] unfolding EpollDel_eq Let_def by (simp split: if_split_asm option.split)

lemma HandleClose_queue:
  assumes "HandleClose h w = Inr w'"
  shows "timer_node_queue w' = timer_node_queue w"
proof -
  from assms obtain x where
    "EpollDel (channel x) (put_http h (x\<lparr>connectionState := DISCONNECTED\<rparr>) w) = Inr w'"
    by (auto simp: HandleClose_def RemoveFromEpoller_def)
  from EpollDel_queue [OF this] show ?thesis by simp
qed

lemma destroy_TimerNode_queue:
  assumes "destroy_TimerNode n w = Inr w'"
  shows "timer_node_queue w' = timer_node_queue w"
proof -
  from assms obtain t where t: "nodes w n = Some t"
    by (auto simp: destroy_TimerNode_def split: option.split_asm)
  show ?thesis
  proof (cases "node_data t")
    case None
    with assms t show ?thesis by (auto simp: destroy_TimerNode_def)
  next
    case (Some h)
    with assms t obtain v where "HandleClose h (w\<lparr>nodes := (nodes w)(n := None)\<rparr>) = Inr v"
      "w' = release h v" by (auto simp: destroy_TimerNode_def)
    with HandleClose_queue show ?thesis by fastforce
  qed
qed

lemma IsExpired_queue: "IsExpired n w = Inr (e, w') \<Longrightarrow> timer_node_queue w' = timer_node_queue w"
  by (auto simp: IsExpired_def gettimeofday_def Let_def split: option.split_asm if_split_asm)

text \<open>
  One pass of the loop of \<open>HandleExpire\<close> on a non-empty queue; the boolean is false at the
  \<open>break\<close>. \<open>||\<close> asks \<open>IsDeleted\<close> only when \<open>IsExpired\<close> said no.
\<close>

definition expire_step :: "nat \<Rightarrow> 'a reactor_scheme \<Rightarrow> (bool \<times> 'a reactor_scheme) result" where
  "expire_step n w =
     bindR (IsExpired n w) (\<lambda>(expired, w).
     bindR (if expired then Inr True else IsDeleted n w) (\<lambda>drop_it.
       if drop_it then
         bindR (destroy_TimerNode n (w\<lparr>timer_node_queue := tl (timer_node_queue w)\<rparr>)) (\<lambda>w.
         Inr (True, w))
       else Inr (False, w)))"

lemma expire_step_queue:
  assumes "expire_step n w = Inr (True, w')"
  shows "timer_node_queue w' = tl (timer_node_queue w)"
proof -
  from assms obtain e v where v: "IsExpired n w = Inr (e, v)"
    "destroy_TimerNode n (v\<lparr>timer_node_queue := tl (timer_node_queue v)\<rparr>) = Inr w'"
    by (auto simp: expire_step_def split: if_split_asm)
  from destroy_TimerNode_queue [OF v(2)] IsExpired_queue [OF v(1)] show ?thesis by simp
qed

function HandleExpire :: "'a reactor_scheme \<Rightarrow> 'a reactor_scheme result" where
  "HandleExpire w =
     (case timer_node_queue w of
        [] \<Rightarrow> Inr w
      | n # _ \<Rightarrow>
          bindR (expire_step n w) (\<lambda>(again, w').
            if again then HandleExpire w' else Inr w'))"
  by pat_completeness auto
termination
  by (relation "measure (\<lambda>w. length (timer_node_queue w))") (auto dest: expire_step_queue)

declare HandleExpire.simps [simp del]

end
