(* ===== verification/Reactor_Inv.thy ===== *)
theory Reactor_Inv
  imports Http_Conn
begin

text \<open>
  The invariant of a reactor: what the descriptor tables, the timer queue, the connections and
  their reference counts have to do with each other, that the operations on timers and
  registrations keep it, and that expiring timers and the connection callback are then free of
  faults.
\<close>

section \<open>The invariant\<close>

text \<open>
  \<open>timed\<close>: a node of the queue holds a reference to the connection; \<open>registered\<close>: the table
  does. \<open>extra h\<close> counts the references held elsewhere: by callbacks that wait and by locals.
\<close>

definition timed :: "'a reactor_scheme \<Rightarrow> nat \<Rightarrow> bool" where
  "timed w h \<longleftrightarrow> (\<exists>n t. nodes w n = Some t \<and> node_data t = Some h)"

definition registered :: "'a reactor_scheme \<Rightarrow> nat \<Rightarrow> bool" where
  "registered w h \<longleftrightarrow> (\<exists>fd. fd2http w fd = Some (Some h))"

definition queue_ok :: "'a reactor_scheme \<Rightarrow> bool" where
  "queue_ok w \<longleftrightarrow> distinct (timer_node_queue w) \<and> set (timer_node_queue w) = dom (nodes w) \<and>
     queue_ordered (node_key (nodes w)) (timer_node_queue w) \<and> (\<forall>n \<in> dom (nodes w). n < next_id w)"

definition timers_ok :: "'a reactor_scheme \<Rightarrow> bool" where
  "timers_ok w \<longleftrightarrow> (\<forall>n t h. nodes w n = Some t \<longrightarrow> node_data t = Some h \<longrightarrow>
     (\<exists>x. https w h = Some x \<and> timer x = Some n) \<and> registered w h)"

definition tables_ok :: "'a reactor_scheme \<Rightarrow> bool" where
  "tables_ok w \<longleftrightarrow> (\<forall>fd h. fd2http w fd = Some (Some h) \<longrightarrow>
     (\<exists>x. https w h = Some x \<and> sock_fd x = fd \<and> fd2channel w fd = Some (Some (channel x)) \<and>
       chan_fd (channels w (channel x)) = fd \<and> holder (channels w (channel x)) = Some h))"

definition links_ok :: "'a reactor_scheme \<Rightarrow> bool" where
  "links_ok w \<longleftrightarrow> (\<forall>h x n. https w h = Some x \<longrightarrow> timer x = Some n \<longrightarrow>
     n < next_id w \<and> (\<forall>t h'. nodes w n = Some t \<longrightarrow> node_data t = Some h' \<longrightarrow> h' = h))"

definition refs_ok :: "(nat \<Rightarrow> nat) \<Rightarrow> 'a reactor_scheme \<Rightarrow> bool" where
  "refs_ok extra w \<longleftrightarrow> (\<forall>h.
     (https w h = None \<longrightarrow> http_rc w h = 0 \<and> extra h = 0) \<and>
     (https w h \<noteq> None \<longrightarrow> h < next_id w \<and> (registered w h \<or> timed w h \<or> 0 < extra h) \<and>
        http_rc w h = of_bool (registered w h) + of_bool (timed w h) + extra h))"

definition reactor_ok :: "(nat \<Rightarrow> nat) \<Rightarrow> 'a reactor_scheme \<Rightarrow> bool" where
  "reactor_ok extra w \<longleftrightarrow>
     queue_ok w \<and> timers_ok w \<and> tables_ok w \<and> links_ok w \<and> refs_ok extra w"

text \<open>One more reference held outside.\<close>

definition held :: "nat \<Rightarrow> (nat \<Rightarrow> nat) \<Rightarrow> nat \<Rightarrow> nat" where
  "held h extra = extra(h := Suc (extra h))"

lemma reactor_okI:
  assumes "queue_ok w" "timers_ok w" "tables_ok w" "links_ok w" "refs_ok extra w"
  shows "reactor_ok extra w"
  using assms by (simp add: reactor_ok_def)

lemma reactor_okD:
  assumes "reactor_ok extra w"
  shows "queue_ok w" "timers_ok w" "tables_ok w" "links_ok w" "refs_ok extra w"
  using assms by (simp_all add: reactor_ok_def)

text \<open>The invariant looks at these members only.\<close>

definition same_shape :: "'a reactor_scheme \<Rightarrow> 'b reactor_scheme \<Rightarrow> bool" where
  "same_shape w v \<longleftrightarrow> nodes v = nodes w \<and> timer_node_queue v = timer_node_queue w \<and>
     fd2http v = fd2http w \<and> fd2channel v = fd2channel w \<and> http_rc v = http_rc w \<and>
     next_id v = next_id w \<and>
     (\<forall>h. map_option (\<lambda>x. (channel x, sock_fd x, timer x)) (https v h) =
          map_option (\<lambda>x. (channel x, sock_fd x, timer x)) (https w h)) \<and>
     (\<forall>c. chan_fd (channels v c) = chan_fd (channels w c) \<and>
          holder (channels v c) = holder (channels w c))"

lemma same_shape_http:
  assumes "same_shape w v" "https w h = Some x"
  obtains y where "https v h = Some y" "channel y = channel x" "sock_fd y = sock_fd x"
    "timer y = timer x"
proof -
  from assms have "map_option (\<lambda>x. (channel x, sock_fd x, timer x)) (https v h) =
      Some (channel x, sock_fd x, timer x)" by (simp add: same_shape_def)
  then show thesis using that by (auto simp: map_option_eq_Some)
qed

lemma same_shape_sym: "same_shape w v \<Longrightarrow> same_shape v w"
  unfolding same_shape_def by (elim conjE) (intro conjI allI; metis)

lemma same_shape_trans: "same_shape u v \<Longrightarrow> same_shape v w \<Longrightarrow> same_shape u w"
  unfolding same_shape_def by (elim conjE) (intro conjI allI; metis)

lemma same_shape_refl [simp]: "same_shape w w"
  by (simp add: same_shape_def)

lemma same_shape_None: "same_shape w v \<Longrightarrow> https v h = None \<longleftrightarrow> https w h = None"
proof -
  assume "same_shape w v"
  then have "map_option (\<lambda>x. (channel x, sock_fd x, timer x)) (https v h) =
      map_option (\<lambda>x. (channel x, sock_fd x, timer x)) (https w h)" by (simp add: same_shape_def)
  then show ?thesis by (cases "https v h"; cases "https w h") simp_all
qed

lemma reactor_ok_same:
  assumes s: "same_shape w v" and ok: "reactor_ok extra w"
  shows "reactor_ok extra v"
proof (rule reactor_okI)
  note d = reactor_okD [OF ok]
  have f: "nodes v = nodes w" "timer_node_queue v = timer_node_queue w" "fd2http v = fd2http w"
    "fd2channel v = fd2channel w" "http_rc v = http_rc w" "next_id v = next_id w"
    "\<And>c. chan_fd (channels v c) = chan_fd (channels w c)"
    "\<And>c. holder (channels v c) = holder (channels w c)"
    using s by (simp_all add: same_shape_def)
  have r: "registered v = registered w" "timed v = timed w"
    by (auto simp: registered_def timed_def f)
  show "queue_ok v" using d(1) by (simp add: queue_ok_def f)
  show "timers_ok v" using d(2) unfolding timers_ok_def f r by (metis same_shape_http [OF s])
  show "tables_ok v" using d(3) unfolding tables_ok_def f by (metis same_shape_http [OF s])
  show "links_ok v" using d(4) unfolding links_ok_def f
    by (metis same_shape_http [OF same_shape_sym [OF s]])
  show "refs_ok extra v" using d(5) unfolding refs_ok_def f r same_shape_None [OF s] .
qed

lemma same_shape_put_http:
  "https w h = Some x \<Longrightarrow> channel y = channel x \<Longrightarrow> sock_fd y = sock_fd x \<Longrightarrow> timer y = timer x \<Longrightarrow>
     same_shape w (put_http h y w)"
  by (simp add: same_shape_def)

lemma same_shape_put_channel:
  "chan_fd ch = chan_fd (channels w c) \<Longrightarrow> holder ch = holder (channels w c) \<Longrightarrow>
     same_shape w (put_channel c ch w)"
  by (simp add: same_shape_def)

lemma same_shape_quiet [simp]:
  "same_shape w (log_call k w)" "same_shape w (put_sock fd sk w)"
  "same_shape w (w\<lparr>clock_reads := i\<rparr>)"
  by (simp_all add: same_shape_def)

section \<open>References\<close>

lemma held_same [simp]: "held h extra h = Suc (extra h)"
  by (simp add: held_def)

lemma held_other [simp]: "h' \<noteq> h \<Longrightarrow> held h extra h' = extra h'"
  by (simp add: held_def)

lemma reactor_ok_alive: "reactor_ok extra w \<Longrightarrow> 0 < extra h \<Longrightarrow> https w h \<noteq> None"
  by (auto simp: reactor_ok_def refs_ok_def)

lemma registered_alive: "reactor_ok extra w \<Longrightarrow> registered w h \<Longrightarrow> https w h \<noteq> None"
  by (auto simp: reactor_ok_def tables_ok_def registered_def)

lemma timed_alive: "reactor_ok extra w \<Longrightarrow> timed w h \<Longrightarrow> https w h \<noteq> None"
  unfolding reactor_ok_def timers_ok_def timed_def by fastforce

lemma registered_same_fd:
  assumes "reactor_ok extra w" "fd2http w fd = Some (Some h)" "fd2http w fd' = Some (Some h)"
  shows "fd' = fd"
proof -
  note ok = reactor_okD(3) [OF assms(1), unfolded tables_ok_def, rule_format]
  from ok [OF assms(2)] ok [OF assms(3)] show ?thesis by auto
qed

lemma table_entry:
  assumes "reactor_ok extra w" "fd2http w fd = Some (Some h)"
  obtains x where "https w h = Some x" "sock_fd x = fd" "fd2channel w fd = Some (Some (channel x))"
    "chan_fd (channels w (channel x)) = fd" "holder (channels w (channel x)) = Some h"
  using reactor_okD(3) [OF assms(1), unfolded tables_ok_def, rule_format, OF assms(2)] by blast

lemma timed_same_node:
  assumes "reactor_ok extra w" "nodes w n = Some t" "node_data t = Some h"
    "nodes w n' = Some t'" "node_data t' = Some h"
  shows "n' = n"
proof -
  note ok = reactor_okD(2) [OF assms(1), unfolded timers_ok_def, rule_format]
  from ok [OF assms(2,3)] ok [OF assms(4,5)] show ?thesis by auto
qed

lemma refs_okD:
  assumes "reactor_ok extra w"
  shows "https w h = None \<Longrightarrow> http_rc w h = 0 \<and> extra h = 0"
    "https w h \<noteq> None \<Longrightarrow> h < next_id w \<and> (registered w h \<or> timed w h \<or> 0 < extra h) \<and>
      http_rc w h = of_bool (registered w h) + of_bool (timed w h) + extra h"
proof -
  note d = reactor_okD(5) [OF assms, unfolded refs_ok_def, THEN spec, of h]
  show "https w h = None \<Longrightarrow> http_rc w h = 0 \<and> extra h = 0"
    by (rule d [THEN conjunct1, THEN mp])
  show "https w h \<noteq> None \<Longrightarrow> h < next_id w \<and> (registered w h \<or> timed w h \<or> 0 < extra h) \<and>
      http_rc w h = of_bool (registered w h) + of_bool (timed w h) + extra h"
    by (rule d [THEN conjunct2, THEN mp])
qed

lemma refs_okI:
  assumes "\<And>h. https w h = None \<Longrightarrow> http_rc w h = 0 \<and> extra h = 0"
    and "\<And>h. https w h \<noteq> None \<Longrightarrow> h < next_id w \<and> (registered w h \<or> timed w h \<or> 0 < extra h) \<and>
      http_rc w h = of_bool (registered w h) + of_bool (timed w h) + extra h"
  shows "refs_ok extra w"
  unfolding refs_ok_def by (intro allI conjI [OF impI impI]) (rule assms(1), assumption, rule assms(2))

lemma refs_ok_cong:
  assumes "refs_ok extra w" "http_rc v = http_rc w" "next_id v = next_id w"
    "registered v = registered w" "timed v = timed w" "\<And>h. https v h = None \<longleftrightarrow> https w h = None"
  shows "refs_ok extra v"
  unfolding refs_ok_def assms(2-6) by (rule assms(1) [unfolded refs_ok_def])

text \<open>A connection that is referred to is alive: what remains when its count is computed anew.\<close>

lemma refs_shift:
  assumes ok: "reactor_ok extra w" and a: "https w h \<noteq> None"
    and v: "https v = https w" "next_id v = next_id w"
    and same: "\<And>h'. h' \<noteq> h \<Longrightarrow> http_rc v h' = http_rc w h' \<and> registered v h' = registered w h' \<and>
      timed v h' = timed w h'"
    and count: "http_rc v h + of_bool (registered w h) + of_bool (timed w h) =
      Suc (http_rc w h + of_bool (registered v h) + of_bool (timed v h))"
  shows "refs_ok (held h extra) v"
proof (rule refs_okI)
  fix h' assume "https v h' = None"
  with v a refs_okD(1) [OF ok, of h'] same [of h'] show "http_rc v h' = 0 \<and> held h extra h' = 0"
    by (cases "h' = h") auto
next
  fix h' assume "https v h' \<noteq> None"
  with v have q: "h' < next_id w \<and> (registered w h' \<or> timed w h' \<or> 0 < extra h') \<and>
      http_rc w h' = of_bool (registered w h') + of_bool (timed w h') + extra h'"
    using refs_okD(2) [OF ok, of h'] by simp
  show "h' < next_id v \<and> (registered v h' \<or> timed v h' \<or> 0 < held h extra h') \<and>
      http_rc v h' = of_bool (registered v h') + of_bool (timed v h') + held h extra h'"
  proof (cases "h' = h")
    case True
    with q count v show ?thesis by simp
  next
    case False
    from same [OF False] have e: "http_rc v h' = http_rc w h'" "registered v h' = registered w h'"
      "timed v h' = timed w h'" by simp_all
    show ?thesis unfolding e v held_other [OF False] by (rule q)
  qed
qed

lemma reactor_ok_retain:
  assumes ok: "reactor_ok extra w" and a: "https w h \<noteq> None"
  shows "reactor_ok (held h extra) (retain h w)"
proof (rule reactor_okI)
  note d = reactor_okD [OF ok]
  have r: "registered (retain h w) = registered w" "timed (retain h w) = timed w"
    by (auto simp: registered_def timed_def)
  show "queue_ok (retain h w)" using d(1) by (simp add: queue_ok_def)
  show "timers_ok (retain h w)" using d(2) by (simp add: timers_ok_def r)
  show "tables_ok (retain h w)" using d(3) by (simp add: tables_ok_def)
  show "links_ok (retain h w)" using d(4) by (simp add: links_ok_def)
  show "refs_ok (held h extra) (retain h w)"
    by (rule refs_shift [OF ok a]) (simp_all add: r)
qed

text \<open>Dropping a reference: the object goes exactly when nothing refers to it any more.\<close>

lemma reactor_ok_release:
  assumes ok: "reactor_ok (held h extra) w"
  shows "reactor_ok extra (release h w)"
    "https (release h w) h = (if registered w h \<or> timed w h \<or> 0 < extra h then https w h else None)"
proof -
  note d = reactor_okD [OF ok]
  have a: "https w h \<noteq> None" using reactor_ok_alive [OF ok, of h] by simp
  have rc: "http_rc w h = of_bool (registered w h) + of_bool (timed w h) + Suc (extra h)"
    using refs_okD(2) [OF ok a] by simp
  have last: "http_rc w h \<le> 1 \<longleftrightarrow> \<not> registered w h \<and> \<not> timed w h \<and> extra h = 0"
    using rc by auto
  have r: "registered (release h w) = registered w" "timed (release h w) = timed w"
    by (auto simp: registered_def timed_def)
  have keep: "https (release h w) h' = https w h'" if "registered w h' \<or> timed w h' \<or> h' \<noteq> h" for h'
    using that last by auto
  show "https (release h w) h = (if registered w h \<or> timed w h \<or> 0 < extra h then https w h else None)"
    using last by auto
  show "reactor_ok extra (release h w)"
  proof (rule reactor_okI)
    show "queue_ok (release h w)" using d(1) by (simp add: queue_ok_def)
    show "timers_ok (release h w)" unfolding timers_ok_def r
    proof (intro allI impI)
      fix n t h' assume n: "nodes (release h w) n = Some t" "node_data t = Some h'"
      then have "timed w h'" by (auto simp: timed_def)
      with d(2) n keep show "(\<exists>x. https (release h w) h' = Some x \<and> timer x = Some n) \<and> registered w h'"
        by (simp add: timers_ok_def)
    qed
    show "tables_ok (release h w)" unfolding tables_ok_def
    proof (intro allI impI)
      fix fd h' assume f: "fd2http (release h w) fd = Some (Some h')"
      then have "registered w h'" by (auto simp: registered_def)
      with d(3) f keep show "\<exists>x. https (release h w) h' = Some x \<and> sock_fd x = fd \<and>
          fd2channel (release h w) fd = Some (Some (channel x)) \<and>
          chan_fd (channels (release h w) (channel x)) = fd \<and>
          holder (channels (release h w) (channel x)) = Some h'"
        by (simp add: tables_ok_def)
    qed
    show "links_ok (release h w)" using d(4) by (simp add: links_ok_def split: if_split_asm)
    show "refs_ok extra (release h w)" unfolding refs_ok_def r
    proof (intro allI conjI impI)
      fix h' assume n: "https (release h w) h' = None"
      show "http_rc (release h w) h' = 0" "extra h' = 0"
        using n last a refs_okD(1) [OF ok, of h'] by (cases "h' = h"; auto split: if_split_asm)+
    next
      fix h' assume s: "https (release h w) h' \<noteq> None"
      then have "https w h' \<noteq> None" by (auto split: if_split_asm)
      note q = refs_okD(2) [OF ok this]
      show "h' < next_id (release h w)" using q by simp
      show "registered w h' \<or> timed w h' \<or> 0 < extra h'"
        using q s last by (cases "h' = h") (auto split: if_split_asm)
      show "http_rc (release h w) h' = of_bool (registered w h') + of_bool (timed w h') + extra h'"
        using q s rc by (cases "h' = h") (auto split: if_split_asm)
    qed
  qed
qed

section \<open>Deregistration\<close>

text \<open>Taking a connection without a timer out of the tables leaves the table's reference over.\<close>

lemma reactor_ok_erase:
  fixes w :: "'a reactor_scheme"
  assumes ok: "reactor_ok extra w" and f: "fd2http w fd = Some (Some h)" and nt: "\<not> timed w h"
  defines "v \<equiv> w\<lparr>fd2channel := (fd2channel w)(fd := None), fd2http := (fd2http w)(fd := None)\<rparr>"
  shows "reactor_ok (held h extra) v" "\<not> registered v h" "\<not> timed v h"
proof -
  note d = reactor_okD [OF ok]
  have reg: "registered v h' \<longleftrightarrow> registered w h' \<and> h' \<noteq> h" for h'
  proof
    assume "registered v h'"
    then obtain fd' where "fd' \<noteq> fd" "fd2http w fd' = Some (Some h')"
      by (auto simp: registered_def v_def split: if_split_asm)
    with registered_same_fd [OF ok f] show "registered w h' \<and> h' \<noteq> h"
      by (auto simp: registered_def)
  next
    assume "registered w h' \<and> h' \<noteq> h"
    then obtain fd' where "fd2http w fd' = Some (Some h')" "h' \<noteq> h" by (auto simp: registered_def)
    with f have "fd2http v fd' = Some (Some h')" by (auto simp: v_def)
    then show "registered v h'" by (auto simp: registered_def)
  qed
  have tim: "timed v = timed w" by (simp add: fun_eq_iff timed_def v_def)
  show "\<not> registered v h" "\<not> timed v h" using reg tim nt by simp_all
  have rh: "registered w h" using f by (auto simp: registered_def)
  show "reactor_ok (held h extra) v"
  proof (rule reactor_okI)
    show "queue_ok v" using d(1) by (simp add: queue_ok_def v_def)
    show "timers_ok v" unfolding timers_ok_def reg
      using d(2) nt by (auto simp: timers_ok_def timed_def v_def)
    show "tables_ok v" using d(3) by (simp add: tables_ok_def v_def)
    show "links_ok v" using d(4) by (simp add: links_ok_def v_def)
    show "refs_ok (held h extra) v"
      by (rule refs_shift [OF ok registered_alive [OF ok rh]])
        (use rh refs_okD(2) [OF ok registered_alive [OF ok rh]] in
          \<open>simp_all add: reg tim\<close>, simp_all add: v_def)
  qed
qed

section \<open>Timer nodes\<close>

lemma node_key_update:
  "ns n = Some t \<Longrightarrow> expire_time t' = expire_time t \<Longrightarrow> node_key (ns(n \<mapsto> t')) = node_key ns"
  by (auto simp: fun_eq_iff node_key_def)

text \<open>Changing a node's flag.\<close>

lemma reactor_ok_flag:
  fixes w :: "'a reactor_scheme"
  assumes ok: "reactor_ok extra w" and n: "nodes w n = Some t"
    and k: "expire_time t' = expire_time t" "node_data t' = node_data t"
  shows "reactor_ok extra (w\<lparr>nodes := (nodes w)(n \<mapsto> t')\<rparr>)"
proof -
  let ?v = "w\<lparr>nodes := (nodes w)(n \<mapsto> t')\<rparr>"
  note d = reactor_okD [OF ok]
  have data: "(\<exists>s. nodes ?v m = Some s \<and> node_data s = Some h) \<longleftrightarrow>
      (\<exists>s. nodes w m = Some s \<and> node_data s = Some h)" for m h
    using n k by auto
  have r: "registered ?v = registered w" "timed ?v = timed w"
    unfolding timed_def data by (simp_all add: registered_def fun_eq_iff)
  show ?thesis
  proof (rule reactor_okI)
    show "queue_ok ?v" using d(1) n by (auto simp: queue_ok_def node_key_update [of "nodes w" n t, OF n k(1)])
    show "timers_ok ?v" using d(2) n k unfolding timers_ok_def r by auto
    show "tables_ok ?v" using d(3) by (simp add: tables_ok_def)
    show "links_ok ?v" using d(4) n k by (auto simp: links_ok_def)
    show "refs_ok extra ?v" using d(5) by (simp add: refs_ok_def r)
  qed
qed

text \<open>Taking the reference out of a node, or the node with it out of the heap.\<close>

lemma timed_without:
  assumes ok: "reactor_ok extra w" and n: "nodes w n = Some t" "node_data t = Some h"
    and v: "\<And>m. m \<noteq> n \<Longrightarrow> nodes v m = nodes w m"
    and e: "\<And>s h'. nodes v n = Some s \<Longrightarrow> node_data s \<noteq> Some h'"
  shows "timed v h' \<longleftrightarrow> timed w h' \<and> h' \<noteq> h"
proof
  assume "timed v h'"
  then obtain m s where m: "nodes v m = Some s" "node_data s = Some h'"
    by (auto simp: timed_def)
  with e have "m \<noteq> n" by auto
  with m v have "nodes w m = Some s" by simp
  moreover have "h' \<noteq> h" using timed_same_node [OF ok n] m calculation \<open>m \<noteq> n\<close> by auto
  ultimately show "timed w h' \<and> h' \<noteq> h" using m by (auto simp: timed_def)
next
  assume "timed w h' \<and> h' \<noteq> h"
  then obtain m s where m: "nodes w m = Some s" "node_data s = Some h'" "h' \<noteq> h"
    by (auto simp: timed_def)
  with n have "m \<noteq> n" by auto
  with m v have "nodes v m = Some s" by simp
  with m show "timed v h'" by (auto simp: timed_def)
qed

lemma reactor_ok_clear:
  fixes w :: "'a reactor_scheme"
  assumes ok: "reactor_ok extra w" and n: "nodes w n = Some t" and h: "node_data t = Some h"
    and k: "expire_time t' = expire_time t" "node_data t' = None"
  defines "v \<equiv> w\<lparr>nodes := (nodes w)(n \<mapsto> t')\<rparr>"
  shows "reactor_ok (held h extra) v" "\<not> timed v h" "registered v = registered w"
proof -
  note d = reactor_okD [OF ok]
  have tim: "timed v h' \<longleftrightarrow> timed w h' \<and> h' \<noteq> h" for h'
    by (rule timed_without [OF ok n h]) (use k in \<open>auto simp: v_def\<close>)
  show reg: "registered v = registered w" by (simp add: fun_eq_iff registered_def v_def)
  show "\<not> timed v h" using tim by simp
  have th: "timed w h" using n h by (auto simp: timed_def)
  show "reactor_ok (held h extra) v"
  proof (rule reactor_okI)
    show "queue_ok v" using d(1) n
      by (auto simp: v_def queue_ok_def node_key_update [of "nodes w" n t, OF n k(1)])
    show "timers_ok v" using d(2) k unfolding timers_ok_def reg by (auto simp: v_def)
    show "tables_ok v" using d(3) by (simp add: tables_ok_def v_def)
    show "links_ok v" using d(4) k by (auto simp: links_ok_def v_def)
    show "refs_ok (held h extra) v"
      by (rule refs_shift [OF ok timed_alive [OF ok th]])
        (use th refs_okD(2) [OF ok timed_alive [OF ok th]] in
          \<open>simp_all add: reg tim\<close>, simp_all add: v_def)
  qed
qed

lemma queue_ordered_cong:
  "(\<And>m. m \<in> set q \<Longrightarrow> f m = g m) \<Longrightarrow> queue_ordered f q \<longleftrightarrow> queue_ordered g q"
  unfolding queue_ordered_def by (metis map_cong)

lemma queue_ok_pop:
  assumes "queue_ok w" "n \<in> set (timer_node_queue w)" "q = remove1 n (timer_node_queue w)"
  shows "queue_ok (w\<lparr>timer_node_queue := q, nodes := (nodes w)(n := None)\<rparr>)" "n \<in> dom (nodes w)"
proof -
  from assms have d: "distinct (timer_node_queue w)" "set (timer_node_queue w) = dom (nodes w)"
    "queue_ordered (node_key (nodes w)) (timer_node_queue w)" "\<forall>m \<in> dom (nodes w). m < next_id w"
    by (simp_all add: queue_ok_def)
  with assms(2) show "n \<in> dom (nodes w)" by blast
  have q: "distinct q" "n \<notin> set q" "set q = set (timer_node_queue w) - {n}" using d(1) assms(3) by auto
  have "node_key ((nodes w)(n := None)) m = node_key (nodes w) m" if "m \<in> set q" for m
    using q(2) that by (auto simp: node_key_def)
  then have "queue_ordered (node_key ((nodes w)(n := None))) q \<longleftrightarrow> queue_ordered (node_key (nodes w)) q"
    by (rule queue_ordered_cong)
  moreover have "queue_ordered (node_key (nodes w)) q"
    using d(3) by (simp add: queue_ordered_def assms(3) sorted_map_remove1)
  ultimately have k: "queue_ordered (node_key ((nodes w)(n := None))) q" by simp
  have "set q = dom ((nodes w)(n := None))" using d(2) q(3) by auto
  with d q(1) k show "queue_ok (w\<lparr>timer_node_queue := q, nodes := (nodes w)(n := None)\<rparr>)"
    by (auto simp: queue_ok_def)
qed

lemma reactor_ok_pop:
  fixes w :: "'a reactor_scheme"
  assumes ok: "reactor_ok extra w"
    and q: "n \<in> set (timer_node_queue w)" "q = remove1 n (timer_node_queue w)"
    and n: "nodes w n = Some t" "node_data t = Some h"
  defines "v \<equiv> w\<lparr>timer_node_queue := q, nodes := (nodes w)(n := None)\<rparr>"
  shows "reactor_ok (held h extra) v" "\<not> timed v h" "registered v = registered w"
proof -
  note d = reactor_okD [OF ok]
  have tim: "timed v h' \<longleftrightarrow> timed w h' \<and> h' \<noteq> h" for h'
    by (rule timed_without [OF ok n]) (auto simp: v_def)
  show reg: "registered v = registered w" by (simp add: fun_eq_iff registered_def v_def)
  show "\<not> timed v h" using tim by simp
  have th: "timed w h" using n by (auto simp: timed_def)
  show "reactor_ok (held h extra) v"
  proof (rule reactor_okI)
    show "queue_ok v" unfolding v_def by (rule queue_ok_pop [OF d(1) q])
    show "timers_ok v" using d(2) unfolding timers_ok_def reg by (auto simp: v_def)
    show "tables_ok v" using d(3) by (simp add: tables_ok_def v_def)
    show "links_ok v" using d(4) by (auto simp: links_ok_def v_def)
    show "refs_ok (held h extra) v"
      by (rule refs_shift [OF ok timed_alive [OF ok th]])
        (use th refs_okD(2) [OF ok timed_alive [OF ok th]] in
          \<open>simp_all add: reg tim\<close>, simp_all add: v_def)
  qed
qed

lemma reactor_ok_pop_empty:
  fixes w :: "'a reactor_scheme"
  assumes ok: "reactor_ok extra w"
    and q: "n \<in> set (timer_node_queue w)" "q = remove1 n (timer_node_queue w)"
    and n: "nodes w n = Some t" "node_data t = None"
  shows "reactor_ok extra (w\<lparr>timer_node_queue := q, nodes := (nodes w)(n := None)\<rparr>)"
proof (rule reactor_okI)
  let ?v = "w\<lparr>timer_node_queue := q, nodes := (nodes w)(n := None)\<rparr>"
  note d = reactor_okD [OF ok]
  have reg: "registered ?v = registered w" by (simp add: fun_eq_iff registered_def)
  have data: "(nodes ?v m = Some s \<and> node_data s = Some h) \<longleftrightarrow>
      (nodes w m = Some s \<and> node_data s = Some h)" for m s h using n by auto
  have tim: "timed ?v = timed w" unfolding fun_eq_iff timed_def data by simp
  show "queue_ok ?v" by (rule queue_ok_pop [OF d(1) q])
  show "timers_ok ?v" using d(2) unfolding timers_ok_def reg by auto
  show "tables_ok ?v" using d(3) by (simp add: tables_ok_def)
  show "links_ok ?v" using d(4) by (auto simp: links_ok_def)
  show "refs_ok extra ?v" using d(5) unfolding refs_ok_def reg tim by simp
qed

text \<open>A new node for a registered connection that has none.\<close>

lemma queue_ok_add:
  assumes "queue_ok w" "n = next_id w"
  shows "queue_ok (w\<lparr>next_id := Suc n, nodes := (nodes w)(n \<mapsto> t),
    timer_node_queue := insort_key (node_key ((nodes w)(n \<mapsto> t))) n (timer_node_queue w)\<rparr>)"
proof -
  let ?q = "timer_node_queue w" and ?ns = "(nodes w)(n \<mapsto> t)"
  from assms(1) have d: "distinct ?q" "set ?q = dom (nodes w)"
    "queue_ordered (node_key (nodes w)) ?q" "\<forall>m \<in> dom (nodes w). m < next_id w"
    by (simp_all add: queue_ok_def)
  with assms(2) have f: "n \<notin> set ?q" by auto
  then have "node_key ?ns m = node_key (nodes w) m" if "m \<in> set ?q" for m
    using that by (auto simp: node_key_def)
  then have "queue_ordered (node_key ?ns) ?q \<longleftrightarrow> queue_ordered (node_key (nodes w)) ?q"
    by (rule queue_ordered_cong)
  with d(3) have o: "queue_ordered (node_key ?ns) ?q" by simp
  from d f timerq.push_wf [OF o, of n] assms(2) show ?thesis
    by (auto simp: queue_ok_def distinct_insort set_insort_key less_Suc_eq)
qed

lemma reactor_ok_add:
  fixes w :: "'a reactor_scheme"
  assumes ok: "reactor_ok extra w" and x: "https w h = Some x" and r: "registered w h"
    and nt: "\<not> timed w h" and t: "node_data t = Some h" and n: "n = next_id w"
  defines "v \<equiv> put_http h (LinkTimer n x) (retain h (w\<lparr>next_id := Suc n, nodes := (nodes w)(n \<mapsto> t),
    timer_node_queue := insort_key (node_key ((nodes w)(n \<mapsto> t))) n (timer_node_queue w)\<rparr>))"
  shows "reactor_ok extra v" "timed v h" "registered v = registered w"
proof -
  note d = reactor_okD [OF ok]
  have fresh: "nodes w n = None" using d(1) n by (auto simp: queue_ok_def)
  show reg: "registered v = registered w" by (simp add: fun_eq_iff registered_def v_def)
  have nodes: "nodes v m = (if m = n then Some t else nodes w m)" for m by (simp add: v_def)
  have tim: "timed v h' \<longleftrightarrow> timed w h' \<or> h' = h" for h'
    unfolding timed_def nodes using t fresh by (auto, metis option.distinct(1))
  then show "timed v h" by simp
  have nlt: "m < n" if "https w h' = Some y" "timer y = Some m" for h' y m
    using d(4) that n by (auto simp: links_ok_def)
  show "reactor_ok extra v"
  proof (rule reactor_okI)
    show "queue_ok v" using queue_ok_add [OF d(1) n, of t] by (simp add: v_def queue_ok_def)
    show "timers_ok v" unfolding timers_ok_def reg nodes
    proof (intro allI impI)
      fix m s h' assume m: "(if m = n then Some t else nodes w m) = Some s" "node_data s = Some h'"
      show "(\<exists>x. https v h' = Some x \<and> timer x = Some m) \<and> registered w h'"
      proof (cases "m = n")
        case True
        with m t r x show ?thesis by (auto simp: v_def LinkTimer_def)
      next
        case False
        with m have "nodes w m = Some s" "h' \<noteq> h" using nt by (auto simp: timed_def)
        with d(2) m show ?thesis by (simp add: timers_ok_def v_def)
      qed
    qed
    show "tables_ok v" unfolding tables_ok_def
    proof (intro allI impI)
      fix fd h' assume "fd2http v fd = Some (Some h')"
      then have "fd2http w fd = Some (Some h')" by (simp add: v_def)
      from table_entry [OF ok this] obtain y where "https w h' = Some y" "sock_fd y = fd"
        "fd2channel w fd = Some (Some (channel y))" "chan_fd (channels w (channel y)) = fd"
        "holder (channels w (channel y)) = Some h'" .
      with x show "\<exists>x. https v h' = Some x \<and> sock_fd x = fd \<and>
          fd2channel v fd = Some (Some (channel x)) \<and> chan_fd (channels v (channel x)) = fd \<and>
          holder (channels v (channel x)) = Some h'"
        by (cases "h' = h") (auto simp: v_def LinkTimer_def)
    qed
    show "links_ok v" unfolding links_ok_def nodes
    proof (intro allI impI)
      fix h' y m assume y: "https v h' = Some y" "timer y = Some m"
      show "m < next_id v \<and> (\<forall>s h''. (if m = n then Some t else nodes w m) = Some s \<longrightarrow>
          node_data s = Some h'' \<longrightarrow> h'' = h')"
      proof (cases "h' = h")
        case True
        with y x t show ?thesis by (auto simp: v_def LinkTimer_def)
      next
        case False
        with y have "https w h' = Some y" by (simp add: v_def)
        with y nlt d(4) n show ?thesis by (fastforce simp: links_ok_def v_def)
      qed
    qed
    show "refs_ok extra v"
    proof (rule refs_okI)
      fix h' assume "https v h' = None"
      then have "https w h' = None" "h' \<noteq> h" by (auto simp: v_def split: if_split_asm)
      with refs_okD(1) [OF ok] show "http_rc v h' = 0 \<and> extra h' = 0" by (simp add: v_def)
    next
      fix h' assume "https v h' \<noteq> None"
      then have "https w h' \<noteq> None" using x by (auto simp: v_def split: if_split_asm)
      from refs_okD(2) [OF ok this] nt n
      show "h' < next_id v \<and> (registered v h' \<or> timed v h' \<or> 0 < extra h') \<and>
          http_rc v h' = of_bool (registered v h') + of_bool (timed v h') + extra h'"
        unfolding reg tim by (cases "h' = h") (auto simp: v_def)
    qed
  qed
qed

section \<open>The operations keep the invariant\<close>

lemma ClearNode_ok:
  assumes ok: "reactor_ok extra w" and n: "nodes w n = Some t" "node_data t = Some h"
    and live: "registered w h \<or> 0 < extra h"
  obtains v where "ClearNode n w = Inr v" "reactor_ok extra v" "\<not> timed v h"
    "registered v = registered w" "https v = https w" "fd2http v = fd2http w"
    "channels v = channels w" "next_id v = next_id w" "socks v = socks w" "sys_log v = sys_log w"
    "clock v = clock w" "clock_reads v = clock_reads w"
proof -
  let ?t = "SetDeleted (t\<lparr>node_data := None\<rparr>)"
  let ?u = "w\<lparr>nodes := (nodes w)(n \<mapsto> ?t)\<rparr>"
  have k: "expire_time ?t = expire_time t" "node_data ?t = None" by (simp_all add: SetDeleted_def)
  note c = reactor_ok_clear [OF ok n k]
  have l: "registered ?u h \<or> timed ?u h \<or> 0 < extra h" using live c(3) by auto
  note r = reactor_ok_release [OF c(1)]
  show thesis
  proof (rule that)
    show "ClearNode n w = Inr (release h ?u)" using n by (simp add: ClearNode_def)
    show "reactor_ok extra (release h ?u)" by (rule r(1))
    show "\<not> timed (release h ?u) h" using c(2) by (simp add: timed_def)
    show "registered (release h ?u) = registered w" using c(3) by (simp add: registered_def fun_eq_iff)
    have kept: "https (release h ?u) h = https w h" using r(2) l by simp
    then show "https (release h ?u) = https w" by (auto simp: fun_eq_iff split: if_split_asm)
    have "https w h \<noteq> None" using timed_alive [OF ok] n by (auto simp: timed_def)
    with kept show "sys_log (release h ?u) = sys_log w" by (auto split: if_split_asm)
  qed simp_all
qed

text \<open>
  Separating the timer of a connection that something else holds as well: no fault, and it has no
  timer afterwards.
\<close>

lemma link_own:
  assumes "reactor_ok extra w" "https w h = Some x" "timer x = Some n" "nodes w n = Some t"
    "node_data t = Some h'"
  shows "h' = h"
  using reactor_okD(4) [OF assms(1)] assms(2-5) by (simp add: links_ok_def)

lemma untimed_link:
  assumes ok: "reactor_ok extra w" and x: "https w h = Some x"
    and n: "\<And>n t. timer x = Some n \<Longrightarrow> nodes w n = Some t \<Longrightarrow> node_data t = None"
  shows "\<not> timed w h"
proof
  assume "timed w h"
  then obtain m t where m: "nodes w m = Some t" "node_data t = Some h" by (auto simp: timed_def)
  with reactor_okD(2) [OF ok] x have "timer x = Some m" by (fastforce simp: timers_ok_def)
  with n m show False by fastforce
qed

lemma same_shape_timer_None:
  assumes ok: "reactor_ok extra w" and x: "https w h = Some x" and nt: "\<not> timed w h"
  shows "reactor_ok extra (put_http h (x\<lparr>timer := None\<rparr>) w)"
proof (rule reactor_okI)
  let ?v = "put_http h (x\<lparr>timer := None\<rparr>) w"
  note d = reactor_okD [OF ok]
  have reg: "registered ?v = registered w" and tim: "timed ?v = timed w"
    by (simp_all add: fun_eq_iff registered_def timed_def)
  show "queue_ok ?v" using d(1) by (simp add: queue_ok_def)
  show "timers_ok ?v" unfolding timers_ok_def reg
  proof (intro allI impI)
    fix n t h' assume n: "nodes ?v n = Some t" "node_data t = Some h'"
    then have "h' \<noteq> h" using nt by (auto simp: timed_def)
    with d(2) n show "(\<exists>x. https ?v h' = Some x \<and> timer x = Some n) \<and> registered w h'"
      by (simp add: timers_ok_def)
  qed
  show "tables_ok ?v" unfolding tables_ok_def
  proof (intro allI impI)
    fix fd h' assume "fd2http ?v fd = Some (Some h')"
    then have "fd2http w fd = Some (Some h')" by simp
    from table_entry [OF ok this] obtain y where "https w h' = Some y" "sock_fd y = fd"
      "fd2channel w fd = Some (Some (channel y))" "chan_fd (channels w (channel y)) = fd"
      "holder (channels w (channel y)) = Some h'" .
    with x show "\<exists>x. https ?v h' = Some x \<and> sock_fd x = fd \<and>
        fd2channel ?v fd = Some (Some (channel x)) \<and> chan_fd (channels ?v (channel x)) = fd \<and>
        holder (channels ?v (channel x)) = Some h'"
      by (cases "h' = h") auto
  qed
  show "links_ok ?v" using d(4) by (auto simp: links_ok_def)
  show "refs_ok extra ?v"
    by (rule refs_ok_cong [OF d(5)]) (use x in \<open>simp_all add: reg tim\<close>)
qed

lemma seperateTimer_ok:
  assumes ok: "reactor_ok extra w" and x: "https w h = Some x"
    and live: "registered w h \<or> 0 < extra h"
  obtains v t where "seperateTimer h w = Inr v" "reactor_ok extra v" "\<not> timed v h"
    "https v h = Some (x\<lparr>timer := t\<rparr>)" "registered v = registered w" "channels v = channels w"
    "socks v = socks w" "sys_log v = sys_log w" "clock v = clock w" "clock_reads v = clock_reads w"
proof (cases "\<exists>n t. timer x = Some n \<and> nodes w n = Some t")
  case False
  then have s: "seperateTimer h w = Inr w" using x
    by (cases "timer x") (auto simp: seperateTimer_def)
  have "\<not> timed w h" using untimed_link [OF ok x] False by blast
  then show thesis using that [OF s ok, of "timer x"] x by simp
next
  case True
  then obtain n t where n: "timer x = Some n" "nodes w n = Some t" by blast
  let ?t = "SetDeleted (t\<lparr>node_data := None\<rparr>)"
  have run: "seperateTimer h w = Inr (put_http h (x\<lparr>timer := None\<rparr>) v)"
    if "ClearNode n w = Inr v" "https v h = Some x" for v
    using that x n by (simp add: seperateTimer_def)
  show thesis
  proof (cases "node_data t")
    case None
    let ?v = "w\<lparr>nodes := (nodes w)(n \<mapsto> ?t)\<rparr>"
    have c: "ClearNode n w = Inr ?v" using n None by (simp add: ClearNode_def)
    have ok': "reactor_ok extra ?v"
      by (rule reactor_ok_flag [OF ok n(2)]) (simp_all add: SetDeleted_def None)
    have x': "https ?v h = Some x" using x by simp
    have nt: "\<not> timed ?v h"
      by (rule untimed_link [OF ok' x']) (use n in \<open>auto simp: SetDeleted_def\<close>)
    show thesis
      by (rule that [OF run [OF c x'] same_shape_timer_None [OF ok' x' nt], of None])
        (use nt in \<open>auto simp: timed_def registered_def fun_eq_iff\<close>)
  next
    case (Some h')
    with link_own [OF ok x n Some] have "node_data t = Some h" by simp
    from ClearNode_ok [OF ok n(2) this live] obtain v where v: "ClearNode n w = Inr v"
      "reactor_ok extra v" "\<not> timed v h" "registered v = registered w" "https v = https w"
      "channels v = channels w" "socks v = socks w" "sys_log v = sys_log w" "clock v = clock w"
      "clock_reads v = clock_reads w" .
    have x': "https v h = Some x" using v x by simp
    show thesis
      by (rule that [OF run [OF v(1) x'] same_shape_timer_None [OF v(2) x' v(3)], of None])
        (use v in \<open>auto simp: timed_def registered_def fun_eq_iff\<close>)
  qed
qed

text \<open>Closing a registered connection whose timer is separated: the assertion of \<open>EpollDel\<close> holds.\<close>

lemma HandleClose_ok:
  assumes ok: "reactor_ok extra w" and reg: "registered w h" and nt: "\<not> timed w h"
  obtains v where "HandleClose h w = Inr v" "reactor_ok extra v" "nodes v = nodes w"
    "timer_node_queue v = timer_node_queue w" "\<not> registered v h"
    "https v h \<noteq> None \<longleftrightarrow> 0 < extra h" "clock v = clock w" "clock_reads v = clock_reads w"
    "socks v = socks w"
proof -
  from reg obtain fd where fd: "fd2http w fd = Some (Some h)" by (auto simp: registered_def)
  from table_entry [OF ok fd] obtain x where x: "https w h = Some x" "sock_fd x = fd"
    "fd2channel w fd = Some (Some (channel x))" "chan_fd (channels w (channel x)) = fd" .
  let ?w1 = "put_http h (x\<lparr>connectionState := DISCONNECTED\<rparr>) w"
  let ?w2 = "log_call (Sys_epoll_ctl EPOLL_CTL_DEL fd (to_listen_events (channels w (channel x)))) ?w1"
  let ?w3 = "?w2\<lparr>fd2channel := (fd2channel w)(fd := None), fd2http := (fd2http w)(fd := None)\<rparr>"
  have "same_shape w ?w2"
    by (rule same_shape_trans [OF same_shape_put_http same_shape_quiet(1)]) (use x in simp_all)
  from reactor_ok_same [OF this ok] have ok2: "reactor_ok extra ?w2" .
  have "fd2http ?w2 fd = Some (Some h)" "\<not> timed ?w2 h" using fd nt by (simp_all add: timed_def)
  from reactor_ok_erase [OF ok2 this]
  have e: "reactor_ok (held h extra) ?w3" "\<not> registered ?w3 h" "\<not> timed ?w3 h" by simp_all
  note r = reactor_ok_release [OF e(1)]
  show thesis
  proof (rule that)
    show "HandleClose h w = Inr (release h ?w3)"
      using x fd by (simp add: HandleClose_def RemoveFromEpoller_def EpollDel_eq Let_def)
    show "reactor_ok extra (release h ?w3)" by (rule r(1))
    show "\<not> registered (release h ?w3) h" using e(2) by (simp add: registered_def)
    show "https (release h ?w3) h \<noteq> None \<longleftrightarrow> 0 < extra h" using r(2) e(2,3) by simp
  qed simp_all
qed

section \<open>Expiry\<close>

text \<open>
  The destructor of a node that has been taken from the queue: a node with a connection closes it
  and drops its reference.
\<close>

lemma destroy_TimerNode_ok:
  assumes ok: "reactor_ok extra w"
    and q: "n \<in> set (timer_node_queue w)" "q = remove1 n (timer_node_queue w)"
  obtains v where "destroy_TimerNode n (w\<lparr>timer_node_queue := q\<rparr>) = Inr v" "reactor_ok extra v"
    "timer_node_queue v = q" "nodes v = (nodes w)(n := None)" "clock v = clock w"
    "clock_reads v = clock_reads w"
proof -
  from queue_ok_pop(2) [OF reactor_okD(1) [OF ok] q] obtain t where t: "nodes w n = Some t" by blast
  let ?u = "w\<lparr>timer_node_queue := q, nodes := (nodes w)(n := None)\<rparr>"
  show thesis
  proof (cases "node_data t")
    case None
    show thesis
      by (rule that [of ?u]) (use t None reactor_ok_pop_empty [OF ok q t None] in
        \<open>simp_all add: destroy_TimerNode_def\<close>)
  next
    case (Some h)
    note p = reactor_ok_pop [OF ok q t Some]
    have "timed w h" using t Some by (auto simp: timed_def)
    with reactor_okD(2) [OF ok] have "registered w h" by (auto simp: timers_ok_def timed_def)
    with p(3) have "registered ?u h" by simp
    from HandleClose_ok [OF p(1) this p(2)] obtain v where v: "HandleClose h ?u = Inr v"
      "reactor_ok (held h extra) v" "nodes v = nodes ?u" "timer_node_queue v = timer_node_queue ?u"
      "clock v = clock ?u" "clock_reads v = clock_reads ?u" .
    show thesis
      by (rule that [of "release h v"])
        (use t Some v reactor_ok_release(1) [OF v(2)] in \<open>simp_all add: destroy_TimerNode_def\<close>)
  qed
qed

lemma queue_head_node:
  assumes "reactor_ok extra w" "timer_node_queue w = n # q"
  obtains t where "nodes w n = Some t"
proof -
  have "n \<in> set (timer_node_queue w)" using assms(2) by simp
  from queue_ok_pop(2) [OF reactor_okD(1) [OF assms(1)] this refl] that show thesis by blast
qed

text \<open>
  One pass. When it stops, no node of the queue is due at the time it read: the queue is ordered,
  and its top is not.
\<close>

definition none_due_at :: "nat \<times> nat \<Rightarrow> 'a reactor_scheme \<Rightarrow> bool" where
  "none_due_at now w \<longleftrightarrow> (\<forall>n t. nodes w n = Some t \<longrightarrow> wrapped_ms now < expire_time t)"

lemma expire_step_ok:
  assumes ok: "reactor_ok extra w" and q: "timer_node_queue w = n # q"
  obtains again v where "expire_step n w = Inr (again, v)" "reactor_ok extra v"
    "clock v = clock w" "clock_reads v = Suc (clock_reads w)"
    "again \<Longrightarrow> timer_node_queue v = q"
    "\<not> again \<Longrightarrow> none_due_at (clock w (clock_reads w)) v"
proof -
  from queue_head_node [OF ok q] obtain t where t: "nodes w n = Some t" .
  let ?now = "clock w (clock_reads w)" and ?u = "w\<lparr>clock_reads := Suc (clock_reads w)\<rparr>"
  let ?expired = "\<not> wrapped_ms ?now < expire_time t"
  let ?v = "if ?expired then ?u\<lparr>nodes := (nodes w)(n \<mapsto> SetDeleted t)\<rparr> else ?u"
  have oku: "reactor_ok extra ?u" by (rule reactor_ok_same [OF same_shape_quiet(3) ok])
  have "reactor_ok extra (?u\<lparr>nodes := (nodes ?u)(n \<mapsto> SetDeleted t)\<rparr>)"
    by (rule reactor_ok_flag [OF oku]) (use t in \<open>simp_all add: SetDeleted_def\<close>)
  with oku have okv: "reactor_ok extra ?v" by simp
  have e: "IsExpired n w = Inr (?expired, ?v)"
    using t by (simp add: IsExpired_def gettimeofday_def)
  have qv: "timer_node_queue ?v = n # q" using q by simp
  have d: "IsDeleted n ?v = Inr (?expired \<or> is_deleted t)"
    using t by (simp add: IsDeleted_def SetDeleted_def)
  show thesis
  proof (cases "?expired \<or> is_deleted t")
    case True
    have "n \<in> set (timer_node_queue ?v)" "q = remove1 n (timer_node_queue ?v)" using qv by simp_all
    from destroy_TimerNode_ok [OF okv this] obtain u where
      u: "destroy_TimerNode n (?v\<lparr>timer_node_queue := q\<rparr>) = Inr u" "reactor_ok extra u"
      "timer_node_queue u = q" "clock u = clock ?v" "clock_reads u = clock_reads ?v" .
    have "expire_step n w = Inr (True, u)"
      unfolding expire_step_def e bindR_simps prod.case d using True u(1) qv by auto
    from that [OF this u(2)] u(3-5) show thesis by simp
  next
    case False
    then have s: "expire_step n w = Inr (False, ?u)"
      unfolding expire_step_def e bindR_simps prod.case d by auto
    have o: "queue_ordered (node_key (nodes w)) (n # q)" "set (n # q) = dom (nodes w)"
      using reactor_okD(1) [OF ok] q by (simp_all add: queue_ok_def)
    have "wrapped_ms ?now < expire_time s" if m: "nodes w m = Some s" for m s
    proof -
      from m o(2) have "m \<in># mset (n # q)" by auto
      from timerq.none_due [OF o(1) _ this, of "wrapped_ms ?now"] False t m show ?thesis by simp
    qed
    then have "none_due_at ?now ?u" by (simp add: none_due_at_def)
    from that [OF s oku _ _ _ this] show thesis by simp
  qed
qed

lemma HandleExpire_ok:
  assumes "reactor_ok extra w"
  shows "\<exists>v. HandleExpire w = Inr v \<and> reactor_ok extra v \<and> clock v = clock w \<and>
    clock_reads w \<le> clock_reads v \<and>
    (timer_node_queue v \<noteq> [] \<longrightarrow> none_due_at (clock w (clock_reads v - 1)) v)"
  using assms
proof (induction w rule: HandleExpire.induct)
  case (1 w)
  show ?case
  proof (cases "timer_node_queue w")
    case Nil
    with 1 show ?thesis by (simp add: HandleExpire.simps)
  next
    case (Cons n q)
    from expire_step_ok [OF "1.prems" Cons] obtain again v where v: "expire_step n w = Inr (again, v)"
      "reactor_ok extra v" "clock v = clock w" "clock_reads v = Suc (clock_reads w)"
      "\<not> again \<Longrightarrow> none_due_at (clock w (clock_reads w)) v" by blast
    show ?thesis
    proof (cases again)
      case True
      from "1.IH" [OF Cons v(1) refl True v(2)] v Cons True show ?thesis
        by (auto simp: HandleExpire.simps [of w])
    next
      case False
      with v Cons show ?thesis by (auto simp: HandleExpire.simps [of w])
    qed
  qed
qed

section \<open>Arming a timer\<close>

lemma AddTimerNode_ok:
  assumes ok: "reactor_ok extra w" and x: "https w h = Some x" and r: "registered w h"
    and nt: "\<not> timed w h"
  obtains v where "AddTimerNode h timeout w = Inr v" "reactor_ok extra v" "timed v h"
    "registered v = registered w" "https v = (https w)(h \<mapsto> LinkTimer (next_id w) x)"
    "nodes v = (nodes w)(next_id w \<mapsto> \<lparr>is_deleted = False,
       expire_time = deadline (clock w (clock_reads w)) timeout, node_data = Some h\<rparr>)"
    "channels v = channels w" "sys_log v = sys_log w"
proof -
  let ?w1 = "w\<lparr>clock_reads := Suc (clock_reads w)\<rparr>"
  let ?t = "\<lparr>is_deleted = False, expire_time = deadline (clock w (clock_reads w)) timeout,
    node_data = Some h\<rparr>"
  let ?n = "next_id w"
  let ?v = "put_http h (LinkTimer ?n x) (retain h (?w1\<lparr>next_id := Suc ?n, nodes := (nodes w)(?n \<mapsto> ?t),
    timer_node_queue := insort_key (node_key ((nodes w)(?n \<mapsto> ?t))) ?n (timer_node_queue w)\<rparr>))"
  have ok1: "reactor_ok extra ?w1" by (rule reactor_ok_same [OF same_shape_quiet(3) ok])
  have "registered ?w1 h" "\<not> timed ?w1 h" using r nt by (simp_all add: registered_def timed_def)
  from reactor_ok_add [OF ok1 _ this, of x ?t ?n] x
  have a: "reactor_ok extra ?v" "timed ?v h" "registered ?v = registered ?w1" by simp_all
  show thesis
  proof (rule that [of ?v])
    show "AddTimerNode h timeout w = Inr ?v" using x
      by (simp add: AddTimerNode_def new_TimerNode_def gettimeofday_def Let_def with_http_def retain_def
          put_http_def)
    show "registered ?v = registered w" using a(3) by (simp add: registered_def fun_eq_iff)
  qed (use a in simp_all)
qed

lemma holder_registered:
  assumes "reactor_ok extra w" "registered w h" "https w h = Some x"
  shows "GetHolder (https w) (channels w (channel x)) = Some h"
    "fd2channel w (sock_fd x) = Some (Some (channel x))" "fd2http w (sock_fd x) = Some (Some h)"
    "chan_fd (channels w (channel x)) = sock_fd x"
proof -
  from assms(2) obtain fd where fd: "fd2http w fd = Some (Some h)" by (auto simp: registered_def)
  from table_entry [OF assms(1) fd] obtain y where "https w h = Some y" "sock_fd y = fd"
    "fd2channel w fd = Some (Some (channel y))" "chan_fd (channels w (channel y)) = fd"
    "holder (channels w (channel y)) = Some h" .
  with assms(3) fd show "GetHolder (https w) (channels w (channel x)) = Some h"
    "fd2channel w (sock_fd x) = Some (Some (channel x))" "fd2http w (sock_fd x) = Some (Some h)"
    "chan_fd (channels w (channel x)) = sock_fd x"
    by (auto simp: GetHolder_def)
qed

lemma UpdateEpoller_ok:
  assumes ok: "reactor_ok extra w" and r: "registered w h" and x: "https w h = Some x"
    and nt: "\<not> timed w h" and p: "0 < timeout"
  obtains v where "UpdateEpoller (channel x) timeout w = Inr v" "reactor_ok extra v" "timed v h"
    "registered v = registered w" "https v = (https w)(h \<mapsto> LinkTimer (next_id w) x)"
    "nodes v (next_id w) = Some \<lparr>is_deleted = False,
       expire_time = deadline (clock w (clock_reads w)) timeout, node_data = Some h\<rparr>"
    "channels v = channels w"
    "sys_log v = sys_log w @
       [Sys_epoll_ctl EPOLL_CTL_MOD (sock_fd x) (to_listen_events (channels w (channel x)))]"
proof -
  let ?c = "Sys_epoll_ctl EPOLL_CTL_MOD (sock_fd x) (to_listen_events (channels w (channel x)))"
  let ?w1 = "log_call ?c w"
  note hr = holder_registered [OF ok r x]
  have ok1: "reactor_ok extra ?w1" by (rule reactor_ok_same [OF same_shape_quiet(1) ok])
  have r1: "registered ?w1 h" "\<not> timed ?w1 h" "registered ?w1 = registered w"
    using r nt by (simp_all add: registered_def timed_def fun_eq_iff)
  have x1: "https ?w1 h = Some x" using x by simp
  from AddTimerNode_ok [OF ok1 x1 r1(1,2), of timeout] obtain v where
    v: "AddTimerNode h timeout ?w1 = Inr v" "reactor_ok extra v" "timed v h"
    "registered v = registered ?w1" "https v = (https ?w1)(h \<mapsto> LinkTimer (next_id ?w1) x)"
    "nodes v = (nodes ?w1)(next_id ?w1 \<mapsto> \<lparr>is_deleted = False,
       expire_time = deadline (clock ?w1 (clock_reads ?w1)) timeout, node_data = Some h\<rparr>)"
    "channels v = channels ?w1" "sys_log v = sys_log ?w1" .
  show thesis
  proof (rule that [of v])
    show "UpdateEpoller (channel x) timeout w = Inr v"
      using hr p v(1) by (simp add: UpdateEpoller_def EpollModify_def add_timer_def)
  qed (use v r1(3) in simp_all)
qed

section \<open>The connection callback\<close>

text \<open>
  From any state of the invariant, the callback of a registered connection meets no fault and keeps
  the invariant; afterwards the connection is closed and gone, or has a timer, or is in a state
  the callback does not touch.
\<close>

lemma listen_ok:
  assumes "reactor_ok extra w"
  shows "reactor_ok extra (put_channel c (SetToListenEvents e (channels w c)) w)"
  by (rule reactor_ok_same [OF same_shape_put_channel assms]) simp_all

lemma timeouts_positive: "0 < DEFAULT_KEEP_ALIVE_TIME" "0 < DEFAULT_EXPIRE_TIME"
  by (simp_all add: DEFAULT_KEEP_ALIVE_TIME_def DEFAULT_EXPIRE_TIME_def)

lemma listen_update_ok:
  assumes ok: "reactor_ok extra w" and r: "registered w h" and x: "https w h = Some x"
    and nt: "\<not> timed w h" and p: "0 < timeout"
  obtains v where
    "UpdateEpoller (channel x) timeout (put_channel (channel x)
       (SetToListenEvents e (channels w (channel x))) w) = Inr v"
    "reactor_ok extra v" "timed v h" "registered v h"
    "https v = (https w)(h \<mapsto> LinkTimer (next_id w) x)"
    "to_listen_events (channels v (channel x)) = e"
    "sys_log v = sys_log w @ [Sys_epoll_ctl EPOLL_CTL_MOD (sock_fd x) e]"
    "nodes v (next_id w) = Some \<lparr>is_deleted = False,
       expire_time = deadline (clock w (clock_reads w)) timeout, node_data = Some h\<rparr>"
proof -
  let ?w1 = "put_channel (channel x) (SetToListenEvents e (channels w (channel x))) w"
  have s: "registered ?w1 = registered w" "timed ?w1 = timed w" "https ?w1 h = Some x"
    using x by (simp_all add: registered_def timed_def fun_eq_iff)
  have r1: "registered ?w1 h" "\<not> timed ?w1 h" using r nt s by simp_all
  from UpdateEpoller_ok [OF listen_ok [OF ok] r1(1) s(3) r1(2) p] obtain v where
    v: "UpdateEpoller (channel x) timeout ?w1 = Inr v" "reactor_ok extra v" "timed v h"
    "registered v = registered ?w1" "https v = (https ?w1)(h \<mapsto> LinkTimer (next_id ?w1) x)"
    "nodes v (next_id ?w1) = Some \<lparr>is_deleted = False,
       expire_time = deadline (clock ?w1 (clock_reads ?w1)) timeout, node_data = Some h\<rparr>"
    "channels v = channels ?w1" "sys_log v = sys_log ?w1 @
      [Sys_epoll_ctl EPOLL_CTL_MOD (sock_fd x) (to_listen_events (channels ?w1 (channel x)))]" .
  from that [OF v(1-3)] v(4-8) r1(1) show thesis by simp
qed

lemma HandleCurrentConn_cases:
  assumes ok: "reactor_ok extra w" and r: "registered w h" and x: "https w h = Some x"
  obtains u t where "reactor_ok extra u" "\<not> timed u h" "registered u h"
    "https u h = Some (x\<lparr>timer := t\<rparr>)" "channels u = channels w" "sys_log u = sys_log w"
    "clock u = clock w" "clock_reads u = clock_reads w"
    "HandleCurrentConn h w =
      (let c = channel x; ev = to_listen_events (channels w c);
           listen = (\<lambda>e. put_channel c (SetToListenEvents e (channels w c)) u) in
       if \<not> has_error x \<and> connectionState x = CONNECTED then
         if ev \<noteq> 0 then
           UpdateEpoller c (if keep_alive x then DEFAULT_KEEP_ALIVE_TIME else DEFAULT_EXPIRE_TIME)
             (listen (EPOLLOUT OR EPOLLET))
         else if keep_alive x then
           UpdateEpoller c DEFAULT_KEEP_ALIVE_TIME (listen (EPOLLIN OR EPOLLET))
         else HandleClose h u
       else if \<not> has_error x \<and> connectionState x = DISCONNECTING then
         if has_event ev EPOLLOUT then Inr (listen (EPOLLOUT OR EPOLLET)) else HandleClose h u
       else Inr u)"
proof -
  from r have "registered w h \<or> 0 < extra h" ..
  from seperateTimer_ok [OF ok x this] obtain u t where u: "seperateTimer h w = Inr u"
    "reactor_ok extra u" "\<not> timed u h" "https u h = Some (x\<lparr>timer := t\<rparr>)"
    "registered u = registered w" "channels u = channels w" "sys_log u = sys_log w"
    "clock u = clock w" "clock_reads u = clock_reads w" .
  show thesis
    by (rule that [of u t]) (use u r in \<open>simp_all add: HandleCurrentConn_def Let_def\<close>)
qed

lemma HandleCurrentConn_ok:
  assumes ok: "reactor_ok extra w" and r: "registered w h"
  obtains v where "HandleCurrentConn h w = Inr v" "reactor_ok extra v"
proof -
  from registered_alive [OF ok r] obtain x where x: "https w h = Some x" by blast
  from HandleCurrentConn_cases [OF ok r x] obtain u t where u: "reactor_ok extra u" "\<not> timed u h"
    "registered u h" "https u h = Some (x\<lparr>timer := t\<rparr>)" "channels u = channels w"
    "HandleCurrentConn h w =
      (let c = channel x; ev = to_listen_events (channels w c);
           listen = (\<lambda>e. put_channel c (SetToListenEvents e (channels w c)) u) in
       if \<not> has_error x \<and> connectionState x = CONNECTED then
         if ev \<noteq> 0 then
           UpdateEpoller c (if keep_alive x then DEFAULT_KEEP_ALIVE_TIME else DEFAULT_EXPIRE_TIME)
             (listen (EPOLLOUT OR EPOLLET))
         else if keep_alive x then
           UpdateEpoller c DEFAULT_KEEP_ALIVE_TIME (listen (EPOLLIN OR EPOLLET))
         else HandleClose h u
       else if \<not> has_error x \<and> connectionState x = DISCONNECTING then
         if has_event ev EPOLLOUT then Inr (listen (EPOLLOUT OR EPOLLET)) else HandleClose h u
       else Inr u)" .
  have upd: "\<exists>v. UpdateEpoller (channel x) k (put_channel (channel x)
      (SetToListenEvents e (channels w (channel x))) u) = Inr v \<and> reactor_ok extra v"
    if "0 < k" for e k
    using listen_update_ok [OF u(1,3,4,2) that, of e] u(5) by (simp del: channel_defs) metis
  have cl: "\<exists>v. HandleClose h u = Inr v \<and> reactor_ok extra v"
    using HandleClose_ok [OF u(1,3,2)] by metis
  have li: "reactor_ok extra (put_channel (channel x) (SetToListenEvents e (channels w (channel x))) u)"
    for e using listen_ok [OF u(1), of "channel x" e] u(5) by simp
  have "\<exists>v. HandleCurrentConn h w = Inr v \<and> reactor_ok extra v"
    unfolding u(6) Let_def
    by (simp only: upd timeouts_positive cl li u(1) sum.inject simp_thms split: if_split)
  then show thesis using that by blast
qed

section \<open>A new connection\<close>

text \<open>
  The tables take a connection whose channel and descriptor nobody else uses. The reference of the
  table comes on top.
\<close>

lemma reactor_ok_register:
  fixes w :: "'a reactor_scheme"
  assumes ok: "reactor_ok extra w" and x: "https w h = Some x" and nr: "\<not> registered w h"
    and free: "fd2http w (sock_fd x) = None" "fd2channel w (sock_fd x) = None"
    and c: "chan_fd (channels w (channel x)) = sock_fd x" "holder (channels w (channel x)) = Some h"
  defines "v \<equiv> retain h (w\<lparr>fd2channel := (fd2channel w)(sock_fd x \<mapsto> Some (channel x)),
    fd2http := (fd2http w)(sock_fd x \<mapsto> Some h)\<rparr>)"
  shows "reactor_ok extra v" "registered v h" "timed v = timed w"
proof -
  note d = reactor_okD [OF ok]
  have reg: "registered v h' \<longleftrightarrow> registered w h' \<or> h' = h" for h'
  proof
    assume "registered v h'"
    then show "registered w h' \<or> h' = h" by (auto simp: registered_def v_def split: if_split_asm)
  next
    assume "registered w h' \<or> h' = h"
    then show "registered v h'"
    proof
      assume "registered w h'"
      then obtain fd where "fd2http w fd = Some (Some h')" by (auto simp: registered_def)
      moreover from this free have "fd \<noteq> sock_fd x" by auto
      ultimately have "fd2http v fd = Some (Some h')" by (simp add: v_def)
      then show ?thesis by (auto simp: registered_def)
    next
      assume "h' = h"
      then have "fd2http v (sock_fd x) = Some (Some h')" by (simp add: v_def)
      then show ?thesis by (auto simp: registered_def)
    qed
  qed
  show "registered v h" using reg by simp
  show tim: "timed v = timed w" by (simp add: fun_eq_iff timed_def v_def)
  show "reactor_ok extra v"
  proof (rule reactor_okI)
    show "queue_ok v" using d(1) by (simp add: queue_ok_def v_def)
    show "timers_ok v" using d(2) unfolding timers_ok_def reg by (simp add: v_def)
    show "tables_ok v" unfolding tables_ok_def
    proof (intro allI impI)
      fix fd h' assume f: "fd2http v fd = Some (Some h')"
      show "\<exists>x. https v h' = Some x \<and> sock_fd x = fd \<and> fd2channel v fd = Some (Some (channel x)) \<and>
          chan_fd (channels v (channel x)) = fd \<and> holder (channels v (channel x)) = Some h'"
      proof (cases "fd = sock_fd x")
        case True
        with f x c show ?thesis by (simp add: v_def)
      next
        case False
        with f have "fd2http w fd = Some (Some h')" by (simp add: v_def)
        from table_entry [OF ok this] obtain y where "https w h' = Some y" "sock_fd y = fd"
          "fd2channel w fd = Some (Some (channel y))" "chan_fd (channels w (channel y)) = fd"
          "holder (channels w (channel y)) = Some h'" .
        with False show ?thesis by (auto simp: v_def)
      qed
    qed
    show "links_ok v" using d(4) by (simp add: links_ok_def v_def)
    show "refs_ok extra v"
    proof (rule refs_okI)
      fix h' assume "https v h' = None"
      then have "https w h' = None" "h' \<noteq> h" using x by (auto simp: v_def)
      with refs_okD(1) [OF ok] show "http_rc v h' = 0 \<and> extra h' = 0" by (simp add: v_def)
    next
      fix h' assume "https v h' \<noteq> None"
      then have "https w h' \<noteq> None" by (simp add: v_def)
      from refs_okD(2) [OF ok this] nr
      show "h' < next_id v \<and> (registered v h' \<or> timed v h' \<or> 0 < extra h') \<and>
          http_rc v h' = of_bool (registered v h') + of_bool (timed v h') + extra h'"
        unfolding reg tim by (cases "h' = h") (auto simp: v_def)
    qed
  qed
qed

text \<open>
  \<open>Init\<close> arms the timer before it registers the connection; the result is the same as in the other
  order, in which every step keeps the invariant.
\<close>

lemma same_shape_holder_free:
  assumes ok: "reactor_ok extra w" and f: "holder (channels w c) = None"
  shows "reactor_ok extra (put_channel c ch w)"
proof (rule reactor_okI)
  let ?v = "put_channel c ch w"
  note d = reactor_okD [OF ok]
  have reg: "registered ?v = registered w" and tim: "timed ?v = timed w"
    by (simp_all add: fun_eq_iff registered_def timed_def)
  show "queue_ok ?v" using d(1) by (simp add: queue_ok_def)
  show "timers_ok ?v" using d(2) by (simp add: timers_ok_def reg)
  show "tables_ok ?v" using d(3) f by (fastforce simp: tables_ok_def)
  show "links_ok ?v" using d(4) by (simp add: links_ok_def)
  show "refs_ok extra ?v" by (rule refs_ok_cong [OF d(5)]) (simp_all add: reg tim)
qed

lemma Init_ok:
  assumes ok: "reactor_ok extra w" and x: "https w h = Some x" and nr: "\<not> registered w h"
    and free: "fd2http w (sock_fd x) = None" "fd2channel w (sock_fd x) = None"
    and c: "chan_fd (channels w (channel x)) = sock_fd x" "holder (channels w (channel x)) = None"
  obtains v where "Init h w = Inr v" "reactor_ok extra v" "registered v h" "timed v h"
    "to_listen_events (channels v (channel x)) = EPOLLIN OR EPOLLET"
proof -
  let ?ch = "SetToListenEvents (EPOLLIN OR EPOLLET) (SetHolder h (channels w (channel x)))"
  let ?call = "Sys_epoll_ctl EPOLL_CTL_ADD (sock_fd x) (EPOLLIN OR EPOLLET)"
  let ?w1 = "log_call ?call (put_channel (channel x) ?ch w)"
  let ?w2 = "retain h (?w1\<lparr>fd2channel := (fd2channel ?w1)(sock_fd x \<mapsto> Some (channel x)),
    fd2http := (fd2http ?w1)(sock_fd x \<mapsto> Some h)\<rparr>)"
  have nt: "\<not> timed w h" using reactor_okD(2) [OF ok] nr by (auto simp: timers_ok_def timed_def)
  have ok1: "reactor_ok extra ?w1"
    by (rule reactor_ok_same [OF same_shape_quiet(1) same_shape_holder_free [OF ok c(2)]])
  have s1: "https ?w1 h = Some x" "\<not> registered ?w1 h" "\<not> timed ?w1 h"
    "chan_fd (channels ?w1 (channel x)) = sock_fd x" "holder (channels ?w1 (channel x)) = Some h"
    "fd2http ?w1 (sock_fd x) = None" "fd2channel ?w1 (sock_fd x) = None"
    using x nr nt c free by (simp_all add: registered_def timed_def)
  note g = reactor_ok_register [OF ok1 s1(1,2,6,7,4,5)]
  have s2: "https ?w2 h = Some x" "\<not> timed ?w2 h" using x g(3) s1(3) by simp_all
  from AddTimerNode_ok [OF g(1) s2(1) g(2) s2(2), of DEFAULT_EXPIRE_TIME] obtain v where
    v: "AddTimerNode h DEFAULT_EXPIRE_TIME ?w2 = Inr v" "reactor_ok extra v" "timed v h"
    "registered v = registered ?w2" "channels v = channels ?w2" .
  have hold: "GetHolder (https w) ?ch = Some h" using x by (simp add: GetHolder_def)
  have "Init h w = AddTimerNode h DEFAULT_EXPIRE_TIME ?w2"
    using x free c hold timeouts_positive
    by (simp add: Init_def AddToEpoller_def EpollAdd_def add_timer_def AddTimerNode_def
        new_TimerNode_def gettimeofday_def Let_def map_insert_def GetHolder_def retain_def put_http_def
        log_call_def put_channel_def fun_upd_twist with_http_def)
  with that v g(2) show thesis by simp
qed

text \<open>A new object, with the one reference its creator holds.\<close>

lemma reactor_ok_new:
  fixes w :: "'a reactor_scheme"
  assumes ok: "reactor_ok extra w" and h: "next_id w \<le> h" and x: "timer x = None"
  defines "v \<equiv> retain h (put_http h x (w\<lparr>next_id := Suc h\<rparr>))"
  shows "reactor_ok (held h extra) v" "\<not> registered v h" "\<not> timed v h"
proof -
  note d = reactor_okD [OF ok]
  have reg: "registered v = registered w" and tim: "timed v = timed w"
    by (simp_all add: fun_eq_iff registered_def timed_def v_def)
  have n: "https w h = None" using refs_okD(2) [OF ok, of h] h by (cases "https w h") auto
  show "\<not> registered v h" "\<not> timed v h"
    using registered_alive [OF ok, of h] timed_alive [OF ok, of h] n by (auto simp: reg tim)
  then have nr: "\<not> registered w h" "\<not> timed w h" by (simp_all add: reg tim)
  show "reactor_ok (held h extra) v"
  proof (rule reactor_okI)
    have "n < Suc h" if "n \<in> dom (nodes w)" for n
      using d(1) h that unfolding queue_ok_def by (meson less_SucI order.strict_trans2)
    then show "queue_ok v" using d(1) by (simp add: queue_ok_def v_def)
    show "timers_ok v" unfolding timers_ok_def reg
    proof (intro allI impI)
      fix n t h' assume t: "nodes v n = Some t" "node_data t = Some h'"
      then have "h' \<noteq> h" using nr by (auto simp: timed_def v_def)
      with d(2) t show "(\<exists>x. https v h' = Some x \<and> timer x = Some n) \<and> registered w h'"
        by (simp add: timers_ok_def v_def)
    qed
    show "tables_ok v" unfolding tables_ok_def
    proof (intro allI impI)
      fix fd h' assume "fd2http v fd = Some (Some h')"
      then have f: "fd2http w fd = Some (Some h')" by (simp add: v_def)
      then have "h' \<noteq> h" using nr by (auto simp: registered_def)
      with d(3) f show "\<exists>x. https v h' = Some x \<and> sock_fd x = fd \<and>
          fd2channel v fd = Some (Some (channel x)) \<and> chan_fd (channels v (channel x)) = fd \<and>
          holder (channels v (channel x)) = Some h'"
        by (simp add: tables_ok_def v_def)
    qed
    show "links_ok v" using d(4) h x by (fastforce simp: links_ok_def v_def)
    show "refs_ok (held h extra) v"
    proof (rule refs_okI)
      fix h' assume "https v h' = None"
      then have "https w h' = None" "h' \<noteq> h" by (auto simp: v_def split: if_split_asm)
      with refs_okD(1) [OF ok] show "http_rc v h' = 0 \<and> held h extra h' = 0" by (simp add: v_def)
    next
      fix h' assume a: "https v h' \<noteq> None"
      show "h' < next_id v \<and> (registered v h' \<or> timed v h' \<or> 0 < held h extra h') \<and>
          http_rc v h' = of_bool (registered v h') + of_bool (timed v h') + held h extra h'"
      proof (cases "h' = h")
        case True
        then show ?thesis using refs_okD(1) [OF ok n] nr by (simp add: reg tim) (simp add: v_def)
      next
        case False
        with a have "https w h' \<noteq> None" by (simp add: v_def)
        from refs_okD(2) [OF ok this] False h show ?thesis unfolding reg tim by (simp add: v_def)
      qed
    qed
  qed
qed

section \<open>Properties\<close>

text \<open>One registered connection on descriptor 7 with a timer, as \<open>Init\<close> leaves it.\<close>

definition one_conn :: "Http \<Rightarrow> nat \<times> nat \<Rightarrow> sock \<Rightarrow> reactor" where
  "one_conn x now sk =
     \<lparr>https = [1 \<mapsto> x\<lparr>channel := 0, sock_fd := 7, timer := Some 2\<rparr>],
      http_rc = (\<lambda>h. if h = 1 then 2 else 0),
      channels = (\<lambda>c. if c = 0 then
         SetToListenEvents (EPOLLIN OR EPOLLET) (SetHolder 1
           (SetConnCallback (CB_HandleCurrentConn 1) (SetWriteCallback (CB_HandleWrite 1)
             (SetReadCallback (CB_HandleRead 1) (new_Channel 7)))))
         else new_Channel (-1)),
      nodes = [2 \<mapsto> \<lparr>is_deleted = False, expire_time = 3000, node_data = Some 1\<rparr>],
      next_id = 3, fd2channel = [7 \<mapsto> Some 0], fd2http = [7 \<mapsto> Some 1], timer_node_queue = [2],
      clock = (\<lambda>_. now), clock_reads = 0, socks = (\<lambda>fd. sk), sys_log = []\<rparr>"

lemma one_conn_ok: "reactor_ok (\<lambda>_. 0) (one_conn x now sk)"
proof (rule reactor_okI)
  let ?w = "one_conn x now sk"
  have r: "registered ?w h \<longleftrightarrow> h = 1" "timed ?w h \<longleftrightarrow> h = 1" for h
    by (auto simp: one_conn_def registered_def timed_def split: if_split_asm)
  show "queue_ok ?w" by (simp add: one_conn_def queue_ok_def queue_ordered_def)
  show "timers_ok ?w" unfolding timers_ok_def r by (simp add: one_conn_def)
  show "tables_ok ?w" by (simp add: tables_ok_def one_conn_def new_Channel_def)
  show "links_ok ?w" by (simp add: links_ok_def one_conn_def)
  show "refs_ok (\<lambda>_. 0) ?w"
    by (rule refs_okI) (simp_all add: r, simp_all add: one_conn_def split: if_split_asm)
qed

lemma one_conn_registered: "registered (one_conn x now sk) 1"
  by (auto simp: registered_def one_conn_def)

definition quiet_sock :: sock where
  "quiet_sock = \<lparr>rd_script = [], wr_script = [], sent = []\<rparr>"

text \<open>
  C5. From a state of the reactor invariant, expiring timers ends without a fault: the assertion of
  \<open>EpollDel\<close> holds for every connection that is closed and no destroyed object is used. The
  invariant holds again afterwards, and unless the queue is empty no timer left is due at the time
  read last.
\<close>

theorem HandleExpire_safe:
  assumes "reactor_ok extra w"
  shows "\<exists>v. HandleExpire w = Inr v \<and> reactor_ok extra v \<and>
    (timer_node_queue v \<noteq> [] \<longrightarrow> (\<forall>n t. nodes v n = Some t \<longrightarrow>
       wrapped_ms (clock w (clock_reads v - 1)) < expire_time t))"
  using HandleExpire_ok [OF assms] by (auto simp: none_due_at_def)

lemma HandleExpire_safe_witness:
  "\<exists>v. HandleExpire (one_conn (new_Http 0 7 True) (5, 0) quiet_sock) = Inr v \<and> reactor_ok (\<lambda>_. 0) v"
  using HandleExpire_safe [OF one_conn_ok, of "new_Http 0 7 True" "(5, 0)" quiet_sock] by blast

text \<open>
  The connection callback of a registered connection never faults from such a state and keeps the
  invariant, whether it arms a new timer, closes the connection, or leaves it.
\<close>

theorem HandleCurrentConn_safe:
  assumes "reactor_ok extra w" "registered w h"
  shows "\<exists>v. HandleCurrentConn h w = Inr v \<and> reactor_ok extra v"
  using HandleCurrentConn_ok [OF assms] by metis

lemma HandleCurrentConn_safe_witness:
  "\<exists>v. HandleCurrentConn 1 (one_conn (new_Http 0 7 True) (5, 0) quiet_sock) = Inr v \<and>
     reactor_ok (\<lambda>_. 0) v"
  using HandleCurrentConn_safe [OF one_conn_ok one_conn_registered] by blast

text \<open>
  C26. A healthy connected connection that keeps alive is registered anew by the callback: for output
  alone whenever any event is wanted, even if the handler wanted input, and for input otherwise; it
  gets a timer of sixty seconds.
\<close>

theorem HandleCurrentConn_rearms:
  assumes "reactor_ok extra w" "registered w h" "https w h = Some x"
    and "\<not> has_error x" "connectionState x = CONNECTED" "keep_alive x"
  shows "\<exists>v n mask. HandleCurrentConn h w = Inr v \<and>
    mask = (if to_listen_events (channels w (channel x)) = 0 then EPOLLIN OR EPOLLET
            else EPOLLOUT OR EPOLLET) \<and>
    sys_log v = sys_log w @ [Sys_epoll_ctl EPOLL_CTL_MOD (sock_fd x) mask] \<and>
    nodes v n = Some \<lparr>is_deleted = False, expire_time = deadline (clock w (clock_reads w)) 60000,
      node_data = Some h\<rparr>"
proof -
  from HandleCurrentConn_cases [OF assms(1-3)] obtain u t where u: "reactor_ok extra u" "\<not> timed u h"
    "registered u h" "https u h = Some (x\<lparr>timer := t\<rparr>)" "channels u = channels w"
    "sys_log u = sys_log w" "clock u = clock w" "clock_reads u = clock_reads w"
    "HandleCurrentConn h w =
      (let c = channel x; ev = to_listen_events (channels w c);
           listen = (\<lambda>e. put_channel c (SetToListenEvents e (channels w c)) u) in
       if \<not> has_error x \<and> connectionState x = CONNECTED then
         if ev \<noteq> 0 then
           UpdateEpoller c (if keep_alive x then DEFAULT_KEEP_ALIVE_TIME else DEFAULT_EXPIRE_TIME)
             (listen (EPOLLOUT OR EPOLLET))
         else if keep_alive x then
           UpdateEpoller c DEFAULT_KEEP_ALIVE_TIME (listen (EPOLLIN OR EPOLLET))
         else HandleClose h u
       else if \<not> has_error x \<and> connectionState x = DISCONNECTING then
         if has_event ev EPOLLOUT then Inr (listen (EPOLLOUT OR EPOLLET)) else HandleClose h u
       else Inr u)" .
  define mask where "mask = (if to_listen_events (channels w (channel x)) = 0 then EPOLLIN OR EPOLLET
    else EPOLLOUT OR EPOLLET)"
  have run: "HandleCurrentConn h w = UpdateEpoller (channel x) DEFAULT_KEEP_ALIVE_TIME
      (put_channel (channel x) (SetToListenEvents mask (channels w (channel x))) u)"
    using u(9) assms(4-6) by (simp add: Let_def mask_def)
  from listen_update_ok [OF u(1,3,4,2) timeouts_positive(1), of mask] obtain v where v:
    "UpdateEpoller (channel (x\<lparr>timer := t\<rparr>)) DEFAULT_KEEP_ALIVE_TIME (put_channel (channel (x\<lparr>timer := t\<rparr>))
       (SetToListenEvents mask (channels u (channel (x\<lparr>timer := t\<rparr>)))) u) = Inr v"
    "sys_log v = sys_log u @ [Sys_epoll_ctl EPOLL_CTL_MOD (sock_fd (x\<lparr>timer := t\<rparr>)) mask]"
    "nodes v (next_id u) = Some \<lparr>is_deleted = False,
       expire_time = deadline (clock u (clock_reads u)) DEFAULT_KEEP_ALIVE_TIME, node_data = Some h\<rparr>" .
  show ?thesis
    by (rule exI [of _ v], rule exI [of _ "next_id u"], rule exI [of _ mask])
      (use run v u(5-8) in \<open>simp add: mask_def DEFAULT_KEEP_ALIVE_TIME_def\<close>)
qed

lemma HandleCurrentConn_rearms_witness:
  "\<exists>v. HandleCurrentConn 1 (one_conn (new_Http 0 7 True) (5, 0) quiet_sock) = Inr v \<and>
     sys_log v = [Sys_epoll_ctl EPOLL_CTL_MOD 7 (EPOLLOUT OR EPOLLET)]"
  using HandleCurrentConn_rearms [OF one_conn_ok one_conn_registered, of "new_Http 0 7 True" "(5, 0)"
    quiet_sock "(new_Http 0 7 True)\<lparr>channel := 0, sock_fd := 7, timer := Some 2\<rparr>"]
  by (auto simp: one_conn_def new_Http_def or_eq_0_iff)

text \<open>
  A half-closed connection that still has output is only given a new wanted mask in memory: the
  callback takes its timer away, makes no system call and arms no new timer, so nothing closes it
  if the peer never lets the output through.
\<close>

theorem HandleCurrentConn_half_closed:
  assumes "reactor_ok extra w" "registered w h" "https w h = Some x"
    and "\<not> has_error x" "connectionState x = DISCONNECTING"
    and "has_event (to_listen_events (channels w (channel x))) EPOLLOUT"
  shows "\<exists>v. HandleCurrentConn h w = Inr v \<and> sys_log v = sys_log w \<and> \<not> timed v h \<and> registered v h"
proof -
  from HandleCurrentConn_cases [OF assms(1-3)] obtain u t where u: "\<not> timed u h" "registered u h"
    "sys_log u = sys_log w"
    "HandleCurrentConn h w =
      (let c = channel x; ev = to_listen_events (channels w c);
           listen = (\<lambda>e. put_channel c (SetToListenEvents e (channels w c)) u) in
       if \<not> has_error x \<and> connectionState x = CONNECTED then
         if ev \<noteq> 0 then
           UpdateEpoller c (if keep_alive x then DEFAULT_KEEP_ALIVE_TIME else DEFAULT_EXPIRE_TIME)
             (listen (EPOLLOUT OR EPOLLET))
         else if keep_alive x then
           UpdateEpoller c DEFAULT_KEEP_ALIVE_TIME (listen (EPOLLIN OR EPOLLET))
         else HandleClose h u
       else if \<not> has_error x \<and> connectionState x = DISCONNECTING then
         if has_event ev EPOLLOUT then Inr (listen (EPOLLOUT OR EPOLLET)) else HandleClose h u
       else Inr u)" .
  with assms(4-6) show ?thesis by (simp add: Let_def timed_def registered_def)
qed

lemma HandleCurrentConn_half_closed_witness:
  "let w = put_channel 0 (SetToListenEvents EPOLLOUT (new_Channel 7)\<lparr>holder := Some 1\<rparr>)
     (one_conn ((new_Http 0 7 True)\<lparr>connectionState := DISCONNECTING\<rparr>) (5, 0) quiet_sock) in
   \<exists>v. HandleCurrentConn 1 w = Inr v \<and> sys_log v = sys_log w"
proof -
  let ?x = "(new_Http 0 7 True)\<lparr>connectionState := DISCONNECTING\<rparr>"
  let ?w = "put_channel 0 (SetToListenEvents EPOLLOUT (new_Channel 7)\<lparr>holder := Some 1\<rparr>)
     (one_conn ?x (5, 0) quiet_sock)"
  have ok: "reactor_ok (\<lambda>_. 0) ?w"
    by (rule reactor_ok_same [OF same_shape_put_channel one_conn_ok])
      (simp_all add: one_conn_def new_Channel_def)
  have r: "registered ?w 1" using one_conn_registered [of ?x] by (simp add: registered_def)
  show ?thesis
    using HandleCurrentConn_half_closed [OF ok r, of "?x\<lparr>channel := 0, sock_fd := 7, timer := Some 2\<rparr>"]
    by (auto simp: one_conn_def new_Http_def new_Channel_def)
qed

text \<open>
  C37. \<open>Init\<close> of a connection nobody has registered yet keeps the invariant: afterwards the tables,
  the timer and the channel's weak pointer all lead to it, and it waits for input.
\<close>

theorem Init_registers:
  assumes "reactor_ok extra w" "https w h = Some x" "\<not> registered w h"
    and "fd2http w (sock_fd x) = None" "fd2channel w (sock_fd x) = None"
    and "chan_fd (channels w (channel x)) = sock_fd x" "holder (channels w (channel x)) = None"
  shows "\<exists>v. Init h w = Inr v \<and> reactor_ok extra v \<and> registered v h \<and> timed v h \<and>
    to_listen_events (channels v (channel x)) = EPOLLIN OR EPOLLET"
  using Init_ok [OF assms] by metis

text \<open>A reactor with one object that a callback holds.\<close>

definition fresh_conn :: reactor where
  "fresh_conn =
     \<lparr>https = [1 \<mapsto> new_Http 0 7 True], http_rc = (\<lambda>h. if h = 1 then 1 else 0),
      channels = (\<lambda>c. new_Channel 7), nodes = Map.empty, next_id = 2, fd2channel = Map.empty,
      fd2http = Map.empty, timer_node_queue = [], clock = (\<lambda>_. (5, 0)), clock_reads = 0,
      socks = (\<lambda>fd. quiet_sock), sys_log = []\<rparr>"

lemma fresh_conn_ok: "reactor_ok (\<lambda>h. if h = 1 then 1 else 0) fresh_conn"
proof (rule reactor_okI)
  have r: "\<not> registered fresh_conn h" "\<not> timed fresh_conn h" for h
    by (simp_all add: registered_def timed_def fresh_conn_def)
  show "refs_ok (\<lambda>h. if h = 1 then 1 else 0) fresh_conn"
    by (rule refs_okI) (simp_all add: r, simp_all add: fresh_conn_def split: if_split_asm)
qed (simp_all add: fresh_conn_def queue_ok_def queue_ordered_def timers_ok_def tables_ok_def
    links_ok_def new_Http_def)

lemma Init_registers_witness:
  "\<exists>v. Init 1 fresh_conn = Inr v \<and> registered v 1 \<and> timed v 1"
  using Init_registers [OF fresh_conn_ok, of 1 "new_Http 0 7 True"]
  by (auto simp: fresh_conn_def new_Http_def new_Channel_def registered_def)

end
