(* ===== verification/Http_Serve.thy ===== *)
theory Http_Serve
  imports Reactor_Inv
begin

text \<open>
  What a client sees: the handlers of a connection put together on requests that are well formed,
  malformed, for missing files, or of a method the server does not implement, and on writes that
  succeed or fail.
\<close>

section \<open>Writing\<close>

lemma HandleWrite_eq:
  assumes "https w h = Some x" "\<not> has_error x" "connectionState x \<noteq> DISCONNECTED"
    and "WriteToFd_str (sock_of w x) (write_buffer x) = (r1, b1, s1)" "WriteToFd_str s1 b1 = (r2, b2, s2)"
  shows "HandleWrite h w =
    (let v = put_http h (x\<lparr>write_buffer := b2\<rparr>) (put_sock (sock_fd x) s2 w) in
     Inr (if length b2 > 0 then put_channel (channel x)
       (SetToListenEvents (to_listen_events (chan_of w x) OR EPOLLOUT) (chan_of v x)) v else v))"
  using assms by (simp add: HandleWrite_def chan_of_def Let_def)

lemma retry_twice:
  "sockout.retry 2 s b = (True, b2, s2) \<longleftrightarrow>
     (\<exists>r1 b1 s1 r2. WriteToFd_str s b = (r1, b1, s1) \<and> WriteToFd_str s1 b1 = (r2, b2, s2) \<and>
       r1 \<noteq> -1 \<and> r2 \<noteq> -1)"
  by (cases "WriteToFd_str s b") (auto simp: numeral_2_eq_2 split: prod.splits)

text \<open>A socket that takes everything: the buffer is sent once and empties.\<close>

lemma HandleWrite_all:
  assumes "https w h = Some x" "\<not> has_error x" "connectionState x \<noteq> DISCONNECTED"
    and "wr_script (sock_of w x) = WroteOk k # ws" "length (write_buffer x) \<le> k" "write_buffer x \<noteq> []"
  shows "HandleWrite h w = Inr (put_http h (x\<lparr>write_buffer := []\<rparr>)
    (put_sock (sock_fd x) ((sock_of w x)\<lparr>wr_script := ws,
       sent := sent (sock_of w x) @ write_buffer x\<rparr>) w))"
  using HandleWrite_eq [OF assms(1-3) WriteToFd_str_all [OF assms(4-6)] WriteToFd_str_Nil]
  by simp

section \<open>One request\<close>

lemma ReadFromFd_one:
  assumes "rd_script sk = [ReadOk d, ReadFail EAGAIN]" "d \<noteq> []"
  shows "ReadFromFd sk b = (int (length d), b @ d, False, sk\<lparr>rd_script := []\<rparr>)"
  using assms by (simp add: ReadFromFd_spec delivered_def)

text \<open>A connection between two requests.\<close>

definition idle_conn :: "Http \<Rightarrow> bool" where
  "idle_conn x \<longleftrightarrow> process_state x = STATE_PARSE_URI \<and> connectionState x = CONNECTED \<and>
     \<not> has_error x \<and> header_line_state x = H_START \<and> header_kv x = Map.empty \<and>
     read_buffer x = [] \<and> write_buffer x = []"

text \<open>
  A whole GET request as this server reads one: the request line, text up to the next letter \<open>r\<close>, the
  header block behind that letter, and what follows.
\<close>

definition get_request ::
  "string \<Rightarrow> string \<Rightarrow> char \<Rightarrow> string \<Rightarrow> string \<Rightarrow> (string \<times> string) list \<Rightarrow> string \<Rightarrow> string" where
  "get_request path query d t skip hs rest =
     request_line ''GET'' path query d @ t @ CHR ''r'' # skip @ render_headers hs @ rest"

definition good_request :: "string \<Rightarrow> string \<Rightarrow> char \<Rightarrow> string \<Rightarrow> string \<Rightarrow> (string \<times> string) list \<Rightarrow> bool" where
  "good_request path query d t skip hs \<longleftrightarrow>
     CHR ''r'' \<notin> set (path @ query @ t) \<and> CHR '' '' \<notin> set (path @ query) \<and> CHR ''?'' \<notin> set path \<and>
     (query = [] \<or> hd query = CHR ''?'') \<and> (d = CHR ''0'' \<or> d = CHR ''1'') \<and> header_block skip hs"

lemma ParseHeaders_complete:
  assumes "header_block skip hs" "header_line_state x = H_START"
    and "read_buffer x = skip @ render_headers hs @ rest" "length (read_buffer x) < 2 ^ 31"
  shows "ParseHeaders x = Inr (PARSE_HEADER_SUCCESS, x\<lparr>header_line_state := H_END_LF,
    header_kv := store_fields (header_kv x) hs, read_buffer := drop 1 rest\<rparr>)"
  using ParseHeaders_refines [of x] assms ref_complete [OF assms(1)]
  by (simp add: position_free_def)

lemma HandleRead_body_get:
  assumes g: "good_request path query d t skip hs" and i: "idle_conn x"
    and r: "rd_script sk = [ReadOk (get_request path query d t skip hs rest), ReadFail EAGAIN]"
    and len: "length (get_request path query d t skip hs rest) < 2 ^ 31"
    and f: "readable_file fs (c_str (uri_file path query)) bytes"
  defines "kv \<equiv> store_fields Map.empty hs"
    and "v \<equiv> if d = CHR ''1'' then HTTP_11 else HTTP_10"
  shows "HandleRead_body fs x sk = Inr
    (x\<lparr>read_buffer := drop 1 rest, http_method := Some METHOD_GET, file_path := uri_file path query,
       http_version := v, header_line_state := H_END_LF, header_kv := kv,
       keep_alive := (keep_alive x \<or> wants_keep_alive kv), process_state := STATE_FINISH,
       write_buffer := response v (wants_keep_alive kv) (uri_file path query) bytes\<rparr>,
     sk\<lparr>rd_script := []\<rparr>)"
proof -
  let ?req = "get_request path query d t skip hs rest"
  let ?x0 = "x\<lparr>read_buffer := ?req\<rparr>" and ?sk = "sk\<lparr>rd_script := []\<rparr>"
  let ?x1 = "?x0\<lparr>read_buffer := skip @ render_headers hs @ rest, http_method := Some METHOD_GET,
    file_path := uri_file path query, http_version := v\<rparr>"
  let ?x2 = "?x1\<lparr>process_state := STATE_PARSE_HEADER\<rparr>"
  let ?x3 = "?x2\<lparr>header_line_state := H_END_LF, header_kv := kv, read_buffer := drop 1 rest\<rparr>"
  let ?x4 = "?x3\<lparr>process_state := STATE_PROCESS\<rparr>"
  note i = i [unfolded idle_conn_def]
  have ne: "?req \<noteq> []" by (simp add: get_request_def request_line_def)
  have rd: "ReadFromFd sk (read_buffer x) = (int (length ?req), ?req, False, ?sk)"
    using ReadFromFd_one [OF r ne] i by simp
  have c: "c_int (int (length ?req)) = int (length ?req)" using len by simp
  have uri: "ParseURI ?x0 = Inr (PARSE_URI_SUCCESS, ?x1)"
    using ParseURI_get_line [of ?x0 path query d t "skip @ render_headers hs @ rest"] g len
    by (simp add: good_request_def get_request_def v_def)
  have hdr: "ParseHeaders ?x2 = Inr (PARSE_HEADER_SUCCESS, ?x3)"
    using ParseHeaders_complete [of skip hs ?x2 rest] g i len
    by (simp add: good_request_def get_request_def kv_def)
  have path: "length (uri_file path query) < 2 ^ 31"
    using len by (auto simp: uri_file_def get_request_def request_line_def)
  have proc: "ProcessRequest fs ?x4 ?sk = Inr (ProcessSuccess,
      ?x4\<lparr>keep_alive := (keep_alive x \<or> wants_keep_alive kv),
        write_buffer := response v (wants_keep_alive kv) (uri_file path query) bytes\<rparr>, ?sk)"
    using ProcessRequest_ok [of ?x4 fs bytes ?sk] f path i by simp
  have s1: "read_uri ?x0 ?sk = Inr (True, ?x2, ?sk)" using uri i by (simp add: read_uri_def)
  have s2: "read_header ?x2 ?sk = Inr (True, ?x4, ?sk)" using hdr by (simp add: read_header_def)
  have s3: "read_process fs ?x4 ?sk = Inr (True, ?x4\<lparr>keep_alive := (keep_alive x \<or> wants_keep_alive kv),
        write_buffer := response v (wants_keep_alive kv) (uri_file path query) bytes,
        process_state := STATE_FINISH\<rparr>, ?sk)"
    using proc by (simp add: read_process_def)
  have stages: "read_stages fs ?x0 ?sk = Inr (True,
      ?x4\<lparr>keep_alive := (keep_alive x \<or> wants_keep_alive kv),
        write_buffer := response v (wants_keep_alive kv) (uri_file path query) bytes,
        process_state := STATE_FINISH\<rparr>, ?sk)"
    using s1 s2 s3 by (simp add: read_stages_def and_then_def)
  show ?thesis
    unfolding HandleRead_body_def rd Let_def prod.case c using i stages by simp
qed

text \<open>
  The round that serves it, on a socket that takes the response: the response is sent, the
  connection is ready for the next request, the timer is gone, and the recursion goes on when more
  than one character followed the request.
\<close>

lemma reset_ok:
  assumes ok: "reactor_ok extra w" and x: "https w h = Some x" and r: "registered w h"
  obtains v t where "reset h w = Inr v" "reactor_ok extra v" "\<not> timed v h" "registered v h"
    "https v h = Some (x\<lparr>file_path := [], process_state := STATE_PARSE_URI,
       header_line_state := H_START, header_kv := Map.empty, timer := t\<rparr>)"
    "socks v = socks w" "channels v = channels w" "sys_log v = sys_log w"
proof -
  let ?x = "x\<lparr>file_path := [], process_state := STATE_PARSE_URI, header_line_state := H_START,
    header_kv := Map.empty\<rparr>"
  let ?w = "put_http h ?x w"
  have ok': "reactor_ok extra ?w" by (rule reactor_ok_same [OF same_shape_put_http ok]) (use x in simp_all)
  have x': "https ?w h = Some ?x" by simp
  have r': "registered ?w h" using r by (simp add: registered_def)
  from r' have "registered ?w h \<or> 0 < extra h" ..
  from seperateTimer_ok [OF ok' x' this] obtain v t where v: "seperateTimer h ?w = Inr v"
    "reactor_ok extra v" "\<not> timed v h" "https v h = Some (?x\<lparr>timer := t\<rparr>)"
    "registered v = registered ?w" "channels v = channels ?w" "socks v = socks ?w" "sys_log v = sys_log ?w" .
  have rv: "registered v h" unfolding v(5) by (rule r')
  show thesis
  proof (rule that [OF _ v(2,3) rv])
    show "reset h w = Inr v" using x v(1) by (simp add: reset_def)
  qed (simp_all add: v(4,6,7,8))
qed

lemma HandleRead_round_get:
  assumes ok: "reactor_ok extra w" and reg: "registered w h" and x: "https w h = Some x"
    and g: "good_request path query d t skip hs" and i: "idle_conn x"
    and r: "rd_script (sock_of w x) =
      [ReadOk (get_request path query d t skip hs rest), ReadFail EAGAIN]"
    and len: "length (get_request path query d t skip hs rest) < 2 ^ 31"
    and f: "readable_file fs (c_str (uri_file path query)) bytes"
    and resp: "resp = response (if d = CHR ''1'' then HTTP_11 else HTTP_10)
      (wants_keep_alive (store_fields Map.empty hs)) (uri_file path query) bytes"
    and wr: "wr_script (sock_of w x) = WroteOk k # ws" "length resp \<le> k"
  obtains v y where "HandleRead_round fs h w = Inr (drop 1 rest \<noteq> [], v)" "reactor_ok extra v"
    "registered v h" "\<not> timed v h" "https v h = Some y" "idle_conn (y\<lparr>read_buffer := []\<rparr>)"
    "read_buffer y = drop 1 rest" "sock_fd y = sock_fd x"
    "socks v (sock_fd x) = (sock_of w x)\<lparr>rd_script := [], wr_script := ws,
       sent := sent (sock_of w x) @ resp\<rparr>"
    "channels v = channels w" "sys_log v = sys_log w" "channel y = channel x"
    "keep_alive y = (keep_alive x \<or> wants_keep_alive (store_fields Map.empty hs))"
proof -
  define x1 where "x1 = x\<lparr>read_buffer := drop 1 rest, http_method := Some METHOD_GET,
    file_path := uri_file path query, http_version := if d = CHR ''1'' then HTTP_11 else HTTP_10,
    header_line_state := H_END_LF, header_kv := store_fields Map.empty hs,
    keep_alive := (keep_alive x \<or> wants_keep_alive (store_fields Map.empty hs)),
    process_state := STATE_FINISH, write_buffer := resp\<rparr>"
  note i' = i [unfolded idle_conn_def]
  have ne: "resp \<noteq> []" using resp by (simp add: response_def state_line_def)
  let ?sk = "(sock_of w x)\<lparr>rd_script := []\<rparr>"
  let ?sk2 = "?sk\<lparr>wr_script := ws, sent := sent ?sk @ resp\<rparr>"
  let ?w1 = "put_http h x1 (put_sock (sock_fd x) ?sk w)"
  let ?w2 = "put_http h (x1\<lparr>write_buffer := []\<rparr>) (put_sock (sock_fd x) ?sk2 ?w1)"
  have x1: "write_buffer x1 = resp" "\<not> has_error x1" "connectionState x1 = CONNECTED"
    "process_state x1 = STATE_FINISH" "sock_fd x1 = sock_fd x" "channel x1 = channel x"
    "timer x1 = timer x" "read_buffer x1 = drop 1 rest"
    using i' by (simp_all add: x1_def)
  have ka: "keep_alive x1 = (keep_alive x \<or> wants_keep_alive (store_fields Map.empty hs))" by (simp add: x1_def)
  have body: "HandleRead_body fs x (sock_of w x) = Inr (x1, ?sk)"
    using HandleRead_body_get [OF g i r len f] by (simp add: x1_def resp)
  have sk1: "sock_of ?w1 x1 = ?sk" using x1 by (simp add: sock_of_def)
  have wrote: "HandleWrite h ?w1 = Inr ?w2"
    using HandleWrite_all [of ?w1 h x1 k ws] wr ne x1 sk1 by simp
  have "same_shape (put_sock (sock_fd x) ?sk w) ?w1"
    by (rule same_shape_put_http) (use x x1 in simp_all)
  with same_shape_trans same_shape_quiet(2) have s1: "same_shape w ?w1" by blast
  have "same_shape (put_sock (sock_fd x) ?sk2 ?w1) ?w2"
    by (rule same_shape_put_http) simp_all
  with same_shape_trans same_shape_quiet(2) have "same_shape ?w1 ?w2" by blast
  with same_shape_trans s1 have "same_shape w ?w2" by blast
  from reactor_ok_same [OF this ok] have ok2: "reactor_ok extra ?w2" .
  have reg2: "registered ?w2 h" using reg by (simp add: registered_def)
  have x2: "https ?w2 h = Some (x1\<lparr>write_buffer := []\<rparr>)" by simp
  obtain v u where v: "reset h ?w2 = Inr v" "reactor_ok extra v"
    "\<not> timed v h" "registered v h" "https v h = Some (x1\<lparr>write_buffer := [], file_path := [],
       process_state := STATE_PARSE_URI, header_line_state := H_START, header_kv := Map.empty,
       timer := u\<rparr>)" "socks v = socks ?w2" "channels v = channels ?w2" "sys_log v = sys_log ?w2"
    by (rule reset_ok [OF ok2 x2 reg2]) simp_all
  show thesis
  proof (rule that)
    show "HandleRead_round fs h w = Inr (drop 1 rest \<noteq> [], v)"
      using x body wrote ne v x1 by (simp add: HandleRead_round_def Let_def)
    show "idle_conn (x1\<lparr>write_buffer := [], file_path := [], process_state := STATE_PARSE_URI,
        header_line_state := H_START, header_kv := Map.empty, timer := u, read_buffer := []\<rparr>)"
      using x1 by (simp add: idle_conn_def)
  qed (use v x1 ka in simp_all)
qed

text \<open>The same for the handler, when at most one character follows the request.\<close>

lemma HandleRead_get:
  assumes "reactor_ok extra w" "registered w h" "https w h = Some x"
    and "good_request path query d t skip hs" "idle_conn x"
    and "rd_script (sock_of w x) =
      [ReadOk (get_request path query d t skip hs rest), ReadFail EAGAIN]"
    and "length (get_request path query d t skip hs rest) < 2 ^ 31"
    and "readable_file fs (c_str (uri_file path query)) bytes"
    and "resp = response (if d = CHR ''1'' then HTTP_11 else HTTP_10)
      (wants_keep_alive (store_fields Map.empty hs)) (uri_file path query) bytes"
    and "wr_script (sock_of w x) = WroteOk k # ws" "length resp \<le> k" "length rest \<le> 1"
  obtains v y where "HandleRead fs h w = Inr v" "reactor_ok extra v" "registered v h" "\<not> timed v h"
    "https v h = Some y" "idle_conn y" "sock_fd y = sock_fd x"
    "sent (socks v (sock_fd x)) = sent (sock_of w x) @ resp"
    "channels v = channels w" "sys_log v = sys_log w" "channel y = channel x"
    "keep_alive y = (keep_alive x \<or> wants_keep_alive (store_fields Map.empty hs))"
proof -
  from HandleRead_round_get [OF assms(1-11)] obtain v y where v:
    "HandleRead_round fs h w = Inr (drop 1 rest \<noteq> [], v)" "reactor_ok extra v" "registered v h"
    "\<not> timed v h" "https v h = Some y" "idle_conn (y\<lparr>read_buffer := []\<rparr>)"
    "read_buffer y = drop 1 rest" "sock_fd y = sock_fd x" "socks v (sock_fd x) = (sock_of w x)\<lparr>rd_script := [],
       wr_script := ws, sent := sent (sock_of w x) @ resp\<rparr>"
    "channels v = channels w" "sys_log v = sys_log w" "channel y = channel x"
    "keep_alive y = (keep_alive x \<or> wants_keep_alive (store_fields Map.empty hs))" .
  have r: "drop 1 rest = []" using assms(12) by simp
  with v have "HandleRead fs h w = Inr v" "idle_conn y"
    by (simp_all add: HandleRead.simps [of fs h w] idle_conn_def)
  then show thesis by (rule that [OF _ v(2-5)]) (simp_all add: v)
qed

section \<open>Requests that are refused\<close>

lemma HandleRead_round_bad:
  assumes x: "https w h = Some x"
    and s: "process_state x = STATE_PARSE_URI" "connectionState x = CONNECTED"
    and rd: "ReadFromFd (sock_of w x) (read_buffer x) = (int n, b, False, sk1)" "n < 2 ^ 31"
    and p: "ParseURI (x\<lparr>read_buffer := b\<rparr>) = Inr (PARSE_URI_ERROR, y)"
    and pg: "HandleErrorPage sk1 400 ''Bad Request'' = Inr sk2"
  shows "HandleRead_round fs h w = bindR (HandleClose h (put_http h (y\<lparr>has_error := True\<rparr>)
      (put_sock (sock_fd x) sk2 w))) (\<lambda>w. Inr (False, w))"
proof -
  have c: "c_int (int n) = int n" using rd(2) by simp
  have u: "read_uri (x\<lparr>read_buffer := b\<rparr>) sk1 = Inr (False, y\<lparr>has_error := True\<rparr>, sk2)"
    using s p pg by (simp add: read_uri_def)
  have "read_stages fs (x\<lparr>read_buffer := b\<rparr>) sk1 = Inr (False, y\<lparr>has_error := True\<rparr>, sk2)"
    unfolding read_stages_def u by (simp add: and_then_def)
  then have "HandleRead_body fs x (sock_of w x) = Inr (y\<lparr>has_error := True\<rparr>, sk2)"
    unfolding HandleRead_body_def rd(1) Let_def prod.case c using s by simp
  with x show ?thesis by (simp add: HandleRead_round_def Let_def)
qed

text \<open>The parser leaves alone what the invariant looks at.\<close>

lemma ParseURI_shape:
  assumes "ParseURI x = Inr (r, y)"
  shows "channel y = channel x" "sock_fd y = sock_fd x" "timer y = timer x"
  using uri_body_frame [OF conjunct1 [OF ParseURI_consumes [OF assms]]] by (simp_all add: body_frame_def)

lemma same_shape_bad:
  assumes x: "https w h = Some x" and p: "ParseURI (x\<lparr>read_buffer := b\<rparr>) = Inr (r, y)"
  shows "same_shape w (put_http h (y\<lparr>has_error := True\<rparr>) (put_sock fd sk w))"
proof (rule same_shape_trans [OF same_shape_quiet(2)])
  show "same_shape (put_sock fd sk w) (put_http h (y\<lparr>has_error := True\<rparr>) (put_sock fd sk w))"
    by (rule same_shape_put_http) (use x ParseURI_shape [OF p] in simp_all)
qed

text \<open>A line without a method is an error.\<close>

lemma ParseURI_no_method:
  assumes "uri_delimiter \<in> set (read_buffer x)" "length (read_buffer x) < 2 ^ 31"
    and "find_sub ''GET'' (uri_line (read_buffer x)) = None"
    and "find_sub ''POST'' (uri_line (read_buffer x)) = None"
  shows "ParseURI x = Inr (PARSE_URI_ERROR, x\<lparr>read_buffer := uri_rest (read_buffer x)\<rparr>)"
  using ParseURI_delimiter [OF assms(1,2)] assms(3,4)
  by (simp add: ParseURI_line_def ParseURI_method_def)

lemma error_page_400:
  assumes "wr_script sk = WroteOk k # WroteOk m # ws" "4096 \<le> k" "4096 \<le> m"
  shows "HandleErrorPage sk 400 ''Bad Request'' = Inr (sk\<lparr>wr_script := ws,
    sent := sent sk @ error_header 400 ''Bad Request'' @ error_body 400 ''Bad Request''\<rparr>)"
proof -
  have f: "length (error_header 400 ''Bad Request'') < 4096" "length (error_body 400 ''Bad Request'') < 4096"
    using page_fits [of 400 "''Bad Request''"] by (simp_all add: SEND_BUFF_SIZE_def)
  have ne: "error_header 400 ''Bad Request'' \<noteq> []" "error_body 400 ''Bad Request'' \<noteq> []"
    by (simp_all add: error_header_def error_body_def)
  show ?thesis using assms f ne by (simp add: HandleErrorPage_total WriteToFd_buf_all)
qed

section \<open>The error path of a connection with a timer\<close>

text \<open>
  Closing a connection whose timer still refers to it leaves that one reference; separating the
  timer afterwards drops it and goes on in the destroyed object.
\<close>

lemma HandleClose_timed:
  assumes ok: "reactor_ok extra w" and reg: "registered w h" and tm: "timed w h" and e: "extra h = 0"
  obtains v where "HandleClose h w = Inr v" "seperateTimer h v = Inl UseAfterFree"
proof -
  from registered_alive [OF ok reg] obtain x where x: "https w h = Some x" by blast
  note f = holder_registered [OF ok reg x]
  from tm obtain n t where n: "nodes w n = Some t" "node_data t = Some h" by (auto simp: timed_def)
  with reactor_okD(2) [OF ok] x have tx: "timer x = Some n" by (fastforce simp: timers_ok_def)
  have "https w h \<noteq> None" using x by simp
  from refs_okD(2) [OF ok this] reg tm e have rc: "http_rc w h = 2" by simp
  let ?x = "x\<lparr>connectionState := DISCONNECTED\<rparr>"
  let ?w1 = "put_http h ?x w"
  let ?w2 = "log_call (Sys_epoll_ctl EPOLL_CTL_DEL (sock_fd x) (to_listen_events (channels w (channel x)))) ?w1"
  let ?v = "release h (?w2\<lparr>fd2channel := (fd2channel w)(sock_fd x := None),
    fd2http := (fd2http w)(sock_fd x := None)\<rparr>)"
  have c: "HandleClose h w = Inr ?v"
    using x f by (simp add: HandleClose_def RemoveFromEpoller_def EpollDel_eq Let_def)
  have v: "https ?v h = Some ?x" "http_rc ?v h = 1" "nodes ?v n = Some t" using rc n by simp_all
  have "seperateTimer h ?v = Inl UseAfterFree"
    using v tx n(2)
    by (simp add: seperateTimer_def ClearNode_def Let_def del: release_sel(2,3,4) put_http_sel)
  with c show thesis by (rule that)
qed

lemma HandleRead_malformed:
  assumes ok: "reactor_ok extra w" and reg: "registered w h" and tm: "timed w h" and e: "extra h = 0"
    and x: "https w h = Some x"
    and s: "process_state x = STATE_PARSE_URI" "connectionState x = CONNECTED"
    and rd: "ReadFromFd (sock_of w x) (read_buffer x) = (int n, b, False, sk1)" "n < 2 ^ 31"
    and p: "ParseURI (x\<lparr>read_buffer := b\<rparr>) = Inr (PARSE_URI_ERROR, y)"
  obtains v where "HandleRead fs h w = Inr v" "HandleCurrentConn h v = Inl UseAfterFree"
proof -
  obtain sk2 where pg: "HandleErrorPage sk1 400 ''Bad Request'' = Inr sk2"
    by (simp add: HandleErrorPage_total)
  let ?w = "put_http h (y\<lparr>has_error := True\<rparr>) (put_sock (sock_fd x) sk2 w)"
  have ok': "reactor_ok extra ?w" by (rule reactor_ok_same [OF same_shape_bad [OF x p] ok])
  have "registered ?w h" "timed ?w h" using reg tm by (simp_all add: registered_def timed_def)
  from HandleClose_timed [OF ok' this e] obtain v where v: "HandleClose h ?w = Inr v"
    "seperateTimer h v = Inl UseAfterFree" .
  show thesis
  proof (rule that)
    show "HandleRead fs h w = Inr v"
      using HandleRead_round_bad [OF x s rd p pg, of fs] v(1) by (simp add: HandleRead.simps [of fs h w])
    show "HandleCurrentConn h v = Inl UseAfterFree" using v(2) by (simp add: HandleCurrentConn_def)
  qed
qed

section \<open>A request nothing answers\<close>

text \<open>What a client delivers: results of \<open>read\<close> that go on, each batch ended by \<open>EAGAIN\<close>.\<close>

definition deliveries :: "read_res list list \<Rightarrow> read_res list" where
  "deliveries bs = concat (map (\<lambda>b. b @ [ReadFail EAGAIN]) bs)"

lemma deliveries_simps [simp]:
  "deliveries [] = []"
  "deliveries (b # bs) = b @ ReadFail EAGAIN # deliveries bs"
  by (simp_all add: deliveries_def)

definition batch :: "read_res list \<Rightarrow> bool" where
  "batch b \<longleftrightarrow> list_all continues b \<and> length (delivered b) < 2 ^ 31"

fun HandleReads :: "files \<Rightarrow> nat \<Rightarrow> nat \<Rightarrow> 'a reactor_scheme \<Rightarrow> 'a reactor_scheme result" where
  "HandleReads fs h 0 w = Inr w"
| "HandleReads fs h (Suc n) w = bindR (HandleRead fs h w) (HandleReads fs h n)"

definition post_request ::
  "string \<Rightarrow> string \<Rightarrow> char \<Rightarrow> string \<Rightarrow> string \<Rightarrow> (string \<times> string) list \<Rightarrow> string \<Rightarrow> string" where
  "post_request path query d t skip hs rest =
     request_line ''POST'' path query d @ t @ CHR ''r'' # skip @ render_headers hs @ rest"

definition posted :: "Http \<Rightarrow> string \<Rightarrow> string \<Rightarrow> char \<Rightarrow> (string \<times> string) list \<Rightarrow> string \<Rightarrow> Http" where
  "posted x path query d hs rest = x\<lparr>process_state := STATE_PARSE_BODY, http_method := Some METHOD_POST,
     file_path := uri_file path query, http_version := if d = CHR ''1'' then HTTP_11 else HTTP_10,
     header_line_state := H_END_LF, header_kv := store_fields Map.empty hs, read_buffer := drop 1 rest\<rparr>"

definition awaits_body :: "Http \<Rightarrow> bool" where
  "awaits_body x \<longleftrightarrow> process_state x = STATE_PARSE_BODY \<and> connectionState x = CONNECTED \<and> \<not> has_error x \<and>
     write_buffer x = []"

text \<open>A block of the handler that leaves the connection waiting for a body ends the call.\<close>

lemma HandleRead_awaits:
  assumes "https w h = Some x" "HandleRead_body fs x (sock_of w x) = Inr (y, sk)" "awaits_body y"
    and "channel y = channel x" "sock_fd y = sock_fd x"
  obtains v where "HandleRead fs h w = Inr v" "https v h = Some y" "socks v (sock_fd x) = sk"
    "has_event (to_listen_events (channels v (channel x))) EPOLLIN"
  using that assms
  by (simp add: HandleRead.simps [of fs h w] HandleRead_round_def Let_def awaits_body_def)

lemma HandleRead_posts:
  assumes x: "https w h = Some x" and i: "idle_conn x" and g: "good_request path query d t skip hs"
    and m: "find_sub ''GET'' (request_line ''POST'' path query d @ t) = None"
    and r: "rd_script (sock_of w x) = b @ ReadFail EAGAIN # later" and b: "batch b"
    and req: "delivered b = post_request path query d t skip hs rest"
  shows "\<exists>v. HandleRead fs h w = Inr v \<and> https v h = Some (posted x path query d hs rest) \<and>
    socks v (sock_fd x) = (sock_of w x)\<lparr>rd_script := later\<rparr> \<and>
    has_event (to_listen_events (channels v (channel x))) EPOLLIN"
proof -
  let ?req = "post_request path query d t skip hs rest" and ?sk = "(sock_of w x)\<lparr>rd_script := later\<rparr>"
  let ?x0 = "x\<lparr>read_buffer := ?req\<rparr>" and ?p = "posted x path query d hs rest"
  let ?x1 = "?x0\<lparr>read_buffer := skip @ render_headers hs @ rest, http_method := Some METHOD_POST,
    file_path := uri_file path query, http_version := if d = CHR ''1'' then HTTP_11 else HTTP_10\<rparr>"
  let ?x2 = "?x1\<lparr>process_state := STATE_PARSE_HEADER\<rparr>"
  let ?x3 = "?x2\<lparr>header_line_state := H_END_LF, header_kv := store_fields Map.empty hs, read_buffer := drop 1 rest\<rparr>"
  note i' = i [unfolded idle_conn_def]
  from b have l: "list_all continues b" "length ?req < 2 ^ 31" by (simp_all add: batch_def req)
  have rd: "ReadFromFd (sock_of w x) (read_buffer x) = (int (length ?req), ?req, False, ?sk)"
    using ReadFromFd_batch [OF r l(1), of "read_buffer x"] i' req by simp
  have c: "c_int (int (length ?req)) = int (length ?req)" using l(2) by simp
  have "ParseURI ?x0 = Inr (PARSE_URI_SUCCESS, ?x1)"
    using ParseURI_post_line [of ?x0 path query d t "skip @ render_headers hs @ rest"] g m l(2)
    by (simp add: good_request_def post_request_def)
  then have s1: "read_uri ?x0 ?sk = Inr (True, ?x2, ?sk)" using i' by (simp add: read_uri_def)
  have "ParseHeaders ?x2 = Inr (PARSE_HEADER_SUCCESS, ?x3)"
    using ParseHeaders_complete [of skip hs ?x2 rest] g i' l(2) by (simp add: good_request_def post_request_def)
  moreover have "?x3\<lparr>process_state := STATE_PARSE_BODY\<rparr> = ?p" by (simp add: posted_def)
  ultimately have s2: "read_header ?x2 ?sk = Inr (True, ?p, ?sk)" by (simp add: read_header_def)
  have s3: "read_process fs ?p ?sk = Inr (True, ?p, ?sk)" by (simp add: read_process_def posted_def)
  have stages: "read_stages fs ?x0 ?sk = Inr (True, ?p, ?sk)"
    using s1 s2 s3 by (simp add: read_stages_def and_then_def)
  have body: "HandleRead_body fs x (sock_of w x) = Inr (?p, ?sk)"
    unfolding HandleRead_body_def rd Let_def prod.case c using i' stages by simp
  have "awaits_body ?p" "channel ?p = channel x" "sock_fd ?p = sock_fd x"
    using i' by (simp_all add: posted_def awaits_body_def)
  from HandleRead_awaits [OF x body this] show ?thesis by metis
qed

lemma HandleRead_body_waits:
  assumes "https w h = Some x" "awaits_body x" "rd_script (sock_of w x) = b @ ReadFail EAGAIN # later" "batch b"
  obtains v where "HandleRead fs h w = Inr v" "https v h = Some (x\<lparr>read_buffer := read_buffer x @ delivered b\<rparr>)"
    "socks v (sock_fd x) = (sock_of w x)\<lparr>rd_script := later\<rparr>"
    "has_event (to_listen_events (channels v (channel x))) EPOLLIN"
proof -
  let ?x = "x\<lparr>read_buffer := read_buffer x @ delivered b\<rparr>" and ?sk = "(sock_of w x)\<lparr>rd_script := later\<rparr>"
  have l: "list_all continues b" "c_int (int (length (delivered b))) = int (length (delivered b))"
    using assms(4) by (simp_all add: batch_def)
  have "read_stages fs ?x ?sk = Inr (True, ?x, ?sk)"
    using assms(2) by (simp add: awaits_body_def read_stages_def and_then_def read_uri_def read_header_def read_process_def)
  then have body: "HandleRead_body fs x (sock_of w x) = Inr (?x, ?sk)"
    unfolding HandleRead_body_def ReadFromFd_batch [OF assms(3) l(1)] Let_def prod.case l(2)
    using assms(2) by (simp add: awaits_body_def)
  have "awaits_body ?x" "channel ?x = channel x" "sock_fd ?x = sock_fd x" using assms(2) by (simp_all add: awaits_body_def)
  from HandleRead_awaits [OF assms(1) body this] obtain v where "HandleRead fs h w = Inr v" "https v h = Some ?x"
    "socks v (sock_fd x) = ?sk" "has_event (to_listen_events (channels v (channel x))) EPOLLIN" .
  then show thesis by (rule that)
qed

lemma HandleReads_body:
  assumes "https w h = Some x" "awaits_body x" "rd_script (sock_of w x) = deliveries bs @ later"
    and "\<forall>b\<in>set bs. batch b" "has_event (to_listen_events (channels w (channel x))) EPOLLIN"
  obtains v where "HandleReads fs h (length bs) w = Inr v"
    "https v h = Some (x\<lparr>read_buffer := read_buffer x @ concat (map delivered bs)\<rparr>)"
    "socks v (sock_fd x) = (sock_of w x)\<lparr>rd_script := later\<rparr>"
    "has_event (to_listen_events (channels v (channel x))) EPOLLIN"
  using assms
proof (induction bs arbitrary: w x thesis)
  case Nil
  show ?case
    by (rule Nil.prems(1) [of w]) (use Nil.prems(2-) in \<open>simp_all add: sock_of_def\<close>)
next
  case (Cons b bs)
  have r: "rd_script (sock_of w x) = b @ ReadFail EAGAIN # deliveries bs @ later" "batch b" using Cons.prems(4,5) by simp_all
  let ?x = "x\<lparr>read_buffer := read_buffer x @ delivered b\<rparr>"
  obtain v where v: "HandleRead fs h w = Inr v" "https v h = Some ?x"
    "socks v (sock_fd x) = (sock_of w x)\<lparr>rd_script := deliveries bs @ later\<rparr>"
    "has_event (to_listen_events (channels v (channel x))) EPOLLIN"
    by (rule HandleRead_body_waits [OF Cons.prems(2,3) r])
  have x: "awaits_body ?x" using Cons.prems(3) by (simp add: awaits_body_def)
  have "rd_script (sock_of v ?x) = deliveries bs @ later" using v(3) by (simp add: sock_of_def)
  from Cons.IH [OF _ v(2) x this] Cons.prems(5) v(4) obtain u where u: "HandleReads fs h (length bs) v = Inr u"
    "https u h = Some (?x\<lparr>read_buffer := read_buffer ?x @ concat (map delivered bs)\<rparr>)"
    "socks u (sock_fd ?x) = (sock_of v ?x)\<lparr>rd_script := later\<rparr>"
    "has_event (to_listen_events (channels u (channel ?x))) EPOLLIN" by auto
  show ?case
    by (rule Cons.prems(1) [of u]) (use u v in \<open>simp_all add: sock_of_def\<close>)
qed

section \<open>Properties\<close>

text \<open>
  A registered idle connection that receives one well-formed GET request for a readable file, on a
  socket that takes the response, answers with exactly the response to that request and is ready
  for the next one: nothing is left in its buffers, its timer is separated, and the invariant of the
  reactor holds. The single character that may follow the request is lost.
\<close>

theorem HandleRead_serves_get:
  assumes "reactor_ok extra w" "registered w h" "https w h = Some x" "idle_conn x"
    and "good_request path query d t skip hs" "length rest \<le> 1"
    and "rd_script (sock_of w x) =
      [ReadOk (get_request path query d t skip hs rest), ReadFail EAGAIN]"
    and "length (get_request path query d t skip hs rest) < 2 ^ 31"
    and "readable_file fs (c_str (uri_file path query)) bytes"
    and "resp = response (if d = CHR ''1'' then HTTP_11 else HTTP_10)
      (wants_keep_alive (store_fields Map.empty hs)) (uri_file path query) bytes"
    and "wr_script (sock_of w x) = WroteOk k # ws" "length resp \<le> k"
  shows "\<exists>v y. HandleRead fs h w = Inr v \<and> reactor_ok extra v \<and> registered v h \<and> \<not> timed v h \<and>
    https v h = Some y \<and> idle_conn y \<and> sent (socks v (sock_fd x)) = sent (sock_of w x) @ resp"
proof -
  from HandleRead_get [OF assms(1-3,5,4,7-12,6)] obtain v y where v:
    "HandleRead fs h w = Inr v" "reactor_ok extra v" "registered v h" "\<not> timed v h"
    "https v h = Some y" "idle_conn y" "sent (socks v (sock_fd x)) = sent (sock_of w x) @ resp" .
  then show ?thesis by blast
qed

lemma HandleRead_serves_get_witness:
  "\<exists>v. HandleRead (one_file ''index.html'' ''hello'') 1 (one_conn (new_Http 0 7 True) (5, 0)
      \<lparr>rd_script = [ReadOk (get_request [] [] (CHR ''1'') (CRLF @ ''Use'') []
         [(''-Agent'', ''x''), (''Host'', ''y'')] []), ReadFail EAGAIN], wr_script = [WroteOk 1000], sent = []\<rparr>) = Inr v \<and>
     sent (socks v 7) = response HTTP_11 False ''index.html'' ''hello''"
proof -
  let ?hs = "[(''-Agent'', ''x''), (''Host'', ''y'')]"
  let ?req = "get_request [] [] (CHR ''1'') (CRLF @ ''Use'') [] ?hs []"
  let ?sk = "\<lparr>rd_script = [ReadOk ?req, ReadFail EAGAIN], wr_script = [WroteOk 1000], sent = []\<rparr>"
  let ?x = "(new_Http 0 7 True)\<lparr>channel := 0, sock_fd := 7, timer := Some 2\<rparr>"
  have x: "https (one_conn (new_Http 0 7 True) (5, 0) ?sk) 1 = Some ?x" by (simp add: one_conn_def)
  have i: "idle_conn ?x" by (simp add: idle_conn_def new_Http_def)
  have g: "good_request [] [] (CHR ''1'') (CRLF @ ''Use'') [] ?hs"
    by (simp add: good_request_def header_block_def CRLF_def CR_def LF_def)
  have len: "length ?req < 2 ^ 31"
    by (simp add: get_request_def request_line_def render_headers_def CRLF_def)
  have f: "readable_file (one_file ''index.html'' ''hello'') (c_str (uri_file [] [])) ''hello''"
    using one_file_readable by (simp add: uri_file_def c_str_def)
  have fit: "length (response HTTP_11 False ''index.html'' ''hello'') \<le> 1000"
    by (simp add: response_def state_line_def entity_header_def CRLF_def GetResourceType_def
        resource_type_map_def to_string.simps)
  show ?thesis
    using HandleRead_serves_get [OF one_conn_ok one_conn_registered x i g _ _ len f refl, of 1000 "[]"] fit
    by (auto simp: sock_of_def one_conn_def wants_keep_alive_def uri_file_def)
qed

text \<open>
  C19. The second of two pipelined GET requests is not served: its first letter is lost with the first
  request, the rest of its line names no method, and the client gets the page 400 and the
  connection is closed.
\<close>

theorem HandleRead_pipelined:
  assumes "reactor_ok extra w" "registered w h" "https w h = Some x" "idle_conn x"
    and "good_request path query d t skip hs"
    and "rd_script (sock_of w x) =
      [ReadOk (get_request path query d t skip hs (CHR ''G'' # second)), ReadFail EAGAIN]"
    and "length (get_request path query d t skip hs (CHR ''G'' # second)) < 2 ^ 31"
    and "readable_file fs (c_str (uri_file path query)) bytes"
    and "resp = response (if d = CHR ''1'' then HTTP_11 else HTTP_10)
      (wants_keep_alive (store_fields Map.empty hs)) (uri_file path query) bytes"
    and "wr_script (sock_of w x) = [WroteOk k, WroteOk 4096, WroteOk 4096]" "length resp \<le> k"
    and "CHR ''r'' \<in> set second" "find_sub ''GET'' (uri_line second) = None"
    and "find_sub ''POST'' (uri_line second) = None"
  shows "\<exists>v. HandleRead fs h w = Inr v \<and> \<not> registered v h \<and>
    sent (socks v (sock_fd x)) = sent (sock_of w x) @ resp @
      error_header 400 ''Bad Request'' @ error_body 400 ''Bad Request''"
proof -
  let ?rest = "CHR ''G'' # second"
  from HandleRead_round_get [OF assms(1-3,5,4,6-11)] obtain v y where v:
    "HandleRead_round fs h w = Inr (drop 1 ?rest \<noteq> [], v)" "reactor_ok extra v" "registered v h"
    "\<not> timed v h" "https v h = Some y" "idle_conn (y\<lparr>read_buffer := []\<rparr>)"
    "read_buffer y = drop 1 ?rest" "sock_fd y = sock_fd x"
    "socks v (sock_fd x) = (sock_of w x)\<lparr>rd_script := [], wr_script := [WroteOk 4096, WroteOk 4096],
       sent := sent (sock_of w x) @ resp\<rparr>" .
  have again: "drop 1 ?rest \<noteq> []" using assms(12) by auto
  have b: "read_buffer y = second" using v(7) by simp
  have s: "process_state y = STATE_PARSE_URI" "connectionState y = CONNECTED"
    using v(6) by (simp_all add: idle_conn_def)
  have rd: "ReadFromFd (sock_of v y) (read_buffer y) = (int 0, second, False, sock_of v y)"
    using v(8,9) b by (simp add: sock_of_def ReadFromFd_spec delivered_def)
  have len: "length second < 2 ^ 31" using assms(7) by (simp add: get_request_def)
  let ?y = "y\<lparr>read_buffer := second\<rparr>"
  from ParseURI_no_method [of ?y] assms(12-14) len
  have p: "ParseURI ?y = Inr (PARSE_URI_ERROR, ?y\<lparr>read_buffer := uri_rest second\<rparr>)" by simp
  have "wr_script (sock_of v y) = WroteOk 4096 # WroteOk 4096 # []"
    using v(8,9) by (simp add: sock_of_def)
  note pg = error_page_400 [OF this order_refl order_refl]
  let ?sk = "(sock_of v y)\<lparr>wr_script := [], sent := sent (sock_of v y) @
    error_header 400 ''Bad Request'' @ error_body 400 ''Bad Request''\<rparr>"
  let ?u = "put_http h (?y\<lparr>read_buffer := uri_rest second, has_error := True\<rparr>)
    (put_sock (sock_fd y) ?sk v)"
  have "reactor_ok extra ?u"
    using reactor_ok_same [OF same_shape_bad [OF v(5) p] v(2)] by simp
  moreover have "registered ?u h" "\<not> timed ?u h" using v(3,4) by (simp_all add: registered_def timed_def)
  ultimately obtain z where z: "HandleClose h ?u = Inr z" "\<not> registered z h" "socks z = socks ?u"
    by (rule HandleClose_ok)
  have two: "HandleRead_round fs h v = Inr (False, z)"
    using HandleRead_round_bad [OF v(5) s rd _ p pg, of fs] z(1) by simp
  have "HandleRead fs h v = Inr z" by (simp add: HandleRead.simps [of fs h v] two)
  with v(1) again have "HandleRead fs h w = Inr z" by (simp add: HandleRead.simps [of fs h w])
  with z v(8,9) show ?thesis by (simp add: sock_of_def)
qed

lemma HandleRead_pipelined_witness:
  "\<exists>v. HandleRead (one_file ''index.html'' ''hello'') 1 (one_conn (new_Http 0 7 True) (5, 0)
      \<lparr>rd_script = [ReadOk (get_request [] [] (CHR ''1'') (CRLF @ ''Use'') []
         [(''-Agent'', ''x'')] (''GET / HTTP/1.1'' @ CRLF @ ''User'')), ReadFail EAGAIN],
       wr_script = [WroteOk 1000, WroteOk 4096, WroteOk 4096], sent = []\<rparr>) = Inr v \<and> \<not> registered v 1"
proof -
  let ?hs = "[(''-Agent'', ''x'')]" and ?second = "''ET / HTTP/1.1'' @ CRLF @ ''User''"
  let ?req = "get_request [] [] (CHR ''1'') (CRLF @ ''Use'') [] ?hs (CHR ''G'' # ?second)"
  let ?sk = "\<lparr>rd_script = [ReadOk ?req, ReadFail EAGAIN],
    wr_script = [WroteOk 1000, WroteOk 4096, WroteOk 4096], sent = []\<rparr>"
  let ?x = "(new_Http 0 7 True)\<lparr>channel := 0, sock_fd := 7, timer := Some 2\<rparr>"
  have x: "https (one_conn (new_Http 0 7 True) (5, 0) ?sk) 1 = Some ?x" by (simp add: one_conn_def)
  have i: "idle_conn ?x" by (simp add: idle_conn_def new_Http_def)
  have g: "good_request [] [] (CHR ''1'') (CRLF @ ''Use'') [] ?hs"
    by (simp add: good_request_def header_block_def CRLF_def CR_def LF_def)
  have len: "length ?req < 2 ^ 31"
    by (simp add: get_request_def request_line_def render_headers_def CRLF_def)
  have f: "readable_file (one_file ''index.html'' ''hello'') (c_str (uri_file [] [])) ''hello''"
    using one_file_readable by (simp add: uri_file_def c_str_def)
  have fit: "length (response HTTP_11 False ''index.html'' ''hello'') \<le> 1000"
    by (simp add: response_def state_line_def entity_header_def CRLF_def GetResourceType_def
        resource_type_map_def to_string.simps)
  have l: "uri_line ?second = ''ET / HTTP/1.1'' @ CRLF @ ''Use''"
    by (simp add: uri_line_def CRLF_def)
  have nm: "find_sub ''GET'' (uri_line ?second) = None" "find_sub ''POST'' (uri_line ?second) = None"
    unfolding l by (simp_all add: CRLF_def)
  show ?thesis
    using HandleRead_pipelined [OF one_conn_ok one_conn_registered x i g _ len f refl, of 1000] fit nm
    by (auto simp: sock_of_def one_conn_def wants_keep_alive_def uri_file_def)
qed


text \<open>
  C27. Bytes are not lost or repeated by \<open>HandleWrite\<close> as long as neither of its two writes fails, and
  when something is left the channel wants output.
\<close>

theorem HandleWrite_conserves:
  assumes "https w h = Some x" "\<not> has_error x" "connectionState x \<noteq> DISCONNECTED"
    and "sockout.retry 2 (sock_of w x) (write_buffer x) = (True, b, s)"
  shows "\<exists>v. HandleWrite h w = Inr v \<and> https v h = Some (x\<lparr>write_buffer := b\<rparr>) \<and>
    sent (socks v (sock_fd x)) @ b = sent (sock_of w x) @ write_buffer x \<and>
    (b \<noteq> [] \<longrightarrow> has_event (to_listen_events (channels v (channel x))) EPOLLOUT)"
proof -
  from assms(4) obtain r1 b1 s1 r2 where r: "WriteToFd_str (sock_of w x) (write_buffer x) = (r1, b1, s1)"
    "WriteToFd_str s1 b1 = (r2, b, s)" by (auto simp: retry_twice)
  have "sent s @ b = sent (sock_of w x) @ write_buffer x"
    by (rule sockout.retry_conserve [OF assms(4)])
  with HandleWrite_eq [OF assms(1-3) r] show ?thesis by (auto simp: Let_def)
qed

lemma HandleWrite_conserves_witness:
  "\<exists>v. HandleWrite 1 (one_conn ((new_Http 0 7 True)\<lparr>write_buffer := ''abc''\<rparr>) (5, 0)
      \<lparr>rd_script = [], wr_script = [WroteOk 2, WriteFail EAGAIN, WriteFail EAGAIN], sent = []\<rparr>) = Inr v \<and>
     sent (socks v 7) @ ''c'' = ''abc''"
  using HandleWrite_conserves [of "one_conn ((new_Http 0 7 True)\<lparr>write_buffer := ''abc''\<rparr>) (5, 0)
      \<lparr>rd_script = [], wr_script = [WroteOk 2, WriteFail EAGAIN, WriteFail EAGAIN], sent = []\<rparr>" 1
    "(new_Http 0 7 True)\<lparr>write_buffer := ''abc'', channel := 0, sock_fd := 7, timer := Some 2\<rparr>"
    "''c''" "\<lparr>rd_script = [], wr_script = [], sent = ''ab''\<rparr>"]
  by (auto simp: one_conn_def new_Http_def sock_of_def numeral_2_eq_2 WriteToFd_str_def)

text \<open>
  When the first write fails for good after part of the buffer has gone out, the buffer is not
  shortened and the second write sends it from the beginning: the part is sent twice.
\<close>

theorem HandleWrite_resends:
  assumes "https w h = Some x" "\<not> has_error x" "connectionState x \<noteq> DISCONNECTED"
    and "wr_script (sock_of w x) = WroteOk k # WriteFail (EOTHER e) # WroteOk m # ws"
    and "0 < k" "k < length (write_buffer x)" "length (write_buffer x) \<le> m"
  shows "\<exists>v. HandleWrite h w = Inr v \<and> https v h = Some (x\<lparr>write_buffer := []\<rparr>) \<and>
    sent (socks v (sock_fd x)) = sent (sock_of w x) @ take k (write_buffer x) @ write_buffer x"
proof -
  let ?b = "write_buffer x" and ?s = "sock_of w x"
  let ?s1 = "?s\<lparr>wr_script := WroteOk m # ws, sent := sent ?s @ take k ?b\<rparr>"
  from assms(6) obtain c cs where b: "?b = c # cs" by (cases ?b) auto
  have d: "drop k ?b \<noteq> []" using assms(6) by simp
  then obtain e' es where e: "drop k ?b = e' # es" by (cases "drop k ?b") auto
  have "WriteStr_loop (wr_script ?s) ?b 0 [] = (False, k, take k ?b, WroteOk m # ws)"
    using assms(4-6) e unfolding b by (simp add: min_def Let_def)
  then have w1: "WriteToFd_str ?s ?b = (-1, ?b, ?s1)" by (simp add: WriteToFd_str_def)
  have w2: "WriteToFd_str ?s1 ?b =
      (int (length ?b), [], ?s1\<lparr>wr_script := ws, sent := sent ?s1 @ ?b\<rparr>)"
    using assms(7) b by (intro WriteToFd_str_all) auto
  from HandleWrite_eq [OF assms(1-3) w1 w2] show ?thesis by simp
qed

lemma HandleWrite_resends_witness:
  "\<exists>v. HandleWrite 1 (one_conn ((new_Http 0 7 True)\<lparr>write_buffer := ''abc''\<rparr>) (5, 0)
      \<lparr>rd_script = [], wr_script = [WroteOk 2, WriteFail (EOTHER 104), WroteOk 9], sent = []\<rparr>) = Inr v \<and>
     sent (socks v 7) = ''ababc''"
  using HandleWrite_resends [of "one_conn ((new_Http 0 7 True)\<lparr>write_buffer := ''abc''\<rparr>) (5, 0)
      \<lparr>rd_script = [], wr_script = [WroteOk 2, WriteFail (EOTHER 104), WroteOk 9], sent = []\<rparr>" 1
    "(new_Http 0 7 True)\<lparr>write_buffer := ''abc'', channel := 0, sock_fd := 7, timer := Some 2\<rparr>" 2 104 9 "[]"]
  by (auto simp: one_conn_def new_Http_def sock_of_def)

text \<open>
  C30. A request for a missing file is answered with two pages, 404 and then 400, and the connection
  goes into the error state.
\<close>

theorem read_process_not_found:
  assumes "process_state x = STATE_PROCESS" "http_method x = Some METHOD_GET"
    and "fs_stat fs (c_str (file_path x)) = None"
    and "wr_script sk = [WroteOk 4096, WroteOk 4096, WroteOk 4096, WroteOk 4096]"
  shows "\<exists>y s. read_process fs x sk = Inr (False, y, s) \<and> has_error y \<and>
    sent s = sent sk @ error_header 404 ''Not Found!'' @ error_body 404 ''Not Found!'' @
      error_header 400 ''Bad Request'' @ error_body 400 ''Bad Request''"
proof -
  have f: "length (error_header 404 ''Not Found!'') < 4096" "length (error_body 404 ''Not Found!'') < 4096"
    using page_fits [of 404 "''Not Found!''"] by (simp_all add: SEND_BUFF_SIZE_def)
  have ne: "error_header 404 ''Not Found!'' \<noteq> []" "error_body 404 ''Not Found!'' \<noteq> []"
    by (simp_all add: error_header_def error_body_def)
  have pg: "HandleErrorPage sk 404 ''Not Found!'' = Inr (sk\<lparr>wr_script := [WroteOk 4096, WroteOk 4096],
      sent := sent sk @ error_header 404 ''Not Found!'' @ error_body 404 ''Not Found!''\<rparr>)"
    using assms(4) f ne by (simp add: HandleErrorPage_total WriteToFd_buf_all)
  show ?thesis
    using assms(1) ProcessRequest_missing [OF assms(2,3), of sk]
    by (simp add: read_process_def pg error_page_400)
qed

lemma read_process_not_found_witness:
  "\<exists>y s. read_process (one_file ''a'' ''b'') ((new_Http 0 7 True)\<lparr>process_state := STATE_PROCESS,
      http_method := Some METHOD_GET, file_path := ''c''\<rparr>)
      \<lparr>rd_script = [], wr_script = [WroteOk 4096, WroteOk 4096, WroteOk 4096, WroteOk 4096], sent = []\<rparr> =
     Inr (False, y, s) \<and> has_error y"
  using read_process_not_found [of "(new_Http 0 7 True)\<lparr>process_state := STATE_PROCESS,
      http_method := Some METHOD_GET, file_path := ''c''\<rparr>" "one_file ''a'' ''b''"
      "\<lparr>rd_script = [], wr_script = [WroteOk 4096, WroteOk 4096, WroteOk 4096, WroteOk 4096], sent = []\<rparr>"]
  by (auto simp: one_file_def c_str_def)

text \<open>
  C31. A POST request is never answered. An idle connection that receives one in any pieces within one
  wake-up of the loop, and any further data in later wake-ups, goes to \<open>STATE_PARSE_BODY\<close> when the headers are
  complete and stays there: after any number of calls of \<open>HandleRead\<close> all that was delivered behind the
  headers is in the buffer (less its first character), nothing has been sent, and the connection still
  waits for input. The request is well formed as in C1, with no \<open>GET\<close> before the first letter \<open>r\<close>.
\<close>

theorem HandleRead_post_stuck:
  assumes "https w h = Some x" "idle_conn x"
    and "good_request path query d t skip hs" "find_sub ''GET'' (request_line ''POST'' path query d @ t) = None"
    and "rd_script (sock_of w x) = deliveries (b # bs) @ later" "\<forall>c\<in>set (b # bs). batch c"
    and "delivered b = post_request path query d t skip hs rest"
  shows "\<exists>v. HandleReads fs h (Suc (length bs)) w = Inr v \<and>
    https v h = Some (x\<lparr>process_state := STATE_PARSE_BODY, http_method := Some METHOD_POST,
      file_path := uri_file path query, http_version := if d = CHR ''1'' then HTTP_11 else HTTP_10,
      header_line_state := H_END_LF, header_kv := store_fields Map.empty hs,
      read_buffer := drop 1 rest @ concat (map delivered bs)\<rparr>) \<and>
    sent (socks v (sock_fd x)) = sent (sock_of w x) \<and>
    has_event (to_listen_events (channels v (channel x))) EPOLLIN"
proof -
  let ?x = "posted x path query d hs rest"
  have b: "batch b" "\<forall>c\<in>set bs. batch c" using assms(6) by simp_all
  have "rd_script (sock_of w x) = b @ ReadFail EAGAIN # deliveries bs @ later" using assms(5) by simp
  from HandleRead_posts [OF assms(1-4) this b(1) assms(7)] obtain v where v: "HandleRead fs h w = Inr v"
    "https v h = Some ?x" "socks v (sock_fd x) = (sock_of w x)\<lparr>rd_script := deliveries bs @ later\<rparr>"
    "has_event (to_listen_events (channels v (channel x))) EPOLLIN" by blast
  have x: "awaits_body ?x" "sock_fd ?x = sock_fd x" "channel ?x = channel x"
    using assms(2) by (simp_all add: posted_def awaits_body_def idle_conn_def)
  have "rd_script (sock_of v ?x) = deliveries bs @ later" using v(3) x(2) by (simp add: sock_of_def)
  from HandleReads_body [OF v(2) x(1) this b(2)] v(4) x obtain u where "HandleReads fs h (length bs) v = Inr u"
    "https u h = Some (?x\<lparr>read_buffer := read_buffer ?x @ concat (map delivered bs)\<rparr>)"
    "socks u (sock_fd x) = (sock_of v ?x)\<lparr>rd_script := later\<rparr>"
    "has_event (to_listen_events (channels u (channel x))) EPOLLIN" by auto
  then show ?thesis using v x by (simp add: sock_of_def posted_def)
qed

lemma HandleRead_post_stuck_witness:
  "\<exists>v y. HandleReads (one_file ''a'' ''b'') 1 3 (one_conn (new_Http 0 7 True) (5, 0)
      \<lparr>rd_script = deliveries
         [[ReadOk ''POST /a '', ReadFail EINTR, ReadOk (''HTTP/1.1'' @ CRLF @ ''User-Agent: x'' @ CRLF @ CRLF)],
          [ReadOk ''k''], [ReadOk ''=1'']] @ [], wr_script = [], sent = []\<rparr>) = Inr v \<and>
    https v 1 = Some y \<and> process_state y = STATE_PARSE_BODY \<and> read_buffer y = ''k=1'' \<and> sent (socks v 7) = []"
proof -
  let ?b = "[ReadOk ''POST /a '', ReadFail EINTR, ReadOk (''HTTP/1.1'' @ CRLF @ ''User-Agent: x'' @ CRLF @ CRLF)]"
  let ?bs = "[[ReadOk ''k''], [ReadOk ''=1'']]" and ?hs = "[(''-Agent'', ''x'')]"
  let ?sk = "\<lparr>rd_script = deliveries (?b # ?bs) @ [], wr_script = [], sent = []\<rparr>"
  let ?w = "one_conn (new_Http 0 7 True) (5, 0) ?sk" and ?x = "(new_Http 0 7 True)\<lparr>channel := 0, sock_fd := 7, timer := Some 2\<rparr>"
  have x: "https ?w 1 = Some ?x" "sock_of ?w ?x = ?sk" "sock_fd ?x = 7" by (simp_all add: one_conn_def sock_of_def)
  then have r: "rd_script (sock_of ?w ?x) = deliveries (?b # ?bs) @ []" by simp
  have i: "idle_conn ?x" by (simp add: idle_conn_def new_Http_def)
  have g: "good_request ''a'' [] (CHR ''1'') (CRLF @ ''Use'') [] ?hs"
    by (simp add: good_request_def header_block_def CRLF_def CR_def LF_def)
  have m: "find_sub ''GET'' (request_line ''POST'' ''a'' [] (CHR ''1'') @ CRLF @ ''Use'') = None"
    by (simp add: request_line_def CRLF_def CR_def LF_def)
  have b: "\<forall>c\<in>set (?b # ?bs). batch c" by (simp add: batch_def delivered_def CRLF_def)
  have req: "delivered ?b = post_request ''a'' [] (CHR ''1'') (CRLF @ ''Use'') [] ?hs []"
    by (simp add: delivered_def post_request_def request_line_def render_headers_def CRLF_def CR_def LF_def)
  have n: "Suc (length ?bs) = 3" by simp
  show ?thesis using HandleRead_post_stuck [OF x(1) i g m r b req, of "one_file ''a'' ''b''", unfolded n] x
    by (fastforce simp: delivered_def)
qed

end
