(* ===== verification/Event_Loop.thy ===== *)
theory Event_Loop
  imports Http_Conn
begin

text \<open>
  \<^verbatim>\<open>src/Server/EventLoop.h\<close> and \<^verbatim>\<open>src/Server/EventLoop.cpp\<close>: the loop of one thread as a
  function of what its polls return, and the hand-over of callbacks from other threads, once as
  the operations of the source and once as a step relation over the interleavings the mutex
  leaves open.
\<close>

section \<open>The loop object\<close>

record event_loop = reactor +
  is_looping :: bool
  callback_list :: "Http_Callback list"
  running_callbacks :: bool
  thread_id :: nat
  wakeup_fd :: int
  wakeup_channel :: nat

text \<open>A thread's heap before anything is created on it.\<close>

definition empty_loop ::
  "nat \<Rightarrow> int \<Rightarrow> (nat \<Rightarrow> nat \<times> nat) \<Rightarrow> (int \<Rightarrow> sock) \<Rightarrow> event_loop" where
  "empty_loop tid efd clk sks =
     \<lparr>https = Map.empty, http_rc = (\<lambda>_. 0), channels = (\<lambda>_. new_Channel 0), nodes = Map.empty,
      next_id = 0, fd2channel = Map.empty, fd2http = Map.empty, timer_node_queue = [],
      clock = clk, clock_reads = 0, socks = sks, sys_log = [],
      is_looping = True, callback_list = [], running_callbacks = False, thread_id = tid,
      wakeup_fd = efd, wakeup_channel = 0\<rparr>"

text \<open>
  The constructor: \<open>tid\<close> is the thread it runs on, \<open>efd\<close> what \<open>eventfd\<close> returned. The wake-up
  channel has no callbacks and no holder and gets no timer.
\<close>

definition new_EventLoop ::
  "nat \<Rightarrow> int \<Rightarrow> (nat \<Rightarrow> nat \<times> nat) \<Rightarrow> (int \<Rightarrow> sock) \<Rightarrow> event_loop result" where
  "new_EventLoop tid efd clk sks =
     (let w = empty_loop tid efd clk sks; c = next_id w;
          w = put_channel c (new_Channel efd) (w\<lparr>next_id := Suc c, wakeup_channel := c\<rparr>);
          w = put_channel c (SetToListenEvents (EPOLLIN OR EPOLLET) (channels w c)) w
      in EpollAdd c 0 w)"

text \<open>
  Where its two descriptors come from: the poller asserts that \<open>epoll_create1\<close> succeeded, a failure of
  \<open>eventfd\<close> is only printed.
\<close>

definition new_Epoll :: "int \<Rightarrow> int result" where
  "new_Epoll epoll_fd = (if epoll_fd > 0 then Inr epoll_fd else Inl AssertFailed)"

definition CreateEventFd :: "int \<Rightarrow> int \<times> string" where
  "CreateEventFd event_fd = (event_fd, if event_fd < 0 then ''event fd create failed'' else [])"

definition make_EventLoop ::
  "nat \<Rightarrow> int \<Rightarrow> int \<Rightarrow> (nat \<Rightarrow> nat \<times> nat) \<Rightarrow> (int \<Rightarrow> sock) \<Rightarrow> event_loop result" where
  "make_EventLoop tid epoll_fd event_fd clk sks =
     bindR (new_Epoll epoll_fd) (\<lambda>_. new_EventLoop tid (fst (CreateEventFd event_fd)) clk sks)"

text \<open>The body of the destructor; what becomes of the members is \<open>destroy_EventLoop\<close> below.\<close>

definition delete_EventLoop :: "'a event_loop_scheme \<Rightarrow> 'a event_loop_scheme result" where
  "delete_EventLoop w =
     bindR (RemoveFromEpoller (wakeup_channel w) w) (\<lambda>w.
     Inr (log_call (Sys_close (wakeup_fd w)) w))"

definition Quit :: "'a event_loop_scheme \<Rightarrow> 'a event_loop_scheme" where
  "Quit w = (if is_looping w then w\<lparr>is_looping := False\<rparr> else w)"

section \<open>Callbacks from other threads\<close>

text \<open>What calling a callback does; \<open>srv\<close> is what the callbacks of the server do.\<close>

fun run_callback ::
  "(server_callback \<Rightarrow> 'a reactor_scheme \<Rightarrow> 'a reactor_scheme result) \<Rightarrow> files \<Rightarrow>
     Http_Callback \<Rightarrow> 'a reactor_scheme \<Rightarrow> 'a reactor_scheme result" where
  "run_callback srv fs (CB_HandleRead h) w = HandleRead fs h w"
| "run_callback srv fs (CB_HandleWrite h) w = HandleWrite h w"
| "run_callback srv fs (CB_HandleCurrentConn h) w = HandleCurrentConn h w"
| "run_callback srv fs (CB_Init h) w = Init h w"
| "run_callback srv fs (CB_Server f) w = srv f w"

text \<open>
  \<open>Init\<close> is bound to a \<open>shared_ptr\<close>, the handlers of a channel to the plain \<open>this\<close> pointer: only the
  first keeps its object alive while it waits in a list.
\<close>

fun bound_ref :: "Http_Callback \<Rightarrow> nat option" where
  "bound_ref (CB_Init h) = Some h"
| "bound_ref _ = None"

fun drop_callbacks :: "Http_Callback list \<Rightarrow> 'a reactor_scheme \<Rightarrow> 'a reactor_scheme" where
  "drop_callbacks [] w = w"
| "drop_callbacks (cb # cbs) w =
     drop_callbacks cbs (case bound_ref cb of Some h \<Rightarrow> release h w | None \<Rightarrow> w)"

text \<open>
  The end of a poller. Its destructor does nothing itself (it does not close \<open>epoll_fd_\<close> either); its
  members go in the reverse order of their declaration: the queue with its timer nodes, whose
  destructors close the connections they still refer to and find the tables alive, then \<open>fd2http_\<close>
  with its references, then \<open>fd2channel_\<close>. The containers leave the order of their elements open, so
  it is an argument: \<open>timers\<close> for the nodes of the heap, \<open>fds\<close> for the entries of the table.
\<close>

definition drop_entry :: "int \<Rightarrow> 'a reactor_scheme \<Rightarrow> 'a reactor_scheme" where
  "drop_entry fd w =
     (let held = fd2http w fd; w = w\<lparr>fd2http := (fd2http w)(fd := None)\<rparr>
      in case held of Some (Some h) \<Rightarrow> release h w | _ \<Rightarrow> w)"

definition destroy_Epoll :: "nat list \<Rightarrow> int list \<Rightarrow> 'a reactor_scheme \<Rightarrow> 'a reactor_scheme result" where
  "destroy_Epoll timers fds w =
     bindR (forR (\<lambda>n w. destroy_TimerNode n (w\<lparr>timer_node_queue := remove1 n (timer_node_queue w)\<rparr>)) timers w)
       (\<lambda>w. Inr ((fold drop_entry fds w)\<lparr>fd2channel := Map.empty\<rparr>))"

text \<open>
  The end of a loop: the body of the destructor, then the members. The callbacks that were queued and
  never run go with the references they hold; the poller goes next. Its timer nodes reach it through
  \<open>epoller_\<close>, which is being destroyed: the pointer still leads to the poller, as in libstdc++.
\<close>

definition destroy_EventLoop ::
  "nat list \<Rightarrow> int list \<Rightarrow> 'a event_loop_scheme \<Rightarrow> 'a event_loop_scheme result" where
  "destroy_EventLoop timers fds w =
     bindR (delete_EventLoop w) (\<lambda>w.
     destroy_Epoll timers fds (drop_callbacks (callback_list w) (w\<lparr>callback_list := []\<rparr>)))"

definition IsInLoopthread :: "nat \<Rightarrow> 'a event_loop_scheme \<Rightarrow> bool" where
  "IsInLoopthread tid w \<longleftrightarrow> thread_id w = tid"

text \<open>The eight bytes of the 64-bit number 1, as an x86 machine stores it.\<close>

definition wakeup_data :: string where
  "wakeup_data = CHR 0x01 # replicate 7 (CHR 0x00)"

definition WakeUpTargetEventLoop :: "'a event_loop_scheme \<Rightarrow> 'a event_loop_scheme" where
  "WakeUpTargetEventLoop w =
     (let (r, sk) = WriteToFd_buf (socks w (wakeup_fd w)) wakeup_data
      in put_sock (wakeup_fd w) sk w)"

definition QueueINCallback :: "Http_Callback \<Rightarrow> 'a event_loop_scheme \<Rightarrow> 'a event_loop_scheme" where
  "QueueINCallback cb w =
     (let w = (case bound_ref cb of Some h \<Rightarrow> retain h w | None \<Rightarrow> w)
      in WakeUpTargetEventLoop (w\<lparr>callback_list := callback_list w @ [cb]\<rparr>))"

text \<open>\<open>tid\<close> is the calling thread, \<open>run\<close> what calling a callback does.\<close>

definition RunFunction ::
  "(Http_Callback \<Rightarrow> 'a event_loop_scheme \<Rightarrow> 'a event_loop_scheme result) \<Rightarrow> nat \<Rightarrow>
     Http_Callback \<Rightarrow> 'a event_loop_scheme \<Rightarrow> 'a event_loop_scheme result" where
  "RunFunction run tid cb w =
     (if IsInLoopthread tid w then run cb w else Inr (QueueINCallback cb w))"

text \<open>
  The list is swapped out under the lock, its callbacks run, and it is destroyed with the
  references its entries hold when the function returns.
\<close>

definition DoCallbacks ::
  "(Http_Callback \<Rightarrow> 'a event_loop_scheme \<Rightarrow> 'a event_loop_scheme result) \<Rightarrow>
     'a event_loop_scheme \<Rightarrow> 'a event_loop_scheme result" where
  "DoCallbacks run w =
     (let w = w\<lparr>running_callbacks := True\<rparr>;
          to_copy_list = callback_list w;
          w = w\<lparr>callback_list := []\<rparr>
      in bindR (forR run to_copy_list w) (\<lambda>w.
         Inr (drop_callbacks to_copy_list (w\<lparr>running_callbacks := False\<rparr>))))"

section \<open>\<open>Loop\<close>\<close>

text \<open>
  \<open>polls\<close> lists what the successive calls of \<open>epoll_wait\<close> return. The loop is \<open>Running\<close> when they
  are used up and its condition still holds.
\<close>

datatype loop_status = Running nat | Stopped

definition loop_iteration ::
  "(Http_Callback \<Rightarrow> 'a event_loop_scheme \<Rightarrow> 'a event_loop_scheme result) \<Rightarrow>
     (int \<times> events) list \<Rightarrow> nat \<Rightarrow> 'a event_loop_scheme \<Rightarrow> (nat \<times> 'a event_loop_scheme) result" where
  "loop_iteration run returned timeout_count w =
     (let (active, w) = EpollWait returned w;
          timeout_count = (if length active = 0 then timeout_count + 1 else timeout_count)
      in bindR (forR (\<lambda>c w. HandleEvents run (channels w c) w) active w) (\<lambda>w.
         bindR (DoCallbacks run w) (\<lambda>w.
         bindR (HandleExpire w) (\<lambda>w.
         Inr (timeout_count, w)))))"

fun Loop ::
  "(Http_Callback \<Rightarrow> 'a event_loop_scheme \<Rightarrow> 'a event_loop_scheme result) \<Rightarrow>
     (int \<times> events) list list \<Rightarrow> nat \<Rightarrow> 'a event_loop_scheme \<Rightarrow>
     (loop_status \<times> 'a event_loop_scheme) result" where
  "Loop run [] timeout_count w =
     Inr (if is_looping w \<and> timeout_count < 5 then Running timeout_count else Stopped, w)"
| "Loop run (returned # polls) timeout_count w =
     (if is_looping w \<and> timeout_count < 5 then
        bindR (loop_iteration run returned timeout_count w) (\<lambda>(timeout_count, w).
        Loop run polls timeout_count w)
      else Inr (Stopped, w))"

lemma loop_iteration_count:
  "loop_iteration run returned tc w = Inr (tc', w') \<Longrightarrow>
     tc' = tc + (if fst (EpollWait returned w) = [] then 1 else 0)"
  by (auto simp: loop_iteration_def split: prod.split_asm)

lemma Loop_counts_empty_polls:
  "Loop run polls tc w = Inr (st, w') \<Longrightarrow> 5 \<le> tc + length (filter (\<lambda>r. r = []) polls) \<Longrightarrow>
     st = Stopped"
proof (induction run polls tc w arbitrary: st w' rule: Loop.induct)
  case (2 run returned polls tc w)
  show ?case
  proof (cases "is_looping w \<and> tc < 5")
    case True
    with "2.prems"(1) obtain tc' v where v: "loop_iteration run returned tc w = Inr (tc', v)"
      "Loop run polls tc' v = Inr (st, w')" by auto
    from loop_iteration_count [OF v(1)] "2.prems"(2)
    have "5 \<le> tc' + length (filter (\<lambda>r. r = []) polls)" by (cases returned) auto
    from "2.IH" [OF True v(1) refl v(2) this] show ?thesis .
  next
    case False
    with "2.prems" show ?thesis by auto
  qed
qed auto

text \<open>The heap operations leave the members of the loop alone.\<close>

lemma event_loop_frame [simp]:
  "is_looping (put_http h x w) = is_looping w" "is_looping (put_channel c ch w) = is_looping w"
  "is_looping (put_sock fd sk w) = is_looping w" "is_looping (retain h w) = is_looping w"
  "is_looping (release h w) = is_looping w"
  "callback_list (put_http h x w) = callback_list w"
  "callback_list (put_channel c ch w) = callback_list w"
  "callback_list (put_sock fd sk w) = callback_list w" "callback_list (retain h w) = callback_list w"
  "callback_list (release h w) = callback_list w"
  "thread_id (put_http h x w) = thread_id w" "thread_id (put_channel c ch w) = thread_id w"
  "thread_id (put_sock fd sk w) = thread_id w" "thread_id (retain h w) = thread_id w"
  "thread_id (release h w) = thread_id w"
  "wakeup_fd (put_http h x w) = wakeup_fd w" "wakeup_fd (put_channel c ch w) = wakeup_fd w"
  "wakeup_fd (put_sock fd sk w) = wakeup_fd w" "wakeup_fd (retain h w) = wakeup_fd w"
  "wakeup_fd (release h w) = wakeup_fd w"
  by (simp_all add: put_http_def put_channel_def put_sock_def retain_def release_def destroy_Http_def
      log_call_def Let_def split: option.split)

lemma QueueINCallback_fields:
  "callback_list (QueueINCallback cb w) = callback_list w @ [cb]"
  "thread_id (QueueINCallback cb w) = thread_id w"
  "https (QueueINCallback cb w) = https w" "next_id (QueueINCallback cb w) = next_id w"
  "http_rc (QueueINCallback cb w) =
     (case bound_ref cb of Some h \<Rightarrow> (http_rc w)(h := Suc (http_rc w h)) | None \<Rightarrow> http_rc w)"
  "channels (QueueINCallback cb w) = channels w"
  "fd2channel (QueueINCallback cb w) = fd2channel w"
  by (simp_all add: QueueINCallback_def WakeUpTargetEventLoop_def Let_def split: option.split prod.split)

section \<open>The hand-over as a step relation\<close>

text \<open>
  Any number of threads post callbacks while the loop thread polls, swaps the list out and runs
  it. A post is two steps: the entry under the lock, then the write to the wake-up descriptor
  (\<open>pushed\<close> counts the posts between the two). The descriptor is watched edge-triggered and never
  read, so each write makes one edge, which a poll consumes; a poll may also return for other
  reasons. \<open>posted\<close> records the order in which the lock was taken.
\<close>

datatype loop_pc = Polling | Awake | RunningCallbacks

record 'cb handover =
  shared :: "'cb list"
  local_list :: "'cb list"
  executed :: "'cb list"
  posted :: "'cb list"
  pushed :: nat
  edge :: bool
  pc :: loop_pc

definition handover_init :: "'cb handover" where
  "handover_init = \<lparr>shared = [], local_list = [], executed = [], posted = [], pushed = 0,
     edge = False, pc = Polling\<rparr>"

inductive handover_step :: "'cb handover \<Rightarrow> 'cb handover \<Rightarrow> bool" where
  push: "handover_step s (s\<lparr>shared := shared s @ [cb], posted := posted s @ [cb],
           pushed := Suc (pushed s)\<rparr>)"
| wake: "0 < pushed s \<Longrightarrow> handover_step s (s\<lparr>pushed := pushed s - 1, edge := True\<rparr>)"
| poll_edge: "pc s = Polling \<Longrightarrow> edge s \<Longrightarrow> handover_step s (s\<lparr>edge := False, pc := Awake\<rparr>)"
| poll_other: "pc s = Polling \<Longrightarrow> handover_step s (s\<lparr>pc := Awake\<rparr>)"
| swap: "pc s = Awake \<Longrightarrow>
    handover_step s (s\<lparr>local_list := shared s, shared := [], pc := RunningCallbacks\<rparr>)"
| exec: "pc s = RunningCallbacks \<Longrightarrow> local_list s = cb # cbs \<Longrightarrow>
    handover_step s (s\<lparr>local_list := cbs, executed := executed s @ [cb]\<rparr>)"
| finish: "pc s = RunningCallbacks \<Longrightarrow> local_list s = [] \<Longrightarrow> handover_step s (s\<lparr>pc := Polling\<rparr>)"

inductive handover_reachable :: "'cb handover \<Rightarrow> bool" where
  start: "handover_reachable handover_init"
| step: "handover_reachable s \<Longrightarrow> handover_step s t \<Longrightarrow> handover_reachable t"

inductive_cases handover_stepE: "handover_step s t"

inductive_simps handover_init_step: "handover_step handover_init t"

definition handover_inv :: "'cb handover \<Rightarrow> bool" where
  "handover_inv s \<longleftrightarrow>
     posted s = executed s @ local_list s @ shared s \<and>
     (pc s \<noteq> RunningCallbacks \<longrightarrow> local_list s = []) \<and>
     (shared s \<noteq> [] \<longrightarrow> edge s \<or> 0 < pushed s \<or> pc s = Awake)"

lemma handover_step_inv: "handover_step s t \<Longrightarrow> handover_inv s \<Longrightarrow> handover_inv t"
  by (induction rule: handover_step.induct) (auto simp: handover_inv_def)

lemma handover_reachable_inv: "handover_reachable s \<Longrightarrow> handover_inv s"
proof (induction rule: handover_reachable.induct)
  case start
  show ?case by (simp add: handover_inv_def handover_init_def)
next
  case (step s t)
  then show ?case by (blast intro: handover_step_inv)
qed

section \<open>Properties\<close>

text \<open>
  C10. Whatever interleaving of posts, wake-ups and polls happens, the callbacks executed are a
  prefix of the callbacks posted, in the order in which the lock was taken: each runs once, and
  those not yet run are, in order, in the list being run and in the shared list.
\<close>

theorem callbacks_fifo:
  assumes "handover_reachable s"
  shows "posted s = executed s @ local_list s @ shared s"
  using handover_reachable_inv [OF assms] by (simp add: handover_inv_def)

text \<open>One post, one wake-up, one poll, one execution.\<close>

lemma handover_run:
  "handover_reachable (handover_init\<lparr>posted := [cb], executed := [cb], pc := RunningCallbacks\<rparr>)"
proof -
  let ?i = handover_init
  have "handover_reachable (?i\<lparr>shared := [cb], posted := [cb], pushed := 1\<rparr>)"
    using step [OF start push [of ?i cb]] by (simp add: handover_init_def)
  from step [OF this wake] have "handover_reachable (?i\<lparr>shared := [cb], posted := [cb], edge := True\<rparr>)"
    by (simp add: handover_init_def)
  from step [OF this poll_edge] have "handover_reachable (?i\<lparr>shared := [cb], posted := [cb], pc := Awake\<rparr>)"
    by (simp add: handover_init_def)
  from step [OF this swap] have "handover_reachable
      (?i\<lparr>local_list := [cb], posted := [cb], pc := RunningCallbacks\<rparr>)"
    by (simp add: handover_init_def)
  from step [OF this exec [of _ cb "[]"]] show ?thesis by (simp add: handover_init_def)
qed

lemma callbacks_fifo_witness:
  "[7] = executed (handover_init\<lparr>posted := [7::nat], executed := [7], pc := RunningCallbacks\<rparr>)"
  using callbacks_fifo [OF handover_run [of "7::nat"]] by (simp add: handover_init_def)

text \<open>
  C11. No wake-up is lost: when the loop thread is about to block in the poll and callbacks wait in
  the shared list, an edge on the wake-up descriptor is pending or a poster is about to make one.
\<close>

theorem no_lost_wakeup:
  assumes "handover_reachable s" "pc s = Polling" "shared s \<noteq> []"
  shows "edge s \<or> 0 < pushed s"
  using handover_reachable_inv [OF assms(1)] assms(2,3) by (simp add: handover_inv_def)

lemma no_lost_wakeup_witness:
  "edge (handover_init\<lparr>shared := [7::nat], posted := [7], pushed := 1\<rparr>) \<or>
     0 < pushed (handover_init\<lparr>shared := [7::nat], posted := [7], pushed := 1\<rparr>)"
proof (rule no_lost_wakeup)
  show "handover_reachable (handover_init\<lparr>shared := [7::nat], posted := [7], pushed := 1\<rparr>)"
    using step [OF start push [of handover_init 7]] by (simp add: handover_init_def)
qed (simp_all add: handover_init_def)

text \<open>
  C32. The loop ends for good after five polls that return nothing, counted over its whole life: the
  counter is never reset, so busy stretches in between do not help.
\<close>

theorem Loop_stops_after_idle_polls:
  assumes "Loop run polls 0 w = Inr (st, w')" "5 \<le> length (filter (\<lambda>r. r = []) polls)"
  shows "st = Stopped"
  using Loop_counts_empty_polls [OF assms(1)] assms(2) by simp

lemma EpollWait_Nil_loop:
  "timer_node_queue w = [] \<Longrightarrow> callback_list w = [] \<Longrightarrow> \<not> running_callbacks w \<Longrightarrow>
     loop_iteration run [] n w = Inr (Suc n, w)"
  by (simp add: loop_iteration_def DoCallbacks_def HandleExpire.simps)

definition idle_loop :: event_loop where
  "idle_loop = empty_loop 1 5 (\<lambda>_. (0, 0)) (\<lambda>_. \<lparr>rd_script = [], wr_script = [], sent = []\<rparr>)"

lemma Loop_stops_after_idle_polls_witness:
  "(Stopped, idle_loop) = (Stopped, idle_loop) \<and>
   Loop (\<lambda>cb w. Inr w) [[], [], [], [], []] 0 idle_loop = Inr (Stopped, idle_loop)"
proof -
  have i: "loop_iteration run [] n idle_loop = Inr (Suc n, idle_loop)" for run n
    by (rule EpollWait_Nil_loop) (simp_all add: idle_loop_def empty_loop_def)
  have l: "is_looping idle_loop" by (simp add: idle_loop_def empty_loop_def)
  obtain st where st: "Loop (\<lambda>cb w. Inr w) [[], [], [], [], []] 0 idle_loop = Inr (st, idle_loop)"
    by (simp add: i l)
  from Loop_stops_after_idle_polls [OF this] st show ?thesis by simp
qed

end
