(* ===== verification/Thread_Pool.thy ===== *)
theory Thread_Pool
  imports Flash_Prelude
begin

text \<open>
  \<^verbatim>\<open>src/Server/EventLoopThread.{h,cpp}\<close> and \<^verbatim>\<open>src/Server/EventLoopThreadPool.{h,cpp}\<close>: a thread
  that builds a loop on its own stack and publishes a pointer to it, and the pool that keeps
  copies of these pointers and hands them out in turn.
\<close>

section \<open>One thread\<close>

text \<open>
  \<open>ThreadFunc\<close> as a step relation. \<open>eventloop_ptr\<close> says that the member is not null, \<open>loop_alive\<close>
  that the loop object, a local variable of the function, exists.
\<close>

datatype thread_pc = T_Start | T_Built | T_Looping | T_Returned | T_Cleared | T_Exited

record loop_thread =
  tpc :: thread_pc
  eventloop_ptr :: bool
  loop_alive :: bool

definition new_EventLoopThread :: loop_thread where
  "new_EventLoopThread = \<lparr>tpc = T_Start, eventloop_ptr = False, loop_alive = False\<rparr>"

inductive thread_step :: "loop_thread \<Rightarrow> loop_thread \<Rightarrow> bool" where
  build: "tpc t = T_Start \<Longrightarrow> thread_step t (t\<lparr>tpc := T_Built, loop_alive := True\<rparr>)"
| publish: "tpc t = T_Built \<Longrightarrow> thread_step t (t\<lparr>tpc := T_Looping, eventloop_ptr := True\<rparr>)"
| loop_returns: "tpc t = T_Looping \<Longrightarrow> thread_step t (t\<lparr>tpc := T_Returned\<rparr>)"
| clear: "tpc t = T_Returned \<Longrightarrow> thread_step t (t\<lparr>tpc := T_Cleared, eventloop_ptr := False\<rparr>)"
| exit: "tpc t = T_Cleared \<Longrightarrow> thread_step t (t\<lparr>tpc := T_Exited, loop_alive := False\<rparr>)"

inductive_cases thread_stepE: "thread_step t u"

text \<open>
  \<open>GetLoop\<close> spins until a read of the member finds a pointer, and then reads the member again for its
  result. \<open>reads\<close> are what the successive reads find; the result is \<open>None\<close> as long as the call has not
  returned, and \<open>Some None\<close> when it returns a null pointer.
\<close>

fun GetLoop :: "'l option list \<Rightarrow> 'l option option" where
  "GetLoop [] = None"
| "GetLoop (None # reads) = GetLoop reads"
| "GetLoop [Some l] = None"
| "GetLoop (Some l # again # reads) = Some again"

text \<open>A run of the thread, with what a read of the member finds after every step.\<close>

inductive thread_run :: "loop_thread list \<Rightarrow> bool" where
  begin_run: "thread_run [new_EventLoopThread]"
| step_run: "thread_run (t # ts) \<Longrightarrow> thread_step t u \<Longrightarrow> thread_run (u # t # ts)"

definition thread_inv :: "loop_thread \<Rightarrow> bool" where
  "thread_inv t \<longleftrightarrow>
     (eventloop_ptr t \<longleftrightarrow> tpc t \<in> {T_Looping, T_Returned}) \<and>
     (loop_alive t \<longleftrightarrow> tpc t \<notin> {T_Start, T_Exited})"

lemma thread_step_inv: "thread_step t u \<Longrightarrow> thread_inv t \<Longrightarrow> thread_inv u"
  by (induction rule: thread_step.induct) (auto simp: thread_inv_def)

lemma thread_run_inv: "thread_run ts \<Longrightarrow> t \<in> set ts \<Longrightarrow> thread_inv t"
proof (induction arbitrary: t rule: thread_run.induct)
  case begin_run
  then show ?case by (simp add: thread_inv_def new_EventLoopThread_def)
next
  case (step_run t' ts u)
  then show ?case using thread_step_inv by (metis list.set_intros(1) set_ConsD)
qed

lemma GetLoop_reads: "GetLoop reads = Some r \<longleftrightarrow>
    (\<exists>n l rest. reads = replicate n None @ Some l # r # rest)"
proof (induction reads rule: GetLoop.induct)
  case (2 reads)
  show ?case
  proof
    assume "GetLoop (None # reads) = Some r"
    with 2 obtain n l rest where "reads = replicate n None @ Some l # r # rest" by auto
    then show "\<exists>n l rest. None # reads = replicate n None @ Some l # r # rest"
      by (intro exI [of _ "Suc n"] exI [of _ l] exI [of _ rest]) simp
  next
    assume "\<exists>n l rest. None # reads = replicate n None @ Some l # r # rest"
    then obtain n l rest where eq: "None # reads = replicate n None @ Some l # r # rest" by blast
    then obtain m where "n = Suc m" by (cases n) auto
    with eq 2 show "GetLoop (None # reads) = Some r" by auto
  qed
next
  case (4 l' r' reads)
  show ?case
  proof
    assume "GetLoop (Some l' # r' # reads) = Some r"
    then show "\<exists>n l rest. Some l' # r' # reads = replicate n None @ Some l # r # rest"
      by (intro exI [of _ 0]) simp
  next
    assume "\<exists>n l rest. Some l' # r' # reads = replicate n None @ Some l # r # rest"
    then obtain n l rest where eq: "Some l' # r' # reads = replicate n None @ Some l # r # rest" by blast
    then show "GetLoop (Some l' # r' # reads) = Some r" by (cases n) auto
  qed
qed (auto simp: Cons_eq_append_conv Cons_replicate_eq)

text \<open>The loop may end between the two reads: the call then returns the null pointer it waited to go away.\<close>

lemma GetLoop_may_return_null: "GetLoop [None, Some l, None] = Some None"
  by simp

section \<open>Taking turns\<close>

text \<open>
  What a dealer of \<open>n\<close> slots in turn promises: while it is ready it deals the slot of its
  position, and moves the position on by one, cyclically.
\<close>

locale round_robin =
  fixes ready :: "'s \<Rightarrow> bool"
    and slots :: "'s \<Rightarrow> 'a list"
    and pos :: "'s \<Rightarrow> nat"
    and deal :: "'s \<Rightarrow> ('a \<times> 's) result"
  assumes pos_in: "ready s \<Longrightarrow> pos s < length (slots s)"
    and deals: "ready s \<Longrightarrow> \<exists>s'. deal s = Inr (slots s ! pos s, s') \<and> ready s' \<and>
      slots s' = slots s \<and> pos s' = Suc (pos s) mod length (slots s)"
begin

fun deal_many :: "nat \<Rightarrow> 's \<Rightarrow> ('a list \<times> 's) result" where
  "deal_many 0 s = Inr ([], s)"
| "deal_many (Suc k) s =
     bindR (deal s) (\<lambda>(x, s). bindR (deal_many k s) (\<lambda>(xs, s). Inr (x # xs, s)))"

lemma deal_many_in_turn:
  assumes "ready s"
  shows "\<exists>s'. deal_many k s =
      Inr (map (\<lambda>j. slots s ! ((pos s + j) mod length (slots s))) [0..<k], s') \<and>
    ready s' \<and> slots s' = slots s \<and> pos s' = (pos s + k) mod length (slots s)"
  using assms
proof (induction k arbitrary: s)
  case 0
  then show ?case using pos_in by auto
next
  case (Suc k)
  from deals [OF Suc.prems] obtain t where t: "deal s = Inr (slots s ! pos s, t)" "ready t"
    "slots t = slots s" "pos t = Suc (pos s) mod length (slots s)" by blast
  from Suc.IH [OF t(2)] obtain u where u: "deal_many k t =
      Inr (map (\<lambda>j. slots t ! ((pos t + j) mod length (slots t))) [0..<k], u)"
    "ready u" "slots u = slots t" "pos u = (pos t + k) mod length (slots t)" by blast
  have shift: "(Suc (pos s) mod n + j) mod n = (pos s + Suc j) mod n" for n j
    by (simp add: mod_add_left_eq)
  have "map (\<lambda>j. slots s ! ((pos s + j) mod length (slots s))) [0..<Suc k] =
      slots s ! pos s # map (\<lambda>j. slots s ! ((pos s + Suc j) mod length (slots s))) [0..<k]"
    using pos_in [OF Suc.prems] by (simp add: upt_conv_Cons map_Suc_upt [symmetric] del: upt_Suc)
  with t u show ?case by (simp add: shift)
qed

end

lemma turn_once:
  fixes n p i :: nat
  assumes "i < n"
  shows "card {j. j < n \<and> (p + j) mod n = i} = 1"
proof -
  define q where "q = p mod n"
  have q: "q < n" using assms by (simp add: q_def)
  have reduce: "(p + j) mod n = (if q + j < n then q + j else q + j - n)" if "j < n" for j
  proof -
    have "(p + j) mod n = (q + j) mod n" by (simp add: q_def mod_add_left_eq)
    then show ?thesis using that q by (simp add: mod_if)
  qed
  define j0 where "j0 = (if q \<le> i then i - q else i + n - q)"
  have "(p + j) mod n = i \<longleftrightarrow> j = j0" if "j < n" for j
    using assms q that by (auto simp: reduce [OF that] j0_def)
  moreover have "j0 < n" using assms q by (auto simp: j0_def)
  ultimately have "{j. j < n \<and> (p + j) mod n = i} = {j0}" by blast
  then show ?thesis by simp
qed

text \<open>How often slot \<open>i\<close> is dealt in \<open>k\<close> turns that start at position \<open>p\<close>.\<close>

definition turns :: "nat \<Rightarrow> nat \<Rightarrow> nat \<Rightarrow> nat \<Rightarrow> nat" where
  "turns n p i k = card {j. j < k \<and> (p + j) mod n = i}"

lemma turns_round: "i < n \<Longrightarrow> turns n p i (n + k) = Suc (turns n p i k)"
proof -
  assume i: "i < n"
  let ?A = "{j. j < n \<and> (p + j) mod n = i}" and ?B = "{j. j < k \<and> (p + j) mod n = i}"
  have shifted: "j \<in> (+) n ` ?B" if "j < n + k" "(p + j) mod n = i" "\<not> j < n" for j
  proof (rule image_eqI [of _ _ "j - n"])
    from that show "j = n + (j - n)" by simp
    have "(p + (j - n)) mod n = (p + (j - n) + n) mod n" by simp
    also have "p + (j - n) + n = p + j" using that by simp
    finally show "j - n \<in> ?B" using that by simp
  qed
  have forth: "(p + (n + j)) mod n = (p + j) mod n" for j
    by (metis add.left_commute mod_add_self1)
  have "{j. j < n + k \<and> (p + j) mod n = i} = ?A \<union> (+) n ` ?B"
    using shifted by (auto simp: forth)
  moreover have "?A \<inter> (+) n ` ?B = {}" by auto
  ultimately have "turns n p i (n + k) = card ?A + card ((+) n ` ?B)"
    by (simp add: turns_def card_Un_disjoint)
  also have "card ((+) n ` ?B) = card ?B" by (rule card_image) simp
  finally show ?thesis using turn_once [OF i, of p] by (simp add: turns_def)
qed

lemma turns_partial: "i < n \<Longrightarrow> k < n \<Longrightarrow> turns n p i k \<le> 1"
proof -
  assume i: "i < n" and k: "k < n"
  have "turns n p i k \<le> card {j. j < n \<and> (p + j) mod n = i}"
    unfolding turns_def using k by (intro card_mono) auto
  then show ?thesis using turn_once [OF i, of p] by simp
qed

lemma turns_fair: "i < n \<Longrightarrow> k div n \<le> turns n p i k \<and> turns n p i k \<le> Suc (k div n)"
proof (induction k rule: less_induct)
  case (less k)
  show ?case
  proof (cases "k < n")
    case True
    then show ?thesis using turns_partial [OF less.prems True, of p] by simp
  next
    case False
    then have "turns n p i k = Suc (turns n p i (k - n))" "k div n = Suc ((k - n) div n)"
      using turns_round [OF less.prems, of p "k - n"] less.prems by (simp_all add: le_div_geq)
    moreover have "(k - n) div n \<le> turns n p i (k - n) \<and> turns n p i (k - n) \<le> Suc ((k - n) div n)"
      using False less.prems by (intro less.IH) auto
    ultimately show ?thesis by simp
  qed
qed

section \<open>The pool\<close>

text \<open>A pointer to a loop is the identity \<open>'l\<close> of the thread whose stack it lives on.\<close>

record 'l pool =
  started :: bool
  thread_num :: int
  next_loop :: int
  threads :: "'l list"
  eventloops :: "'l list"

definition new_EventLoopThreadPool :: "int \<Rightarrow> 'l pool" where
  "new_EventLoopThreadPool n =
     \<lparr>started = True, thread_num = n, next_loop = 0, threads = [], eventloops = []\<rparr>"

text \<open>
  \<open>start\<close>: thread \<open>i\<close> of the loop publishes the loop \<open>spawn i\<close>, which \<open>GetLoop\<close> waits for and returns;
  no loop ends between the two reads of \<open>GetLoop\<close> here.
\<close>

fun pool_start_loop :: "(nat \<Rightarrow> 'l) \<Rightarrow> nat \<Rightarrow> nat \<Rightarrow> 'l pool \<Rightarrow> 'l pool" where
  "pool_start_loop spawn i 0 p = p"
| "pool_start_loop spawn i (Suc k) p =
     pool_start_loop spawn (Suc i) k
       (p\<lparr>threads := threads p @ [spawn i], eventloops := eventloops p @ [spawn i]\<rparr>)"

definition pool_start :: "(nat \<Rightarrow> 'l) \<Rightarrow> 'l pool \<Rightarrow> 'l pool" where
  "pool_start spawn p = pool_start_loop spawn 0 (nat (thread_num p)) (p\<lparr>started := True\<rparr>)"

definition GetNextLoop :: "'l pool \<Rightarrow> ('l \<times> 'l pool) result" where
  "GetNextLoop p =
     (if \<not> started p then Inl AssertFailed
      else if \<not> thread_num p > 0 then Inl AssertFailed
      else if next_loop p < 0 \<or> int (length (eventloops p)) \<le> next_loop p then Inl OutOfRange
      else Inr (eventloops p ! nat (next_loop p),
                p\<lparr>next_loop := (next_loop p + 1) mod thread_num p\<rparr>))"

lemma pool_start_loop_eq:
  "pool_start_loop spawn i k p =
     p\<lparr>threads := threads p @ map spawn [i..<i + k], eventloops := eventloops p @ map spawn [i..<i + k]\<rparr>"
  by (induction k arbitrary: i p) (auto simp: upt_conv_Cons simp del: upt_Suc)

lemma pool_start_new:
  "pool_start spawn (new_EventLoopThreadPool n) =
     \<lparr>started = True, thread_num = n, next_loop = 0, threads = map spawn [0..<nat n],
      eventloops = map spawn [0..<nat n]\<rparr>"
  by (simp add: pool_start_def new_EventLoopThreadPool_def pool_start_loop_eq)

definition pool_ready :: "'l pool \<Rightarrow> bool" where
  "pool_ready p \<longleftrightarrow> started p \<and> 0 < thread_num p \<and> 0 \<le> next_loop p \<and> next_loop p < thread_num p \<and>
     int (length (eventloops p)) = thread_num p"

lemma pool_start_ready: "0 < n \<Longrightarrow> pool_ready (pool_start spawn (new_EventLoopThreadPool n))"
  by (simp add: pool_start_new pool_ready_def)

interpretation pool_turns: round_robin pool_ready eventloops "\<lambda>p. nat (next_loop p)" GetNextLoop
proof unfold_locales
  fix p :: "'l pool"
  assume r: "pool_ready p"
  then show "nat (next_loop p) < length (eventloops p)"
    by (auto simp: pool_ready_def nat_less_iff)
  have len: "length (eventloops p) = nat (thread_num p)" using r unfolding pool_ready_def by linarith
  have "nat ((next_loop p + 1) mod thread_num p) = Suc (nat (next_loop p)) mod length (eventloops p)"
    using r by (simp add: len pool_ready_def nat_mod_distrib nat_add_distrib)
  with r show "\<exists>p'. GetNextLoop p = Inr (eventloops p ! nat (next_loop p), p') \<and> pool_ready p' \<and>
      eventloops p' = eventloops p \<and>
      nat (next_loop p') = Suc (nat (next_loop p)) mod length (eventloops p)"
    by (auto simp: GetNextLoop_def pool_ready_def)
qed

section \<open>Properties\<close>

text \<open>
  A started pool deals its loops in turn: the \<open>j\<close>-th of any number of calls gets loop
  \<open>j mod n\<close>, no call fails, and over \<open>k\<close> calls every loop is dealt \<open>k div n\<close> or one more times.
\<close>

theorem GetNextLoop_fair:
  assumes "0 < n" "i < nat n"
  shows "\<exists>p'. pool_turns.deal_many k (pool_start spawn (new_EventLoopThreadPool n)) =
      Inr (map (\<lambda>j. spawn (j mod nat n)) [0..<k], p') \<and>
    k div nat n \<le> card {j. j < k \<and> j mod nat n = i} \<and>
    card {j. j < k \<and> j mod nat n = i} \<le> Suc (k div nat n)"
proof -
  let ?p = "pool_start spawn (new_EventLoopThreadPool n)"
  from pool_turns.deal_many_in_turn [OF pool_start_ready [OF assms(1)], of k spawn]
  obtain p' where "pool_turns.deal_many k ?p =
      Inr (map (\<lambda>j. eventloops ?p ! ((nat (next_loop ?p) + j) mod length (eventloops ?p))) [0..<k], p')"
    by blast
  then have "pool_turns.deal_many k ?p = Inr (map (\<lambda>j. spawn (j mod nat n)) [0..<k], p')"
    using assms(1) by (simp add: pool_start_new)
  with turns_fair [OF assms(2), of k 0] show ?thesis by (auto simp: turns_def)
qed

lemma GetNextLoop_fair_witness:
  "\<exists>p'. pool_turns.deal_many 4 (pool_start (\<lambda>i. i) (new_EventLoopThreadPool 3)) = Inr ([0, 1, 2, 0], p')"
  using GetNextLoop_fair [of 3 0 4 "\<lambda>i. i"] by (auto simp: upt_conv_Cons)

text \<open>
  Before \<open>start\<close> the assertion on \<open>started_\<close> does not protect the pool, whose constructor sets
  the flag: the call indexes an empty vector.
\<close>

theorem GetNextLoop_before_start:
  assumes "0 < n"
  shows "GetNextLoop (new_EventLoopThreadPool n) = Inl OutOfRange"
  using assms by (simp add: GetNextLoop_def new_EventLoopThreadPool_def)

lemma GetNextLoop_before_start_witness:
  "GetNextLoop (new_EventLoopThreadPool 3) = (Inl OutOfRange :: (nat \<times> nat pool) result)"
  by (rule GetNextLoop_before_start) simp

text \<open>
  C35. What a read of \<open>eventloop_\<close> finds points to a live loop at that moment; but the loop can end
  afterwards, and the pointer \<open>GetLoop\<close> returned then dangles.
\<close>

theorem loop_pointer_lifetime:
  assumes "thread_run ts"
  shows "(\<forall>t \<in> set ts. eventloop_ptr t \<longrightarrow> loop_alive t) \<and>
    (\<exists>us u t. thread_run (u # us) \<and> t \<in> set us \<and> eventloop_ptr t \<and> \<not> loop_alive u)"
proof
  show "\<forall>t \<in> set ts. eventloop_ptr t \<longrightarrow> loop_alive t"
    using thread_run_inv [OF assms] by (auto simp: thread_inv_def)
  let ?t0 = new_EventLoopThread
  let ?t1 = "?t0\<lparr>tpc := T_Built, loop_alive := True\<rparr>"
  let ?t2 = "?t1\<lparr>tpc := T_Looping, eventloop_ptr := True\<rparr>"
  let ?t3 = "?t2\<lparr>tpc := T_Returned\<rparr>"
  let ?t4 = "?t3\<lparr>tpc := T_Cleared, eventloop_ptr := False\<rparr>"
  let ?t5 = "?t4\<lparr>tpc := T_Exited, loop_alive := False\<rparr>"
  have "thread_run [?t0]" by (rule begin_run)
  from step_run [OF this thread_step.build] have "thread_run [?t1, ?t0]"
    by (simp add: new_EventLoopThread_def)
  from step_run [OF this thread_step.publish] have "thread_run [?t2, ?t1, ?t0]"
    by (simp add: new_EventLoopThread_def)
  from step_run [OF this thread_step.loop_returns] have "thread_run [?t3, ?t2, ?t1, ?t0]"
    by (simp add: new_EventLoopThread_def)
  from step_run [OF this thread_step.clear] have "thread_run [?t4, ?t3, ?t2, ?t1, ?t0]"
    by (simp add: new_EventLoopThread_def)
  from step_run [OF this thread_step.exit] have "thread_run [?t5, ?t4, ?t3, ?t2, ?t1, ?t0]"
    by (simp add: new_EventLoopThread_def)
  then show "\<exists>us u t. thread_run (u # us) \<and> t \<in> set us \<and> eventloop_ptr t \<and> \<not> loop_alive u"
    by (intro exI [of _ "[?t4, ?t3, ?t2, ?t1, ?t0]"] exI [of _ ?t5] exI [of _ ?t2]) simp
qed

lemma loop_pointer_lifetime_witness:
  "\<exists>us u t. thread_run (u # us) \<and> t \<in> set us \<and> eventloop_ptr t \<and> \<not> loop_alive u"
  using loop_pointer_lifetime [OF begin_run] by (rule conjunct2)

end
