(* ===== verification/Socket_Setup.thy ===== *)
theory Socket_Setup
  imports Flash_Prelude
begin

text \<open>
  The socket calls of \<^verbatim>\<open>src/Utils/Utils.cpp\<close> that configure descriptors. The kernel's answers are
  parameters; the model keeps the calls made, in order.
\<close>

section \<open>The calls and their answers\<close>

datatype sock_call =
  C_socket
| C_setsockopt_reuseaddr int bool
| C_setsockopt_rcvtimeo int int
| C_setsockopt_keepalive int bool
| C_bind int "16 word"
| C_listen int int
| C_fcntl_getfl int
| C_fcntl_setfl int int
| C_close int
| C_accept int

record listen_answers =
  socket_ret :: int
  reuse_ret :: int
  rcvtimeo_ret :: int
  bind_ret :: int
  listen_ret :: int

section \<open>The listening socket\<close>

text \<open>
  The result and the calls. The port goes to \<open>bind\<close> as an \<open>unsigned short\<close>.
\<close>

definition SocketBindListen :: "listen_answers \<Rightarrow> int \<Rightarrow> int \<times> sock_call list" where
  "SocketBindListen a port =
     (if port < 0 \<or> port > 65535 then (-1, [])
      else
        let listen_fd = socket_ret a; calls = [C_socket] in
        if listen_fd = -1 then (-1, calls @ [C_close listen_fd])
        else
          let calls = calls @ [C_setsockopt_reuseaddr listen_fd True] in
          if reuse_ret a < 0 then (-1, calls)
          else
            let calls = calls @ [C_setsockopt_rcvtimeo listen_fd 5] in
            if rcvtimeo_ret a < 0 then (-1, calls)
            else
              let calls = calls @ [C_bind listen_fd (word_of_int port)] in
              if bind_ret a = -1 then (-1, calls @ [C_close listen_fd])
              else
                let calls = calls @ [C_listen listen_fd 2048] in
                if listen_ret a = -1 then (-1, calls @ [C_close listen_fd])
                else if listen_fd = -1 then (-1, calls @ [C_close listen_fd])
                else (listen_fd, calls))"

text \<open>The descriptors a sequence of calls leaves open, \<open>fd\<close> being what \<open>socket\<close> returned.\<close>

definition leaves_open :: "int \<Rightarrow> sock_call list \<Rightarrow> bool" where
  "leaves_open fd calls \<longleftrightarrow> C_socket \<in> set calls \<and> fd \<noteq> -1 \<and> C_close fd \<notin> set calls"

definition listen_ok :: "listen_answers \<Rightarrow> int \<Rightarrow> bool" where
  "listen_ok a port \<longleftrightarrow> 0 \<le> port \<and> port \<le> 65535 \<and> socket_ret a \<noteq> -1 \<and> 0 \<le> reuse_ret a \<and>
     0 \<le> rcvtimeo_ret a \<and> bind_ret a \<noteq> -1 \<and> listen_ret a \<noteq> -1"

text \<open>The exits the source leaves without closing the descriptor.\<close>

definition option_failed :: "listen_answers \<Rightarrow> int \<Rightarrow> bool" where
  "option_failed a port \<longleftrightarrow> 0 \<le> port \<and> port \<le> 65535 \<and> socket_ret a \<noteq> -1 \<and>
     (reuse_ret a < 0 \<or> rcvtimeo_ret a < 0)"

lemma SocketBindListen_ok:
  "listen_ok a port \<Longrightarrow> SocketBindListen a port =
     (socket_ret a, [C_socket, C_setsockopt_reuseaddr (socket_ret a) True,
        C_setsockopt_rcvtimeo (socket_ret a) 5, C_bind (socket_ret a) (word_of_int port),
        C_listen (socket_ret a) 2048])"
  by (auto simp: SocketBindListen_def listen_ok_def Let_def)

lemma SocketBindListen_failed:
  "\<not> listen_ok a port \<Longrightarrow> fst (SocketBindListen a port) = -1"
  by (auto simp: SocketBindListen_def listen_ok_def Let_def)

lemma SocketBindListen_open:
  "leaves_open (socket_ret a) (snd (SocketBindListen a port)) \<longleftrightarrow>
     listen_ok a port \<or> option_failed a port"
  by (auto simp: SocketBindListen_def listen_ok_def option_failed_def leaves_open_def Let_def)

section \<open>Options\<close>

text \<open>Bit 11 of the flag word, \<open>O_NONBLOCK\<close>.\<close>

definition O_NONBLOCK :: int where "O_NONBLOCK = 2048"

definition setSocketNonBlocking :: "int \<Rightarrow> int \<Rightarrow> int \<Rightarrow> int \<times> sock_call list" where
  "setSocketNonBlocking getfl_ret setfl_ret fd =
     (let flag = getfl_ret; calls = [C_fcntl_getfl fd] in
      if flag = -1 then (-1, calls)
      else
        let flag = or flag O_NONBLOCK; calls = calls @ [C_fcntl_setfl fd flag] in
        if setfl_ret = -1 then (-1, calls) else (0, calls))"

definition SetKeepAlive :: "int \<Rightarrow> bool \<Rightarrow> sock_call list" where
  "SetKeepAlive fd on = [C_setsockopt_keepalive fd on]"

lemma setSocketNonBlocking_flag:
  assumes "getfl \<noteq> -1"
  shows "snd (setSocketNonBlocking getfl setfl fd) = [C_fcntl_getfl fd, C_fcntl_setfl fd (or getfl O_NONBLOCK)]"
    "bit (or getfl O_NONBLOCK) 11"
  using assms by (simp_all add: setSocketNonBlocking_def Let_def O_NONBLOCK_def bit_or_iff)

section \<open>Properties\<close>

text \<open>
  \<open>SocketBindListen\<close> returns a descriptor exactly when every call succeeds, and -1 otherwise;
  it leaves the descriptor open then and also when setting one of the two options fails, so that
  path leaks it.
\<close>

theorem SocketBindListen_result:
  "(fst (SocketBindListen a port) = (if listen_ok a port then socket_ret a else -1)) \<and>
   (leaves_open (socket_ret a) (snd (SocketBindListen a port)) \<longleftrightarrow>
      listen_ok a port \<or> option_failed a port)"
  using SocketBindListen_ok SocketBindListen_failed SocketBindListen_open by simp

text \<open>
  \<open>setSocketNonBlocking\<close> writes back the flags it read with \<open>O_NONBLOCK\<close> added, and no other
  flag changed; it reports 0 exactly when both calls succeed.
\<close>

theorem setSocketNonBlocking_adds_flag:
  assumes "getfl \<noteq> -1"
  shows "\<exists>flag. snd (setSocketNonBlocking getfl setfl fd) = [C_fcntl_getfl fd, C_fcntl_setfl fd flag] \<and>
    bit flag 11 \<and> (\<forall>k. k \<noteq> 11 \<longrightarrow> bit flag k = bit getfl k) \<and>
    (fst (setSocketNonBlocking getfl setfl fd) = 0 \<longleftrightarrow> setfl \<noteq> -1)"
proof -
  have o: "O_NONBLOCK = 2 ^ 11" by (simp add: O_NONBLOCK_def)
  have "bit (or getfl O_NONBLOCK) k \<longleftrightarrow> bit getfl k \<or> k = 11" for k
    unfolding o bit_or_iff bit_exp_iff by auto
  with assms show ?thesis
    by (intro exI [of _ "or getfl O_NONBLOCK"]) (auto simp: setSocketNonBlocking_def Let_def)
qed

lemma setSocketNonBlocking_adds_flag_witness:
  "fst (setSocketNonBlocking 2 0 9) = 0"
  using setSocketNonBlocking_adds_flag [of 2 0 9] by auto

end
