(* ===== verification/Server.thy ===== *)
theory Server
  imports Event_Loop Thread_Pool Socket_Setup
begin

text \<open>
  \<^verbatim>\<open>src/Server/Server.h\<close>, \<^verbatim>\<open>src/Server/Server.cpp\<close> and \<^verbatim>\<open>src/Main.cpp\<close>: the acceptor. The
  server's state extends the loop it runs on with its own members, the worker loops its pool
  points to, and what \<open>accept\<close> will answer.
\<close>

section \<open>State\<close>

text \<open>
  \<open>workers i\<close> is the loop on the stack of worker thread \<open>i\<close>, \<open>None\<close> when the thread has left
  \<open>ThreadFunc\<close>. \<open>accepts\<close> are the results of the coming calls of \<open>accept\<close> (the list ends where
  the call fails), \<open>fcntl_rets\<close> what the two \<open>fcntl\<close> calls answer for a descriptor.
\<close>

record server = event_loop +
  port :: int
  worker_num :: int
  listen_fd :: int
  thread_pool :: "nat pool option"
  workers :: "nat \<Rightarrow> event_loop option"
  accepts :: "int list"
  fcntl_rets :: "int \<Rightarrow> int \<times> int"
  net_calls :: "sock_call list"

definition net :: "sock_call list \<Rightarrow> server \<Rightarrow> server" where
  "net calls s = s\<lparr>net_calls := net_calls s @ calls\<rparr>"

definition with_pool :: "server \<Rightarrow> (nat pool \<Rightarrow> 'b result) \<Rightarrow> 'b result" where
  "with_pool s k = (case thread_pool s of None \<Rightarrow> Inl UseAfterFree | Some p \<Rightarrow> k p)"

definition with_worker :: "server \<Rightarrow> nat \<Rightarrow> (event_loop \<Rightarrow> 'b result) \<Rightarrow> 'b result" where
  "with_worker s l k = (case workers s l of None \<Rightarrow> Inl UseAfterFree | Some w \<Rightarrow> k w)"

definition put_worker :: "nat \<Rightarrow> event_loop \<Rightarrow> server \<Rightarrow> server" where
  "put_worker l w s = s\<lparr>workers := (workers s)(l \<mapsto> w)\<rparr>"

lemma with_pool_simps [simp]:
  "thread_pool s = Some p \<Longrightarrow> with_pool s k = k p"
  "thread_pool s = None \<Longrightarrow> with_pool s k = Inl UseAfterFree"
  by (simp_all add: with_pool_def)

lemma with_worker_simps [simp]:
  "workers s l = Some w \<Longrightarrow> with_worker s l k = k w"
  "workers s l = None \<Longrightarrow> with_worker s l k = Inl UseAfterFree"
  by (simp_all add: with_worker_def)

text \<open>The constructor, on a loop \<open>w\<close> the caller made.\<close>

definition new_Server ::
  "event_loop \<Rightarrow> int \<Rightarrow> int \<Rightarrow> int list \<Rightarrow> (int \<Rightarrow> int \<times> int) \<Rightarrow> server" where
  "new_Server w p n acc rets =
     event_loop.extend w
       \<lparr>port = p, worker_num = n, listen_fd = 0,
        thread_pool = Some (new_EventLoopThreadPool n), workers = Map.empty,
        accepts = acc, fcntl_rets = rets, net_calls = []\<rparr>"

section \<open>New connections\<close>

text \<open>
  The constructor of \<open>Http\<close> on the heap of a worker: the channel, its three callbacks bound to
  \<open>this\<close>, and the \<open>shared_ptr\<close> that the caller gets.
\<close>

definition make_Http :: "int \<Rightarrow> bool \<Rightarrow> 'a reactor_scheme \<Rightarrow> nat \<times> 'a reactor_scheme" where
  "make_Http fd alive w =
     (let c = next_id w; h = Suc c;
          ch = SetConnCallback (CB_HandleCurrentConn h)
                 (SetWriteCallback (CB_HandleWrite h)
                   (SetReadCallback (CB_HandleRead h) (new_Channel fd)))
      in (h, retain h (put_http h (new_Http c fd alive) (put_channel c ch (w\<lparr>next_id := Suc h\<rparr>)))))"

text \<open>A worker runs no callback of the server.\<close>

definition no_server :: "server_callback \<Rightarrow> 'a reactor_scheme \<Rightarrow> 'a reactor_scheme result" where
  "no_server f w = Inl UseAfterFree"

text \<open>
  One pass of the loop of \<open>HandleNewConn\<close>. The descriptor is made non-blocking and the result
  of that ignored; the local \<open>shared_ptr\<close> is dropped at the end of the pass.
\<close>

definition accept_one :: "files \<Rightarrow> int \<Rightarrow> server \<Rightarrow> server result" where
  "accept_one fs accept_fd s =
     (let (r, calls) = setSocketNonBlocking (fst (fcntl_rets s accept_fd))
                         (snd (fcntl_rets s accept_fd)) accept_fd;
          s = net calls s
      in with_pool s (\<lambda>p.
         bindR (GetNextLoop p) (\<lambda>(l, p).
         let s = s\<lparr>thread_pool := Some p\<rparr> in
         with_worker s l (\<lambda>w.
         let (h, w) = make_Http accept_fd True w in
         bindR (RunFunction (run_callback no_server fs) (thread_id s) (CB_Init h) w) (\<lambda>w.
         Inr (put_worker l (release h w) s))))))"

fun accept_loop :: "files \<Rightarrow> int list \<Rightarrow> server \<Rightarrow> server result" where
  "accept_loop fs [] s = Inr (net [C_accept (listen_fd s)] (s\<lparr>accepts := []\<rparr>))"
| "accept_loop fs (accept_fd # acc) s =
     (let s = net [C_accept (listen_fd s)] s in
      if accept_fd > 0 then bindR (accept_one fs accept_fd s) (accept_loop fs acc)
      else Inr (s\<lparr>accepts := acc\<rparr>))"

definition HandleNewConn :: "files \<Rightarrow> server \<Rightarrow> server result" where
  "HandleNewConn fs s = accept_loop fs (accepts s) s"

text \<open>The read callback of the listening channel only prints.\<close>

fun server_cb :: "files \<Rightarrow> server_callback \<Rightarrow> server \<Rightarrow> server result" where
  "server_cb fs CB_HandleNewConn s = HandleNewConn fs s"
| "server_cb fs CB_new_read s = Inr s"

definition run_server :: "files \<Rightarrow> Http_Callback \<Rightarrow> server \<Rightarrow> server result" where
  "run_server fs = run_callback (server_cb fs) fs"

section \<open>\<open>start\<close> and \<open>shutdown\<close>\<close>

text \<open>\<open>spawn i\<close> is the loop that the \<open>i\<close>-th worker thread builds.\<close>

definition start_pool :: "(nat \<Rightarrow> event_loop) \<Rightarrow> server \<Rightarrow> server result" where
  "start_pool spawn s =
     with_pool s (\<lambda>p.
       let p = pool_start (\<lambda>i. i) p in
       Inr (s\<lparr>thread_pool := Some p,
              workers := (\<lambda>l. if l \<in> set (threads p) then Some (spawn l) else workers s l)\<rparr>))"

definition listen_channel :: "int \<Rightarrow> Http_Callback Channel" where
  "listen_channel fd =
     SetToListenEvents (EPOLLIN OR EPOLLET)
       (SetReadCallback (CB_Server CB_new_read)
         (SetConnCallback (CB_Server CB_HandleNewConn) (new_Channel fd)))"

text \<open>Everything in \<open>start\<close> before the loop. The descriptor is used without a look at its value.\<close>

definition server_setup ::
  "(nat \<Rightarrow> event_loop) \<Rightarrow> listen_answers \<Rightarrow> server \<Rightarrow> server result" where
  "server_setup spawn a s =
     bindR (start_pool spawn s) (\<lambda>s.
     let (fd, calls) = SocketBindListen a (port s);
         s = net (calls @ SetKeepAlive fd True) (s\<lparr>listen_fd := fd\<rparr>);
         c = next_id s;
         s = put_channel c (listen_channel fd) (s\<lparr>next_id := Suc c\<rparr>)
     in AddToEpoller c 15000 s)"

definition server_start ::
  "files \<Rightarrow> (nat \<Rightarrow> event_loop) \<Rightarrow> listen_answers \<Rightarrow> (int \<times> events) list list \<Rightarrow> server \<Rightarrow>
     (loop_status \<times> server) result" where
  "server_start fs spawn a polls s =
     bindR (server_setup spawn a s) (\<lambda>s. Loop (run_server fs) polls 0 s)"

text \<open>
  \<open>shutdown\<close> lets go of the pool, which destroys it: \<open>~EventLoopThreadPool\<close> calls \<open>Quit\<close> through every
  pointer and then joins every thread. The threads go on meanwhile, so the destructor is a sequence of
  steps: one for each call of \<open>Quit\<close>, and a \<open>join\<close> that waits until the thread has left \<open>ThreadFunc\<close>.
\<close>

definition quit_worker :: "nat \<Rightarrow> server \<Rightarrow> server result" where
  "quit_worker l s = with_worker s l (\<lambda>w. Inr (put_worker l (Quit w) s))"

datatype pool_end = Quitting "nat list" "nat list" | Joining "nat list" | Pool_gone

definition shutdown :: "server \<Rightarrow> pool_end \<times> server" where
  "shutdown s =
     (case thread_pool s of
        None \<Rightarrow> (Pool_gone, s)
      | Some p \<Rightarrow> (Quitting (eventloops p) (threads p), s\<lparr>thread_pool := None\<rparr>))"

fun pool_end_step :: "pool_end \<Rightarrow> server \<Rightarrow> (pool_end \<times> server) result" where
  "pool_end_step (Quitting (l # ls) ts) s = bindR (quit_worker l s) (\<lambda>s. Inr (Quitting ls ts, s))"
| "pool_end_step (Quitting [] ts) s = Inr (Joining ts, s)"
| "pool_end_step (Joining (t # ts)) s = Inr (if workers s t = None then Joining ts else Joining (t # ts), s)"
| "pool_end_step (Joining []) s = Inr (Pool_gone, s)"
| "pool_end_step Pool_gone s = Inr (Pool_gone, s)"

text \<open>
  \<open>main\<close> up to the return of \<open>start\<close>, as far as the given polls take it, and after the pool is gone.
  \<open>epfd\<close> and \<open>efd\<close> are the descriptors its loop gets, \<open>order\<close> the order in which the containers of that
  loop are destroyed.
\<close>

definition main_serve ::
  "files \<Rightarrow> nat \<Rightarrow> int \<Rightarrow> int \<Rightarrow> (nat \<Rightarrow> nat \<times> nat) \<Rightarrow> (int \<Rightarrow> sock) \<Rightarrow> (nat \<Rightarrow> event_loop) \<Rightarrow>
     listen_answers \<Rightarrow> int list \<Rightarrow> (int \<Rightarrow> int \<times> int) \<Rightarrow> (int \<times> events) list list \<Rightarrow>
     (loop_status \<times> server) result" where
  "main_serve fs tid epfd efd clk sks spawn a acc rets polls =
     bindR (make_EventLoop tid epfd efd clk sks) (\<lambda>eventloop.
     server_start fs spawn a polls (new_Server eventloop 8088 3 acc rets))"

definition main_end :: "nat list \<times> int list \<Rightarrow> server \<Rightarrow> server result" where
  "main_end order s = destroy_EventLoop (fst order) (snd order) s"

text \<open>
  The handler for signals, which \<open>main\<close> does not install: what it prints, and the status it ends the
  process with.
\<close>

definition signalHandler :: "int \<Rightarrow> string \<times> int" where
  "signalHandler signum = (''end'' @ [CHR 0x0A], 0)"

section \<open>Dealing connections to workers\<close>

text \<open>
  What one accepted connection does to its worker, when the acceptor is another thread: a new
  object whose only reference is the one the queued \<open>Init\<close> holds.
\<close>

lemma make_Http_fields:
  assumes "make_Http fd alive w = (h, w')"
  shows "h = Suc (next_id w)" "next_id w' = Suc h" "https w' = (https w)(h \<mapsto> new_Http (next_id w) fd alive)"
    "http_rc w' = (http_rc w)(h := Suc (http_rc w h))" "fd2channel w' = fd2channel w"
    "channels w' (next_id w) =
       SetConnCallback (CB_HandleCurrentConn h) (SetWriteCallback (CB_HandleWrite h)
         (SetReadCallback (CB_HandleRead h) (new_Channel fd)))"
  using assms by (auto simp: make_Http_def Let_def)

lemma make_Http_loop:
  assumes "make_Http fd alive w = (h, w')"
  shows "callback_list w' = callback_list w" "thread_id w' = thread_id w"
  using assms by (auto simp: make_Http_def Let_def)

definition queued_worker :: "int \<Rightarrow> event_loop \<Rightarrow> event_loop" where
  "queued_worker fd w =
     (let (h, v) = make_Http fd True w in release h (QueueINCallback (CB_Init h) v))"

lemma accept_one_eq:
  assumes "thread_pool s = Some p" "GetNextLoop p = Inr (l, q)" "workers s l = Some w"
    and "thread_id w \<noteq> thread_id s"
  shows "\<exists>calls. accept_one fs fd s =
    Inr (put_worker l (queued_worker fd w) ((net calls s)\<lparr>thread_pool := Some q\<rparr>))"
proof -
  obtain r calls where c: "setSocketNonBlocking (fst (fcntl_rets s fd)) (snd (fcntl_rets s fd)) fd
      = (r, calls)" by fastforce
  obtain h v where v: "make_Http fd True w = (h, v)" by fastforce
  have "thread_id v \<noteq> thread_id s" using make_Http_loop [OF v] assms(4) by simp
  with assms c v show ?thesis
    by (intro exI [of _ calls])
      (simp add: accept_one_def queued_worker_def net_def RunFunction_def IsInLoopthread_def)
qed

lemma queued_worker_fields:
  fixes w :: event_loop
  assumes "http_rc w (Suc (next_id w)) = 0"
  defines "h \<equiv> Suc (next_id w)"
  shows "callback_list (queued_worker fd w) = callback_list w @ [CB_Init h]"
    "thread_id (queued_worker fd w) = thread_id w" "next_id (queued_worker fd w) = Suc h"
    "https (queued_worker fd w) = (https w)(h \<mapsto> new_Http (next_id w) fd True)"
    "http_rc (queued_worker fd w) = (http_rc w)(h := 1)"
proof -
  obtain h' v where v: "make_Http fd True w = (h', v)" by fastforce
  note f = make_Http_fields [OF v] make_Http_loop [OF v]
  show "callback_list (queued_worker fd w) = callback_list w @ [CB_Init h]"
    "thread_id (queued_worker fd w) = thread_id w" "next_id (queued_worker fd w) = Suc h"
    "https (queued_worker fd w) = (https w)(h \<mapsto> new_Http (next_id w) fd True)"
    "http_rc (queued_worker fd w) = (http_rc w)(h := 1)"
    using assms by (simp_all add: queued_worker_def v QueueINCallback_fields f)
qed

end
