(* ===== verification/Server_Accept.thy ===== *)
theory Server_Accept
  imports Server Reactor_Inv
begin

text \<open>
  The way of an accepted connection through the program: the server's thread deals it to a worker
  and queues \<open>Init\<close> there, and the worker's next round of callbacks registers it. The invariant of
  the reactor is carried through both threads.
\<close>

section \<open>Connections that wait to be registered\<close>

text \<open>A live object that no table knows yet, with its descriptor.\<close>

definition waits :: "'a reactor_scheme \<Rightarrow> nat \<times> int \<Rightarrow> bool" where
  "waits w e = (case e of (h, fd) \<Rightarrow> \<exists>x. https w h = Some x \<and> sock_fd x = fd \<and> \<not> registered w h \<and>
     fd2http w fd = None \<and> fd2channel w fd = None \<and>
     chan_fd (channels w (channel x)) = fd \<and> holder (channels w (channel x)) = None)"

definition awaiting :: "(nat \<Rightarrow> nat) \<Rightarrow> 'a reactor_scheme \<Rightarrow> (nat \<times> int) list \<Rightarrow> bool" where
  "awaiting extra w q \<longleftrightarrow> reactor_ok extra w \<and> distinct (map snd q) \<and> (\<forall>e \<in> set q. waits w e) \<and>
     (\<forall>h x. https w h = Some x \<longrightarrow> channel x < next_id w)"

lemma awaitingD:
  assumes "awaiting extra w q"
  shows "reactor_ok extra w" "distinct (map snd q)" "\<And>e. e \<in> set q \<Longrightarrow> waits w e"
    "\<And>h x. https w h = Some x \<Longrightarrow> channel x < next_id w"
  using assms by (auto simp: awaiting_def)

text \<open>The invariant does not look at the members of the loop.\<close>

lemma awaiting_same:
  assumes "awaiting extra w q" "https v = https w" "channels v = channels w" "fd2http v = fd2http w"
    "fd2channel v = fd2channel w" "next_id v = next_id w" "nodes v = nodes w" "http_rc v = http_rc w"
    "timer_node_queue v = timer_node_queue w"
  shows "awaiting extra v q"
proof -
  have "same_shape w v" using assms(2-) by (simp add: same_shape_def)
  then have "reactor_ok extra v" by (rule reactor_ok_same) (rule awaitingD(1) [OF assms(1)])
  moreover have "registered v = registered w" by (simp add: registered_def fun_eq_iff assms(4))
  ultimately show ?thesis using assms by (simp add: awaiting_def waits_def)
qed

section \<open>Queueing\<close>

lemma count_list_snoc: "count_list (hs @ [h]) = held h (count_list hs)"
  by (auto simp: held_def fun_eq_iff)

text \<open>A fresh channel is nobody's.\<close>

lemma reactor_ok_fresh_channel:
  assumes ok: "reactor_ok extra w" and c: "\<And>h x. https w h = Some x \<Longrightarrow> channel x \<noteq> c"
  shows "reactor_ok extra (put_channel c ch w)"
proof (rule reactor_okI)
  let ?v = "put_channel c ch w"
  note d = reactor_okD [OF ok]
  have reg: "registered ?v = registered w" and tim: "timed ?v = timed w"
    by (simp_all add: fun_eq_iff registered_def timed_def)
  show "queue_ok ?v" using d(1) by (simp add: queue_ok_def)
  show "timers_ok ?v" using d(2) by (simp add: timers_ok_def reg)
  show "tables_ok ?v" using d(3) c by (fastforce simp: tables_ok_def)
  show "links_ok ?v" using d(4) by (simp add: links_ok_def)
  show "refs_ok extra ?v" by (rule refs_ok_cong [OF d(5)]) (simp_all add: reg tim)
qed

definition new_channel_of :: "nat \<Rightarrow> int \<Rightarrow> Http_Callback Channel" where
  "new_channel_of h fd = SetConnCallback (CB_HandleCurrentConn h) (SetWriteCallback (CB_HandleWrite h)
     (SetReadCallback (CB_HandleRead h) (new_Channel fd)))"

lemma new_channel_of_fields [simp]:
  "chan_fd (new_channel_of h fd) = fd" "holder (new_channel_of h fd) = None"
  by (simp_all add: new_channel_of_def SetConnCallback_def SetWriteCallback_def SetReadCallback_def new_Channel_def)

lemma queued_worker_shape:
  fixes w :: event_loop
  assumes "http_rc w (Suc (next_id w)) = 0"
  defines "h \<equiv> Suc (next_id w)"
  shows "https (queued_worker fd w) = (https w)(h \<mapsto> new_Http (next_id w) fd True)"
    "channels (queued_worker fd w) = (channels w)(next_id w := new_channel_of h fd)"
    "fd2http (queued_worker fd w) = fd2http w" "fd2channel (queued_worker fd w) = fd2channel w"
    "nodes (queued_worker fd w) = nodes w" "timer_node_queue (queued_worker fd w) = timer_node_queue w"
    "next_id (queued_worker fd w) = Suc h" "http_rc (queued_worker fd w) = (http_rc w)(h := 1)"
    "callback_list (queued_worker fd w) = callback_list w @ [CB_Init h]"
  using assms
  by (simp_all add: queued_worker_def make_Http_def Let_def QueueINCallback_def WakeUpTargetEventLoop_def
      new_channel_of_def split: prod.split)

lemma queued_worker_awaiting:
  fixes w :: event_loop
  assumes aw: "awaiting (count_list (map fst q)) w q"
    and free: "fd2http w fd = None" "fd2channel w fd = None" "fd \<notin> snd ` set q"
  defines "q' \<equiv> q @ [(Suc (next_id w), fd)]"
  shows "awaiting (count_list (map fst q')) (queued_worker fd w) q'"
proof -
  let ?c = "next_id w" and ?h = "Suc (next_id w)" and ?v = "queued_worker fd w"
  let ?x = "new_Http ?c fd True" and ?ch = "new_channel_of ?h fd"
  note d = awaitingD [OF aw]
  have none: "https w ?h = None" using refs_okD(2) [OF d(1), of ?h] by (cases "https w ?h") auto
  have rc: "http_rc w ?h = 0" using refs_okD(1) [OF d(1) none] by simp
  note s = queued_worker_shape [OF rc, of fd]
  have ok1: "reactor_ok (count_list (map fst q)) (put_channel ?c ?ch w)"
    by (rule reactor_ok_fresh_channel [OF d(1)]) (metis d(4) less_irrefl)
  let ?u = "retain ?h (put_http ?h ?x ((put_channel ?c ?ch w)\<lparr>next_id := Suc ?h\<rparr>))"
  have u: "reactor_ok (held ?h (count_list (map fst q))) ?u" "\<not> registered ?u ?h"
    by (rule reactor_ok_new [OF ok1]; simp add: new_Http_def)+
  have reg: "registered ?v = registered w" by (simp add: registered_def fun_eq_iff s)
  have "same_shape ?u ?v" by (simp add: same_shape_def s rc)
  then have ok: "reactor_ok (count_list (map fst q')) ?v"
    using reactor_ok_same [OF _ u(1)] by (simp only: q'_def map_append list.map fst_conv count_list_snoc)
  have old: "waits ?v e" if "e \<in> set q" for e
    using d(3) [OF that] d(4) none by (fastforce simp: waits_def s reg)
  have "\<not> registered w ?h" using u(2) by (simp add: registered_def)
  then have new: "waits ?v (?h, fd)" using free by (simp add: waits_def s reg new_Http_def)
  have ids: "channel x < next_id ?v" if "https ?v h = Some x" for h x
    using that d(4) [of h x] by (auto simp: s new_Http_def split: if_split_asm)
  show ?thesis unfolding awaiting_def
  proof (intro conjI ok)
    show "distinct (map snd q')" using d(2) free(3) by (auto simp: q'_def)
    show "\<forall>e \<in> set q'. waits ?v e" using old new by (simp add: q'_def)
    show "\<forall>h x. https ?v h = Some x \<longrightarrow> channel x < next_id ?v" using ids by blast
  qed
qed

section \<open>Registering\<close>

text \<open>What \<open>Init\<close> does to the tables, as long as the descriptor is unknown.\<close>

definition with_tables :: "nat \<Rightarrow> Http \<Rightarrow> 'a reactor_scheme \<Rightarrow> 'a reactor_scheme" where
  "with_tables h x w =
     (let ch = SetToListenEvents (EPOLLIN OR EPOLLET) (SetHolder h (channels w (channel x)));
          w = log_call (Sys_epoll_ctl EPOLL_CTL_ADD (sock_fd x) (EPOLLIN OR EPOLLET)) (put_channel (channel x) ch w)
      in retain h (w\<lparr>fd2channel := (fd2channel w)(sock_fd x \<mapsto> Some (channel x)),
           fd2http := (fd2http w)(sock_fd x \<mapsto> Some h)\<rparr>))"

lemma Init_is_AddTimerNode:
  assumes "https w h = Some x" "fd2http w (sock_fd x) = None" "fd2channel w (sock_fd x) = None"
    "chan_fd (channels w (channel x)) = sock_fd x"
  shows "Init h w = AddTimerNode h DEFAULT_EXPIRE_TIME (with_tables h x w)"
proof -
  have hold: "GetHolder (https w) (SetToListenEvents (EPOLLIN OR EPOLLET) (SetHolder h (channels w (channel x)))) = Some h"
    using assms(1) by (simp add: GetHolder_def)
  then show ?thesis using assms timeouts_positive
    by (simp add: with_tables_def Init_def AddToEpoller_def EpollAdd_def add_timer_def AddTimerNode_def
        new_TimerNode_def gettimeofday_def Let_def map_insert_def GetHolder_def retain_def put_http_def
        log_call_def put_channel_def fun_upd_twist with_http_def)
qed

lemma AddTimerNode_frame:
  assumes "AddTimerNode h timeout w = Inr v"
  shows "fd2http v = fd2http w" "fd2channel v = fd2channel w" "channels v = channels w"
    "next_id v = Suc (next_id w)" "reactor.more v = reactor.more w"
    "https v h' = (if h' = h then map_option (LinkTimer (next_id w)) (https w h) else https w h')"
  using assms
  by (auto simp: AddTimerNode_def new_TimerNode_def gettimeofday_def Let_def LinkTimer_def retain_def put_http_def)

lemma Init_awaiting:
  assumes aw: "awaiting extra w ((h, fd) # q)"
  obtains v c where "Init h w = Inr v" "awaiting extra v q" "fd2http v = (fd2http w)(fd \<mapsto> Some h)"
    "fd2channel v = (fd2channel w)(fd \<mapsto> Some c)" "reactor.more v = reactor.more w"
proof -
  note d = awaitingD [OF aw]
  obtain x where x: "https w h = Some x" "sock_fd x = fd" "\<not> registered w h"
    "fd2http w fd = None" "fd2channel w fd = None"
    "chan_fd (channels w (channel x)) = fd" "holder (channels w (channel x)) = None"
    using d(3) [of "(h, fd)"] by (auto simp: waits_def)
  obtain v where v: "Init h w = Inr v" "reactor_ok extra v" "registered v h"
    using Init_ok [OF d(1) x(1,3)] x by metis
  have add: "AddTimerNode h DEFAULT_EXPIRE_TIME (with_tables h x w) = Inr v"
    using v(1) Init_is_AddTimerNode [OF x(1)] x by simp
  note f = AddTimerNode_frame [OF add, unfolded with_tables_def Let_def, simplified]
  have table: "fd2http v = (fd2http w)(fd \<mapsto> Some h)" using f(1) x(2) by simp
  have reg: "registered v h' \<longleftrightarrow> registered w h'" if "h' \<noteq> h" for h'
    using that x(4) unfolding registered_def table by (metis fun_upd_apply option.distinct(1) option.inject)
  have "waits v e" if e: "e \<in> set q" for e
  proof -
    obtain h' fd' where e': "e = (h', fd')" by (cases e)
    have "waits w e" using d(3) e by simp
    then obtain y where y: "https w h' = Some y" "sock_fd y = fd'" "\<not> registered w h'"
      "fd2http w fd' = None" "fd2channel w fd' = None"
      "chan_fd (channels w (channel y)) = fd'" "holder (channels w (channel y)) = None"
      by (auto simp: waits_def e')
    have "fd' \<noteq> fd" using d(2) e by (force simp: e')
    then have n: "h' \<noteq> h" "channel y \<noteq> channel x" using x y by auto
    show ?thesis
      using y n \<open>fd' \<noteq> fd\<close> x(2) reg [OF n(1)] unfolding waits_def e' by (simp add: f table)
  qed
  moreover have "channel y < next_id v" if "https v h' = Some y" for h' y
    using that d(4) [of h x] d(4) [of h' y] x(1) by (auto simp: f LinkTimer_def split: if_split_asm)
  ultimately have "awaiting extra v q" using v(2) d(2) by (auto simp: awaiting_def)
  moreover have "fd2channel v = (fd2channel w)(fd \<mapsto> Some (channel x))" using f(2) x(2) by simp
  ultimately show thesis using that v(1) table f(5) by simp
qed

lemma run_Init_all:
  "awaiting extra w q \<Longrightarrow>
   \<exists>v. forR (run_callback srv fs) (map (\<lambda>e. CB_Init (fst e)) q) w = Inr v \<and> reactor_ok extra v \<and>
     (\<forall>e \<in> set q. fd2http v (snd e) = Some (Some (fst e))) \<and>
     (\<forall>fd. fd \<notin> snd ` set q \<longrightarrow> fd2http v fd = fd2http w fd \<and> fd2channel v fd = fd2channel w fd) \<and>
     reactor.more v = reactor.more w"
proof (induction q arbitrary: w)
  case Nil
  then show ?case using awaitingD(1) [OF Nil] by simp
next
  case (Cons e q)
  obtain h fd where e: "e = (h, fd)" by (cases e)
  obtain u c where u: "Init h w = Inr u" "awaiting extra u q" "fd2http u = (fd2http w)(fd \<mapsto> Some h)"
    "fd2channel u = (fd2channel w)(fd \<mapsto> Some c)" "reactor.more u = reactor.more w"
    using Init_awaiting [OF Cons(2) [unfolded e]] .
  obtain v where v: "forR (run_callback srv fs) (map (\<lambda>e. CB_Init (fst e)) q) u = Inr v" "reactor_ok extra v"
    "\<forall>e \<in> set q. fd2http v (snd e) = Some (Some (fst e))"
    "\<forall>fd. fd \<notin> snd ` set q \<longrightarrow> fd2http v fd = fd2http u fd \<and> fd2channel v fd = fd2channel u fd"
    "reactor.more v = reactor.more u"
    using Cons(1) [OF u(2)] by (elim exE conjE)
  have fresh: "fd \<notin> snd ` set q" using awaitingD(2) [OF Cons(2)] by (simp add: e)
  show ?case
  proof (intro exI [of _ v] conjI)
    show "forR (run_callback srv fs) (map (\<lambda>e. CB_Init (fst e)) (e # q)) w = Inr v" using u(1) v(1) by (simp add: e)
    show "\<forall>e \<in> set (e # q). fd2http v (snd e) = Some (Some (fst e))" using v(3,4) fresh u(3) by (simp add: e)
    show "\<forall>fd. fd \<notin> snd ` set (e # q) \<longrightarrow> fd2http v fd = fd2http w fd \<and> fd2channel v fd = fd2channel w fd"
      using v(4) u(3,4) by (simp add: e)
  qed (simp_all add: v u)
qed

text \<open>The list of callbacks is destroyed: every waiting reference goes, no connection with it.\<close>

lemma drop_registered:
  assumes "reactor_ok (\<lambda>h. extra h + count_list hs h) v" "\<forall>h \<in> set hs. registered v h"
  shows "reactor_ok extra (drop_callbacks (map CB_Init hs) v) \<and>
    fd2http (drop_callbacks (map CB_Init hs) v) = fd2http v \<and>
    fd2channel (drop_callbacks (map CB_Init hs) v) = fd2channel v \<and>
    reactor.more (drop_callbacks (map CB_Init hs) v) = reactor.more v"
  using assms
proof (induction hs arbitrary: v)
  case (Cons h hs)
  have "(\<lambda>h'. extra h' + count_list (h # hs) h') = held h (\<lambda>h'. extra h' + count_list hs h')"
    by (auto simp: held_def fun_eq_iff)
  then have "reactor_ok (\<lambda>h'. extra h' + count_list hs h') (release h v)"
    using reactor_ok_release(1) Cons(2) by metis
  moreover have "\<forall>h' \<in> set hs. registered (release h v) h'" using Cons(3) by (simp add: registered_def)
  ultimately show ?case using Cons(1) [of "release h v"] by simp
qed simp

lemma same_more: "reactor.more v = reactor.more w \<Longrightarrow> callback_list v = callback_list w"
  by (cases v rule: event_loop.cases_scheme; cases w rule: event_loop.cases_scheme) simp

lemma DoCallbacks_awaiting:
  fixes w :: "'a event_loop_scheme"
  assumes aw: "awaiting (count_list (map fst q)) w q" and cbs: "callback_list w = map (\<lambda>e. CB_Init (fst e)) q"
  shows "\<exists>v. DoCallbacks (run_callback srv fs) w = Inr v \<and> reactor_ok (\<lambda>_. 0) v \<and> callback_list v = [] \<and>
    (\<forall>e \<in> set q. fd2http v (snd e) = Some (Some (fst e))) \<and>
    (\<forall>fd. fd \<notin> snd ` set q \<longrightarrow> fd2http v fd = fd2http w fd \<and> fd2channel v fd = fd2channel w fd)"
proof -
  let ?w = "w\<lparr>running_callbacks := True, callback_list := []\<rparr>"
  have "awaiting (count_list (map fst q)) ?w q" by (rule awaiting_same [OF aw]) simp_all
  from run_Init_all [OF this, of srv fs] obtain v where v:
    "forR (run_callback srv fs) (map (\<lambda>e. CB_Init (fst e)) q) ?w = Inr v"
    "reactor_ok (count_list (map fst q)) v" "\<forall>e \<in> set q. fd2http v (snd e) = Some (Some (fst e))"
    "\<forall>fd. fd \<notin> snd ` set q \<longrightarrow> fd2http v fd = fd2http ?w fd \<and> fd2channel v fd = fd2channel ?w fd"
    "reactor.more v = reactor.more ?w"
    by (elim exE conjE)
  let ?v = "v\<lparr>running_callbacks := False\<rparr>"
  have ok: "reactor_ok (\<lambda>h. 0 + count_list (map fst q) h) ?v"
    using reactor_ok_same [OF _ v(2), of ?v] by (simp add: same_shape_def)
  have "registered ?v h" if "h \<in> set (map fst q)" for h
  proof -
    from that obtain e where "e \<in> set q" "h = fst e" unfolding set_map by (rule imageE)
    then show ?thesis using v(3) by (auto simp: registered_def)
  qed
  then have dr: "reactor_ok (\<lambda>_. 0) (drop_callbacks (map CB_Init (map fst q)) ?v)"
    "fd2http (drop_callbacks (map CB_Init (map fst q)) ?v) = fd2http v"
    "fd2channel (drop_callbacks (map CB_Init (map fst q)) ?v) = fd2channel v"
    "reactor.more (drop_callbacks (map CB_Init (map fst q)) ?v) = reactor.more ?v"
    using drop_registered [OF ok] by simp_all
  have "callback_list (drop_callbacks (map CB_Init (map fst q)) ?v) = []"
    using same_more [OF dr(4)] same_more [OF v(5)] by simp
  then show ?thesis using dr v(1,3,4) cbs
    by (intro exI [of _ "drop_callbacks (map CB_Init (map fst q)) ?v"])
      (simp add: DoCallbacks_def Let_def comp_def)
qed

section \<open>Dealing\<close>

text \<open>The descriptors that go to loop \<open>l\<close> when the first one goes to position \<open>k\<close>.\<close>

fun dealt :: "nat list \<Rightarrow> nat \<Rightarrow> nat \<Rightarrow> int list \<Rightarrow> int list" where
  "dealt ls k l [] = []"
| "dealt ls k l (fd # fds) =
     (if ls ! (k mod length ls) = l then fd # dealt ls (Suc k) l fds else dealt ls (Suc k) l fds)"

lemma dealt_mod: "k mod length ls = k' mod length ls \<Longrightarrow> dealt ls k l fds = dealt ls k' l fds"
proof (induction fds arbitrary: k k')
  case (Cons fd fds)
  have "Suc k mod length ls = Suc k' mod length ls" using Cons(2) by (metis mod_Suc_eq)
  then show ?case using Cons(1) [of "Suc k" "Suc k'"] Cons(2) by simp
qed simp

lemma set_dealt:
  "x \<in> set (dealt ls k l fds) \<longleftrightarrow> (\<exists>j < length fds. x = fds ! j \<and> ls ! ((k + j) mod length ls) = l)"
  by (induction fds arbitrary: k) (auto simp: Ex_less_Suc2)

lemma dealt_within: "x \<in> set (dealt ls k l fds) \<Longrightarrow> x \<in> set fds"
  by (auto simp: set_dealt)

lemma distinct_dealt: "distinct fds \<Longrightarrow> distinct (dealt ls k l fds)"
  by (induction fds arbitrary: k) (auto dest: dealt_within)

lemma accept_one_deals:
  assumes "thread_pool s = Some p" "pool_ready p" "l = eventloops p ! nat (next_loop p)"
    "workers s l = Some w" "thread_id w \<noteq> thread_id s"
  shows "\<exists>s' p'. accept_one fs fd s = Inr s' \<and> thread_pool s' = Some p' \<and> pool_ready p' \<and>
    eventloops p' = eventloops p \<and> nat (next_loop p') = Suc (nat (next_loop p)) mod length (eventloops p) \<and>
    workers s' = (workers s)(l \<mapsto> queued_worker fd w) \<and> thread_id s' = thread_id s \<and> listen_fd s' = listen_fd s"
proof -
  obtain p' where p': "GetNextLoop p = Inr (l, p')" "pool_ready p'" "eventloops p' = eventloops p"
    "nat (next_loop p') = Suc (nat (next_loop p)) mod length (eventloops p)"
    using pool_turns.deals [OF assms(2)] unfolding assms(3) by blast
  obtain calls where "accept_one fs fd s =
      Inr (put_worker l (queued_worker fd w) ((net calls s)\<lparr>thread_pool := Some p'\<rparr>))"
    using accept_one_eq [OF assms(1) p'(1) assms(4,5)] by blast
  then show ?thesis using p'(2-4)
    by (intro exI [of _ "put_worker l (queued_worker fd w) ((net calls s)\<lparr>thread_pool := Some p'\<rparr>)"] exI [of _ p'])
      (simp add: put_worker_def net_def)
qed

definition pool_of :: "server \<Rightarrow> nat pool \<Rightarrow> (nat \<Rightarrow> event_loop) \<Rightarrow> bool" where
  "pool_of s p ws \<longleftrightarrow> thread_pool s = Some p \<and> pool_ready p \<and>
     (\<forall>l \<in> set (eventloops p). workers s l = Some (ws l) \<and> thread_id (ws l) \<noteq> thread_id s)"

lemma thread_id_queued: "thread_id (queued_worker fd w) = thread_id w"
proof -
  obtain h v where "make_Http fd True w = (h, v)" by (cases "make_Http fd True w")
  then show ?thesis using make_Http_loop(2) [of fd True w h v] by (simp add: queued_worker_def QueueINCallback_fields)
qed

lemma accept_loop_deals:
  assumes "pool_of s p ws" "\<forall>fd \<in> set fds. 0 < fd"
  shows "\<exists>s'. accept_loop fs fds s = Inr s' \<and>
    (\<forall>l \<in> set (eventloops p). workers s' l = Some (fold queued_worker (dealt (eventloops p) (nat (next_loop p)) l fds) (ws l)))"
  using assms
proof (induction fds arbitrary: s p ws)
  case Nil
  then show ?case by (simp add: pool_of_def net_def)
next
  case (Cons fd fds)
  let ?s = "net [C_accept (listen_fd s)] s" and ?l = "eventloops p ! nat (next_loop p)"
  have pos: "nat (next_loop p) < length (eventloops p)" using pool_turns.pos_in [of p] Cons(2) by (simp add: pool_of_def)
  then have l: "?l \<in> set (eventloops p)" by simp
  have s: "thread_pool ?s = Some p" "pool_ready p" "workers ?s ?l = Some (ws ?l)" "thread_id (ws ?l) \<noteq> thread_id ?s"
    "workers ?s = workers s" "thread_id ?s = thread_id s"
    using Cons(2) l by (auto simp: pool_of_def net_def)
  obtain s1 p1 where one: "accept_one fs fd ?s = Inr s1" "thread_pool s1 = Some p1" "pool_ready p1"
    "eventloops p1 = eventloops p" "nat (next_loop p1) = Suc (nat (next_loop p)) mod length (eventloops p)"
    "workers s1 = (workers ?s)(?l \<mapsto> queued_worker fd (ws ?l))" "thread_id s1 = thread_id ?s"
    using accept_one_deals [OF s(1,2) refl s(3,4), of fs fd] by blast
  let ?ws = "ws(?l := queued_worker fd (ws ?l))"
  have "pool_of s1 p1 ?ws" using Cons(2) one s(5,6) by (auto simp: pool_of_def thread_id_queued)
  from Cons(1) [OF this] Cons(3) obtain s' where s': "accept_loop fs fds s1 = Inr s'"
    "\<forall>l \<in> set (eventloops p). workers s' l =
      Some (fold queued_worker (dealt (eventloops p) (nat (next_loop p1)) l fds) (?ws l))"
    using one(4) by auto
  have "dealt (eventloops p) (nat (next_loop p1)) l fds = dealt (eventloops p) (Suc (nat (next_loop p))) l fds" for l
    by (rule dealt_mod) (simp add: one(5))
  then have "fold queued_worker (dealt (eventloops p) (nat (next_loop p1)) l fds) (?ws l) =
      fold queued_worker (dealt (eventloops p) (nat (next_loop p)) l (fd # fds)) (ws l)" for l
    using pos by auto
  then show ?case using s' one(1) Cons(3) by (auto simp: Let_def)
qed

section \<open>Accepting and registering\<close>

lemma fold_queued_worker:
  fixes w :: event_loop
  assumes "awaiting (count_list (map fst q)) w q" "callback_list w = map (\<lambda>e. CB_Init (fst e)) q" "distinct fds"
    "\<forall>fd \<in> set fds. fd2http w fd = None \<and> fd2channel w fd = None \<and> fd \<notin> snd ` set q"
  shows "\<exists>q'. awaiting (count_list (map fst q')) (fold queued_worker fds w) q' \<and>
    callback_list (fold queued_worker fds w) = map (\<lambda>e. CB_Init (fst e)) q' \<and>
    snd ` set q' = snd ` set q \<union> set fds \<and> fd2http (fold queued_worker fds w) = fd2http w"
  using assms
proof (induction fds arbitrary: w q)
  case Nil
  then show ?case by auto
next
  case (Cons fd fds)
  let ?q = "q @ [(Suc (next_id w), fd)]" and ?w = "queued_worker fd w"
  note ok = awaitingD(1) [OF Cons(2)]
  have "https w (Suc (next_id w)) = None"
    using refs_okD(2) [OF ok, of "Suc (next_id w)"] by (cases "https w (Suc (next_id w))") auto
  then have "http_rc w (Suc (next_id w)) = 0" using refs_okD(1) [OF ok] by simp
  note s = queued_worker_shape [OF this, of fd]
  have "\<exists>q'. awaiting (count_list (map fst q')) (fold queued_worker fds ?w) q' \<and>
    callback_list (fold queued_worker fds ?w) = map (\<lambda>e. CB_Init (fst e)) q' \<and>
    snd ` set q' = snd ` set ?q \<union> set fds \<and> fd2http (fold queued_worker fds ?w) = fd2http ?w"
  proof (rule Cons(1))
    show "awaiting (count_list (map fst ?q)) ?w ?q"
      using queued_worker_awaiting [OF Cons(2)] Cons(5) by simp
    show "callback_list ?w = map (\<lambda>e. CB_Init (fst e)) ?q" using Cons(3) by (simp add: s)
    show "distinct fds" using Cons(4) by simp
    show "\<forall>fd \<in> set fds. fd2http ?w fd = None \<and> fd2channel ?w fd = None \<and> fd \<notin> snd ` set ?q"
      using Cons(4,5) by (auto simp: s)
  qed
  then show ?case by (auto simp: s)
qed

text \<open>A connection is known to a loop: its table leads to a live object with that descriptor.\<close>

definition serves :: "'a reactor_scheme \<Rightarrow> int \<Rightarrow> bool" where
  "serves w fd \<longleftrightarrow> (\<exists>h x. fd2http w fd = Some (Some h) \<and> https w h = Some x \<and> sock_fd x = fd)"

lemma worker_registers:
  fixes w :: event_loop
  assumes "awaiting (count_list (map fst q)) w q" "callback_list w = map (\<lambda>e. CB_Init (fst e)) q" "distinct fds"
    "\<forall>fd \<in> set fds. fd2http w fd = None \<and> fd2channel w fd = None \<and> fd \<notin> snd ` set q"
  shows "\<exists>v. DoCallbacks (run_callback srv fs) (fold queued_worker fds w) = Inr v \<and> reactor_ok (\<lambda>_. 0) v \<and>
    callback_list v = [] \<and> (\<forall>fd. fd2http w fd = None \<and> fd \<notin> snd ` set q \<longrightarrow> (serves v fd \<longleftrightarrow> fd \<in> set fds))"
proof -
  obtain q' where q': "awaiting (count_list (map fst q')) (fold queued_worker fds w) q'"
    "callback_list (fold queued_worker fds w) = map (\<lambda>e. CB_Init (fst e)) q'"
    "snd ` set q' = snd ` set q \<union> set fds" "fd2http (fold queued_worker fds w) = fd2http w"
    using fold_queued_worker [OF assms] by (elim exE conjE)
  obtain v where v: "DoCallbacks (run_callback srv fs) (fold queued_worker fds w) = Inr v"
    "reactor_ok (\<lambda>_. 0) v" "callback_list v = []" "\<forall>e \<in> set q'. fd2http v (snd e) = Some (Some (fst e))"
    "\<forall>fd. fd \<notin> snd ` set q' \<longrightarrow> fd2http v fd = fd2http w fd"
    using DoCallbacks_awaiting [OF q'(1,2), of srv fs] unfolding q'(4) by blast
  have "serves v fd" if fd: "fd \<in> set fds" for fd
  proof -
    from fd have "fd \<in> snd ` set q'" by (simp add: q'(3))
    then obtain e where "e \<in> set q'" "fd = snd e" by (rule imageE)
    then have "fd2http v fd = Some (Some (fst e))" using v(4) by simp
    then show ?thesis using table_entry [OF v(2)] unfolding serves_def by metis
  qed
  moreover have "\<not> serves v fd" if "fd2http w fd = None" "fd \<notin> snd ` set q" "fd \<notin> set fds" for fd
    using that v(5) q'(3) by (simp add: serves_def)
  ultimately show ?thesis using v(1-3) by blast
qed

text \<open>
  C6. Connections from the listening socket to the workers' tables: when the server's thread accepts
  descriptors that no worker knows, and the worker loops of its pool then run their callbacks, no
  step faults, every loop is in the invariant of the reactor with an empty list of callbacks, and a
  loop serves exactly the connections whose turn it was, counted from the pool's position.
\<close>

theorem accepted_connections_registered:
  assumes "pool_of s p ws" "accepts s = fds" "distinct fds" "\<forall>fd \<in> set fds. 0 < fd"
    and "\<forall>l \<in> set (eventloops p). awaiting (count_list (map fst (qs l))) (ws l) (qs l) \<and>
      callback_list (ws l) = map (\<lambda>e. CB_Init (fst e)) (qs l) \<and>
      (\<forall>fd \<in> set fds. fd2http (ws l) fd = None \<and> fd2channel (ws l) fd = None \<and> fd \<notin> snd ` set (qs l))"
  shows "\<exists>s'. HandleNewConn fs s = Inr s' \<and> (\<forall>l \<in> set (eventloops p). \<exists>w v. workers s' l = Some w \<and>
    DoCallbacks (run_callback no_server fs) w = Inr v \<and> reactor_ok (\<lambda>_. 0) v \<and> callback_list v = [] \<and>
    (\<forall>j < length fds. serves v (fds ! j) \<longleftrightarrow>
       l = eventloops p ! ((nat (next_loop p) + j) mod length (eventloops p))))"
proof -
  let ?d = "\<lambda>l. dealt (eventloops p) (nat (next_loop p)) l fds"
  obtain s' where s': "HandleNewConn fs s = Inr s'"
    "\<forall>l \<in> set (eventloops p). workers s' l = Some (fold queued_worker (?d l) (ws l))"
    using accept_loop_deals [OF assms(1,4), of fs] assms(2) by (auto simp: HandleNewConn_def)
  have "\<exists>v. DoCallbacks (run_callback no_server fs) (fold queued_worker (?d l) (ws l)) = Inr v \<and>
      reactor_ok (\<lambda>_. 0) v \<and> callback_list v = [] \<and> (\<forall>j < length fds. serves v (fds ! j) \<longleftrightarrow>
        l = eventloops p ! ((nat (next_loop p) + j) mod length (eventloops p)))"
    if l: "l \<in> set (eventloops p)" for l
  proof -
    have w: "awaiting (count_list (map fst (qs l))) (ws l) (qs l)"
      "callback_list (ws l) = map (\<lambda>e. CB_Init (fst e)) (qs l)"
      "\<forall>fd \<in> set fds. fd2http (ws l) fd = None \<and> fd2channel (ws l) fd = None \<and> fd \<notin> snd ` set (qs l)"
      using assms(5) l by auto
    have "\<forall>fd \<in> set (?d l). fd2http (ws l) fd = None \<and> fd2channel (ws l) fd = None \<and> fd \<notin> snd ` set (qs l)"
      using w(3) dealt_within by blast
    from worker_registers [OF w(1,2) distinct_dealt [OF assms(3)] this, of no_server fs]
    obtain v where v: "DoCallbacks (run_callback no_server fs) (fold queued_worker (?d l) (ws l)) = Inr v"
      "reactor_ok (\<lambda>_. 0) v" "callback_list v = []"
      "\<forall>fd. fd2http (ws l) fd = None \<and> fd \<notin> snd ` set (qs l) \<longrightarrow> (serves v fd \<longleftrightarrow> fd \<in> set (?d l))"
      by (elim exE conjE)
    have "serves v (fds ! j) \<longleftrightarrow> l = eventloops p ! ((nat (next_loop p) + j) mod length (eventloops p))"
      if j: "j < length fds" for j
    proof -
      have "serves v (fds ! j) \<longleftrightarrow> fds ! j \<in> set (?d l)" using v(4) w(3) j by simp
      also have "\<dots> \<longleftrightarrow> l = eventloops p ! ((nat (next_loop p) + j) mod length (eventloops p))"
        using j assms(3) by (auto simp: set_dealt nth_eq_iff_index_eq)
      finally show ?thesis .
    qed
    then show ?thesis using v(1-3) by blast
  qed
  then show ?thesis using s' by (intro exI [of _ s']) auto
qed

text \<open>A loop as its constructor leaves it knows nothing but its own descriptor.\<close>

lemma new_EventLoop_awaiting:
  assumes "new_EventLoop tid efd clk sks = Inr w"
  shows "awaiting (count_list []) w []" "callback_list w = []" "thread_id w = tid"
    "fd \<noteq> efd \<Longrightarrow> fd2http w fd = None \<and> fd2channel w fd = None"
proof -
  have f: "https w = Map.empty" "nodes w = Map.empty" "timer_node_queue w = []" "http_rc w = (\<lambda>_. 0)"
    "fd2http w = [efd \<mapsto> None]" "fd2channel w = [efd \<mapsto> Some 0]" "callback_list w = []" "thread_id w = tid"
    using assms
    by (auto simp: new_EventLoop_def empty_loop_def EpollAdd_def Let_def map_insert_def GetHolder_def new_Channel_def
        SetToListenEvents_def Getfd_def log_call_def put_channel_def fun_eq_iff)
  have "\<not> registered w h" "\<not> timed w h" for h by (auto simp: registered_def timed_def f)
  then have "refs_ok (count_list []) w" by (intro refs_okI) (simp_all add: f)
  then have "reactor_ok (count_list []) w"
    by (intro reactor_okI) (simp_all add: f queue_ok_def queue_ordered_def timers_ok_def tables_ok_def links_ok_def)
  then show "awaiting (count_list []) w []" by (simp add: awaiting_def f)
  show "callback_list w = []" "thread_id w = tid" "fd \<noteq> efd \<Longrightarrow> fd2http w fd = None \<and> fd2channel w fd = None"
    by (simp_all add: f)
qed

text \<open>Starting the pool of a new server makes it ready to deal.\<close>

lemma start_pool_of:
  assumes "thread_pool s = Some (new_EventLoopThreadPool n)" "0 < n" "\<forall>i < nat n. thread_id (spawn i) \<noteq> thread_id s"
  shows "\<exists>s'. start_pool spawn s = Inr s' \<and> pool_of s' (pool_start (\<lambda>i. i) (new_EventLoopThreadPool n)) spawn \<and>
    accepts s' = accepts s"
  using assms pool_start_ready [OF assms(2), of "\<lambda>i. i"]
  by (simp add: start_pool_def pool_of_def pool_start_new Let_def)

lemma new_EventLoop_runs: "\<exists>w. new_EventLoop tid efd clk sks = Inr w"
  by (simp add: new_EventLoop_def EpollAdd_def Let_def)

lemma accepted_connections_registered_witness:
  "\<exists>s s' v. accepts s = [7, 8, 9] \<and> HandleNewConn (one_file ''index.html'' ''hello'') s = Inr s' \<and> reactor_ok (\<lambda>_. 0) (v :: event_loop) \<and>
     serves v 7 \<and> \<not> serves v 8 \<and> serves v 9"
proof -
  define wl where "wl tid = projr (new_EventLoop tid 4 (\<lambda>_. (5, 0)) (\<lambda>_. quiet_sock))" for tid
  have wl: "new_EventLoop tid 4 (\<lambda>_. (5, 0)) (\<lambda>_. quiet_sock) = Inr (wl tid)" for tid
    using new_EventLoop_runs [of tid 4 "\<lambda>_. (5, 0)" "\<lambda>_. quiet_sock"] by (auto simp: wl_def)
  note w = new_EventLoop_awaiting [OF wl]
  let ?s = "new_Server (wl 0) 8088 2 [7, 8, 9] (\<lambda>_. (0, 0))" and ?p = "pool_start (\<lambda>i. i) (new_EventLoopThreadPool 2)"
  have "thread_id ?s = thread_id (wl 0)" "thread_pool ?s = Some (new_EventLoopThreadPool 2)" "accepts ?s = [7, 8, 9]"
    by (simp_all add: new_Server_def event_loop.defs)
  then obtain s where s: "pool_of s ?p (\<lambda>i. wl (Suc i))" "accepts s = [7, 8, 9]"
    using start_pool_of [of ?s 2 "\<lambda>i. wl (Suc i)"] by (auto simp: w(3))
  have p: "eventloops ?p = [0, 1]" "next_loop ?p = 0" by (simp_all add: pool_start_new upt_rec numeral_2_eq_2)
  obtain s' where s': "HandleNewConn (one_file ''index.html'' ''hello'') s = Inr s'" "\<forall>l \<in> set (eventloops ?p). \<exists>w v. workers s' l = Some w \<and>
    DoCallbacks (run_callback no_server (one_file ''index.html'' ''hello'')) w = Inr v \<and> reactor_ok (\<lambda>_. 0) v \<and> callback_list v = [] \<and>
    (\<forall>j < length [7, 8, 9 :: int]. serves v ([7, 8, 9] ! j) \<longleftrightarrow>
       l = eventloops ?p ! ((nat (next_loop ?p) + j) mod length (eventloops ?p)))"
    using accepted_connections_registered [OF s, of "\<lambda>_. []" "one_file ''index.html'' ''hello''"] w by force
  have "0 \<in> set (eventloops ?p)" by (simp add: p)
  from bspec [OF s'(2) this] obtain v :: event_loop where v: "reactor_ok (\<lambda>_. 0) v"
    "\<forall>j < length [7, 8, 9 :: int]. serves v ([7, 8, 9] ! j) \<longleftrightarrow>
       0 = eventloops ?p ! ((nat (next_loop ?p) + j) mod length (eventloops ?p))" by blast
  have "serves v 7" "\<not> serves v 8" "serves v 9"
    using v(2) [rule_format, of 0] v(2) [rule_format, of 1] v(2) [rule_format, of 2] by (simp_all add: p)
  then show ?thesis using s(2) s'(1) v(1) by blast
qed

end
