(* ===== verification/Loop_Serve.thy ===== *)
theory Loop_Serve
  imports Http_Serve Server_Accept
begin

text \<open>
  One iteration of the loop with the components it goes through: the poll finds the channel of a
  descriptor, the channel runs the handlers of its connection, the callbacks of other threads run,
  and timers expire.
\<close>

section \<open>What expiry leaves alone\<close>

text \<open>Closing connections sends nothing, touches no member of the loop, and only adds to the log.\<close>

definition only_logs :: "'a reactor_scheme \<Rightarrow> 'a reactor_scheme \<Rightarrow> bool" where
  "only_logs w v \<longleftrightarrow> socks v = socks w \<and> reactor.more v = reactor.more w \<and> (\<exists>calls. sys_log v = sys_log w @ calls)"

lemma only_logs_refl [simp]: "only_logs w w"
  by (simp add: only_logs_def)

lemma only_logs_trans: "only_logs u v \<Longrightarrow> only_logs v w \<Longrightarrow> only_logs u w"
  by (auto simp: only_logs_def)

lemma only_logs_release [simp]: "only_logs w (release h w)"
  by (simp add: only_logs_def split: option.split)

lemma HandleClose_only_logs:
  assumes "HandleClose h w = Inr v"
  shows "only_logs w v"
proof -
  from assms obtain x where x: "EpollDel (channel x) (put_http h (x\<lparr>connectionState := DISCONNECTED\<rparr>) w) = Inr v"
    by (auto simp: HandleClose_def RemoveFromEpoller_def)
  let ?u = "put_http h (x\<lparr>connectionState := DISCONNECTED\<rparr>) w"
  define fd where "fd = chan_fd (channels ?u (channel x))"
  define u where "u = (log_call (Sys_epoll_ctl EPOLL_CTL_DEL fd (to_listen_events (channels ?u (channel x)))) ?u)
    \<lparr>fd2channel := (fd2channel ?u)(fd := None), fd2http := (fd2http ?u)(fd := None)\<rparr>"
  have u: "only_logs w u" by (simp add: u_def only_logs_def)
  have "v = u \<or> (\<exists>h'. v = release h' u)"
    using x [unfolded EpollDel_eq Let_def, folded fd_def, folded u_def] by (auto split: if_split_asm option.split_asm)
  then show ?thesis using u only_logs_trans [OF u only_logs_release] by auto
qed

lemma expire_step_only_logs:
  assumes "expire_step n w = Inr (b, v)"
  shows "only_logs w v"
proof -
  obtain e u where e: "IsExpired n w = Inr (e, u)" using assms by (auto simp: expire_step_def)
  have u: "only_logs w u"
    using e by (auto simp: IsExpired_def gettimeofday_def Let_def only_logs_def split: option.split_asm if_split_asm)
  obtain d where d: "(if e then Inr True else IsDeleted n u) = Inr d" using assms e by (auto simp: expire_step_def)
  show ?thesis
  proof (cases d)
    case False
    then show ?thesis using assms e d u by (auto simp: expire_step_def split: if_split_asm)
  next
    case True
    let ?q = "u\<lparr>timer_node_queue := tl (timer_node_queue u)\<rparr>"
    have dest: "destroy_TimerNode n ?q = Inr v" using assms e d True by (auto simp: expire_step_def split: if_split_asm)
    then obtain t where t: "nodes u n = Some t" by (auto simp: destroy_TimerNode_def split: option.split_asm)
    let ?r = "?q\<lparr>nodes := (nodes u)(n := None)\<rparr>"
    have r: "only_logs w ?r" using u by (simp add: only_logs_def)
    show ?thesis
    proof (cases "node_data t")
      case None
      then show ?thesis using dest t r by (simp add: destroy_TimerNode_def)
    next
      case (Some h)
      then obtain z where "HandleClose h ?r = Inr z" "v = release h z"
        using dest t by (auto simp: destroy_TimerNode_def)
      then show ?thesis using only_logs_trans [OF r only_logs_trans [OF HandleClose_only_logs only_logs_release]] by blast
    qed
  qed
qed

lemma HandleExpire_only_logs: "HandleExpire w = Inr v \<Longrightarrow> only_logs w v"
proof (induction w rule: HandleExpire.induct)
  case (1 w)
  show ?case
  proof (cases "timer_node_queue w")
    case Nil
    then show ?thesis using 1(2) by (simp add: HandleExpire.simps [of w])
  next
    case (Cons n q)
    then obtain b u where s: "expire_step n w = Inr (b, u)" "(if b then HandleExpire u else Inr u) = Inr v"
      using 1(2) by (auto simp: HandleExpire.simps [of w])
    show ?thesis
    proof (cases b)
      case False
      then show ?thesis using s expire_step_only_logs [OF s(1)] by simp
    next
      case True
      then have "only_logs u v" using s 1(1) [OF Cons s(1) refl True] by simp
      then show ?thesis using only_logs_trans [OF expire_step_only_logs [OF s(1)]] by blast
    qed
  qed
qed

section \<open>The members of the loop\<close>

lemma AddTimerNode_more: "AddTimerNode h t w = Inr v \<Longrightarrow> reactor.more v = reactor.more w \<and> socks v = socks w"
  by (auto simp: AddTimerNode_def new_TimerNode_def gettimeofday_def Let_def)

lemma UpdateEpoller_more:
  assumes "UpdateEpoller c t w = Inr v"
  shows "reactor.more v = reactor.more w \<and> socks v = socks w"
  using assms AddTimerNode_more [of _ t _ v]
  by (fastforce simp: UpdateEpoller_def EpollModify_def add_timer_def Let_def split: if_split_asm option.split_asm)

lemma seperateTimer_more:
  assumes "seperateTimer h w = Inr v"
  shows "reactor.more v = reactor.more w \<and> socks v = socks w"
proof (cases "https w h")
  case (Some x)
  show ?thesis
  proof (cases "timer x")
    case None
    then show ?thesis using assms Some by (simp add: seperateTimer_def)
  next
    case (Some n)
    show ?thesis
    proof (cases "nodes w n")
      case None
      then show ?thesis using assms Some \<open>https w h = Some x\<close> by (simp add: seperateTimer_def)
    next
      case (Some t)
      then obtain u y where "ClearNode n w = Inr u" "v = put_http h (y\<lparr>timer := None\<rparr>) u"
        using assms \<open>timer x = Some n\<close> \<open>https w h = Some x\<close> by (auto simp: seperateTimer_def)
      then show ?thesis by (auto simp: ClearNode_def Let_def split: option.split_asm if_split_asm)
    qed
  qed
qed (use assms in \<open>simp add: seperateTimer_def\<close>)

lemma HandleWrite_more: "HandleWrite h w = Inr v \<Longrightarrow> reactor.more v = reactor.more w"
  by (auto simp: HandleWrite_def Let_def split: prod.split_asm if_split_asm)

lemma reset_more: "reset h w = Inr v \<Longrightarrow> reactor.more v = reactor.more w"
  using seperateTimer_more by (fastforce simp: reset_def)

lemma HandleRead_round_more:
  assumes "HandleRead_round fs h w = Inr (b, v)"
  shows "reactor.more v = reactor.more w"
proof -
  from assms obtain x where x: "https w h = Some x" by (auto simp: HandleRead_round_def)
  from assms x obtain y sk where y: "HandleRead_body fs x (sock_of w x) = Inr (y, sk)" by (auto simp: HandleRead_round_def)
  let ?w = "put_http h y (put_sock (sock_fd x) sk w)"
  show ?thesis
  proof (cases "has_error y")
    case True
    then have "HandleClose h ?w = Inr v" using assms x y by (auto simp: HandleRead_round_def Let_def)
    then show ?thesis using HandleClose_only_logs by (fastforce simp: only_logs_def)
  next
    case False
    then obtain u where u: "(if length (write_buffer y) > 0 then HandleWrite h ?w else Inr ?w) = Inr u"
      using assms x y by (auto simp: HandleRead_round_def Let_def)
    have mu: "reactor.more u = reactor.more w"
      using u HandleWrite_more [of h ?w u] by (cases "length (write_buffer y) > 0") auto
    obtain z where z: "https u h = Some z" using assms x y False u by (auto simp: HandleRead_round_def Let_def)
    show ?thesis
    proof (cases "\<not> has_error z \<and> process_state z = STATE_FINISH")
      case True
      then have "reset h u = Inr v" using assms x y False u z by (auto simp: HandleRead_round_def Let_def)
      then show ?thesis using reset_more mu by metis
    next
      case nf: False
      then show ?thesis using assms x y False u z mu
        by (auto simp: HandleRead_round_def Let_def split: if_split_asm)
    qed
  qed
qed

lemma HandleRead_more: "HandleRead fs h w = Inr v \<Longrightarrow> reactor.more v = reactor.more w"
proof (induction fs h w rule: HandleRead.induct)
  case (1 fs h w)
  then obtain b u where s: "HandleRead_round fs h w = Inr (b, u)" "(if b then HandleRead fs h u else Inr u) = Inr v"
    by (auto simp: HandleRead.simps [of fs h w])
  show ?case
  proof (cases b)
    case False
    then show ?thesis using s HandleRead_round_more by auto
  next
    case True
    then have "HandleRead fs h u = Inr v" using s by simp
    then have "reactor.more v = reactor.more u" using 1(1) [OF s(1) refl True] by simp
    then show ?thesis using HandleRead_round_more [OF s(1)] by simp
  qed
qed

lemma HandleCurrentConn_more:
  assumes "HandleCurrentConn h w = Inr v"
  shows "reactor.more v = reactor.more w \<and> socks v = socks w"
proof -
  from assms obtain u where u: "seperateTimer h w = Inr u" by (auto simp: HandleCurrentConn_def)
  from assms u obtain x where x: "https u h = Some x" by (auto simp: HandleCurrentConn_def)
  note mu = seperateTimer_more [OF u]
  let ?listen = "\<lambda>e. put_channel (channel x) (SetToListenEvents e (channels u (channel x))) u"
  have "(\<exists>t e. UpdateEpoller (channel x) t (?listen e) = Inr v) \<or> HandleClose h u = Inr v \<or> (\<exists>e. v = ?listen e) \<or> v = u"
    using assms u x by (auto simp: HandleCurrentConn_def Let_def simp del: channel_defs split: if_split_asm)
  then show ?thesis
  proof (elim disjE exE)
    fix t e assume "UpdateEpoller (channel x) t (?listen e) = Inr v"
    from UpdateEpoller_more [OF this] show ?thesis using mu by simp
  next
    assume "HandleClose h u = Inr v"
    from HandleClose_only_logs [OF this] show ?thesis using mu by (simp add: only_logs_def)
  qed (use mu in simp_all)
qed

section \<open>One iteration that serves a request\<close>

lemma HandleCurrentConn_listens:
  assumes "reactor_ok extra w" "registered w h" "https w h = Some x" "\<not> has_error x" "connectionState x = CONNECTED"
    "keep_alive x" "to_listen_events (channels w (channel x)) = 0"
  obtains v where "HandleCurrentConn h w = Inr v" "reactor_ok extra v" "registered v h"
    "sys_log v = sys_log w @ [Sys_epoll_ctl EPOLL_CTL_MOD (sock_fd x) (EPOLLIN OR EPOLLET)]"
proof -
  from HandleCurrentConn_cases [OF assms(1-3)] obtain u t where u: "reactor_ok extra u" "\<not> timed u h"
    "registered u h" "https u h = Some (x\<lparr>timer := t\<rparr>)" "channels u = channels w"
    "sys_log u = sys_log w"
    "HandleCurrentConn h w =
      (let c = channel x; ev = to_listen_events (channels w c);
           listen = (\<lambda>e. put_channel c (SetToListenEvents e (channels w c)) u) in
       if \<not> has_error x \<and> connectionState x = CONNECTED then
         if ev \<noteq> 0 then
           UpdateEpoller c (if keep_alive x then DEFAULT_KEEP_ALIVE_TIME else DEFAULT_EXPIRE_TIME)
             (listen (EPOLLOUT OR EPOLLET))
         else if keep_alive x then
           UpdateEpoller c DEFAULT_KEEP_ALIVE_TIME (listen (EPOLLIN OR EPOLLET))
         else HandleClose h u
       else if \<not> has_error x \<and> connectionState x = DISCONNECTING then
         if has_event ev EPOLLOUT then Inr (listen (EPOLLOUT OR EPOLLET)) else HandleClose h u
       else Inr u)" .
  have run: "HandleCurrentConn h w = UpdateEpoller (channel x) DEFAULT_KEEP_ALIVE_TIME
      (put_channel (channel x) (SetToListenEvents (EPOLLIN OR EPOLLET) (channels u (channel x))) u)"
    using u(5,7) assms(4-7) by (simp add: Let_def)
  from listen_update_ok [OF u(1,3,4,2) timeouts_positive(1), of "EPOLLIN OR EPOLLET"] obtain v where
    "UpdateEpoller (channel (x\<lparr>timer := t\<rparr>)) DEFAULT_KEEP_ALIVE_TIME (put_channel (channel (x\<lparr>timer := t\<rparr>))
       (SetToListenEvents (EPOLLIN OR EPOLLET) (channels u (channel (x\<lparr>timer := t\<rparr>)))) u) = Inr v"
    "reactor_ok extra v" "registered v h"
    "sys_log v = sys_log u @ [Sys_epoll_ctl EPOLL_CTL_MOD (sock_fd (x\<lparr>timer := t\<rparr>)) (EPOLLIN OR EPOLLET)]" .
  then show thesis using that [of v] run u(6) by simp
qed

text \<open>The callbacks that the server binds to the channel of a connection.\<close>

definition handlers_bound :: "nat \<Rightarrow> Http_Callback Channel \<Rightarrow> bool" where
  "handlers_bound h ch \<longleftrightarrow> read_callback ch = Some (CB_HandleRead h) \<and>
     write_callback ch = Some (CB_HandleWrite h) \<and> conn_callback ch = Some (CB_HandleCurrentConn h)"

lemma DoCallbacks_nothing:
  assumes "callback_list w = []"
  shows "DoCallbacks run w = Inr (w\<lparr>running_callbacks := False, callback_list := []\<rparr>)"
  using assms by (simp add: DoCallbacks_def Let_def)

text \<open>
  C1. A request from the poll to the answer: one iteration of the loop in which the poll reports
  input on a registered idle connection, whose socket has one well-formed GET request for a readable
  file, goes through the channel, the parser, the response and the timers without a fault. The client
  has got exactly the response, the connection was registered anew for input, no callback waits, the
  poll does not count as idle, and the invariant of the reactor holds.
\<close>

theorem loop_iteration_serves_get:
  fixes w :: "'a event_loop_scheme"
  assumes "reactor_ok (\<lambda>_. 0) w" "fd2http w fd = Some (Some h)" "https w h = Some x" "idle_conn x" "keep_alive x"
    and "handlers_bound h (channels w (channel x))" "callback_list w = []"
    and "good_request path query d t skip hs" "length rest \<le> 1"
    and "rd_script (socks w fd) = [ReadOk (get_request path query d t skip hs rest), ReadFail EAGAIN]"
    and "length (get_request path query d t skip hs rest) < 2 ^ 31"
    and "readable_file fs (c_str (uri_file path query)) bytes"
    and "resp = response (if d = CHR ''1'' then HTTP_11 else HTTP_10)
      (wants_keep_alive (store_fields Map.empty hs)) (uri_file path query) bytes"
    and "wr_script (socks w fd) = WroteOk k # ws" "length resp \<le> k"
  shows "\<exists>v calls. loop_iteration (run_callback srv fs) [(fd, EPOLLIN)] n w = Inr (n, v) \<and>
    reactor_ok (\<lambda>_. 0) v \<and> sent (socks v fd) = sent (socks w fd) @ resp \<and> callback_list v = [] \<and>
    sys_log v = sys_log w @ Sys_epoll_ctl EPOLL_CTL_MOD fd (EPOLLIN OR EPOLLET) # calls"
proof -
  let ?c = "channel x" and ?run = "run_callback srv fs :: Http_Callback \<Rightarrow> 'a event_loop_scheme \<Rightarrow> _"
  obtain x' where "https w h = Some x'" "sock_fd x' = fd" "fd2channel w fd = Some (Some (channel x'))"
    "chan_fd (channels w (channel x')) = fd" "holder (channels w (channel x')) = Some h"
    by (rule table_entry [OF assms(1,2)])
  then have x: "sock_fd x = fd" "fd2channel w fd = Some (Some ?c)" using assms(3) by auto
  let ?ch = "SetToListenEvents 0 (SetActiveEvents EPOLLIN (channels w ?c))"
  let ?w = "put_channel ?c ?ch w"
  have poll: "EpollWait [(fd, EPOLLIN)] w = ([?c], ?w)" using x(2) by (simp add: map_index_def)
  have ok: "reactor_ok (\<lambda>_. 0) ?w" by (rule reactor_ok_same [OF same_shape_put_channel assms(1)]) simp_all
  have reg: "registered ?w h" using assms(2) by (auto simp: registered_def)
  have w: "https ?w h = Some x" "sock_of ?w x = socks w fd" using assms(3) x(1) by (simp_all add: sock_of_def)
  obtain v y where v: "HandleRead fs h ?w = Inr v" "reactor_ok (\<lambda>_. 0) v" "registered v h"
    "https v h = Some y" "idle_conn y" "sock_fd y = fd" "sent (socks v fd) = sent (socks w fd) @ resp"
    "channels v = channels ?w" "sys_log v = sys_log ?w" "channel y = ?c" "keep_alive y"
    using HandleRead_get [OF ok reg w(1) assms(8,4) _ assms(11-13) _ assms(15,9)] assms(5,10,14) x(1) w(2) by metis
  have y: "\<not> has_error y" "connectionState y = CONNECTED" "to_listen_events (channels v (channel y)) = 0"
    using v(5,8,10) by (simp_all add: idle_conn_def)
  obtain u where u: "HandleCurrentConn h v = Inr u" "reactor_ok (\<lambda>_. 0) u"
    "sys_log u = sys_log v @ [Sys_epoll_ctl EPOLL_CTL_MOD fd (EPOLLIN OR EPOLLET)]"
    using HandleCurrentConn_listens [OF v(2-4) y(1,2) v(11) y(3)] v(6) by metis
  have mask: "has_event EPOLLIN (EPOLLIN OR EPOLLPRI OR EPOLLRDHUP)" by (simp add: has_event_def event_defs)
  have events: "HandleEvents ?run ?ch ?w = Inr u"
    using assms(6) v(1) u(1) mask
    by (simp add: HandleEvents_def handlers_bound_def Channel_HandleRead_def Channel_HandleConn_def call_def)
  have more: "reactor.more u = reactor.more w" "socks u = socks v"
    using HandleRead_more [OF v(1)] HandleCurrentConn_more [OF u(1)] by simp_all
  then have cbs: "callback_list u = []" using same_more [OF more(1)] assms(7) by simp
  let ?u = "u\<lparr>running_callbacks := False, callback_list := []\<rparr>"
  have "reactor_ok (\<lambda>_. 0) ?u" by (rule reactor_ok_same [OF _ u(2)]) (simp add: same_shape_def)
  then obtain z where z: "HandleExpire ?u = Inr z" "reactor_ok (\<lambda>_. 0) z" using HandleExpire_ok by blast
  from HandleExpire_only_logs [OF z(1)] obtain calls where e: "socks z = socks u" "reactor.more z = reactor.more ?u"
    "sys_log z = sys_log u @ calls" by (auto simp: only_logs_def)
  have "loop_iteration ?run [(fd, EPOLLIN)] n w = Inr (n, z)"
    using poll events DoCallbacks_nothing [OF cbs, of ?run] z(1) by (simp add: loop_iteration_def)
  moreover have "callback_list z = []" using same_more [OF e(2)] by simp
  ultimately show ?thesis using z(2) e u(3) v(7,9) more(2)
    by (intro exI [of _ z] exI [of _ calls]) simp
qed

lemma loop_iteration_serves_get_witness:
  "\<exists>w v :: event_loop. loop_iteration (run_callback no_server (one_file ''index.html'' ''hello'')) [(7, EPOLLIN)] 3 w = Inr (3, v) \<and>
     sent (socks w 7) = [] \<and> sent (socks v 7) = response HTTP_11 False ''index.html'' ''hello''"
proof -
  let ?hs = "[(''-Agent'', ''x''), (''Host'', ''y'')]"
  let ?req = "get_request [] [] (CHR ''1'') (CRLF @ ''Use'') [] ?hs []"
  let ?sk = "\<lparr>rd_script = [ReadOk ?req, ReadFail EAGAIN], wr_script = [WroteOk 1000], sent = []\<rparr>"
  let ?r = "one_conn (new_Http 0 7 True) (5, 0) ?sk"
  define w :: event_loop where "w = reactor.extend ?r (event_loop.fields True [] False 2 4 9)"
  let ?x = "(new_Http 0 7 True)\<lparr>channel := 0, sock_fd := 7, timer := Some 2\<rparr>"
  have f: "https w = https ?r" "channels w = channels ?r" "nodes w = nodes ?r" "http_rc w = http_rc ?r"
    "fd2http w = fd2http ?r" "fd2channel w = fd2channel ?r" "timer_node_queue w = timer_node_queue ?r"
    "next_id w = next_id ?r" "socks w = (\<lambda>_. ?sk)" "callback_list w = []"
    by (simp_all add: w_def reactor.defs event_loop.defs one_conn_def)
  have ok: "reactor_ok (\<lambda>_. 0) w" by (rule reactor_ok_same [OF _ one_conn_ok [of "new_Http 0 7 True" "(5, 0)" ?sk]]) (simp add: same_shape_def f)
  have x: "https w 1 = Some ?x" "fd2http w 7 = Some (Some 1)" by (simp_all add: f) (simp_all add: one_conn_def)
  have i: "idle_conn ?x" "keep_alive ?x" by (simp_all add: idle_conn_def new_Http_def)
  have b: "handlers_bound 1 (channels w (channel ?x))"
    by (simp add: f) (simp add: one_conn_def handlers_bound_def)
  have g: "good_request [] [] (CHR ''1'') (CRLF @ ''Use'') [] ?hs"
    by (simp add: good_request_def header_block_def CRLF_def CR_def LF_def)
  have len: "length ?req < 2 ^ 31"
    by (simp add: get_request_def request_line_def render_headers_def CRLF_def)
  have readable: "readable_file (one_file ''index.html'' ''hello'') (c_str (uri_file [] [])) ''hello''"
    using one_file_readable by (simp add: uri_file_def c_str_def)
  have fit: "length (response HTTP_11 False ''index.html'' ''hello'') \<le> 1000"
    by (simp add: response_def state_line_def entity_header_def CRLF_def GetResourceType_def
        resource_type_map_def to_string.simps)
  have resp: "response HTTP_11 False ''index.html'' ''hello'' = response (if CHR ''1'' = CHR ''1'' then HTTP_11 else HTTP_10)
      (wants_keep_alive (store_fields Map.empty ?hs)) (uri_file [] []) ''hello''"
    by (simp add: wants_keep_alive_def uri_file_def)
  have rd: "rd_script (socks w 7) = [ReadOk ?req, ReadFail EAGAIN]" "wr_script (socks w 7) = WroteOk 1000 # []"
    "sent (socks w 7) = []" by (simp_all add: f)
  obtain v calls where "loop_iteration (run_callback no_server (one_file ''index.html'' ''hello'')) [(7, EPOLLIN)] 3 w = Inr (3, v)"
    "sent (socks v 7) = sent (socks w 7) @ response HTTP_11 False ''index.html'' ''hello''"
    using loop_iteration_serves_get [OF ok x(2,1) i b f(10) g _ rd(1) len readable resp rd(2) fit, of no_server 3] by auto
  then show ?thesis using rd(3) by (intro exI [of _ w] exI [of _ v]) simp
qed

end
