(* ===== verification/Reactor_Frame.thy ===== *)
theory Reactor_Frame
  imports Loop_Serve
begin

text \<open>
  What the handlers of a reactor keep, whatever they are called with: no handler makes objects up
  or turns a descriptor into another, channels stay bound as they are, the tables lose at most the
  connection that is handled, and closing is counted: a connection that goes is one call of
  \<open>close\<close> on its descriptor.
\<close>

section \<open>Frames\<close>

text \<open>What a relation between states needs for a sequence of operations to stay within it.\<close>

locale frame =
  fixes R :: "'w \<Rightarrow> 'w \<Rightarrow> bool"
  assumes frame_refl: "R w w"
    and frame_trans: "R u v \<Longrightarrow> R v w \<Longrightarrow> R u w"
begin

lemma forR_frame:
  assumes "\<And>x w w'. x \<in> set xs \<Longrightarrow> f x w = Inr w' \<Longrightarrow> R w w'" and "forR f xs w = Inr w'"
  shows "R w w'"
  using forR_invariant [of xs "R w" f w w'] assms frame_refl frame_trans by blast

lemma fold_frame:
  assumes "\<And>x w. x \<in> set xs \<Longrightarrow> R w (f x w)"
  shows "R w (fold f xs w)"
  using assms
proof (induction xs arbitrary: w)
  case (Cons x xs)
  have "R w (f x w)" "R (f x w) (fold f xs (f x w))" using Cons by simp_all
  then show ?case using frame_trans by simp
qed (simp add: frame_refl)

end

text \<open>Calls of \<open>close\<close> in a log, and the live connections on a descriptor.\<close>

definition closes :: "int \<Rightarrow> syscall list \<Rightarrow> nat" where
  "closes fd log = count_list log (Sys_close fd)"

definition conns_on :: "'a reactor_scheme \<Rightarrow> int \<Rightarrow> nat set" where
  "conns_on w fd = {h. \<exists>x. https w h = Some x \<and> sock_fd x = fd}"

definition balance :: "'a reactor_scheme \<Rightarrow> int \<Rightarrow> nat" where
  "balance w fd = card (conns_on w fd) + closes fd (sys_log w)"

definition bindings :: "'cb Channel \<Rightarrow> int \<times> 'cb option \<times> 'cb option \<times> 'cb option \<times> 'cb option" where
  "bindings ch = (chan_fd ch, read_callback ch, write_callback ch, error_callback ch, conn_callback ch)"

definition objects_kept :: "'a reactor_scheme \<Rightarrow> 'a reactor_scheme \<Rightarrow> bool" where
  "objects_kept w v \<longleftrightarrow> next_id w \<le> next_id v \<and>
     (\<forall>h y. https v h = Some y \<longrightarrow>
        (\<exists>x. https w h = Some x \<and> channel y = channel x \<and> sock_fd y = sock_fd x)) \<and>
     (\<forall>c. bindings (channels v c) = bindings (channels w c)) \<and>
     (finite (dom (https w)) \<longrightarrow> (\<forall>fd. balance v fd = balance w fd))"

definition tables_kept :: "nat set \<Rightarrow> 'a reactor_scheme \<Rightarrow> 'a reactor_scheme \<Rightarrow> bool" where
  "tables_kept H w v \<longleftrightarrow>
     (\<forall>c. holder (channels v c) = holder (channels w c) \<and>
          active_events (channels v c) = active_events (channels w c)) \<and>
     (\<forall>fd. fd2http v fd = fd2http w fd \<and> fd2channel v fd = fd2channel w fd \<or>
        fd2http v fd = None \<and> fd2channel v fd = None \<and> (\<exists>h \<in> H. fd2http w fd = Some (Some h)))"

definition kept :: "nat set \<Rightarrow> 'a reactor_scheme \<Rightarrow> 'a reactor_scheme \<Rightarrow> bool" where
  "kept H w v \<longleftrightarrow> objects_kept w v \<and> tables_kept H w v \<and> reactor.more v = reactor.more w"

lemma objects_keptD:
  assumes "objects_kept w v"
  shows "next_id w \<le> next_id v"
    "https v h = Some y \<Longrightarrow> \<exists>x. https w h = Some x \<and> channel y = channel x \<and> sock_fd y = sock_fd x"
    "bindings (channels v c) = bindings (channels w c)"
    "finite (dom (https w)) \<Longrightarrow> balance v fd = balance w fd"
  using assms by (simp_all add: objects_kept_def)

lemma objects_kept_dom: "objects_kept w v \<Longrightarrow> dom (https v) \<subseteq> dom (https w)"
  using objects_keptD(2) by (fastforce simp: dom_def)

interpretation objects: frame objects_kept
proof
  show "objects_kept w w" for w :: "'a reactor_scheme" by (simp add: objects_kept_def)
next
  fix u v w :: "'a reactor_scheme"
  assume a: "objects_kept u v" "objects_kept v w"
  have "finite (dom (https u)) \<Longrightarrow> finite (dom (https v))"
    using objects_kept_dom [OF a(1)] finite_subset by blast
  then show "objects_kept u w"
    using a objects_keptD [OF a(1)] objects_keptD [OF a(2)] unfolding objects_kept_def
    by (intro conjI allI impI) (auto, metis)
qed

lemma tables_keptD:
  assumes "tables_kept H w v"
  shows "holder (channels v c) = holder (channels w c)"
    "active_events (channels v c) = active_events (channels w c)"
    "fd2http v fd = fd2http w fd \<and> fd2channel v fd = fd2channel w fd \<or>
       fd2http v fd = None \<and> fd2channel v fd = None \<and> (\<exists>h \<in> H. fd2http w fd = Some (Some h))"
  using assms by (simp_all add: tables_kept_def)

interpretation tables: frame "tables_kept H" for H
proof
  show "tables_kept H w w" for w :: "'a reactor_scheme" by (simp add: tables_kept_def)
next
  fix u v w :: "'a reactor_scheme"
  assume a: "tables_kept H u v" "tables_kept H v w"
  show "tables_kept H u w" unfolding tables_kept_def
  proof (intro conjI allI)
    fix fd
    show "fd2http w fd = fd2http u fd \<and> fd2channel w fd = fd2channel u fd \<or>
      fd2http w fd = None \<and> fd2channel w fd = None \<and> (\<exists>h \<in> H. fd2http u fd = Some (Some h))"
      using tables_keptD(3) [OF a(1), of fd] tables_keptD(3) [OF a(2), of fd] by metis
  qed (simp_all add: tables_keptD(1,2) [OF a(1)] tables_keptD(1,2) [OF a(2)])
qed

interpretation kept: frame "kept H" for H
  by unfold_locales (auto simp: kept_def intro: objects.frame_refl tables.frame_refl
      objects.frame_trans tables.frame_trans)

interpretation logs: frame only_logs
  by unfold_locales (auto intro: only_logs_trans)

lemma tables_kept_mono: "tables_kept H w v \<Longrightarrow> H \<subseteq> K \<Longrightarrow> tables_kept K w v"
  unfolding tables_kept_def by blast

lemma kept_mono: "kept H w v \<Longrightarrow> H \<subseteq> K \<Longrightarrow> kept K w v"
  using tables_kept_mono by (auto simp: kept_def)

lemma keptD:
  assumes "kept H w v"
  shows "objects_kept w v" "tables_kept H w v" "reactor.more v = reactor.more w"
  using assms by (simp_all add: kept_def)

section \<open>The heap operations\<close>

text \<open>Changes nobody looks at.\<close>

lemma keptI_quiet:
  assumes "next_id w \<le> next_id v" "https v = https w" "sys_log v = sys_log w" "fd2http v = fd2http w"
    "fd2channel v = fd2channel w" "channels v = channels w" "reactor.more v = reactor.more w"
  shows "kept H w v"
  using assms by (simp add: kept_def objects_kept_def tables_kept_def balance_def conns_on_def)

lemma kept_put_http:
  assumes "https w h = Some x" "channel y = channel x" "sock_fd y = sock_fd x"
  shows "kept H w (put_http h y w)"
proof -
  have "conns_on (put_http h y w) fd = conns_on w fd" for fd
    using assms by (auto simp: conns_on_def)
  then show ?thesis using assms by (simp add: kept_def objects_kept_def tables_kept_def balance_def)
qed

lemma kept_listen: "kept H w (put_channel c (SetToListenEvents e (channels w c)) w)"
  by (simp add: kept_def objects_kept_def tables_kept_def balance_def conns_on_def bindings_def)

lemma kept_put_sock: "kept H w (put_sock fd sk w)"
  by (rule keptI_quiet) simp_all

lemma kept_epoll_ctl: "kept H w (log_call (Sys_epoll_ctl op fd ev) w)"
  by (simp add: kept_def objects_kept_def tables_kept_def balance_def conns_on_def closes_def)

lemma kept_retain: "kept H w (retain h w)"
  by (rule keptI_quiet) simp_all

text \<open>The last reference to a connection turns a live connection into a call of \<open>close\<close>.\<close>

lemma balance_release:
  assumes "finite (dom (https w))"
  shows "balance (release h w) fd = balance w fd"
proof (cases "http_rc w h \<le> 1 \<and> https w h \<noteq> None")
  case False
  then have "https (release h w) = https w" "sys_log (release h w) = sys_log w"
    by (auto simp: fun_eq_iff split: option.split)
  then show ?thesis by (simp add: balance_def conns_on_def)
next
  case True
  then obtain x where x: "https w h = Some x" "http_rc w h \<le> 1" by auto
  have after: "conns_on (release h w) fd = conns_on w fd - {h}" using x by (auto simp: conns_on_def)
  have "conns_on w fd \<subseteq> dom (https w)" by (auto simp: conns_on_def)
  then have fin: "finite (conns_on w fd)" using assms finite_subset by blast
  have log: "sys_log (release h w) = sys_log w @ [Sys_close (sock_fd x)]" using x by simp
  show ?thesis
  proof (cases "sock_fd x = fd")
    case True
    then have "h \<in> conns_on w fd" using x by (simp add: conns_on_def)
    then have "card (conns_on w fd) = card (conns_on w fd - {h}) + 1" "sys_log (release h w) = sys_log w @ [Sys_close fd]"
      using card.remove [OF fin] log True by simp_all
    then show ?thesis unfolding balance_def after closes_def by (simp only: count_list_append count_list.simps) simp
  next
    case False
    then have "h \<notin> conns_on w fd" using x by (simp add: conns_on_def)
    then have "conns_on w fd - {h} = conns_on w fd" by simp
    then show ?thesis unfolding balance_def after log using False by (simp add: closes_def)
  qed
qed

lemma kept_release: "kept H w (release h w)"
proof -
  have "\<exists>x. https w h' = Some x \<and> channel y = channel x \<and> sock_fd y = sock_fd x"
    if "https (release h w) h' = Some y" for h' y
    using that by (auto split: if_split_asm)
  then show ?thesis
    unfolding kept_def objects_kept_def tables_kept_def using balance_release [of w h] by (auto simp del: release_sel(1))
qed

text \<open>Taking the entry of a connection out of the tables.\<close>

lemma kept_erase:
  assumes "fd2http w fd = Some (Some h)" "h \<in> H"
  shows "kept H w (w\<lparr>fd2channel := (fd2channel w)(fd := None), fd2http := (fd2http w)(fd := None)\<rparr>)"
  using assms by (auto simp: kept_def objects_kept_def tables_kept_def balance_def conns_on_def)

section \<open>The operations on connections\<close>

lemma HandleClose_form:
  assumes ok: "reactor_ok extra w" and r: "registered w h" and c: "HandleClose h w = Inr v"
  obtains x u where "https w h = Some x" "kept {h} w u" "v = release h u"
    "fd2http u = (fd2http w)(sock_fd x := None)" "https u = (https w)(h \<mapsto> x\<lparr>connectionState := DISCONNECTED\<rparr>)"
    "nodes u = nodes w" "channels u = channels w" "socks u = socks w" "clock u = clock w"
proof -
  from registered_alive [OF ok r] obtain x where x: "https w h = Some x" by blast
  note f = holder_registered [OF ok r x]
  let ?w1 = "put_http h (x\<lparr>connectionState := DISCONNECTED\<rparr>) w"
  let ?w2 = "log_call (Sys_epoll_ctl EPOLL_CTL_DEL (sock_fd x) (to_listen_events (channels w (channel x)))) ?w1"
  let ?u = "?w2\<lparr>fd2channel := (fd2channel ?w2)(sock_fd x := None), fd2http := (fd2http ?w2)(sock_fd x := None)\<rparr>"
  have "v = release h ?u"
    using c x f by (simp add: HandleClose_def RemoveFromEpoller_def EpollDel_eq Let_def)
  moreover have "kept {h} ?w2 ?u" by (rule kept_erase [of ?w2 "sock_fd x" h]) (use f in simp_all)
  moreover have "kept {h} w ?w1" by (rule kept_put_http [OF x]) simp_all
  ultimately have "kept {h} w ?u" "v = release h ?u" using kept.frame_trans kept_epoll_ctl by blast+
  then show thesis using that [OF x] by simp
qed

lemma HandleClose_kept:
  assumes "reactor_ok extra w" "registered w h" "HandleClose h w = Inr v"
  shows "kept {h} w v" "\<not> registered v h"
proof -
  obtain x u where u: "https w h = Some x" "kept {h} w u" "v = release h u"
    "fd2http u = (fd2http w)(sock_fd x := None)" by (rule HandleClose_form [OF assms])
  show "kept {h} w v" unfolding u(3) by (rule kept.frame_trans [OF u(2) kept_release])
  have "fd2http w (sock_fd x) = Some (Some h)" by (rule holder_registered(3) [OF assms(1,2) u(1)])
  then show "\<not> registered v h"
    using registered_same_fd [OF assms(1)] by (auto simp: registered_def u(3,4))
qed

lemma AddTimerNode_kept:
  assumes "AddTimerNode h timeout w = Inr v"
  shows "kept H w v"
proof -
  let ?n = "next_id w" and ?t = "\<lparr>is_deleted = False, expire_time = deadline (clock w (clock_reads w)) timeout,
    node_data = Some h\<rparr>"
  let ?u = "retain h (w\<lparr>clock_reads := Suc (clock_reads w), next_id := Suc ?n, nodes := (nodes w)(?n \<mapsto> ?t),
    timer_node_queue := insort_key (node_key ((nodes w)(?n \<mapsto> ?t))) ?n (timer_node_queue w)\<rparr>)"
  obtain x where x: "https w h = Some x" "v = put_http h (LinkTimer ?n x) ?u"
    using assms
    by (auto simp: AddTimerNode_def new_TimerNode_def gettimeofday_def Let_def with_http_def retain_def
        put_http_def split: option.split_asm)
  have "kept H w ?u" by (rule keptI_quiet) simp_all
  moreover have "kept H ?u v" unfolding x(2) by (rule kept_put_http [of _ _ x]) (use x in \<open>simp_all add: LinkTimer_def\<close>)
  ultimately show ?thesis by (rule kept.frame_trans)
qed

lemma UpdateEpoller_kept:
  assumes "UpdateEpoller c timeout w = Inr v"
  shows "kept H w v"
proof -
  let ?w1 = "log_call (Sys_epoll_ctl EPOLL_CTL_MOD (chan_fd (channels w c)) (to_listen_events (channels w c))) w"
  have "v = ?w1 \<or> (\<exists>h. AddTimerNode h timeout ?w1 = Inr v)"
    using assms by (auto simp: UpdateEpoller_def EpollModify_def add_timer_def Let_def split: if_split_asm option.split_asm)
  then show ?thesis using kept.frame_trans [OF kept_epoll_ctl AddTimerNode_kept] kept_epoll_ctl by auto
qed

lemma ClearNode_kept:
  assumes "ClearNode n w = Inr v"
  shows "kept H w v"
proof -
  obtain u h where u: "kept H w u" "v = u \<or> v = release h u"
  proof -
    from assms obtain t where t: "nodes w n = Some t" by (auto simp: ClearNode_def split: option.split_asm)
    let ?u = "w\<lparr>nodes := (nodes w)(n \<mapsto> SetDeleted (t\<lparr>node_data := None\<rparr>))\<rparr>"
    have "kept H w ?u" by (rule keptI_quiet) simp_all
    moreover have "v = ?u \<or> (\<exists>h. v = release h ?u)"
      using assms t by (auto simp: ClearNode_def Let_def split: option.split_asm)
    ultimately show thesis using that by blast
  qed
  then show ?thesis using kept.frame_trans [OF u(1) kept_release] by blast
qed

lemma seperateTimer_kept:
  assumes "seperateTimer h w = Inr v"
  shows "kept H w v"
proof -
  have "v = w \<or> (\<exists>n u y. ClearNode n w = Inr u \<and> https u h = Some y \<and> v = put_http h (y\<lparr>timer := None\<rparr>) u)"
    using assms by (auto simp: seperateTimer_def split: option.split_asm if_split_asm) blast
  then show ?thesis
  proof (elim disjE exE conjE)
    fix n u y assume u: "ClearNode n w = Inr u" "https u h = Some y" "v = put_http h (y\<lparr>timer := None\<rparr>) u"
    have "kept H u v" unfolding u(3) by (rule kept_put_http [OF u(2)]) simp_all
    then show "kept H w v" by (rule kept.frame_trans [OF ClearNode_kept [OF u(1)]])
  qed (simp add: kept.frame_refl)
qed

lemma HandleWrite_kept:
  assumes "HandleWrite h w = Inr v"
  shows "kept H w v"
proof -
  have put: "kept H w (put_http h (x\<lparr>write_buffer := b\<rparr>) (put_sock fd sk w))" if "https w h = Some x" for x b fd sk
    by (rule kept.frame_trans [OF kept_put_sock kept_put_http]) (use that in simp_all)
  have "v = w \<or> (\<exists>x b fd sk. https w h = Some x \<and> (v = put_http h (x\<lparr>write_buffer := b\<rparr>) (put_sock fd sk w) \<or>
      (\<exists>c e. v = put_channel c (SetToListenEvents e (channels w c)) (put_http h (x\<lparr>write_buffer := b\<rparr>) (put_sock fd sk w)))))"
    using assms by (auto simp: HandleWrite_def Let_def chan_of_def split: prod.split_asm if_split_asm) metis+
  then show ?thesis
  proof (elim disjE exE conjE)
    fix x b fd sk c e assume x: "https w h = Some x"
      and v: "v = put_channel c (SetToListenEvents e (channels w c)) (put_http h (x\<lparr>write_buffer := b\<rparr>) (put_sock fd sk w))"
    let ?u = "put_http h (x\<lparr>write_buffer := b\<rparr>) (put_sock fd sk w)"
    have "kept H ?u v" using kept_listen [of H ?u c e] v by simp
    then show ?thesis by (rule kept.frame_trans [OF put [OF x]])
  qed (use put in \<open>simp_all add: kept.frame_refl\<close>)
qed

lemma reset_kept:
  assumes "reset h w = Inr v"
  shows "kept H w v"
proof -
  from assms obtain x where x: "https w h = Some x" by (auto simp: reset_def)
  let ?u = "put_http h (x\<lparr>file_path := [], process_state := STATE_PARSE_URI, header_line_state := H_START,
    header_kv := Map.empty\<rparr>) w"
  have "kept H w ?u" by (rule kept_put_http [OF x]) simp_all
  moreover have "seperateTimer h ?u = Inr v" using assms x by (simp add: reset_def)
  ultimately show ?thesis using kept.frame_trans seperateTimer_kept by blast
qed

section \<open>Reading\<close>

text \<open>
  How a call of \<open>HandleRead\<close> on a registered connection that meets no fault may end: the connection
  is still registered, or its last act was to close it.
\<close>

definition closed_in :: "(nat \<Rightarrow> nat) \<Rightarrow> nat \<Rightarrow> 'a reactor_scheme \<Rightarrow> bool" where
  "closed_in extra h v \<longleftrightarrow> (\<exists>u. reactor_ok extra u \<and> registered u h \<and> HandleClose h u = Inr v)"

lemma registered_same_table: "fd2http v = fd2http w \<Longrightarrow> registered v = registered w"
  by (simp add: registered_def fun_eq_iff)

lemma HandleWrite_ok:
  assumes "reactor_ok extra w" "HandleWrite h w = Inr v"
  shows "reactor_ok extra v" "registered v = registered w"
proof -
  have put: "same_shape w (put_http h (x\<lparr>write_buffer := b\<rparr>) (put_sock fd sk w))" if "https w h = Some x" for x b fd sk
    by (rule same_shape_trans [OF same_shape_quiet(2) same_shape_put_http]) (use that in simp_all)
  have "v = w \<or> (\<exists>x b fd sk. https w h = Some x \<and> (v = put_http h (x\<lparr>write_buffer := b\<rparr>) (put_sock fd sk w) \<or>
      (\<exists>c e. v = put_channel c (SetToListenEvents e (channels w c)) (put_http h (x\<lparr>write_buffer := b\<rparr>) (put_sock fd sk w)))))"
    using assms(2) by (auto simp: HandleWrite_def Let_def chan_of_def split: prod.split_asm if_split_asm) metis+
  then have "same_shape w v"
  proof (elim disjE exE conjE)
    fix x b fd sk c e assume x: "https w h = Some x"
      and v: "v = put_channel c (SetToListenEvents e (channels w c)) (put_http h (x\<lparr>write_buffer := b\<rparr>) (put_sock fd sk w))"
    show "same_shape w v" unfolding v by (rule same_shape_trans [OF put [OF x] same_shape_put_channel]) simp_all
  qed (use put in simp_all)
  then show "reactor_ok extra v" "registered v = registered w"
    using reactor_ok_same [OF _ assms(1)] registered_same_table by (auto simp: same_shape_def)
qed

lemma HandleRead_round_ok:
  assumes ok: "reactor_ok extra w" and r: "registered w h" and run: "HandleRead_round fs h w = Inr (b, v)"
  shows "kept {h} w v" "reactor_ok extra v \<and> registered v h \<or> \<not> b \<and> closed_in extra h v"
proof -
  from run obtain x where x: "https w h = Some x" by (auto simp: HandleRead_round_def)
  from run x obtain y sk where y: "HandleRead_body fs x (sock_of w x) = Inr (y, sk)" by (auto simp: HandleRead_round_def)
  note b = HandleRead_body_frame [OF y]
  let ?w = "put_http h y (put_sock (sock_fd x) sk w)"
  have k: "kept {h} w ?w"
    by (rule kept.frame_trans [OF kept_put_sock kept_put_http [of _ _ x]]) (use x b in simp_all)
  have "same_shape w ?w"
    by (rule same_shape_trans [OF same_shape_quiet(2) same_shape_put_http [of _ _ x]]) (use x b in simp_all)
  then have okw: "reactor_ok extra ?w" by (rule reactor_ok_same) (rule ok)
  have rw: "registered ?w h" using r by (simp add: registered_def)
  have "kept {h} w v \<and> (reactor_ok extra v \<and> registered v h \<or> \<not> b \<and> closed_in extra h v)"
  proof (cases "has_error y")
    case True
    then have c: "HandleClose h ?w = Inr v" "\<not> b" using run x y by (auto simp: HandleRead_round_def Let_def)
    from kept.frame_trans [OF k HandleClose_kept(1) [OF okw rw c(1)]] c okw rw
    show ?thesis by (auto simp: closed_in_def)
  next
    case False
    then obtain u where u: "(if length (write_buffer y) > 0 then HandleWrite h ?w else Inr ?w) = Inr u"
      using run x y by (auto simp: HandleRead_round_def Let_def)
    have ku: "kept {h} w u" and oku: "reactor_ok extra u" and ru: "registered u h"
      using u k okw rw kept.frame_trans [OF k HandleWrite_kept] HandleWrite_ok [OF okw]
      by (cases "length (write_buffer y) > 0"; simp)+
    obtain z where z: "https u h = Some z" using run x y False u by (auto simp: HandleRead_round_def Let_def)
    show ?thesis
    proof (cases "\<not> has_error z \<and> process_state z = STATE_FINISH")
      case True
      then have rs: "reset h u = Inr v" using run x y False u z by (auto simp: HandleRead_round_def Let_def)
      from reset_ok [OF oku z ru] rs have "reactor_ok extra v" "registered v h" by auto
      then show ?thesis using kept.frame_trans [OF ku reset_kept [OF rs]] by blast
    next
      case nf: False
      then have "v = u \<or> (\<exists>e. v = put_channel (channel z) (SetToListenEvents e (channels u (channel z))) u)"
        using run x y False u z by (auto simp: HandleRead_round_def Let_def chan_of_def split: if_split_asm)
      then show ?thesis
      proof (elim disjE exE)
        fix e assume v: "v = put_channel (channel z) (SetToListenEvents e (channels u (channel z))) u"
        have "reactor_ok extra v" unfolding v by (rule listen_ok [OF oku])
        moreover have "registered v h" using ru by (simp add: v registered_def)
        moreover have "kept {h} w v" unfolding v by (rule kept.frame_trans [OF ku kept_listen])
        ultimately show ?thesis by blast
      qed (use ku oku ru in simp)
    qed
  qed
  then show "kept {h} w v" "reactor_ok extra v \<and> registered v h \<or> \<not> b \<and> closed_in extra h v" by blast+
qed

lemma HandleRead_ok:
  assumes "reactor_ok extra w" "registered w h" "HandleRead fs h w = Inr v"
  shows "kept {h} w v \<and> (reactor_ok extra v \<and> registered v h \<or> closed_in extra h v)"
  using assms
proof (induction fs h w rule: HandleRead.induct)
  case (1 fs h w)
  then obtain b u where s: "HandleRead_round fs h w = Inr (b, u)" "(if b then HandleRead fs h u else Inr u) = Inr v"
    by (auto simp: HandleRead.simps [of fs h w])
  note o = HandleRead_round_ok [OF 1(2,3) s(1)]
  show ?case
  proof (cases b)
    case False
    then show ?thesis using s o by simp
  next
    case True
    then have "HandleRead fs h u = Inr v" "reactor_ok extra u" "registered u h" using s o(2) by simp_all
    then show ?thesis using 1(1) [OF s(1) refl True] kept.frame_trans [OF o(1)] by blast
  qed
qed

text \<open>
  When nothing else holds it, a connection that was closed is destroyed, or the timer holds the last
  reference to it: the connection callback, which runs next, then uses an object that is gone.
\<close>

lemma HandleClose_untimed_gone:
  assumes "reactor_ok extra u" "registered u h" "\<not> timed u h" "extra h = 0" "HandleClose h u = Inr v"
  shows "https v h = None"
proof -
  obtain v' where "HandleClose h u = Inr v'" "https v' h \<noteq> None \<longleftrightarrow> 0 < extra h"
    by (rule HandleClose_ok [OF assms(1-3)])
  then show ?thesis using assms(4,5) by simp
qed

lemma closed_then_conn_faults:
  assumes "closed_in extra h v" "extra h = 0"
  shows "HandleCurrentConn h v = Inl UseAfterFree" "\<not> registered v h"
proof -
  from assms(1) obtain u where u: "reactor_ok extra u" "registered u h" "HandleClose h u = Inr v"
    by (auto simp: closed_in_def)
  show "\<not> registered v h" by (rule HandleClose_kept(2) [OF u])
  have "seperateTimer h v = Inl UseAfterFree"
  proof (cases "timed u h")
    case True
    from HandleClose_timed [OF u(1,2) True assms(2)] u(3) show ?thesis by auto
  next
    case False
    from HandleClose_untimed_gone [OF u(1,2) False assms(2) u(3)] show ?thesis by (simp add: seperateTimer_def)
  qed
  then show "HandleCurrentConn h v = Inl UseAfterFree" by (simp add: HandleCurrentConn_def)
qed

section \<open>The connection callback and the timers\<close>

lemma HandleCurrentConn_kept:
  assumes ok: "reactor_ok extra w" and r: "registered w h" and run: "HandleCurrentConn h w = Inr v"
  shows "kept {h} w v"
proof -
  from registered_alive [OF ok r] obtain y where y: "https w h = Some y" by blast
  from r have "registered w h \<or> 0 < extra h" ..
  from seperateTimer_ok [OF ok y this] obtain u t where u: "seperateTimer h w = Inr u" "reactor_ok extra u"
    "https u h = Some (y\<lparr>timer := t\<rparr>)" "registered u = registered w" .
  note k = seperateTimer_kept [OF u(1), of "{h}"]
  let ?x = "y\<lparr>timer := t\<rparr>"
  let ?listen = "\<lambda>e. put_channel (channel ?x) (SetToListenEvents e (channels u (channel ?x))) u"
  have "(\<exists>t e. UpdateEpoller (channel ?x) t (?listen e) = Inr v) \<or> HandleClose h u = Inr v \<or> (\<exists>e. v = ?listen e) \<or> v = u"
    using run u by (auto simp: HandleCurrentConn_def Let_def simp del: channel_defs split: if_split_asm)
  then show ?thesis
  proof (elim disjE exE)
    fix s e assume "UpdateEpoller (channel ?x) s (?listen e) = Inr v"
    then show ?thesis using kept.frame_trans [OF k kept.frame_trans [OF kept_listen UpdateEpoller_kept]] by blast
  next
    assume "HandleClose h u = Inr v"
    then show ?thesis using kept.frame_trans [OF k HandleClose_kept(1) [OF u(2)]] r u(4) by simp
  next
    fix e assume "v = ?listen e"
    then show ?thesis using kept.frame_trans [OF k kept_listen] by simp
  qed (use k in simp)
qed

lemma destroy_TimerNode_kept:
  assumes ok: "reactor_ok extra w"
    and q: "n \<in> set (timer_node_queue w)" "q = remove1 n (timer_node_queue w)"
    and run: "destroy_TimerNode n (w\<lparr>timer_node_queue := q\<rparr>) = Inr v"
  shows "kept UNIV w v"
proof -
  let ?u = "w\<lparr>timer_node_queue := q, nodes := (nodes w)(n := None)\<rparr>"
  from run obtain t where t: "nodes w n = Some t" by (auto simp: destroy_TimerNode_def split: option.split_asm)
  have ku: "kept UNIV w ?u" by (rule keptI_quiet) simp_all
  show ?thesis
  proof (cases "node_data t")
    case None
    then have "v = ?u" using run t by (simp add: destroy_TimerNode_def)
    then show ?thesis using ku by simp
  next
    case (Some h)
    then obtain z where z: "HandleClose h ?u = Inr z" "v = release h z" using run t by (auto simp: destroy_TimerNode_def)
    note p = reactor_ok_pop [OF ok q t Some]
    have "timed w h" using t Some by (auto simp: timed_def)
    with reactor_okD(2) [OF ok] have "registered w h" by (auto simp: timers_ok_def timed_def)
    with p(3) have "registered ?u h" by simp
    from HandleClose_kept(1) [OF p(1) this z(1)] have "kept UNIV ?u z" by (rule kept_mono) simp
    then show ?thesis unfolding z(2) by (rule kept.frame_trans [OF ku kept.frame_trans [OF _ kept_release]])
  qed
qed

lemma IsExpired_ok:
  assumes ok: "reactor_ok extra w" and run: "IsExpired n w = Inr (e, u)"
  shows "kept H w u" "reactor_ok extra u" "timer_node_queue u = timer_node_queue w"
proof -
  from run obtain t where t: "nodes w n = Some t" by (auto simp: IsExpired_def split: option.split_asm)
  let ?c = "w\<lparr>clock_reads := Suc (clock_reads w)\<rparr>"
  have u: "u = ?c \<or> u = ?c\<lparr>nodes := (nodes ?c)(n \<mapsto> SetDeleted t)\<rparr>"
    using run t by (auto simp: IsExpired_def gettimeofday_def Let_def split: if_split_asm)
  then show "kept H w u" by (elim disjE) (simp_all add: keptI_quiet)
  have okc: "reactor_ok extra ?c" by (rule reactor_ok_same [OF same_shape_quiet(3) ok])
  moreover have "reactor_ok extra (?c\<lparr>nodes := (nodes ?c)(n \<mapsto> SetDeleted t)\<rparr>)"
    by (rule reactor_ok_flag [OF okc]) (use t in \<open>simp_all add: SetDeleted_def\<close>)
  ultimately show "reactor_ok extra u" using u by auto
  show "timer_node_queue u = timer_node_queue w" using u by auto
qed

lemma expire_step_kept:
  assumes ok: "reactor_ok extra w" and q: "timer_node_queue w = n # q" and run: "expire_step n w = Inr (b, v)"
  shows "kept UNIV w v"
proof -
  obtain e u where e: "IsExpired n w = Inr (e, u)" using run by (auto simp: expire_step_def)
  note i = IsExpired_ok [OF ok e]
  obtain d where d: "(if e then Inr True else IsDeleted n u) = Inr d" using run e by (auto simp: expire_step_def)
  show ?thesis
  proof (cases d)
    case False
    then show ?thesis using run e d i(1) by (auto simp: expire_step_def split: if_split_asm)
  next
    case True
    then have v: "destroy_TimerNode n (u\<lparr>timer_node_queue := q\<rparr>) = Inr v"
      using run e d i(3) q by (auto simp: expire_step_def split: if_split_asm)
    have "n \<in> set (timer_node_queue u)" "q = remove1 n (timer_node_queue u)" using i(3) q by simp_all
    from kept.frame_trans [OF i(1) destroy_TimerNode_kept [OF i(2) this v]] show ?thesis .
  qed
qed

lemma HandleExpire_kept:
  assumes "reactor_ok extra w" "HandleExpire w = Inr v"
  shows "kept UNIV w v"
  using assms
proof (induction w rule: HandleExpire.induct)
  case (1 w)
  show ?case
  proof (cases "timer_node_queue w")
    case Nil
    then show ?thesis using 1(3) by (simp add: HandleExpire.simps [of w] kept.frame_refl)
  next
    case (Cons n q)
    from expire_step_ok [OF 1(2) Cons] obtain b u where s: "expire_step n w = Inr (b, u)" "reactor_ok extra u" .
    then have run: "(if b then HandleExpire u else Inr u) = Inr v" using 1(3) Cons by (simp add: HandleExpire.simps [of w])
    note k = expire_step_kept [OF 1(2) Cons s(1)]
    show ?thesis
    proof (cases b)
      case False
      then show ?thesis using run k by simp
    next
      case True
      then have "HandleExpire u = Inr v" using run by simp
      from kept.frame_trans [OF k 1(1) [OF Cons s(1) refl True s(2) this]] show ?thesis .
    qed
  qed
qed

end
