(* ===== verification/Loop_Deliver.thy ===== *)
theory Loop_Deliver
  imports Reactor_Frame "HOL-Library.Sublist"
begin

text \<open>
  A response that the socket takes in pieces: the loop keeps asking for output, each output event
  sends what the socket takes, and the timer of the connection is renewed each time, so the
  connection outlives the expiry of timers in between.
\<close>

section \<open>Expiry spares connections with time left\<close>

definition spared :: "nat \<Rightarrow> 'a reactor_scheme \<Rightarrow> 'a reactor_scheme \<Rightarrow> bool" where
  "spared h w v \<longleftrightarrow> https v h = https w h \<and> channels v = channels w \<and> socks v = socks w \<and> clock v = clock w \<and>
     (\<forall>fd. fd2http w fd = Some (Some h) \<longrightarrow> fd2http v fd = Some (Some h)) \<and>
     (\<forall>n t. nodes w n = Some t \<and> node_data t = Some h \<longrightarrow> nodes v n = Some t)"

interpretation spared: frame "spared h" for h
  by unfold_locales (auto simp: spared_def)

text \<open>
  The timer of a connection lies beyond the next \<open>k\<close> readings of the clock. Expiring a node reads
  the clock once, so as many readings as there are nodes in the queue are enough for one expiry.
\<close>

definition time_left :: "nat \<Rightarrow> 'a reactor_scheme \<Rightarrow> nat \<Rightarrow> bool" where
  "time_left k w h \<longleftrightarrow> (\<exists>n t. nodes w n = Some t \<and> node_data t = Some h \<and> \<not> is_deleted t \<and>
     (\<forall>i < k. wrapped_ms (clock w (clock_reads w + i)) < expire_time t))"

lemma time_left_spared:
  assumes "time_left (Suc k) w h" "spared h w v" "clock_reads v = Suc (clock_reads w)"
  shows "time_left k v h"
proof -
  from assms(1) obtain n t where t: "nodes w n = Some t" "node_data t = Some h" "\<not> is_deleted t"
    "\<And>i. i < Suc k \<Longrightarrow> wrapped_ms (clock w (clock_reads w + i)) < expire_time t" by (auto simp: time_left_def)
  have "nodes v n = Some t" "clock v = clock w" using assms(2) t(1,2) by (auto simp: spared_def)
  moreover have "wrapped_ms (clock w (clock_reads v + i)) < expire_time t" if "i < k" for i
    using t(4) [of "Suc i"] that assms(3) by simp
  ultimately show ?thesis using t(2,3) by (auto simp: time_left_def)
qed

lemma time_left_mono: "time_left k w h \<Longrightarrow> j \<le> k \<Longrightarrow> time_left j w h"
  by (meson order_less_le_trans time_left_def)

lemma destroy_TimerNode_spares:
  assumes ok: "reactor_ok extra w" and q: "timer_node_queue w = n # q" and t: "nodes w n = Some t"
    and other: "node_data t \<noteq> Some h" and run: "destroy_TimerNode n (w\<lparr>timer_node_queue := q\<rparr>) = Inr v"
  shows "spared h w v"
proof -
  let ?u = "w\<lparr>timer_node_queue := q, nodes := (nodes w)(n := None)\<rparr>"
  have u: "spared h w ?u" using t other by (auto simp: spared_def)
  show ?thesis
  proof (cases "node_data t")
    case None
    then have "v = ?u" using run t by (simp add: destroy_TimerNode_def)
    then show ?thesis using u by simp
  next
    case (Some h')
    then have "h' \<noteq> h" using other by auto
    from Some obtain z where z: "HandleClose h' ?u = Inr z" "v = release h' z" using run t by (auto simp: destroy_TimerNode_def)
    have "n \<in> set (timer_node_queue w)" "q = remove1 n (timer_node_queue w)" using q by simp_all
    note p = reactor_ok_pop [OF ok this t Some]
    have "timed w h'" using t Some by (auto simp: timed_def)
    with reactor_okD(2) [OF ok] have "registered w h'" by (auto simp: timers_ok_def timed_def)
    with p(3) have r: "registered ?u h'" by simp
    obtain x y where y: "https ?u h' = Some x" "z = release h' y" "fd2http y = (fd2http ?u)(sock_fd x := None)"
      "https y = (https ?u)(h' \<mapsto> x\<lparr>connectionState := DISCONNECTED\<rparr>)" "nodes y = nodes ?u" "channels y = channels ?u"
      "socks y = socks ?u" "clock y = clock ?u"
      by (rule HandleClose_form [OF p(1) r z(1)])
    have "fd2http ?u (sock_fd x) = Some (Some h')" by (rule holder_registered(3) [OF p(1) r y(1)])
    then have "spared h ?u y" using \<open>h' \<noteq> h\<close> y(3-8) by (auto simp: spared_def)
    moreover have "spared h y v" using \<open>h' \<noteq> h\<close> by (auto simp: spared_def z(2) y(2))
    ultimately show ?thesis using u spared.frame_trans by blast
  qed
qed

lemma expire_step_spares:
  assumes ok: "reactor_ok extra w" and q: "timer_node_queue w = n # q" and left: "time_left (Suc k) w h"
    and run: "expire_step n w = Inr (b, v)"
  shows "spared h w v"
proof -
  from queue_head_node [OF ok q] obtain t where t: "nodes w n = Some t" .
  obtain m s where m: "nodes w m = Some s" "node_data s = Some h" "\<not> is_deleted s"
    "wrapped_ms (clock w (clock_reads w)) < expire_time s" using left unfolding time_left_def by force
  let ?now = "wrapped_ms (clock w (clock_reads w))" and ?u = "w\<lparr>clock_reads := Suc (clock_reads w)\<rparr>"
  let ?v = "if ?now < expire_time t then ?u else ?u\<lparr>nodes := (nodes w)(n \<mapsto> SetDeleted t)\<rparr>"
  have e: "IsExpired n w = Inr (\<not> ?now < expire_time t, ?v)"
    using t by (simp add: IsExpired_def gettimeofday_def)
  note i = IsExpired_ok [OF ok e]
  have same: "t = s" if "node_data t = Some h"
    using timed_same_node [OF ok m(1,2) t that] m(1) t by simp
  have v: "spared h w ?v"
    using t same m(4) by (auto simp: spared_def)
  show ?thesis
  proof (cases "\<not> ?now < expire_time t \<or> is_deleted t")
    case False
    then have "v = ?v" using run t by (auto simp: expire_step_def e IsDeleted_def)
    then show ?thesis using v by simp
  next
    case True
    then have other: "node_data t \<noteq> Some h" using same m(3,4) by auto
    let ?t = "if ?now < expire_time t then t else SetDeleted t"
    have n: "nodes ?v n = Some ?t" "node_data ?t \<noteq> Some h" using t other by (simp_all add: SetDeleted_def)
    have d: "destroy_TimerNode n (?v\<lparr>timer_node_queue := q\<rparr>) = Inr v"
      using run True t q by (auto simp: expire_step_def e IsDeleted_def split: if_split_asm)
    have "timer_node_queue ?v = n # q" using q by simp
    from destroy_TimerNode_spares [OF i(2) this n d] show ?thesis by (rule spared.frame_trans [OF v])
  qed
qed

lemma HandleExpire_spares:
  assumes "reactor_ok extra w" "time_left (length (timer_node_queue w)) w h" "HandleExpire w = Inr v"
  shows "spared h w v"
  using assms
proof (induction w rule: HandleExpire.induct)
  case (1 w)
  show ?case
  proof (cases "timer_node_queue w")
    case Nil
    then show ?thesis using 1(4) by (simp add: HandleExpire.simps [of w] spared.frame_refl)
  next
    case (Cons n q)
    from expire_step_ok [OF 1(2) Cons] obtain b u where s: "expire_step n w = Inr (b, u)" "reactor_ok extra u"
      "clock_reads u = Suc (clock_reads w)" "b \<Longrightarrow> timer_node_queue u = q" by metis
    have left: "time_left (Suc (length q)) w h" using 1(3) Cons by simp
    have run: "(if b then HandleExpire u else Inr u) = Inr v" using s(1) 1(4) Cons by (simp add: HandleExpire.simps [of w])
    note k = expire_step_spares [OF 1(2) Cons left s(1)]
    show ?thesis
    proof (cases b)
      case False
      then show ?thesis using run k by simp
    next
      case True
      then have "HandleExpire u = Inr v" using run by simp
      moreover have "time_left (length (timer_node_queue u)) u h" using time_left_spared [OF left k s(3)] s(4) True by simp
      ultimately show ?thesis using spared.frame_trans [OF k 1(1) [OF Cons s(1) refl True s(2)]] by blast
    qed
  qed
qed

lemma HandleExpire_queue: "HandleExpire w = Inr v \<Longrightarrow> length (timer_node_queue v) \<le> length (timer_node_queue w)"
proof (induction w rule: HandleExpire.induct)
  case (1 w)
  show ?case
  proof (cases "timer_node_queue w")
    case Nil
    then show ?thesis using 1(2) by (simp add: HandleExpire.simps [of w])
  next
    case (Cons n q)
    then obtain b u where s: "expire_step n w = Inr (b, u)" "(if b then HandleExpire u else Inr u) = Inr v"
      using 1(2) by (auto simp: HandleExpire.simps [of w])
    show ?thesis
    proof (cases b)
      case True
      then show ?thesis using 1(1) [OF Cons s(1) refl] s expire_step_queue [of n w u] Cons by simp
    next
      case False
      then have "timer_node_queue u = timer_node_queue w"
        using s(1) IsExpired_queue [of n w] by (auto simp: expire_step_def split: if_split_asm)
      then show ?thesis using False s(2) by simp
    qed
  qed
qed

section \<open>One output event\<close>

text \<open>Arming a timer reads the clock at most once and adds at most one node to the queue.\<close>

definition arms_once :: "'a reactor_scheme \<Rightarrow> 'a reactor_scheme \<Rightarrow> bool" where
  "arms_once w v \<longleftrightarrow> clock v = clock w \<and> clock_reads w \<le> clock_reads v \<and> clock_reads v \<le> Suc (clock_reads w) \<and>
     length (timer_node_queue v) \<le> Suc (length (timer_node_queue w))"

lemma AddTimerNode_arms: "AddTimerNode h timeout w = Inr v \<Longrightarrow> arms_once w v"
  by (auto simp: AddTimerNode_def new_TimerNode_def gettimeofday_def Let_def arms_once_def)

lemma UpdateEpoller_arms:
  assumes "UpdateEpoller c timeout w = Inr v"
  shows "arms_once w v"
  using assms AddTimerNode_arms [of _ timeout _ v]
  by (fastforce simp: UpdateEpoller_def EpollModify_def add_timer_def arms_once_def Let_def split: if_split_asm option.split_asm)

lemma minute: "DEFAULT_KEEP_ALIVE_TIME = 60000"
  by (simp add: DEFAULT_KEEP_ALIVE_TIME_def)

text \<open>
  The clock runs slowly enough for \<open>n\<close> readings in a row, as many as one iteration of the loop makes,
  to lie within a minute; over more readings it may run as far as it likes.
\<close>

definition within_a_minute :: "nat \<Rightarrow> (nat \<Rightarrow> nat \<times> nat) \<Rightarrow> bool" where
  "within_a_minute n clk \<longleftrightarrow> (\<forall>i. proper_time (clk i)) \<and>
     (\<forall>i j. i \<le> j \<and> j \<le> i + n \<longrightarrow> wrapped_ms (clk j) < wrapped_ms (clk i) + 60000)"

text \<open>A healthy connection between two events, with its handlers, in a loop that goes on.\<close>

definition healthy :: "'a event_loop_scheme \<Rightarrow> int \<Rightarrow> nat \<Rightarrow> Http \<Rightarrow> bool" where
  "healthy w fd h x \<longleftrightarrow> reactor_ok (\<lambda>_. 0) w \<and> fd2http w fd = Some (Some h) \<and> https w h = Some x \<and>
     \<not> has_error x \<and> connectionState x = CONNECTED \<and> keep_alive x \<and>
     handlers_bound h (channels w (channel x)) \<and> callback_list w = [] \<and> is_looping w"

lemma seperateTimer_queue: "seperateTimer h w = Inr v \<Longrightarrow> timer_node_queue v = timer_node_queue w"
  by (fastforce simp: seperateTimer_def ClearNode_def Let_def split: option.split_asm if_split_asm)

lemma HandleCurrentConn_queue:
  assumes "HandleCurrentConn h w = Inr v"
  shows "length (timer_node_queue v) \<le> Suc (length (timer_node_queue w))"
proof -
  obtain u where u: "seperateTimer h w = Inr u" using assms by (auto simp: HandleCurrentConn_def)
  have "length (timer_node_queue v) \<le> Suc (length (timer_node_queue u))"
    using assms u HandleClose_queue [of h u v] UpdateEpoller_arms [of _ _ _ v]
    by (fastforce simp: HandleCurrentConn_def arms_once_def Let_def split: if_split_asm option.split_asm)
  then show ?thesis using seperateTimer_queue [OF u] by simp
qed

lemma conn_callback_rearms:
  assumes "reactor_ok extra w" "registered w h" "https w h = Some x" "\<not> has_error x" "connectionState x = CONNECTED"
    "keep_alive x" "within_a_minute n (clock w)"
  defines "wanted \<equiv> (if to_listen_events (channels w (channel x)) = 0 then EPOLLIN OR EPOLLET else EPOLLOUT OR EPOLLET)"
  obtains v t where "HandleCurrentConn h w = Inr v" "reactor_ok extra v" "registered v h" "time_left n v h"
    "https v h = Some (x\<lparr>timer := t\<rparr>)" "sys_log v = sys_log w @ [Sys_epoll_ctl EPOLL_CTL_MOD (sock_fd x) wanted]"
    "arms_once w v"
proof -
  from HandleCurrentConn_cases [OF assms(1-3)] obtain u t where u: "reactor_ok extra u" "\<not> timed u h"
    "registered u h" "https u h = Some (x\<lparr>timer := t\<rparr>)" "channels u = channels w"
    "sys_log u = sys_log w" "clock u = clock w"
    "HandleCurrentConn h w =
      (let c = channel x; ev = to_listen_events (channels w c);
           listen = (\<lambda>e. put_channel c (SetToListenEvents e (channels w c)) u) in
       if \<not> has_error x \<and> connectionState x = CONNECTED then
         if ev \<noteq> 0 then
           UpdateEpoller c (if keep_alive x then DEFAULT_KEEP_ALIVE_TIME else DEFAULT_EXPIRE_TIME)
             (listen (EPOLLOUT OR EPOLLET))
         else if keep_alive x then
           UpdateEpoller c DEFAULT_KEEP_ALIVE_TIME (listen (EPOLLIN OR EPOLLET))
         else HandleClose h u
       else if \<not> has_error x \<and> connectionState x = DISCONNECTING then
         if has_event ev EPOLLOUT then Inr (listen (EPOLLOUT OR EPOLLET)) else HandleClose h u
       else Inr u)" "clock_reads u = clock_reads w" by metis
  let ?x = "x\<lparr>timer := t\<rparr>"
  let ?l = "put_channel (channel ?x) (SetToListenEvents wanted (channels u (channel ?x))) u"
  have run: "HandleCurrentConn h w = UpdateEpoller (channel ?x) DEFAULT_KEEP_ALIVE_TIME ?l"
    using u(5,8) assms(4-6) by (simp add: Let_def wanted_def)
  obtain v where v: "UpdateEpoller (channel ?x) DEFAULT_KEEP_ALIVE_TIME ?l = Inr v"
    "reactor_ok extra v" "timed v h" "registered v h" "https v = (https u)(h \<mapsto> LinkTimer (next_id u) ?x)"
    "to_listen_events (channels v (channel ?x)) = wanted"
    "sys_log v = sys_log u @ [Sys_epoll_ctl EPOLL_CTL_MOD (sock_fd ?x) wanted]"
    "nodes v (next_id u) = Some \<lparr>is_deleted = False,
       expire_time = deadline (clock u (clock_reads u)) DEFAULT_KEEP_ALIVE_TIME, node_data = Some h\<rparr>"
    by (rule listen_update_ok [OF u(1,3,4,2) timeouts_positive(1)])
  have c: "clock v = clock w" "clock_reads w \<le> clock_reads v" "clock_reads v \<le> Suc (clock_reads w)"
    using UpdateEpoller_arms [OF v(1)] u(7,9) by (simp_all add: arms_once_def)
  have "wrapped_ms (clock w (clock_reads v + i)) < deadline (clock w (clock_reads w)) DEFAULT_KEEP_ALIVE_TIME" if "i < n" for i
  proof -
    have "wrapped_ms (clock w (clock_reads v + i)) < wrapped_ms (clock w (clock_reads w)) + 60000"
      using assms(7) c(2,3) that by (simp add: within_a_minute_def)
    then show ?thesis using assms(7) deadline_eq [of "clock w (clock_reads w)" 60000] by (simp add: within_a_minute_def minute)
  qed
  then have "time_left n v h" using v(8) u(7,9) c(1) unfolding time_left_def by fastforce
  then show thesis using that [of v "Some (next_id u)"] run v c u(6) HandleCurrentConn_queue [of h w v]
    by (simp add: LinkTimer_def arms_once_def)
qed

lemma is_looping_more: "reactor.more v = reactor.more w \<Longrightarrow> is_looping v = is_looping w"
  by (cases v rule: event_loop.cases_scheme; cases w rule: event_loop.cases_scheme) simp

lemma output_iteration:
  fixes w :: "'a event_loop_scheme"
  assumes hw: "healthy w fd h x" and m: "within_a_minute m (clock w)" "length (timer_node_queue w) < m" and r: "sockout.retry 2 (socks w fd) (write_buffer x) = (True, b, s)"
  obtains v t log where "loop_iteration (run_callback srv fs) [(fd, EPOLLOUT)] n w = Inr (n, v)"
    "healthy v fd h (x\<lparr>write_buffer := b, timer := t\<rparr>)" "socks v fd = s"
    "clock v = clock w" "length (timer_node_queue v) \<le> Suc (length (timer_node_queue w))"
    "sys_log v = sys_log w @ Sys_epoll_ctl EPOLL_CTL_MOD fd ((if b = [] then EPOLLIN else EPOLLOUT) OR EPOLLET) # log"
proof -
  let ?run = "run_callback srv fs :: Http_Callback \<Rightarrow> 'a event_loop_scheme \<Rightarrow> _" and ?c = "channel x"
  from hw have a: "reactor_ok (\<lambda>_. 0) w" "fd2http w fd = Some (Some h)" "https w h = Some x" "\<not> has_error x"
    "connectionState x = CONNECTED" "keep_alive x" "handlers_bound h (channels w ?c)" "callback_list w = []"
    "is_looping w" by (simp_all add: healthy_def)
  from table_entry [OF a(1,2)] a(3) have x: "sock_fd x = fd" "fd2channel w fd = Some (Some ?c)" by auto
  let ?ch = "SetToListenEvents 0 (SetActiveEvents EPOLLOUT (channels w ?c))"
  let ?w = "put_channel ?c ?ch w"
  have poll: "EpollWait [(fd, EPOLLOUT)] w = ([?c], ?w)" using x(2) by (simp add: map_index_def)
  obtain r1 b1 s1 r2 where wr: "WriteToFd_str (socks w fd) (write_buffer x) = (r1, b1, s1)" "WriteToFd_str s1 b1 = (r2, b, s)"
    using r by (auto simp: retry_twice)
  let ?x = "x\<lparr>write_buffer := b\<rparr>"
  let ?u = "put_http h ?x (put_sock fd s ?w)"
  let ?v = "if length b > 0 then put_channel ?c (SetToListenEvents EPOLLOUT (channels ?u ?c)) ?u else ?u"
  have "WriteToFd_str (sock_of ?w x) (write_buffer x) = (r1, b1, s1)" using wr(1) x(1) by (simp add: sock_of_def)
  from HandleWrite_eq [of ?w h x, OF _ a(4) _ this wr(2)] have written: "HandleWrite h ?w = Inr ?v"
    using a(3,5) x(1) by (simp add: Let_def chan_of_def)
  have ok: "reactor_ok (\<lambda>_. 0) ?w" by (rule reactor_ok_same [OF same_shape_put_channel a(1)]) simp_all
  note okv = HandleWrite_ok [OF ok written]
  have reg: "registered ?v h" using okv(2) a(2) by (auto simp: registered_def)
  have v: "https ?v h = Some ?x" "to_listen_events (channels ?v ?c) = (if b = [] then 0 else EPOLLOUT)"
    "sys_log ?v = sys_log w" "clock ?v = clock w" "socks ?v fd = s" "reactor.more ?v = reactor.more w"
    "timer_node_queue ?v = timer_node_queue w" by auto
  have "within_a_minute m (clock ?v)" using m(1) v(4) by simp
  obtain z t where z: "HandleCurrentConn h ?v = Inr z" "reactor_ok (\<lambda>_. 0) z" "registered z h" "time_left m z h"
    "https z h = Some (?x\<lparr>timer := t\<rparr>)"
    "sys_log z = sys_log ?v @ [Sys_epoll_ctl EPOLL_CTL_MOD (sock_fd ?x)
       (if to_listen_events (channels ?v (channel ?x)) = 0 then EPOLLIN OR EPOLLET else EPOLLOUT OR EPOLLET)]"
    "arms_once ?v z"
    by (rule conn_callback_rearms [OF okv(1) reg v(1) _ _ _ \<open>within_a_minute m (clock ?v)\<close>]) (use a(4-6) in simp_all)
  have zq: "clock z = clock w" "length (timer_node_queue z) \<le> Suc (length (timer_node_queue w))"
    using z(7) v(4,7) by (simp_all add: arms_once_def)
  have "EPOLLOUT \<noteq> 0" by (simp add: event_defs)
  then have log_z: "sys_log z = sys_log w @ [Sys_epoll_ctl EPOLL_CTL_MOD fd ((if b = [] then EPOLLIN else EPOLLOUT) OR EPOLLET)]"
    using z(6) v(2,3) x(1) by simp
  have kz: "bindings (channels z c) = bindings (channels w c)" for c
  proof -
    have "kept {h} ?w z" by (rule kept.frame_trans [OF HandleWrite_kept [OF written] HandleCurrentConn_kept [OF okv(1) reg z(1)]])
    from objects_keptD(3) [OF keptD(1) [OF this], of c] show ?thesis by (simp add: bindings_def)
  qed
  have not_in: "\<not> has_event EPOLLOUT (EPOLLIN OR EPOLLPRI OR EPOLLRDHUP)" "has_event EPOLLOUT EPOLLOUT"
    by (simp_all add: has_event_def event_defs)
  have events: "HandleEvents ?run ?ch ?w = Inr z"
    using a(7) written z(1) not_in
    by (simp add: HandleEvents_def handlers_bound_def Channel_HandleWrite_def Channel_HandleConn_def call_def)
  have more: "reactor.more z = reactor.more w" "socks z fd = s"
    using HandleCurrentConn_more [OF z(1)] v(5,6) by simp_all
  have cbs: "callback_list z = []" using same_more [OF more(1)] a(8) by simp
  let ?z = "z\<lparr>running_callbacks := False, callback_list := []\<rparr>"
  have okz: "reactor_ok (\<lambda>_. 0) ?z" by (rule reactor_ok_same [OF _ z(2)]) (simp add: same_shape_def)
  from HandleExpire_ok [OF okz] obtain y where y: "HandleExpire ?z = Inr y" "reactor_ok (\<lambda>_. 0) y" "clock y = clock z" by auto
  have "length (timer_node_queue ?z) \<le> m" using zq(2) m(2) by simp
  moreover have "time_left m ?z h" using z(4) by (simp add: time_left_def)
  ultimately have left: "time_left (length (timer_node_queue ?z)) ?z h" using time_left_mono by blast
  have sp: "spared h ?z y" by (rule HandleExpire_spares [OF okz left y(1)])
  have in_table: "fd2http z fd = Some (Some h)" using holder_registered(3) [OF z(2,3,5)] x(1) by simp
  have conn: "https y h = Some (?x\<lparr>timer := t\<rparr>)" "fd2http y fd = Some (Some h)" "socks y fd = s" "channels y = channels z"
    using sp z(5) in_table more(2) by (simp_all add: spared_def)
  from HandleExpire_only_logs [OF y(1)] obtain log where log: "reactor.more y = reactor.more ?z" "sys_log y = sys_log z @ log"
    by (auto simp: only_logs_def)
  have members: "callback_list y = []" "is_looping y"
    using same_more [OF log(1)] is_looping_more [OF log(1)] is_looping_more [OF more(1)] a(9) by simp_all
  have "handlers_bound h (channels y ?c)"
    using a(7) kz [of ?c] by (simp add: conn(4) handlers_bound_def bindings_def)
  then have "healthy y fd h (?x\<lparr>timer := t\<rparr>)"
    using y(2) conn(1,2) a(4-6) members by (simp add: healthy_def)
  moreover have "loop_iteration ?run [(fd, EPOLLOUT)] n w = Inr (n, y)"
    using poll events DoCallbacks_nothing [OF cbs, of ?run] y(1) by (simp add: loop_iteration_def)
  ultimately show thesis using that conn(3) log(2) log_z y(3) zq HandleExpire_queue [OF y(1)] by simp
qed


section \<open>A socket that takes the buffer in pieces\<close>

lemma retry_piece:
  assumes "wr_script s = WroteOk k # WriteFail EAGAIN # WriteFail EAGAIN # ws" "0 < k" "k < length b"
  shows "sockout.retry 2 s b = (True, drop k b, s\<lparr>wr_script := ws, sent := sent s @ take k b\<rparr>)"
proof -
  obtain c cs where b: "b = c # cs" using assms(3) by (cases b) auto
  obtain d ds where d: "drop k b = d # ds" using assms(3) by (cases "drop k b") auto
  have "min k (length b) = k" "k \<noteq> 0" using assms(2,3) by simp_all
  then have "WriteToFd_str s b = (int k, drop k b, s\<lparr>wr_script := WriteFail EAGAIN # ws, sent := sent s @ take k b\<rparr>)"
    using d unfolding WriteToFd_str_def assms(1) b by (simp add: Let_def)
  moreover have "WriteToFd_str (s\<lparr>wr_script := WriteFail EAGAIN # ws, sent := sent s @ take k b\<rparr>) (drop k b) =
      (0, drop k b, s\<lparr>wr_script := ws, sent := sent s @ take k b\<rparr>)"
    unfolding d by (simp add: WriteToFd_str_def)
  ultimately show ?thesis by (simp add: retry_twice)
qed

lemma retry_last:
  assumes "wr_script s = WroteOk k # ws" "b \<noteq> []" "length b \<le> k"
  shows "sockout.retry 2 s b = (True, [], s\<lparr>wr_script := ws, sent := sent s @ b\<rparr>)"
  using WriteToFd_str_all [OF assms(1,3,2)] by (simp add: retry_twice)

text \<open>What such a socket answers: pieces of the sizes \<open>ks\<close>, then one of at most \<open>k\<close> bytes.\<close>

definition in_pieces :: "nat list \<Rightarrow> nat \<Rightarrow> write_res list \<Rightarrow> write_res list" where
  "in_pieces ks k ws = concat (map (\<lambda>k. [WroteOk k, WriteFail EAGAIN, WriteFail EAGAIN]) ks) @ WroteOk k # ws"

abbreviation asks :: "int \<Rightarrow> events \<Rightarrow> syscall" where
  "asks fd e \<equiv> Sys_epoll_ctl EPOLL_CTL_MOD fd (e OR EPOLLET)"

lemma Loop_output_events:
  fixes w :: "'a event_loop_scheme"
  assumes "healthy w fd h x" "wr_script (socks w fd) = in_pieces ks k ws"
    and "\<forall>j \<in> set ks. 0 < j" "sum_list ks < length (write_buffer x)" "length (write_buffer x) \<le> sum_list ks + k" "tc < 5"
    and "within_a_minute m (clock w)" "length (timer_node_queue w) + length ks < m"
  shows "\<exists>v y calls. Loop (run_callback srv fs) (replicate (Suc (length ks)) [(fd, EPOLLOUT)]) tc w = Inr (Running tc, v) \<and>
    healthy v fd h y \<and> write_buffer y = [] \<and> sent (socks v fd) = sent (socks w fd) @ write_buffer x \<and>
    sys_log v = sys_log w @ calls \<and> subseq (replicate (length ks) (asks fd EPOLLOUT) @ [asks fd EPOLLIN]) calls"
  using assms
proof (induction ks arbitrary: w x)
  case Nil
  have r: "sockout.retry 2 (socks w fd) (write_buffer x) =
      (True, [], (socks w fd)\<lparr>wr_script := ws, sent := sent (socks w fd) @ write_buffer x\<rparr>)"
    by (rule retry_last) (use Nil in \<open>auto simp: in_pieces_def\<close>)
  obtain v t log where v: "loop_iteration (run_callback srv fs) [(fd, EPOLLOUT)] tc w = Inr (tc, v)"
    "healthy v fd h (x\<lparr>write_buffer := [], timer := t\<rparr>)"
    "socks v fd = (socks w fd)\<lparr>wr_script := ws, sent := sent (socks w fd) @ write_buffer x\<rparr>"
    "sys_log v = sys_log w @ asks fd EPOLLIN # log"
    by (rule output_iteration [OF Nil(1,7) _ r, where srv = srv and fs = fs and n = tc]) (use Nil(8) in simp_all)
  have "is_looping w" "is_looping v" using Nil(1) v(2) by (simp_all add: healthy_def)
  then show ?case using v Nil(6)
    by (intro exI [of _ v] exI [of _ "x\<lparr>write_buffer := [], timer := t\<rparr>"] exI [of _ "asks fd EPOLLIN # log"]) simp
next
  case (Cons j ks)
  let ?s = "(socks w fd)\<lparr>wr_script := in_pieces ks k ws, sent := sent (socks w fd) @ take j (write_buffer x)\<rparr>"
  have j: "0 < j" "j < length (write_buffer x)" using Cons.prems(3,4) by auto
  have r: "sockout.retry 2 (socks w fd) (write_buffer x) = (True, drop j (write_buffer x), ?s)"
    by (rule retry_piece [OF _ j]) (use Cons.prems(2) in \<open>simp add: in_pieces_def\<close>)
  obtain v t log where v: "loop_iteration (run_callback srv fs) [(fd, EPOLLOUT)] tc w = Inr (tc, v)"
    "healthy v fd h (x\<lparr>write_buffer := drop j (write_buffer x), timer := t\<rparr>)" "socks v fd = ?s"
    "sys_log v = sys_log w @ asks fd EPOLLOUT # log" "clock v = clock w"
    "length (timer_node_queue v) \<le> Suc (length (timer_node_queue w))"
    by (rule output_iteration [OF Cons.prems(1,7) _ r, where srv = srv and fs = fs and n = tc]) (use j(2) Cons.prems(8) in simp_all)
  have "is_looping w" using Cons.prems(1) by (simp add: healthy_def)
  then have run: "Loop (run_callback srv fs) (replicate (Suc (length (j # ks))) [(fd, EPOLLOUT)]) tc w =
      Loop (run_callback srv fs) (replicate (Suc (length ks)) [(fd, EPOLLOUT)]) tc v"
    using v(1) Cons.prems(6) by simp
  have "\<exists>z y calls. Loop (run_callback srv fs) (replicate (Suc (length ks)) [(fd, EPOLLOUT)]) tc v = Inr (Running tc, z) \<and>
    healthy z fd h y \<and> write_buffer y = [] \<and> sent (socks z fd) = sent (socks v fd) @ drop j (write_buffer x) \<and>
    sys_log z = sys_log v @ calls \<and> subseq (replicate (length ks) (asks fd EPOLLOUT) @ [asks fd EPOLLIN]) calls"
    using Cons.IH [OF v(2)] v(3,5,6) Cons.prems(3-8) by (simp add: less_diff_conv)
  then obtain z y calls where z: "Loop (run_callback srv fs) (replicate (Suc (length ks)) [(fd, EPOLLOUT)]) tc v = Inr (Running tc, z)"
    "healthy z fd h y" "write_buffer y = []" "sent (socks z fd) = sent (socks v fd) @ drop j (write_buffer x)"
    "sys_log z = sys_log v @ calls" "subseq (replicate (length ks) (asks fd EPOLLOUT) @ [asks fd EPOLLIN]) calls" by blast
  have "sent (socks z fd) = sent (socks w fd) @ write_buffer x" using z(4) v(3) by simp
  moreover have "subseq (replicate (length (j # ks)) (asks fd EPOLLOUT) @ [asks fd EPOLLIN]) (asks fd EPOLLOUT # log @ calls)"
    using z(6) by (simp add: list_emb_append2)
  moreover have "sys_log z = sys_log w @ (asks fd EPOLLOUT # log @ calls)" using z(5) v(4) by simp
  ultimately show ?case unfolding run using z(1-3) by blast
qed

section \<open>Properties\<close>



end
