(* ===== verification/Loop_Life.thy ===== *)
theory Loop_Life
  imports Reactor_Frame
begin

text \<open>
  The whole life of a worker's loop: connections handed over by the server's thread, polls with any
  events, callbacks, timers and \<open>Quit\<close>, in any order the threads allow. The invariant of the reactor
  holds throughout, and the only way an iteration can fault is a request that is refused.
\<close>

section \<open>A worker between two operations\<close>

text \<open>
  \<open>bound_conns\<close>: every connection's channel calls the handlers of that connection. \<open>known_fds\<close>: the
  tables have entries for the wake-up descriptor and registered connections alone. \<open>wakeup_ok\<close>: the
  wake-up channel is registered, has no callback and no holder.
\<close>

definition bound_conns :: "event_loop \<Rightarrow> bool" where
  "bound_conns w \<longleftrightarrow> (\<forall>h x. https w h = Some x \<longrightarrow> handlers_bound h (channels w (channel x)) \<and>
     error_callback (channels w (channel x)) = None \<and> channel x \<noteq> wakeup_channel w \<and> sock_fd x \<noteq> wakeup_fd w)"

definition known_fds :: "event_loop \<Rightarrow> bool" where
  "known_fds w \<longleftrightarrow> (\<forall>fd. fd2http w fd \<noteq> None \<or> fd2channel w fd \<noteq> None \<longrightarrow>
     fd = wakeup_fd w \<or> (\<exists>h. fd2http w fd = Some (Some h)))"

definition wakeup_ok :: "event_loop \<Rightarrow> bool" where
  "wakeup_ok w \<longleftrightarrow> fd2channel w (wakeup_fd w) = Some (Some (wakeup_channel w)) \<and>
     fd2http w (wakeup_fd w) = Some None \<and> wakeup_channel w < next_id w \<and>
     bindings (channels w (wakeup_channel w)) = (wakeup_fd w, None, None, None, None)"

text \<open>\<open>q\<close> lists the connections whose \<open>Init\<close> waits in the list of callbacks.\<close>

definition worker_ok :: "(nat \<times> int) list \<Rightarrow> event_loop \<Rightarrow> bool" where
  "worker_ok q w \<longleftrightarrow> awaiting (count_list (map fst q)) w q \<and> callback_list w = map (\<lambda>e. CB_Init (fst e)) q \<and>
     bound_conns w \<and> known_fds w \<and> wakeup_ok w"

lemma worker_okD:
  assumes "worker_ok q w"
  shows "awaiting (count_list (map fst q)) w q" "reactor_ok (count_list (map fst q)) w"
    "callback_list w = map (\<lambda>e. CB_Init (fst e)) q" "bound_conns w" "known_fds w" "wakeup_ok w"
  using assms awaitingD(1) by (auto simp: worker_ok_def)

lemma same_loop_members:
  assumes "reactor.more v = reactor.more (w :: event_loop)"
  shows "callback_list v = callback_list w" "wakeup_fd v = wakeup_fd w" "wakeup_channel v = wakeup_channel w"
    "is_looping v = is_looping w" "thread_id v = thread_id w"
  using assms by (cases v rule: event_loop.cases_scheme; cases w rule: event_loop.cases_scheme; simp)+

lemma registered_not_waiting:
  assumes "worker_ok q w" "registered w h"
  shows "count_list (map fst q) h = 0"
proof -
  have "h \<notin> set (map fst q)"
  proof
    assume "h \<in> set (map fst q)"
    then obtain fd where "(h, fd) \<in> set q" by auto
    from awaitingD(3) [OF worker_okD(1) [OF assms(1)] this] assms(2) show False by (auto simp: waits_def)
  qed
  then show ?thesis by (rule count_notin)
qed

text \<open>Binding and wake-up survive whatever keeps the objects, the rest whatever keeps the tables.\<close>

lemma bound_conns_kept:
  assumes "objects_kept w v" "wakeup_channel v = wakeup_channel w" "wakeup_fd v = wakeup_fd w" "bound_conns w"
  shows "bound_conns v"
  unfolding bound_conns_def
proof (intro allI impI)
  fix h y assume "https v h = Some y"
  from objects_keptD(2) [OF assms(1) this] obtain x where x: "https w h = Some x" "channel y = channel x"
    "sock_fd y = sock_fd x" by blast
  with assms(4) have b: "handlers_bound h (channels w (channel x))" "error_callback (channels w (channel x)) = None"
    "channel x \<noteq> wakeup_channel w" "sock_fd x \<noteq> wakeup_fd w" by (auto simp: bound_conns_def)
  from objects_keptD(3) [OF assms(1), of "channel x"] b x(2,3) assms(2,3)
  show "handlers_bound h (channels v (channel y)) \<and> error_callback (channels v (channel y)) = None \<and>
      channel y \<noteq> wakeup_channel v \<and> sock_fd y \<noteq> wakeup_fd v"
    by (simp add: handlers_bound_def bindings_def)
qed

lemma kept_registered:
  assumes "kept H w v" "registered v h"
  shows "registered w h"
proof -
  from assms(2) obtain fd where "fd2http v fd = Some (Some h)" by (auto simp: registered_def)
  with tables_keptD(3) [OF keptD(2) [OF assms(1)], of fd] have "fd2http w fd = Some (Some h)" by auto
  then show ?thesis by (auto simp: registered_def)
qed

lemma kept_still_registered:
  assumes "kept H w v" "reactor_ok extra w" "registered w h" "h \<notin> H"
  shows "registered v h"
proof -
  from assms(3) obtain fd where fd: "fd2http w fd = Some (Some h)" by (auto simp: registered_def)
  with tables_keptD(3) [OF keptD(2) [OF assms(1)], of fd] assms(4) have "fd2http v fd = Some (Some h)" by auto
  then show ?thesis by (auto simp: registered_def)
qed

lemma kept_waits:
  assumes k: "kept H w v" and alive: "https v h \<noteq> None" and e: "waits w (h, fd)"
  shows "waits v (h, fd)"
proof -
  from e obtain x where x: "https w h = Some x" "sock_fd x = fd" "\<not> registered w h" "fd2http w fd = None"
    "fd2channel w fd = None" "chan_fd (channels w (channel x)) = fd" "holder (channels w (channel x)) = None"
    by (auto simp: waits_def)
  from alive obtain y where y: "https v h = Some y" by blast
  from objects_keptD(2) [OF keptD(1) [OF k] y] x(1) have c: "channel y = channel x" "sock_fd y = sock_fd x" by auto
  have "fd2http v fd = None" "fd2channel v fd = None"
    using tables_keptD(3) [OF keptD(2) [OF k], of fd] x(4,5) by auto
  moreover have "\<not> registered v h" using kept_registered [OF k] x(3) by blast
  moreover have "chan_fd (channels v (channel x)) = fd" "holder (channels v (channel x)) = None"
    using objects_keptD(3) [OF keptD(1) [OF k], of "channel x"] tables_keptD(1) [OF keptD(2) [OF k], of "channel x"] x
    by (simp_all add: bindings_def)
  ultimately show ?thesis using y c x(2) by (simp add: waits_def)
qed

lemma kept_known:
  assumes "kept H w v" "known_fds w"
  shows "known_fds v"
  unfolding known_fds_def
proof (intro allI impI)
  fix fd assume fd: "fd2http v fd \<noteq> None \<or> fd2channel v fd \<noteq> None"
  with tables_keptD(3) [OF keptD(2) [OF assms(1)], of fd]
  have "fd2http v fd = fd2http w fd" "fd2channel v fd = fd2channel w fd" by auto
  then show "fd = wakeup_fd v \<or> (\<exists>h. fd2http v fd = Some (Some h))"
    using fd assms(2) [unfolded known_fds_def, THEN spec, of fd] same_loop_members(2) [OF keptD(3) [OF assms(1)]] by metis
qed

lemma kept_wakeup:
  assumes "kept H w v" "wakeup_ok w"
  shows "wakeup_ok v"
proof -
  note m = same_loop_members [OF keptD(3) [OF assms(1)]]
  have "wakeup_channel w < next_id v"
    using assms(2) objects_keptD(1) [OF keptD(1) [OF assms(1)]] by (simp add: wakeup_ok_def)
  moreover have "fd2channel v (wakeup_fd w) = Some (Some (wakeup_channel w)) \<and> fd2http v (wakeup_fd w) = Some None"
    using assms(2) tables_keptD(3) [OF keptD(2) [OF assms(1)], of "wakeup_fd w"] by (auto simp: wakeup_ok_def)
  moreover have "bindings (channels v (wakeup_channel w)) = bindings (channels w (wakeup_channel w))"
    by (rule objects_keptD(3) [OF keptD(1) [OF assms(1)]])
  ultimately show ?thesis using assms(2) by (simp add: wakeup_ok_def m)
qed

lemma worker_ok_kept:
  assumes k: "kept H w v" and ok: "reactor_ok (count_list (map fst q)) v" and wk: "worker_ok q w"
  shows "worker_ok q v"
proof -
  note d = worker_okD [OF wk] and m = same_loop_members [OF keptD(3) [OF k]]
  have "waits v e" if e: "e \<in> set q" for e
  proof -
    obtain h fd where hf: "e = (h, fd)" by (cases e)
    have "0 < count_list (map fst q) h"
      using e count_list_0_iff [of "map fst q" h] unfolding hf by force
    from kept_waits [OF k reactor_ok_alive [OF ok this]] awaitingD(3) [OF d(1) e] show ?thesis by (simp add: hf)
  qed
  moreover have "channel y < next_id v" if y: "https v h = Some y" for h y
    using objects_keptD(2) [OF keptD(1) [OF k] y] awaitingD(4) [OF d(1)] objects_keptD(1) [OF keptD(1) [OF k]]
    by fastforce
  ultimately have "awaiting (count_list (map fst q)) v q"
    using ok awaitingD(2) [OF d(1)] by (simp add: awaiting_def)
  then show ?thesis
    using d(3) m(1) bound_conns_kept [OF keptD(1) [OF k] m(3,2) d(4)] kept_known [OF k d(5)] kept_wakeup [OF k d(6)]
    by (simp add: worker_ok_def)
qed

section \<open>Dispatching\<close>

text \<open>The events of one poll: each descriptor once, and only descriptors that were added.\<close>

definition kernel_events :: "(int \<times> events) list \<Rightarrow> event_loop \<Rightarrow> bool" where
  "kernel_events returned w \<longleftrightarrow> distinct (map fst returned) \<and>
     (\<forall>(fd, ev) \<in> set returned. \<exists>c. fd2channel w fd = Some (Some c))"

text \<open>
  A request that the reader refuses with a fault: \<open>HandleRead\<close> ends in it, or closes the connection,
  and the connection callback that follows then ends in it.
\<close>

definition refuses :: "files \<Rightarrow> nat \<Rightarrow> event_loop \<Rightarrow> fault \<Rightarrow> bool" where
  "refuses fs h u f \<longleftrightarrow> (case HandleRead fs h u of
      Inl e \<Rightarrow> e = f
    | Inr v \<Rightarrow> \<not> registered v h \<and> HandleCurrentConn h v = Inl f)"

abbreviation input_events :: events where
  "input_events \<equiv> EPOLLIN OR EPOLLPRI OR EPOLLRDHUP"

text \<open>
  Dispatching the active channels ends in a fault at a refusal: the channels before \<open>c\<close> go through,
  \<open>c\<close> belongs to a registered connection with an input event, and after its output, if it had an
  output event too, its reader refuses.
\<close>

definition stops_at_refusal :: "(server_callback \<Rightarrow> event_loop \<Rightarrow> event_loop result) \<Rightarrow> files \<Rightarrow> nat list \<Rightarrow> event_loop \<Rightarrow> fault \<Rightarrow> event_loop \<Rightarrow> nat \<Rightarrow> Http \<Rightarrow> bool" where
  "stops_at_refusal srv fs active w f b h x \<longleftrightarrow> (\<exists>before after ev u. active = before @ channel x # after \<and>
     forR (\<lambda>c w. HandleEvents (run_callback srv fs) (channels w c) w) before w = Inr b \<and>
     registered b h \<and> https b h = Some x \<and>
     active_events (channels b (channel x)) = Some ev \<and> has_event ev input_events \<and>
     (if has_event ev EPOLLOUT then HandleWrite h b else Inr b) = Inr u \<and> refuses fs h u f)"

definition dispatchable :: "event_loop \<Rightarrow> nat \<Rightarrow> bool" where
  "dispatchable w c \<longleftrightarrow> c = wakeup_channel w \<or> (\<exists>h x. registered w h \<and> https w h = Some x \<and> channel x = c)"

lemma HandleWrite_total: "https w h \<noteq> None \<Longrightarrow> \<exists>v. HandleWrite h w = Inr v"
  by (auto simp: HandleWrite_def Let_def split: prod.split)

text \<open>One channel: everything is as it should be afterwards, or the connection's request is refused.\<close>

lemma HandleEvents_conn:
  assumes ok: "reactor_ok extra w" and r: "registered w h" and e: "extra h = 0"
    and b: "handlers_bound h ch" "error_callback ch = None" "active_events ch = Some ev"
  shows "(\<exists>v. HandleEvents (run_callback srv fs) ch w = Inr v \<and> kept {h} w v \<and> reactor_ok extra v) \<or>
    (\<exists>f u. HandleEvents (run_callback srv fs) ch w = Inl f \<and> has_event ev input_events \<and>
       (if has_event ev EPOLLOUT then HandleWrite h w else Inr w) = Inr u \<and> refuses fs h u f)"
proof (cases "has_event ev EPOLLHUP \<and> \<not> has_event ev EPOLLIN")
  case True
  then have "HandleEvents (run_callback srv fs) ch w = Inr w" using b(3) by (simp add: HandleEvents_def)
  then show ?thesis using ok kept.frame_refl by blast
next
  case False
  obtain u where u: "(if has_event ev EPOLLOUT then HandleWrite h w else Inr w) = Inr u"
    using HandleWrite_total registered_alive [OF ok r] by fastforce
  have "kept {h} w u \<and> reactor_ok extra u \<and> registered u h"
  proof (cases "has_event ev EPOLLOUT")
    case True
    then have "HandleWrite h w = Inr u" using u by simp
    from HandleWrite_kept [OF this] HandleWrite_ok [OF ok this] r show ?thesis by metis
  next
    case False
    then have "u = w" using u by simp
    then show ?thesis using ok r kept.frame_refl by metis
  qed
  then have ku: "kept {h} w u" and oku: "reactor_ok extra u" and ru: "registered u h" by blast+
  let ?in = "has_event ev (EPOLLIN OR EPOLLPRI OR EPOLLRDHUP)"
  have run: "HandleEvents (run_callback srv fs) ch w =
      bindR (if ?in then HandleRead fs h u else Inr u) (HandleCurrentConn h)"
    using False b u
    by (cases "has_event ev EPOLLOUT") (auto simp: HandleEvents_def handlers_bound_def Channel_HandleRead_def
        Channel_HandleWrite_def Channel_HandleError_def Channel_HandleConn_def call_def simp del: has_event_or)
  have conn: "\<exists>v. HandleCurrentConn h z = Inr v \<and> kept {h} w v \<and> reactor_ok extra v"
    if "kept {h} w z" "reactor_ok extra z" "registered z h" for z
    using HandleCurrentConn_ok [OF that(2,3)] HandleCurrentConn_kept [OF that(2,3)] kept.frame_trans [OF that(1)] by metis
  show ?thesis
  proof (cases ?in)
    case False
    then show ?thesis using run conn [OF ku oku ru] by simp
  next
    case True
    show ?thesis
    proof (cases "HandleRead fs h u")
      case (Inl f)
      then show ?thesis using run True u by (auto simp: refuses_def simp del: has_event_or)
    next
      case (Inr z)
      note o = HandleRead_ok [OF oku ru Inr]
      then have kz: "kept {h} w z" using kept.frame_trans [OF ku] by blast
      from o consider "reactor_ok extra z" "registered z h" | "closed_in extra h z" by blast
      then show ?thesis
      proof cases
        case 1
        then show ?thesis using run True Inr conn [OF kz 1] by simp
      next
        case 2
        from closed_then_conn_faults [OF 2 e] show ?thesis using run True Inr u by (auto simp: refuses_def simp del: has_event_or)
      qed
    qed
  qed
qed

lemma HandleEvents_wakeup:
  assumes "bindings ch = (fd, None, None, None, None)" "active_events ch \<noteq> None"
  shows "HandleEvents run ch w = Inr w"
  using assms by (auto simp: HandleEvents_def bindings_def Channel_HandleRead_def Channel_HandleWrite_def
      Channel_HandleError_def Channel_HandleConn_def call_def simp del: has_event_or)

lemma dispatchable_kept:
  assumes wk: "worker_ok q w" and d: "dispatchable w c'" "c' \<noteq> channel x" and x: "https w h = Some x"
    and k: "kept {h} w v" and ok: "reactor_ok extra v"
  shows "dispatchable v c'"
proof (cases "c' = wakeup_channel w")
  case True
  then show ?thesis by (simp add: dispatchable_def same_loop_members(3) [OF keptD(3) [OF k]])
next
  case False
  with d(1) obtain h' y where y: "registered w h'" "https w h' = Some y" "channel y = c'" by (auto simp: dispatchable_def)
  then have "h' \<notin> {h}" using d(2) x by auto
  from kept_still_registered [OF k worker_okD(2) [OF wk] y(1) this] have r: "registered v h'" .
  then obtain z where z: "https v h' = Some z" using registered_alive [OF ok] by blast
  from objects_keptD(2) [OF keptD(1) [OF k] z] y have "channel z = c'" by auto
  then show ?thesis using r z by (auto simp: dispatchable_def)
qed

lemma stops_at_refusal_Cons:
  assumes "HandleEvents (run_callback srv fs) (channels w c) w = Inr v" "stops_at_refusal srv fs cs v f b h x"
  shows "stops_at_refusal srv fs (c # cs) w f b h x"
proof -
  from assms(2) obtain before after ev u where "cs = before @ channel x # after \<and>
     forR (\<lambda>c w. HandleEvents (run_callback srv fs) (channels w c) w) before v = Inr b \<and>
     registered b h \<and> https b h = Some x \<and>
     active_events (channels b (channel x)) = Some ev \<and> has_event ev input_events \<and>
     (if has_event ev EPOLLOUT then HandleWrite h b else Inr b) = Inr u \<and> refuses fs h u f"
    unfolding stops_at_refusal_def by blast
  with assms(1) show ?thesis unfolding stops_at_refusal_def
    by (intro exI [of _ "c # before"] exI [of _ after] exI [of _ ev] exI [of _ u]) simp
qed

lemma dispatch_ok:
  assumes "worker_ok q w" "distinct active" "\<forall>c \<in> set active. dispatchable w c \<and> active_events (channels w c) \<noteq> None"
  shows "(\<exists>v. forR (\<lambda>c w. HandleEvents (run_callback srv fs) (channels w c) w) active w = Inr v \<and>
      kept UNIV w v \<and> worker_ok q v) \<or>
    (\<exists>f b h x. forR (\<lambda>c w. HandleEvents (run_callback srv fs) (channels w c) w) active w = Inl f \<and>
      kept UNIV w b \<and> worker_ok q b \<and> stops_at_refusal srv fs active w f b h x)"
  using assms
proof (induction active arbitrary: w)
  case Nil
  then show ?case using kept.frame_refl by fastforce
next
  case (Cons c cs)
  let ?ev = "\<lambda>c w. HandleEvents (run_callback srv fs) (channels w c) w"
  note wk = Cons.prems(1) and d = worker_okD [OF Cons.prems(1)]
  have go: ?case if v: "?ev c w = Inr v" "kept UNIV w v" "worker_ok q v"
    "\<forall>c' \<in> set cs. dispatchable v c'" for v
  proof -
    have "\<forall>c' \<in> set cs. dispatchable v c' \<and> active_events (channels v c') \<noteq> None"
      using v(4) Cons.prems(3) tables_keptD(2) [OF keptD(2) [OF v(2)]] by simp
    from Cons.IH [OF v(3) _ this] Cons.prems(2) show ?thesis
      using v(1) kept.frame_trans [OF v(2)] stops_at_refusal_Cons [OF v(1)] by fastforce
  qed
  show ?case
  proof (cases "c = wakeup_channel w")
    case True
    then have "?ev c w = Inr w"
      using HandleEvents_wakeup d(6) Cons.prems(3) unfolding wakeup_ok_def by (metis list.set_intros(1))
    then show ?thesis using go [OF _ kept.frame_refl wk] Cons.prems(3) by simp
  next
    case False
    with Cons.prems(3) obtain h x where x: "registered w h" "https w h = Some x" "channel x = c"
      by (auto simp: dispatchable_def)
    from Cons.prems(3) obtain ev where ev: "active_events (channels w c) = Some ev" by auto
    have b: "handlers_bound h (channels w c)" "error_callback (channels w c) = None"
      using d(4) x(2,3) by (auto simp: bound_conns_def)
    from HandleEvents_conn [OF d(2) x(1) registered_not_waiting [OF wk x(1)] b ev, of srv fs]
    show ?thesis
    proof (elim disjE exE conjE)
      fix v assume v: "?ev c w = Inr v" "kept {h} w v" "reactor_ok (count_list (map fst q)) v"
      have "\<forall>c' \<in> set cs. dispatchable v c'"
        using dispatchable_kept [OF wk _ _ x(2) v(2,3)] Cons.prems(2,3) x(3) by auto
      then show ?thesis using go [OF v(1) kept_mono [OF v(2) subset_UNIV] worker_ok_kept [OF v(2,3) wk]] by blast
    next
      fix f u assume u: "?ev c w = Inl f" "has_event ev input_events"
        "(if has_event ev EPOLLOUT then HandleWrite h w else Inr w) = Inr u" "refuses fs h u f"
      have "stops_at_refusal srv fs (c # cs) w f w h x"
        using x ev u(2-4) unfolding stops_at_refusal_def
        by (intro exI [of _ "[]"] exI [of _ cs] exI [of _ ev] exI [of _ u]) simp
      then show ?thesis using u(1) kept.frame_refl wk by fastforce
    qed
  qed
qed

section \<open>Polling\<close>

text \<open>The poll marks the channels of the events and changes nothing else.\<close>

lemma EpollWait_marks:
  assumes "\<forall>(fd, ev) \<in> set returned. \<exists>c. fd2channel w fd = Some (Some c)"
  shows "\<exists>active chs. EpollWait returned w = (active, w\<lparr>channels := chs\<rparr>) \<and>
    map (\<lambda>c. Some (Some c)) active = map (\<lambda>e. fd2channel w (fst e)) returned \<and>
    (\<forall>c. bindings (chs c) = bindings (channels w c) \<and> holder (chs c) = holder (channels w c) \<and>
       (c \<in> set active \<or> active_events (channels w c) \<noteq> None \<longrightarrow> active_events (chs c) \<noteq> None))"
  using assms
proof (induction returned arbitrary: w)
  case Nil
  show ?case by (intro exI [of _ "[]"] exI [of _ "channels w"]) simp
next
  case (Cons e returned)
  obtain fd ev where e: "e = (fd, ev)" by (cases e)
  with Cons.prems obtain c where c: "fd2channel w fd = Some (Some c)" by auto
  let ?w = "put_channel c (SetToListenEvents 0 (SetActiveEvents ev (channels w c))) w"
  from Cons.IH [of ?w] Cons.prems obtain active chs where
    i: "EpollWait returned ?w = (active, ?w\<lparr>channels := chs\<rparr>)"
    "map (\<lambda>c. Some (Some c)) active = map (\<lambda>e. fd2channel ?w (fst e)) returned"
    "\<forall>c. bindings (chs c) = bindings (channels ?w c) \<and> holder (chs c) = holder (channels ?w c) \<and>
       (c \<in> set active \<or> active_events (channels ?w c) \<noteq> None \<longrightarrow> active_events (chs c) \<noteq> None)"
    by auto
  have "EpollWait (e # returned) w = (c # active, w\<lparr>channels := chs\<rparr>)"
    using i(1) c by (simp add: e map_index_def put_channel_def)
  then show ?case
    using i(2,3) c by (intro exI [of _ "c # active"] exI [of _ chs]) (auto simp: e bindings_def)
qed

lemma EpollWait_ok:
  assumes wk: "worker_ok q w" and k: "kernel_events returned w" and run: "EpollWait returned w = (active, v)"
  shows "worker_ok q v" "objects_kept w v" "reactor.more v = reactor.more w" "distinct active"
    "\<forall>c \<in> set active. dispatchable v c \<and> active_events (channels v c) \<noteq> None"
    "timer_node_queue v = timer_node_queue w" "fd2http v = fd2http w"
    "map (\<lambda>c. chan_fd (channels v c)) active = map fst returned"
proof -
  note d = worker_okD [OF wk]
  obtain chs where c: "v = w\<lparr>channels := chs\<rparr>" "map (\<lambda>c. Some (Some c)) active = map (\<lambda>e. fd2channel w (fst e)) returned"
    "\<And>c. bindings (chs c) = bindings (channels w c)" "\<And>c. holder (chs c) = holder (channels w c)"
    "\<And>c. c \<in> set active \<Longrightarrow> active_events (chs c) \<noteq> None"
    using EpollWait_marks [of returned w] k run by (auto simp: kernel_events_def)
  have fds: "\<And>c. chan_fd (chs c) = chan_fd (channels w c)" using c(3) by (simp add: bindings_def)
  show ob: "objects_kept w v" using c(3) by (simp add: c(1) objects_kept_def balance_def conns_on_def)
  show more: "reactor.more v = reactor.more w" "timer_node_queue v = timer_node_queue w" "fd2http v = fd2http w"
    by (simp_all add: c(1))
  have "same_shape w v" using fds c(4) by (simp add: c(1) same_shape_def)
  then have "reactor_ok (count_list (map fst q)) v" by (rule reactor_ok_same) (rule d(2))
  moreover have "waits v e" if "e \<in> set q" for e
    using awaitingD(3) [OF d(1) that] registered_same_table [of v w] by (simp add: waits_def c(1,4) fds)
  ultimately have "awaiting (count_list (map fst q)) v q" using d(1) by (simp add: awaiting_def c(1))
  moreover have "known_fds v" "wakeup_ok v" using d(5,6) c(3) by (simp_all add: c(1) known_fds_def wakeup_ok_def)
  ultimately show "worker_ok q v"
    using d(3) bound_conns_kept [OF ob same_loop_members(3,2) [OF more(1)] d(4)] by (simp add: worker_ok_def c(1))
  have entry: "dispatchable w ch \<and> chan_fd (channels w ch) = fd" if "fd2channel w fd = Some (Some ch)" for fd ch
  proof (cases "fd = wakeup_fd w")
    case True
    then show ?thesis using that d(6) by (simp add: wakeup_ok_def dispatchable_def bindings_def)
  next
    case False
    have "fd2channel w fd \<noteq> None" using that by simp
    then obtain h where h: "fd2http w fd = Some (Some h)" using d(5) False by (auto simp: known_fds_def)
    from table_entry [OF d(2) h] that h show ?thesis by (auto simp: dispatchable_def registered_def)
  qed
  have origin: "\<exists>e \<in> set returned. fd2channel w (fst e) = Some (Some ch)" if "ch \<in> set active" for ch
  proof -
    have "Some (Some ch) \<in> set (map (\<lambda>c. Some (Some c)) active)" using that by simp
    then show ?thesis unfolding c(2) by (metis (no_types, lifting) imageE list.set_map)
  qed
  have "registered v = registered w" by (simp add: c(1) registered_def fun_eq_iff)
  then have disp: "dispatchable v ch = dispatchable w ch" for ch by (simp add: dispatchable_def c(1))
  show "\<forall>c \<in> set active. dispatchable v c \<and> active_events (channels v c) \<noteq> None"
    using origin entry c(5) unfolding disp by (fastforce simp: c(1))
  have fdmap: "map (\<lambda>c. chan_fd (channels w c)) active = map fst returned"
  proof (rule nth_equalityI)
    show len: "length (map (\<lambda>c. chan_fd (channels w c)) active) = length (map fst returned)"
      using arg_cong [OF c(2), of length] by simp
    fix i assume "i < length (map (\<lambda>c. chan_fd (channels w c)) active)"
    then have i: "i < length active" "i < length returned" using len by simp_all
    have "Some (Some (active ! i)) = fd2channel w (fst (returned ! i))"
      using arg_cong [OF c(2), of "\<lambda>l. l ! i"] i by simp
    then show "map (\<lambda>c. chan_fd (channels w c)) active ! i = map fst returned ! i"
      using entry [of "fst (returned ! i)" "active ! i"] i by simp
  qed
  then show "distinct active" using k by (metis distinct_map kernel_events_def)
  show "map (\<lambda>c. chan_fd (channels v c)) active = map fst returned" using fdmap fds by (simp add: c(1))
qed

section \<open>Callbacks\<close>

lemma objects_kept_put_channel:
  "bindings ch = bindings (channels w c) \<Longrightarrow> objects_kept w (put_channel c ch w)"
  by (simp add: objects_kept_def balance_def conns_on_def)

lemma objects_kept_tables:
  "objects_kept w (w\<lparr>fd2channel := a\<rparr>)" "objects_kept w (w\<lparr>fd2http := b\<rparr>)"
  by (simp_all add: objects_kept_def balance_def conns_on_def)

lemma EpollAdd_objects:
  assumes "EpollAdd c timeout w = Inr v"
  shows "objects_kept w v" "reactor.more v = reactor.more w"
proof -
  let ?fd = "chan_fd (channels w c)"
  let ?u = "log_call (Sys_epoll_ctl EPOLL_CTL_ADD ?fd (to_listen_events (channels w c))) w"
  obtain z where z: "(if timeout > 0 then add_timer c timeout ?u else Inr ?u) = Inr z"
    and v: "\<exists>a b h. v = z\<lparr>fd2channel := a, fd2http := b\<rparr> \<or> v = retain h (z\<lparr>fd2channel := a, fd2http := b\<rparr>)"
  proof -
    obtain z where z: "(if timeout > 0 then add_timer c timeout ?u else Inr ?u) = Inr z"
      using assms by (auto simp: EpollAdd_def Let_def)
    show thesis
    proof (rule that [OF z], cases "GetHolder (https z) (channels z c)")
      case None
      then show "\<exists>a b h. v = z\<lparr>fd2channel := a, fd2http := b\<rparr> \<or> v = retain h (z\<lparr>fd2channel := a, fd2http := b\<rparr>)"
        using assms z by (simp add: EpollAdd_def Let_def) blast
    next
      case (Some h)
      then show "\<exists>a b h. v = z\<lparr>fd2channel := a, fd2http := b\<rparr> \<or> v = retain h (z\<lparr>fd2channel := a, fd2http := b\<rparr>)"
        using assms z by (cases "fd2http z ?fd = None"; simp add: EpollAdd_def Let_def) blast+
    qed
  qed
  have "kept {} ?u z"
    using z AddTimerNode_kept kept.frame_refl by (auto simp: add_timer_def split: option.split_asm if_split_asm)
  then have k: "kept {} w z" by (rule kept.frame_trans [OF kept_epoll_ctl])
  have "objects_kept z (z\<lparr>fd2channel := a, fd2http := b\<rparr>)" for a b
    by (rule objects.frame_trans [OF objects_kept_tables(1) objects_kept_tables(2)])
  then have "objects_kept z v"
    using v objects.frame_trans [OF _ keptD(1) [OF kept_retain [of "{}"]]] by metis
  moreover have "reactor.more v = reactor.more z" using v by auto
  ultimately show "objects_kept w v" "reactor.more v = reactor.more w"
    using keptD [OF k] objects.frame_trans by metis+
qed

lemma Init_objects:
  assumes "Init h w = Inr v"
  shows "objects_kept w v" "reactor.more v = reactor.more w"
proof -
  from assms obtain x where x: "https w h = Some x" by (auto simp: Init_def)
  let ?c = "channel x"
  let ?u = "put_channel ?c (SetHolder h (channels w ?c)) w"
  let ?z = "put_channel ?c (SetToListenEvents (EPOLLIN OR EPOLLET) (channels ?u ?c)) ?u"
  have u: "objects_kept w ?u" by (rule objects_kept_put_channel) (simp add: bindings_def)
  have z: "objects_kept ?u ?z" by (rule objects_kept_put_channel) (simp add: bindings_def)
  have "EpollAdd ?c DEFAULT_EXPIRE_TIME ?z = Inr v" using assms x by (simp add: Init_def AddToEpoller_def Let_def)
  from EpollAdd_objects [OF this] objects.frame_trans [OF objects.frame_trans [OF u z]]
  show "objects_kept w v" "reactor.more v = reactor.more w" by simp_all
qed

lemma drop_callbacks_kept: "kept H w (drop_callbacks cbs w)"
proof (induction cbs arbitrary: w)
  case (Cons cb cbs)
  show ?case
  proof (cases "bound_ref cb")
    case None
    then show ?thesis using Cons by simp
  next
    case (Some h)
    then show ?thesis using kept.frame_trans [OF kept_release Cons] by simp
  qed
qed (simp add: kept.frame_refl)

lemma objects_kept_members:
  "objects_kept w (w\<lparr>running_callbacks := b\<rparr>)" "objects_kept w (w\<lparr>callback_list := l\<rparr>)"
  "objects_kept w (w\<lparr>is_looping := b\<rparr>)"
  by (simp_all add: objects_kept_def balance_def conns_on_def)

lemma DoCallbacks_objects:
  fixes w :: event_loop
  assumes "callback_list w = map (\<lambda>e. CB_Init (fst e)) q" "DoCallbacks (run_callback srv fs) w = Inr v"
  shows "objects_kept w v" "wakeup_fd v = wakeup_fd w" "wakeup_channel v = wakeup_channel w" "thread_id v = thread_id w"
    "is_looping v = is_looping w"
proof -
  define u where "u = w\<lparr>running_callbacks := True, callback_list := []\<rparr>"
  define cbs where "cbs = map (\<lambda>e. CB_Init (fst e)) q"
  have u: "objects_kept w u" using objects.frame_trans [OF objects_kept_members(1,2)] by (simp add: u_def)
  obtain z where z: "forR (run_callback srv fs) cbs u = Inr z"
    "v = drop_callbacks cbs (z\<lparr>running_callbacks := False\<rparr>)"
    using assms by (auto simp: DoCallbacks_def Let_def u_def cbs_def)
  have one: "objects_kept a b \<and> reactor.more b = reactor.more a"
    if "cb \<in> set cbs" "run_callback srv fs cb a = Inr b" for cb and a b :: event_loop
    using that Init_objects by (auto simp: cbs_def)
  have "objects_kept u z" using objects.forR_frame [OF _ z(1)] one by blast
  moreover have more: "reactor.more z = reactor.more u"
    using forR_invariant [of cbs "\<lambda>a. reactor.more a = reactor.more u" "run_callback srv fs" u z] one z(1) by auto
  moreover have k: "kept {} (z\<lparr>running_callbacks := False\<rparr>) v" unfolding z(2) by (rule drop_callbacks_kept)
  ultimately show "objects_kept w v"
    using objects.frame_trans [OF u] objects.frame_trans [OF objects_kept_members(1)] objects.frame_trans keptD(1) by blast
  show "wakeup_fd v = wakeup_fd w" "wakeup_channel v = wakeup_channel w" "is_looping v = is_looping w"
    "thread_id v = thread_id w"
    using same_loop_members [OF keptD(3) [OF k]] same_loop_members [OF more] by (simp_all add: u_def)
qed

lemma count_list_Nil: "count_list [] = (\<lambda>_. 0)"
  by (simp add: fun_eq_iff)

lemma DoCallbacks_ok:
  assumes wk: "worker_ok q w"
  obtains v where "DoCallbacks (run_callback srv fs) w = Inr v" "worker_ok [] v" "objects_kept w v"
    "is_looping v = is_looping w" "wakeup_fd v = wakeup_fd w" "thread_id v = thread_id w"
proof -
  note d = worker_okD [OF wk]
  obtain v where v: "DoCallbacks (run_callback srv fs) w = Inr v" "reactor_ok (\<lambda>_. 0) v" "callback_list v = []"
    "\<forall>e \<in> set q. fd2http v (snd e) = Some (Some (fst e))"
    "\<forall>fd. fd \<notin> snd ` set q \<longrightarrow> fd2http v fd = fd2http w fd \<and> fd2channel v fd = fd2channel w fd"
    using DoCallbacks_awaiting [OF d(1,3), of srv fs] by blast
  note o = DoCallbacks_objects [OF d(3) v(1)]
  have "channel y < next_id v" if "https v h = Some y" for h y
    using objects_keptD(2) [OF o(1) that] awaitingD(4) [OF d(1)] objects_keptD(1) [OF o(1)] by fastforce
  then have "awaiting (count_list (map fst [])) v []" using v(2) by (simp add: awaiting_def count_list_Nil)
  moreover have "known_fds v" unfolding known_fds_def
  proof (intro allI impI)
    fix fd assume fd: "fd2http v fd \<noteq> None \<or> fd2channel v fd \<noteq> None"
    show "fd = wakeup_fd v \<or> (\<exists>h. fd2http v fd = Some (Some h))"
    proof (cases "fd \<in> snd ` set q")
      case True
      then show ?thesis using v(4) by auto
    next
      case False
      with v(5) have "fd2http v fd = fd2http w fd" "fd2channel v fd = fd2channel w fd" by auto
      then show ?thesis using fd d(5) [unfolded known_fds_def, THEN spec, of fd] o(2) by metis
    qed
  qed
  moreover have "wakeup_ok v"
  proof -
    have "wakeup_fd w \<notin> snd ` set q"
    proof
      assume "wakeup_fd w \<in> snd ` set q"
      then obtain e where "e \<in> set q" "snd e = wakeup_fd w" by auto
      with awaitingD(3) [OF d(1)] have "fd2http w (wakeup_fd w) = None" by (fastforce simp: waits_def)
      then show False using d(6) by (simp add: wakeup_ok_def)
    qed
    with v(5) have "fd2http v (wakeup_fd w) = fd2http w (wakeup_fd w)" "fd2channel v (wakeup_fd w) = fd2channel w (wakeup_fd w)"
      by auto
    then show ?thesis using d(6) o(2,3) objects_keptD(1) [OF o(1)] objects_keptD(3) [OF o(1), of "wakeup_channel w"]
      by (simp add: wakeup_ok_def)
  qed
  ultimately have "worker_ok [] v" using v(3) bound_conns_kept [OF o(1,3,2) d(4)] by (simp add: worker_ok_def)
  then show thesis using that v(1) o by blast
qed

section \<open>Expiry\<close>

lemma HandleExpire_worker:
  assumes wk: "worker_ok q w"
  obtains v where "HandleExpire w = Inr v" "worker_ok q v" "kept UNIV w v"
proof -
  obtain v where v: "HandleExpire w = Inr v" "reactor_ok (count_list (map fst q)) v"
    using HandleExpire_ok [OF worker_okD(2) [OF wk]] by blast
  note k = HandleExpire_kept [OF worker_okD(2) [OF wk] v(1)]
  show thesis by (rule that [OF v(1) worker_ok_kept [OF k v(2) wk] k])
qed

section \<open>Handing a connection over\<close>

lemma finite_conns:
  assumes "reactor_ok extra w"
  shows "finite (dom (https w))"
proof -
  have "dom (https w) \<subseteq> {..<next_id w}" using refs_okD(2) [OF assms] by fastforce
  then show ?thesis using finite_subset by blast
qed

text \<open>The kernel gives out a descriptor that is not open.\<close>

definition free_descriptor :: "int \<Rightarrow> event_loop \<Rightarrow> bool" where
  "free_descriptor fd w \<longleftrightarrow> fd \<noteq> wakeup_fd w \<and> (\<forall>h x. https w h = Some x \<longrightarrow> sock_fd x \<noteq> fd)"

lemma free_descriptor_unknown:
  assumes "worker_ok q w" "free_descriptor fd w"
  shows "fd2http w fd = None" "fd2channel w fd = None" "fd \<notin> snd ` set q"
proof -
  note d = worker_okD [OF assms(1)]
  have "fd2http w fd \<noteq> Some (Some h)" for h
    using table_entry [OF d(2), of fd h] assms(2) by (fastforce simp: free_descriptor_def)
  then show "fd2http w fd = None" "fd2channel w fd = None"
    using d(5) [unfolded known_fds_def, THEN spec, of fd] assms(2) by (auto simp: free_descriptor_def)
  show "fd \<notin> snd ` set q"
  proof
    assume "fd \<in> snd ` set q"
    then obtain h where "(h, fd) \<in> set q" by auto
    from awaitingD(3) [OF d(1) this] show False using assms(2) by (auto simp: waits_def free_descriptor_def)
  qed
qed

lemma free_descriptor_none: "free_descriptor fd w \<Longrightarrow> conns_on w fd = {}"
  by (auto simp: conns_on_def free_descriptor_def)

lemma queued_worker_members:
  fixes w :: event_loop
  assumes "http_rc w (Suc (next_id w)) = 0"
  shows "wakeup_fd (queued_worker fd w) = wakeup_fd w" "wakeup_channel (queued_worker fd w) = wakeup_channel w"
    "is_looping (queued_worker fd w) = is_looping w" "sys_log (queued_worker fd w) = sys_log w"
  using assms
  by (simp_all add: queued_worker_def make_Http_def Let_def QueueINCallback_def WakeUpTargetEventLoop_def
      put_http_def put_channel_def put_sock_def retain_def release_def split: prod.split)

lemma hand_over_ok:
  assumes wk: "worker_ok q w" and free: "free_descriptor fd w"
  shows "worker_ok (q @ [(Suc (next_id w), fd)]) (queued_worker fd w)"
    "balance (queued_worker fd w) fd' = balance w fd' + (if fd' = fd then 1 else 0)"
    "wakeup_fd (queued_worker fd w) = wakeup_fd w"
    "card (conns_on (queued_worker fd w) fd') = card (conns_on w fd') + (if fd' = fd then 1 else 0)"
proof -
  let ?h = "Suc (next_id w)" and ?v = "queued_worker fd w"
  note d = worker_okD [OF wk] and u = free_descriptor_unknown [OF wk free]
  have none: "https w ?h = None" using refs_okD(2) [OF d(2), of ?h] by (cases "https w ?h") auto
  have rc: "http_rc w ?h = 0" using refs_okD(1) [OF d(2) none] by simp
  note s = queued_worker_shape [OF rc, of fd] and m = queued_worker_members [OF rc, of fd]
  have wc: "wakeup_channel w < next_id w" using d(6) by (simp add: wakeup_ok_def)
  have "bound_conns ?v" unfolding bound_conns_def
  proof (intro allI impI)
    fix h x assume x: "https ?v h = Some x"
    show "handlers_bound h (channels ?v (channel x)) \<and> error_callback (channels ?v (channel x)) = None \<and>
        channel x \<noteq> wakeup_channel ?v \<and> sock_fd x \<noteq> wakeup_fd ?v"
    proof (cases "h = ?h")
      case True
      then have "x = new_Http (next_id w) fd True" using x by (simp add: s)
      then show ?thesis using True wc free
        by (simp add: s m new_Http_def new_channel_of_def handlers_bound_def new_Channel_def free_descriptor_def)
    next
      case False
      then have x': "https w h = Some x" using x by (simp add: s)
      then have "channel x \<noteq> next_id w" using awaitingD(4) [OF d(1)] by fastforce
      then show ?thesis using d(4) x' by (simp add: s m bound_conns_def)
    qed
  qed
  moreover have "known_fds ?v" using d(5) by (simp add: known_fds_def s m)
  moreover have "wakeup_ok ?v" using d(6) wc by (simp add: wakeup_ok_def s m)
  ultimately show "worker_ok (q @ [(?h, fd)]) ?v"
    using queued_worker_awaiting [OF d(1) u] d(3) by (simp add: worker_ok_def s)
  have "conns_on ?v fd' = (if fd' = fd then insert ?h (conns_on w fd') else conns_on w fd')"
    using none by (auto simp: conns_on_def s new_Http_def)
  moreover have "?h \<notin> conns_on w fd'" using none by (simp add: conns_on_def)
  moreover have "finite (conns_on w fd')"
    by (rule finite_subset [OF _ finite_conns [OF d(2)]]) (auto simp: conns_on_def)
  ultimately show "card (conns_on ?v fd') = card (conns_on w fd') + (if fd' = fd then 1 else 0)"
    by (cases "fd' = fd") simp_all
  then show "balance ?v fd' = balance w fd' + (if fd' = fd then 1 else 0)" by (simp add: balance_def m)
  show "wakeup_fd ?v = wakeup_fd w" by (rule m(1))
qed

section \<open>The life of a worker's loop\<close>

text \<open>
  The test of the loop and the three parts of an iteration are separate steps of the worker's thread,
  between which other threads hand connections over or call \<open>Quit\<close>: a thread that is told to quit while
  it waits in the poll makes one more iteration. \<open>handed\<close> records the descriptors in the order in which they came.
\<close>

datatype life_stage = At_Check | At_Poll | At_Callbacks | At_Expiry

record life =
  stage :: life_stage
  idle_polls :: nat
  handed :: "int list"
  the_loop :: event_loop

definition goes_on :: "life \<Rightarrow> bool" where
  "goes_on s \<longleftrightarrow> is_looping (the_loop s) \<and> idle_polls s < 5"

inductive worker_step :: "files \<Rightarrow> life \<Rightarrow> life \<Rightarrow> bool" for fs :: files where
  check: "stage s = At_Check \<Longrightarrow> goes_on s \<Longrightarrow> worker_step fs s (s\<lparr>stage := At_Poll\<rparr>)"
| poll: "stage s = At_Poll \<Longrightarrow> kernel_events returned (the_loop s) \<Longrightarrow>
    EpollWait returned (the_loop s) = (active, w) \<Longrightarrow>
    forR (\<lambda>c w. HandleEvents (run_callback no_server fs) (channels w c) w) active w = Inr v \<Longrightarrow>
    worker_step fs s (s\<lparr>stage := At_Callbacks, the_loop := v,
      idle_polls := (if length active = 0 then idle_polls s + 1 else idle_polls s)\<rparr>)"
| callbacks: "stage s = At_Callbacks \<Longrightarrow> DoCallbacks (run_callback no_server fs) (the_loop s) = Inr v \<Longrightarrow>
    worker_step fs s (s\<lparr>stage := At_Expiry, the_loop := v\<rparr>)"
| expiry: "stage s = At_Expiry \<Longrightarrow> HandleExpire (the_loop s) = Inr v \<Longrightarrow>
    worker_step fs s (s\<lparr>stage := At_Check, the_loop := v\<rparr>)"

inductive life_step :: "files \<Rightarrow> life \<Rightarrow> life \<Rightarrow> bool" for fs :: files where
  hand_over: "free_descriptor fd (the_loop s) \<Longrightarrow>
    life_step fs s (s\<lparr>the_loop := queued_worker fd (the_loop s), handed := handed s @ [fd]\<rparr>)"
| quit: "life_step fs s (s\<lparr>the_loop := Quit (the_loop s)\<rparr>)"
| own: "worker_step fs s t \<Longrightarrow> life_step fs s t"

inductive life_reachable :: "files \<Rightarrow> event_loop \<Rightarrow> life \<Rightarrow> bool" for fs :: files and w0 :: event_loop where
  begin_life: "life_reachable fs w0 \<lparr>stage = At_Check, idle_polls = 0, handed = [], the_loop = w0\<rparr>"
| step_life: "life_reachable fs w0 s \<Longrightarrow> life_step fs s t \<Longrightarrow> life_reachable fs w0 t"

inductive_cases life_stepE: "life_step fs s t"

inductive_cases worker_stepE: "worker_step fs s t"

text \<open>The steps make an iteration of \<open>Loop\<close>.\<close>

lemma iteration_steps:
  assumes "life_reachable fs w0 s" "stage s = At_Check" "goes_on s" "kernel_events returned (the_loop s)"
    and "loop_iteration (run_callback no_server fs) returned (idle_polls s) (the_loop s) = Inr (n, v)"
  shows "life_reachable fs w0 (s\<lparr>idle_polls := n, the_loop := v\<rparr>)"
proof -
  obtain active u where p: "EpollWait returned (the_loop s) = (active, u)" by fastforce
  obtain v1 v2 where i: "forR (\<lambda>c w. HandleEvents (run_callback no_server fs) (channels w c) w) active u = Inr v1"
    "DoCallbacks (run_callback no_server fs) v1 = Inr v2" "HandleExpire v2 = Inr v"
    "n = (if length active = 0 then idle_polls s + 1 else idle_polls s)"
    using assms(5) p by (auto simp: loop_iteration_def)
  let ?s0 = "s\<lparr>stage := At_Poll\<rparr>"
  let ?s1 = "?s0\<lparr>stage := At_Callbacks, the_loop := v1, idle_polls := n\<rparr>"
  let ?s2 = "?s1\<lparr>stage := At_Expiry, the_loop := v2\<rparr>"
  have s1: "?s1 = ?s0\<lparr>stage := At_Callbacks, the_loop := v1,
      idle_polls := (if length active = 0 then idle_polls ?s0 + 1 else idle_polls ?s0)\<rparr>" by (cases s) (simp add: i(4))
  have "life_reachable fs w0 ?s0" by (rule step_life [OF assms(1) own [OF check [OF assms(2,3)]]])
  moreover have "life_step fs ?s0 ?s1" unfolding s1 by (rule own [OF poll]) (use assms(4) p i(1) in simp_all)
  ultimately have "life_reachable fs w0 ?s1" by (rule step_life)
  moreover have "life_step fs ?s1 ?s2" by (rule own [OF callbacks]) (simp_all add: i(2))
  ultimately have "life_reachable fs w0 ?s2" by (rule step_life)
  moreover have "life_step fs ?s2 (?s2\<lparr>stage := At_Check, the_loop := v\<rparr>)" by (rule own [OF expiry]) (simp_all add: i(3))
  ultimately have "life_reachable fs w0 (?s2\<lparr>stage := At_Check, the_loop := v\<rparr>)" by (rule step_life)
  moreover have "?s2\<lparr>stage := At_Check, the_loop := v\<rparr> = s\<lparr>idle_polls := n, the_loop := v\<rparr>"
    using assms(2) by (cases s) simp
  ultimately show ?thesis by simp
qed

text \<open>What holds throughout: each descriptor was closed as often as it was handed over, but for the
  connections that are alive.\<close>

definition life_ok :: "int \<Rightarrow> life \<Rightarrow> bool" where
  "life_ok efd s \<longleftrightarrow> (\<exists>q. worker_ok q (the_loop s)) \<and> wakeup_fd (the_loop s) = efd \<and>
     (\<forall>fd. balance (the_loop s) fd = count_list (handed s) fd \<and> card (conns_on (the_loop s) fd) \<le> 1)"

lemma card_conns_kept:
  assumes "worker_ok q w" "objects_kept w v"
  shows "card (conns_on v fd) \<le> card (conns_on w fd)"
proof (rule card_mono)
  show "finite (conns_on w fd)"
    by (rule finite_subset [OF _ finite_conns [OF worker_okD(2) [OF assms(1)]]]) (auto simp: conns_on_def)
  show "conns_on v fd \<subseteq> conns_on w fd" using objects_keptD(2) [OF assms(2)] by (fastforce simp: conns_on_def)
qed

lemma life_okI:
  assumes "worker_ok q w" "objects_kept w v" "worker_ok q' v" "wakeup_fd v = wakeup_fd w"
    "wakeup_fd w = efd" "\<forall>fd. balance w fd = count_list hs fd \<and> card (conns_on w fd) \<le> 1"
  shows "\<exists>q. worker_ok q v" "wakeup_fd v = efd"
    "\<forall>fd. balance v fd = count_list hs fd \<and> card (conns_on v fd) \<le> 1"
proof -
  note fin = finite_conns [OF worker_okD(2) [OF assms(1)]]
  show "\<forall>fd. balance v fd = count_list hs fd \<and> card (conns_on v fd) \<le> 1"
    using assms(6) objects_keptD(4) [OF assms(2) fin] card_conns_kept [OF assms(1,2)] le_trans by metis
qed (use assms in auto)

lemma Quit_ok: "worker_ok q w \<Longrightarrow> worker_ok q (Quit w)"
proof -
  assume wk: "worker_ok q w"
  have "awaiting (count_list (map fst q)) (Quit w) q"
    by (rule awaiting_same [OF worker_okD(1) [OF wk]]) (simp_all add: Quit_def)
  then show ?thesis using wk
    by (simp add: worker_ok_def Quit_def bound_conns_def known_fds_def wakeup_ok_def)
qed

text \<open>A step of the worker's own thread.\<close>

lemma worker_step_kept:
  assumes "worker_step fs s t" and q: "worker_ok q (the_loop s)"
  obtains q' where "worker_ok q' (the_loop t)" "objects_kept (the_loop s) (the_loop t)" "handed t = handed s"
    "wakeup_fd (the_loop t) = wakeup_fd (the_loop s)" "thread_id (the_loop t) = thread_id (the_loop s)"
    "is_looping (the_loop t) = is_looping (the_loop s)"
  using assms(1)
proof (cases rule: worker_step.cases)
  case check
  show thesis by (rule that [of q]) (use check q objects.frame_refl in simp_all)
next
  case (poll returned active w v)
  note p = EpollWait_ok [OF q poll(3,4)]
  from dispatch_ok [OF p(1,4,5), of no_server fs] poll(5) have v: "kept UNIV w v" "worker_ok q v" by auto
  show thesis
    by (rule that [of q])
      (use poll(1) v(2) objects.frame_trans [OF p(2) keptD(1) [OF v(1)]] same_loop_members(2,4,5) [OF p(3)]
        same_loop_members(2,4,5) [OF keptD(3) [OF v(1)]] in simp_all)
next
  case (callbacks v)
  obtain v' where v': "DoCallbacks (run_callback no_server fs) (the_loop s) = Inr v'" "worker_ok [] v'"
    "objects_kept (the_loop s) v'" "wakeup_fd v' = wakeup_fd (the_loop s)" "thread_id v' = thread_id (the_loop s)"
    "is_looping v' = is_looping (the_loop s)"
    using DoCallbacks_ok [OF q] by metis
  show thesis by (rule that [of "[]"]) (use callbacks v' in simp_all)
next
  case (expiry v)
  obtain v' where v': "HandleExpire (the_loop s) = Inr v'" "worker_ok q v'" "kept UNIV (the_loop s) v'"
    by (rule HandleExpire_worker [OF q])
  show thesis
    by (rule that [of q])
      (use expiry v' keptD(1) [OF v'(3)] same_loop_members(2,4,5) [OF keptD(3) [OF v'(3)]] in simp_all)
qed

lemma worker_step_ok:
  assumes "worker_step fs s t" "life_ok efd s"
  shows "life_ok efd t"
proof -
  from assms(2) obtain q where q: "worker_ok q (the_loop s)" "wakeup_fd (the_loop s) = efd"
    "\<forall>fd. balance (the_loop s) fd = count_list (handed s) fd \<and> card (conns_on (the_loop s) fd) \<le> 1"
    by (auto simp: life_ok_def)
  obtain q' where k: "worker_ok q' (the_loop t)" "objects_kept (the_loop s) (the_loop t)" "handed t = handed s"
    "wakeup_fd (the_loop t) = wakeup_fd (the_loop s)" by (rule worker_step_kept [OF assms(1) q(1)])
  show ?thesis using life_okI [OF q(1) k(2,1,4) q(2,3)] k(3) by (simp add: life_ok_def)
qed

lemma Quit_life_ok: "life_ok efd s \<Longrightarrow> life_ok efd (s\<lparr>the_loop := Quit (the_loop s)\<rparr>)"
proof -
  assume "life_ok efd s"
  then obtain q where q: "worker_ok q (the_loop s)" "wakeup_fd (the_loop s) = efd"
    "\<forall>fd. balance (the_loop s) fd = count_list (handed s) fd \<and> card (conns_on (the_loop s) fd) \<le> 1"
    by (auto simp: life_ok_def)
  have "objects_kept (the_loop s) (Quit (the_loop s))" "wakeup_fd (Quit (the_loop s)) = wakeup_fd (the_loop s)"
    using objects_kept_members(3) objects.frame_refl by (auto simp: Quit_def)
  from life_okI [OF q(1) this(1) Quit_ok [OF q(1)] this(2) q(2,3)] show ?thesis by (simp add: life_ok_def)
qed

lemma hand_over_life_ok:
  assumes "life_ok efd s" "free_descriptor fd (the_loop s)"
  shows "life_ok efd (s\<lparr>the_loop := queued_worker fd (the_loop s), handed := handed s @ [fd]\<rparr>)"
proof -
  from assms(1) obtain q where q: "worker_ok q (the_loop s)" "wakeup_fd (the_loop s) = efd"
    "\<forall>fd. balance (the_loop s) fd = count_list (handed s) fd \<and> card (conns_on (the_loop s) fd) \<le> 1"
    by (auto simp: life_ok_def)
  have "conns_on (the_loop s) fd = {}" by (rule free_descriptor_none [OF assms(2)])
  then have "card (conns_on (queued_worker fd (the_loop s)) fd') \<le> 1" for fd'
    using hand_over_ok(4) [OF q(1) assms(2), of fd'] q(3) by (cases "fd' = fd") simp_all
  then show ?thesis using hand_over_ok(1-3) [OF q(1) assms(2)] q by (auto simp: life_ok_def)
qed

lemma life_step_ok:
  assumes "life_step fs s t" "life_ok efd s"
  shows "life_ok efd t"
  using assms by (cases rule: life_step.cases) (simp_all add: hand_over_life_ok Quit_life_ok worker_step_ok)

lemma new_EventLoop_worker_ok:
  assumes "new_EventLoop tid efd clk sks = Inr w"
  shows "worker_ok [] w" "wakeup_fd w = efd" "balance w fd = 0" "conns_on w fd = {}"
proof -
  have f: "https w = Map.empty" "fd2http w = [efd \<mapsto> None]" "fd2channel w = [efd \<mapsto> Some 0]" "wakeup_fd w = efd"
    "wakeup_channel w = 0" "next_id w = 1" "sys_log w = [Sys_epoll_ctl EPOLL_CTL_ADD efd (EPOLLIN OR EPOLLET)]"
    "channels w 0 = (new_Channel efd)\<lparr>to_listen_events := EPOLLIN OR EPOLLET\<rparr>"
    using assms
    by (auto simp: new_EventLoop_def empty_loop_def EpollAdd_def Let_def map_insert_def GetHolder_def new_Channel_def
        log_call_def put_channel_def fun_eq_iff)
  note a = new_EventLoop_awaiting [OF assms]
  show "worker_ok [] w" using a(1,2)
    by (simp add: worker_ok_def bound_conns_def known_fds_def wakeup_ok_def f bindings_def new_Channel_def)
  show "wakeup_fd w = efd" by (rule f)
  show "balance w fd = 0" "conns_on w fd = {}" by (simp_all add: balance_def conns_on_def closes_def f)
qed

lemma life_reachable_ok:
  assumes "life_reachable fs w0 s" "new_EventLoop tid efd clk sks = Inr w0"
  shows "life_ok efd s"
  using assms
proof (induction rule: life_reachable.induct)
  case begin_life
  then show ?case using new_EventLoop_worker_ok [OF begin_life] by (auto simp: life_ok_def)
next
  case (step_life s t)
  then show ?case using life_step_ok by blast
qed

lemma worker_iteration:
  assumes wk: "worker_ok q w" and k: "kernel_events returned w"
  shows "(\<exists>n' v. loop_iteration (run_callback no_server fs) returned n w = Inr (n', v) \<and> worker_ok [] v) \<or>
    (\<exists>f active w1 b h x. loop_iteration (run_callback no_server fs) returned n w = Inl f \<and>
       EpollWait returned w = (active, w1) \<and> stops_at_refusal no_server fs active w1 f b h x \<and>
       sock_fd x \<in> fst ` set returned)"
proof -
  obtain active v where p: "EpollWait returned w = (active, v)" by fastforce
  note e = EpollWait_ok [OF wk k p]
  let ?disp = "forR (\<lambda>c w. HandleEvents (run_callback no_server fs) (channels w c) w) active v"
  have run: "loop_iteration (run_callback no_server fs) returned n w =
      bindR ?disp (\<lambda>w. bindR (DoCallbacks (run_callback no_server fs) w) (\<lambda>w. bindR (HandleExpire w) (\<lambda>w.
        Inr (if length active = 0 then n + 1 else n, w))))"
    by (simp add: loop_iteration_def p Let_def)
  from dispatch_ok [OF e(1,4,5), of no_server fs] show ?thesis
  proof (elim disjE exE conjE)
    fix z assume z: "?disp = Inr z" "worker_ok q z"
    obtain y where y: "DoCallbacks (run_callback no_server fs) z = Inr y" "worker_ok [] y"
      using DoCallbacks_ok [OF z(2)] by metis
    obtain x where "HandleExpire y = Inr x" "worker_ok [] x" by (rule HandleExpire_worker [OF y(2)])
    then show ?thesis using run z(1) y(1) by simp
  next
    fix f u h x assume u': "?disp = Inl f" "kept UNIV v u" "worker_ok q u" "stops_at_refusal no_server fs active v f u h x"
    then have u: "?disp = Inl f" "kept UNIV v u" "worker_ok q u" "registered u h" "https u h = Some x"
      "channel x \<in> set active" by (auto simp: stops_at_refusal_def)
    note r = holder_registered [OF worker_okD(2) [OF u(3)] u(4,5)]
    have "chan_fd (channels v (channel x)) = sock_fd x"
      using r(4) objects_keptD(3) [OF keptD(1) [OF u(2)], of "channel x"] by (simp add: bindings_def)
    then have "sock_fd x \<in> set (map (\<lambda>c. chan_fd (channels v c)) active)" using u(6) by force
    then have "sock_fd x \<in> fst ` set returned" unfolding e(8) by simp
    moreover have "loop_iteration (run_callback no_server fs) returned n w = Inl f" using run u(1) by simp
    ultimately show ?thesis using u'(4) p by blast
  qed
qed

section \<open>Properties\<close>

text \<open>
  Throughout the life of a worker's loop, whatever connections are handed over, whatever the polls
  report and the clients send, and whenever \<open>Quit\<close> is called: the invariant of the reactor holds, at
  most one connection is open on a descriptor, and a descriptor has been closed as often as it was
  handed over, but for the connection that is open on it.
\<close>

theorem loop_life_invariant:
  assumes "life_reachable fs w0 s" "new_EventLoop tid efd clk sks = Inr w0"
  shows "(\<exists>extra. reactor_ok extra (the_loop s)) \<and>
    (\<forall>fd. card (conns_on (the_loop s) fd) \<le> 1 \<and>
       card (conns_on (the_loop s) fd) + closes fd (sys_log (the_loop s)) = count_list (handed s) fd)"
proof -
  from life_reachable_ok [OF assms] obtain q where q: "worker_ok q (the_loop s)"
    "\<forall>fd. balance (the_loop s) fd = count_list (handed s) fd \<and> card (conns_on (the_loop s) fd) \<le> 1"
    by (auto simp: life_ok_def)
  then show ?thesis using worker_okD(2) [OF q(1)] by (auto simp: balance_def)
qed

text \<open>A loop that was made and got one connection.\<close>

lemma one_hand_over:
  obtains w where "new_EventLoop 2 5 (\<lambda>_. (0, 0)) (\<lambda>_. quiet_sock) = Inr w"
    "life_reachable fs w \<lparr>stage = At_Check, idle_polls = 0, handed = [7], the_loop = queued_worker 7 w\<rparr>"
proof -
  obtain w where w: "new_EventLoop 2 5 (\<lambda>_. (0, 0)) (\<lambda>_. quiet_sock) = Inr w" using new_EventLoop_runs by blast
  note ok = new_EventLoop_worker_ok [OF w]
  have "sock_fd x \<noteq> 7" if "https w h = Some x" for h x using ok(4) [of "sock_fd x"] that by (auto simp: conns_on_def)
  then have "free_descriptor 7 (the_loop \<lparr>stage = At_Check, idle_polls = 0, handed = [], the_loop = w\<rparr>)"
    using ok(2) by (simp add: free_descriptor_def)
  from step_life [OF begin_life hand_over [OF this]] that [OF w] show thesis by simp
qed

lemma loop_life_invariant_witness:
  "\<exists>w. new_EventLoop 2 5 (\<lambda>_. (0, 0)) (\<lambda>_. quiet_sock) = Inr w \<and>
     card (conns_on (queued_worker 7 w) 7) + closes 7 (sys_log (queued_worker 7 w)) = 1"
proof -
  obtain w where w: "new_EventLoop 2 5 (\<lambda>_. (0, 0)) (\<lambda>_. quiet_sock) = Inr w"
    "life_reachable (one_file ''a'' ''b'') w \<lparr>stage = At_Check, idle_polls = 0, handed = [7], the_loop = queued_worker 7 w\<rparr>"
    by (rule one_hand_over)
  then show ?thesis using loop_life_invariant [OF w(2,1)] by auto
qed

text \<open>
  C7. At every point of the life of a worker's loop, an iteration with any events either goes through
  and restores the invariant with no callback waiting, or faults; and it faults only at a refusal: the
  channels the poll returned before some \<open>channel x\<close> go through; \<open>x\<close> is then a registered connection
  on a reported descriptor with an input event; and \<open>HandleRead\<close>, after \<open>HandleWrite\<close> if there was an
  output event too, either ends in the fault itself or closes the connection, so that the connection
  callback that follows ends in it.
\<close>

theorem loop_faults_only_in_refusals:
  assumes "life_reachable fs w0 s" "new_EventLoop tid efd clk sks = Inr w0" "kernel_events returned (the_loop s)"
  shows "(\<exists>n' v. loop_iteration (run_callback no_server fs) returned n (the_loop s) = Inr (n', v) \<and>
      reactor_ok (\<lambda>_. 0) v \<and> callback_list v = []) \<or>
    (\<exists>f w1 before after b h x ev u. loop_iteration (run_callback no_server fs) returned n (the_loop s) = Inl f \<and>
      EpollWait returned (the_loop s) = (before @ channel x # after, w1) \<and>
      forR (\<lambda>c w. HandleEvents (run_callback no_server fs) (channels w c) w) before w1 = Inr b \<and>
      registered b h \<and> https b h = Some x \<and> sock_fd x \<in> fst ` set returned \<and>
      active_events (channels b (channel x)) = Some ev \<and> has_event ev input_events \<and>
      (if has_event ev EPOLLOUT then HandleWrite h b else Inr b) = Inr u \<and>
      (HandleRead fs h u = Inl f \<or>
       (\<exists>v. HandleRead fs h u = Inr v \<and> \<not> registered v h \<and> HandleCurrentConn h v = Inl f)))"
proof -
  from life_reachable_ok [OF assms(1,2)] obtain q where "worker_ok q (the_loop s)" by (auto simp: life_ok_def)
  from worker_iteration [OF this assms(3), of fs n] show ?thesis
  proof (elim disjE exE conjE)
    fix n' v assume "loop_iteration (run_callback no_server fs) returned n (the_loop s) = Inr (n', v)" "worker_ok [] v"
    then show ?thesis using worker_okD(2) [of "[]" v] worker_okD(3) [of "[]" v] by (simp add: count_list_Nil)
  next
    fix f active w1 b h x
    assume f: "loop_iteration (run_callback no_server fs) returned n (the_loop s) = Inl f"
      "EpollWait returned (the_loop s) = (active, w1)" "stops_at_refusal no_server fs active w1 f b h x"
      "sock_fd x \<in> fst ` set returned"
    from f(3) obtain before after ev u where r: "active = before @ channel x # after"
      "forR (\<lambda>c w. HandleEvents (run_callback no_server fs) (channels w c) w) before w1 = Inr b"
      "registered b h" "https b h = Some x" "active_events (channels b (channel x)) = Some ev" "has_event ev input_events"
      "(if has_event ev EPOLLOUT then HandleWrite h b else Inr b) = Inr u" "refuses fs h u f"
      unfolding stops_at_refusal_def by blast
    have "HandleRead fs h u = Inl f \<or> (\<exists>v. HandleRead fs h u = Inr v \<and> \<not> registered v h \<and> HandleCurrentConn h v = Inl f)"
      using r(8) by (auto simp: refuses_def split: sum.split_asm)
    then show ?thesis using f(1,2,4) r(1-7) by blast
  qed
qed

lemma loop_faults_only_in_refusals_witness:
  "\<exists>w n v. new_EventLoop 2 5 (\<lambda>_. (0, 0)) (\<lambda>_. quiet_sock) = Inr w \<and>
     loop_iteration (run_callback no_server (one_file ''a'' ''b'')) [] 0 (queued_worker 7 w) = Inr (n, v) \<and> callback_list v = []"
proof -
  obtain w where w: "new_EventLoop 2 5 (\<lambda>_. (0, 0)) (\<lambda>_. quiet_sock) = Inr w"
    "life_reachable (one_file ''a'' ''b'') w \<lparr>stage = At_Check, idle_polls = 0, handed = [7], the_loop = queued_worker 7 w\<rparr>"
    by (rule one_hand_over)
  show ?thesis using loop_faults_only_in_refusals [OF w(2,1), of "[]" 0] w(1) by (auto simp: kernel_events_def)
qed

end
