(* ===== verification/Loop_Teardown.thy ===== *)
theory Loop_Teardown
  imports Loop_Life
begin

text \<open>
  The end of a worker's loop: the destructors of the loop and of its poller run without a fault from
  every state the loop can be in, whatever the order of the elements in its containers, and leave no
  connection behind. With what holds during the life of the loop, every descriptor is closed exactly
  as often as it was handed over.
\<close>

section \<open>The steps of the destructors\<close>

text \<open>Entries that hold no connection can go, and entries for channels can do what they like.\<close>

lemma reactor_ok_tables:
  assumes ok: "reactor_ok extra w" and http: "\<And>fd h. fd2http v fd = Some (Some h) \<longleftrightarrow> fd2http w fd = Some (Some h)"
    and chan: "\<And>fd h. fd2http w fd = Some (Some h) \<Longrightarrow> fd2channel v fd = fd2channel w fd"
    and same: "https v = https w" "http_rc v = http_rc w" "channels v = channels w" "nodes v = nodes w"
      "timer_node_queue v = timer_node_queue w" "next_id v = next_id w"
  shows "reactor_ok extra v"
proof (rule reactor_okI)
  note d = reactor_okD [OF ok]
  have reg: "registered v = registered w" by (simp add: fun_eq_iff registered_def http)
  have tim: "timed v = timed w" by (simp add: fun_eq_iff timed_def same)
  show "queue_ok v" using d(1) by (simp add: queue_ok_def same)
  show "timers_ok v" using d(2) by (simp add: timers_ok_def reg same)
  show "tables_ok v" using d(3) chan by (simp add: tables_ok_def http same)
  show "links_ok v" using d(4) by (simp add: links_ok_def same)
  show "refs_ok extra v" by (rule refs_ok_cong [OF d(5)]) (simp_all add: reg tim same)
qed

lemma delete_EventLoop_ok:
  fixes w :: event_loop
  assumes wk: "worker_ok q w"
  obtains v where "delete_EventLoop w = Inr v" "reactor_ok (count_list (map fst q)) v"
    "callback_list v = callback_list w" "timer_node_queue v = timer_node_queue w"
    "dom (fd2http v) \<subseteq> dom (fd2http w)" "https v = https w"
    "balance v fd = balance w fd + (if fd = wakeup_fd w then 1 else 0)"
proof -
  let ?efd = "wakeup_fd w" and ?c = "wakeup_channel w"
  note d = worker_okD [OF wk]
  have f: "chan_fd (channels w ?c) = ?efd" "fd2channel w ?efd = Some (Some ?c)" "fd2http w ?efd = Some None"
    using d(6) by (simp_all add: wakeup_ok_def bindings_def)
  let ?v = "log_call (Sys_close ?efd) ((log_call (Sys_epoll_ctl EPOLL_CTL_DEL ?efd (to_listen_events (channels w ?c))) w)
    \<lparr>fd2channel := (fd2channel w)(?efd := None), fd2http := (fd2http w)(?efd := None)\<rparr>)"
  show thesis
  proof (rule that [of ?v])
    show "delete_EventLoop w = Inr ?v"
      using f by (simp add: delete_EventLoop_def RemoveFromEpoller_def EpollDel_eq Let_def log_call_def)
    show "reactor_ok (count_list (map fst q)) ?v"
      by (rule reactor_ok_tables [OF d(2)]) (use f in auto)
    show "callback_list ?v = callback_list w" by (simp add: log_call_def)
    show "balance ?v fd = balance w fd + (if fd = wakeup_fd w then 1 else 0)"
      by (simp add: balance_def conns_on_def closes_def)
  qed auto
qed

text \<open>Callbacks that never ran: the connections they were to register go with them.\<close>

lemma drop_callbacks_ok:
  "reactor_ok (\<lambda>h. extra h + count_list hs h) v \<Longrightarrow> reactor_ok extra (drop_callbacks (map CB_Init hs) v)"
proof (induction hs arbitrary: v)
  case (Cons h hs)
  have "(\<lambda>h'. extra h' + count_list (h # hs) h') = held h (\<lambda>h'. extra h' + count_list hs h')"
    by (auto simp: held_def fun_eq_iff)
  then have "reactor_ok (\<lambda>h'. extra h' + count_list hs h') (release h v)"
    using reactor_ok_release(1) Cons(2) by metis
  then show ?case using Cons(1) by simp
qed simp

lemma drop_callbacks_queue:
  "timer_node_queue (drop_callbacks cbs w) = timer_node_queue w \<and> fd2http (drop_callbacks cbs w) = fd2http w"
  by (induction cbs arbitrary: w) (auto split: option.split)

lemma destroy_timers_ok:
  assumes "reactor_ok extra w" "distinct timers" "set timers = set (timer_node_queue w)"
  shows "\<exists>v. forR (\<lambda>n w. destroy_TimerNode n (w\<lparr>timer_node_queue := remove1 n (timer_node_queue w)\<rparr>)) timers w = Inr v \<and>
    reactor_ok extra v \<and> timer_node_queue v = [] \<and> kept UNIV w v"
  using assms
proof (induction timers arbitrary: w)
  case Nil
  then show ?case by (simp add: kept.frame_refl)
next
  case (Cons n timers)
  let ?q = "remove1 n (timer_node_queue w)"
  have n: "n \<in> set (timer_node_queue w)" "distinct (timer_node_queue w)"
    using Cons.prems(3) reactor_okD(1) [OF Cons.prems(1)] by (auto simp: queue_ok_def)
  obtain u where u: "destroy_TimerNode n (w\<lparr>timer_node_queue := ?q\<rparr>) = Inr u" "reactor_ok extra u"
    "timer_node_queue u = ?q" by (rule destroy_TimerNode_ok [OF Cons.prems(1) n(1) refl])
  have "distinct timers" "set timers = set (timer_node_queue u)" using Cons.prems(2,3) n(2) by (auto simp: u(3))
  from Cons.IH [OF u(2) this] kept.frame_trans [OF destroy_TimerNode_kept [OF Cons.prems(1) n(1) refl u(1)]] u(1)
  show ?case by auto
qed

lemma no_timers:
  assumes "reactor_ok extra w" "timer_node_queue w = []"
  shows "nodes w = Map.empty" "\<not> timed w h"
  using reactor_okD(1) [OF assms(1)] assms(2) by (auto simp: queue_ok_def timed_def)

lemma drop_entry_ok:
  assumes ok: "reactor_ok extra w" and t: "timer_node_queue w = []"
  shows "reactor_ok extra (drop_entry fd w)" "timer_node_queue (drop_entry fd w) = []"
    "fd2http (drop_entry fd w) = (fd2http w)(fd := None)" "objects_kept w (drop_entry fd w)"
proof -
  let ?u = "w\<lparr>fd2http := (fd2http w)(fd := None)\<rparr>"
  have k: "objects_kept w ?u" by (rule objects_kept_tables)
  have "reactor_ok extra (drop_entry fd w) \<and> objects_kept w (drop_entry fd w)"
  proof (cases "\<exists>h. fd2http w fd = Some (Some h)")
    case True
    then obtain h where h: "fd2http w fd = Some (Some h)" by blast
    let ?z = "w\<lparr>fd2channel := (fd2channel w)(fd := None), fd2http := (fd2http w)(fd := None)\<rparr>"
    have "reactor_ok (held h extra) ?u"
      by (rule reactor_ok_tables [OF reactor_ok_erase(1) [OF ok h no_timers(2) [OF ok t]]]) (auto split: if_split_asm)
    from reactor_ok_release(1) [OF this] objects.frame_trans [OF k keptD(1) [OF kept_release [of "{}"]]]
    show ?thesis using h by (simp add: drop_entry_def Let_def)
  next
    case False
    have "reactor_ok extra ?u" by (rule reactor_ok_tables [OF ok]) (use False in auto)
    then show ?thesis using k False by (auto simp: drop_entry_def Let_def split: option.split)
  qed
  then show "reactor_ok extra (drop_entry fd w)" "objects_kept w (drop_entry fd w)" by blast+
  show "timer_node_queue (drop_entry fd w) = []" "fd2http (drop_entry fd w) = (fd2http w)(fd := None)"
    using t by (auto simp: drop_entry_def Let_def split: option.split)
qed

lemma drop_table_ok:
  assumes "reactor_ok extra w" "timer_node_queue w = []"
  shows "reactor_ok extra (fold drop_entry fds w) \<and> timer_node_queue (fold drop_entry fds w) = [] \<and>
    (\<forall>fd. fd2http (fold drop_entry fds w) fd = (if fd \<in> set fds then None else fd2http w fd)) \<and>
    objects_kept w (fold drop_entry fds w)"
  using assms
proof (induction fds arbitrary: w)
  case Nil
  then show ?case by (simp add: objects.frame_refl)
next
  case (Cons fd fds)
  note e = drop_entry_ok [OF Cons.prems, of fd]
  show ?case using Cons.IH [OF e(1,2)] objects.frame_trans [OF e(4)] by (simp add: e(3))
qed

text \<open>Nothing refers to a connection any more, so there is none.\<close>

lemma nothing_left:
  assumes "reactor_ok (\<lambda>_. 0) w" "timer_node_queue w = []" "fd2http w = Map.empty"
  shows "https w = Map.empty"
proof -
  have "\<not> registered w h" "\<not> timed w h" for h using no_timers(2) [OF assms(1,2)] assms(3) by (simp_all add: registered_def)
  then have "https w h = None" for h using refs_okD(2) [OF assms(1), of h] by blast
  then show ?thesis by (simp add: fun_eq_iff)
qed

lemma destroy_Epoll_ok:
  fixes w :: "'a reactor_scheme"
  assumes ok: "reactor_ok (\<lambda>_. 0) w" and timers: "distinct timers" "set timers = set (timer_node_queue w)"
    and fds: "dom (fd2http w) \<subseteq> set fds"
  shows "\<exists>v. destroy_Epoll timers fds w = Inr v \<and> https v = Map.empty \<and> balance v fd = balance w fd"
proof -
  obtain u where u: "forR (\<lambda>n w. destroy_TimerNode n (w\<lparr>timer_node_queue := remove1 n (timer_node_queue w)\<rparr>)) timers w = Inr u"
    "reactor_ok (\<lambda>_. 0) u" "timer_node_queue u = []" "kept UNIV w u"
    using destroy_timers_ok [OF ok timers] by blast
  let ?v = "fold drop_entry fds u"
  note t = drop_table_ok [OF u(2,3), of fds]
  have "fd2http ?v fd' = None" for fd'
    using t fds tables_keptD(3) [OF keptD(2) [OF u(4)], of fd'] by (cases "fd' \<in> set fds") (auto simp: domIff subset_iff)
  then have "fd2http ?v = Map.empty" by (simp add: fun_eq_iff)
  with t have gone: "https ?v = Map.empty" using nothing_left [of ?v] by simp
  have "objects_kept w ?v" using objects.frame_trans [OF keptD(1) [OF u(4)]] t by blast
  from objects_keptD(4) [OF this finite_conns [OF ok]] have "balance ?v fd = balance w fd" .
  then show ?thesis using u(1) gone
    by (intro exI [of _ "?v\<lparr>fd2channel := Map.empty\<rparr>"]) (simp add: destroy_Epoll_def balance_def conns_on_def)
qed

lemma destroy_EventLoop_ok:
  assumes wk: "worker_ok q w" and timers: "distinct timers" "set timers = set (timer_node_queue w)"
    and fds: "dom (fd2http w) \<subseteq> set fds"
  shows "\<exists>v. destroy_EventLoop timers fds w = Inr v \<and> https v = Map.empty \<and>
    (\<forall>fd. closes fd (sys_log v) = balance w fd + (if fd = wakeup_fd w then 1 else 0))"
proof -
  obtain u where u: "delete_EventLoop w = Inr u" "reactor_ok (count_list (map fst q)) u"
    "callback_list u = callback_list w" "timer_node_queue u = timer_node_queue w"
    "dom (fd2http u) \<subseteq> dom (fd2http w)" "https u = https w"
    by (rule delete_EventLoop_ok [OF wk])
  have bal: "balance u fd = balance w fd + (if fd = wakeup_fd w then 1 else 0)" for fd
  proof -
    obtain u' where "delete_EventLoop w = Inr u'" "balance u' fd = balance w fd + (if fd = wakeup_fd w then 1 else 0)"
      by (rule delete_EventLoop_ok [OF wk, of fd])
    then show ?thesis using u(1) by simp
  qed
  have cbs: "callback_list w = map CB_Init (map fst q)" using worker_okD(3) [OF wk] by simp
  let ?u = "u\<lparr>callback_list := []\<rparr>" and ?d = "drop_callbacks (callback_list u) (u\<lparr>callback_list := []\<rparr>)"
  have "reactor_ok (\<lambda>h. 0 + count_list (map fst q) h) ?u"
    using reactor_ok_same [OF _ u(2), of ?u] by (simp add: same_shape_def)
  from drop_callbacks_ok [OF this] have ok: "reactor_ok (\<lambda>_. 0) ?d" unfolding u(3) cbs .
  have ob: "objects_kept u ?d"
    using objects.frame_trans [OF objects_kept_members(2) keptD(1) [OF drop_callbacks_kept [of "{}"]]] .
  have q: "set timers = set (timer_node_queue ?d)" "dom (fd2http ?d) \<subseteq> set fds"
    using drop_callbacks_queue [of "callback_list u" ?u] u(4,5) timers(2) fds by auto
  have dbal: "balance ?d fd = balance u fd" for fd
    by (rule objects_keptD(4) [OF ob finite_conns [OF u(2)]])
  have "\<exists>v. destroy_EventLoop timers fds w = Inr v \<and> https v = Map.empty \<and> balance v fd = balance ?d fd" for fd
    using destroy_Epoll_ok [OF ok timers(1) q] u(1) by (simp add: destroy_EventLoop_def)
  then obtain v where v: "destroy_EventLoop timers fds w = Inr v" "https v = Map.empty" "\<And>fd. balance v fd = balance ?d fd"
    by (metis sum.inject(2))
  have "closes fd (sys_log v) = balance v fd" for fd by (simp add: balance_def conns_on_def v(2))
  then show ?thesis using v bal dbal by simp
qed

section \<open>Properties\<close>

text \<open>
  C3. Whenever a worker's thread ends its loop, after any life of it, and in whatever order the
  containers destroy their elements, the destructors run without a fault, no connection is left, and
  every descriptor has been closed exactly as often as it was handed over: none leaks, none is closed
  twice. The wake-up descriptor is closed once.
\<close>

theorem connections_closed_once:
  assumes "life_reachable fs w0 s" "new_EventLoop tid efd clk sks = Inr w0"
    and "distinct timers" "set timers = set (timer_node_queue (the_loop s))" "dom (fd2http (the_loop s)) \<subseteq> set fds"
  shows "\<exists>v. destroy_EventLoop timers fds (the_loop s) = Inr v \<and> https v = Map.empty \<and>
    (\<forall>fd. closes fd (sys_log v) = count_list (handed s) fd + (if fd = efd then 1 else 0))"
proof -
  from life_reachable_ok [OF assms(1,2)] obtain q where q: "worker_ok q (the_loop s)" "wakeup_fd (the_loop s) = efd"
    "\<forall>fd. balance (the_loop s) fd = count_list (handed s) fd" by (auto simp: life_ok_def)
  from destroy_EventLoop_ok [OF q(1) assms(3-5)] show ?thesis using q(2,3) by simp
qed

text \<open>The table of a loop knows the wake-up descriptor and descriptors that were handed over.\<close>

lemma table_handed:
  assumes "life_ok efd s"
  shows "dom (fd2http (the_loop s)) \<subseteq> insert efd (set (handed s))"
proof
  fix fd assume fd: "fd \<in> dom (fd2http (the_loop s))"
  from assms obtain q where q: "worker_ok q (the_loop s)" "wakeup_fd (the_loop s) = efd"
    "balance (the_loop s) fd = count_list (handed s) fd" by (auto simp: life_ok_def)
  show "fd \<in> insert efd (set (handed s))"
  proof (cases "fd = efd")
    case False
    then obtain h where h: "fd2http (the_loop s) fd = Some (Some h)"
      using fd worker_okD(5) [OF q(1)] q(2) by (fastforce simp: known_fds_def)
    from table_entry [OF worker_okD(2) [OF q(1)] h] have "h \<in> conns_on (the_loop s) fd" by (auto simp: conns_on_def)
    moreover have "finite (conns_on (the_loop s) fd)"
      by (rule finite_subset [OF _ finite_conns [OF worker_okD(2) [OF q(1)]]]) (auto simp: conns_on_def)
    ultimately have "card (conns_on (the_loop s) fd) \<noteq> 0" by auto
    then have "count_list (handed s) fd \<noteq> 0" using q(3) by (simp add: balance_def)
    then show ?thesis by (simp add: count_list_0_iff)
  qed simp
qed

text \<open>A connection is handed over and registered, with its timer, by an iteration; then the loop ends.\<close>

lemma connections_closed_once_witness:
  "\<exists>w v z timers fds. new_EventLoop 2 5 (\<lambda>_. (0, 0)) (\<lambda>_. quiet_sock) = Inr w \<and>
     loop_iteration (run_callback no_server (one_file ''a'' ''b'')) [] 0 (queued_worker 7 w) = Inr (1, v) \<and>
     destroy_EventLoop timers fds v = Inr z \<and> closes 7 (sys_log z) = 1 \<and> closes 5 (sys_log z) = 1"
proof -
  let ?fs = "one_file ''a'' ''b''"
  obtain w where w: "new_EventLoop 2 5 (\<lambda>_. (0, 0)) (\<lambda>_. quiet_sock) = Inr w"
    "life_reachable ?fs w \<lparr>stage = At_Check, idle_polls = 0, handed = [7], the_loop = queued_worker 7 w\<rparr>"
    (is "life_reachable _ _ ?s") by (rule one_hand_over)
  note ok = life_reachable_ok [OF w(2,1)]
  from ok obtain q where q: "worker_ok q (the_loop ?s)" by (auto simp: life_ok_def)
  have ev: "kernel_events [] (the_loop ?s)" by (simp add: kernel_events_def)
  from worker_iteration [OF q ev, of ?fs 0] obtain n v where
    v: "loop_iteration (run_callback no_server ?fs) [] 0 (the_loop ?s) = Inr (n, v)" by auto
  have n: "n = 1" using loop_iteration_count [OF v] by simp
  have "is_looping w" using w(1)
    by (auto simp: new_EventLoop_def empty_loop_def EpollAdd_def Let_def map_insert_def GetHolder_def new_Channel_def
        log_call_def put_channel_def)
  moreover have "http_rc w (Suc (next_id w)) = 0"
    using refs_okD(1) [OF worker_okD(2) [OF new_EventLoop_worker_ok(1) [OF w(1)]], of "Suc (next_id w)"]
      refs_okD(2) [OF worker_okD(2) [OF new_EventLoop_worker_ok(1) [OF w(1)]], of "Suc (next_id w)"] by fastforce
  ultimately have "goes_on ?s" by (simp add: goes_on_def queued_worker_members)
  from iteration_steps [OF w(2) _ this ev] v n
  have r: "life_reachable ?fs w (?s\<lparr>idle_polls := 1, the_loop := v\<rparr>)" by simp
  have "dom (fd2http v) \<subseteq> set [5, 7]" using table_handed [OF life_reachable_ok [OF r w(1)]] by auto
  moreover have "distinct (timer_node_queue v)"
    using life_reachable_ok [OF r w(1)] worker_okD(2) reactor_okD(1) by (fastforce simp: life_ok_def queue_ok_def)
  ultimately obtain z where "destroy_EventLoop (timer_node_queue v) [5, 7] v = Inr z"
    "\<forall>fd. closes fd (sys_log z) = count_list [7] fd + (if fd = 5 then 1 else 0)"
    using connections_closed_once [OF r w(1), of "timer_node_queue v" "[5, 7]"] by auto
  then show ?thesis using w(1) v n by fastforce
qed

end
