(* ===== verification/System_Life.thy ===== *)
theory System_Life
  imports Loop_Teardown Server_Accept
begin

text \<open>
  The server with the threads of its pool: the acceptor deals connections while every worker goes
  through the steps of its loop, is told to quit, or leaves the loop and destroys it. What holds of
  one worker's life holds of all at once, and no descriptor is open twice anywhere.
\<close>

section \<open>States and steps\<close>

text \<open>
  The loop of worker \<open>l\<close> is \<open>the_loop (lives s l)\<close>; while its thread runs, the acceptor's pointer to it
  is valid, \<open>workers (acceptor s) l\<close>. After the thread has left, the loop is what its destructors leave.
  \<open>accepted\<close> records what \<open>accept\<close> returned.
\<close>

record system =
  acceptor :: server
  lives :: "nat \<Rightarrow> life"
  accepted :: "int list"

definition in_loop :: "system \<Rightarrow> nat \<Rightarrow> bool" where
  "in_loop s l \<longleftrightarrow> workers (acceptor s) l \<noteq> None"

text \<open>\<open>accept\<close> returns a descriptor that no worker has open.\<close>

definition fresh :: "int \<Rightarrow> system \<Rightarrow> bool" where
  "fresh fd s \<longleftrightarrow> 0 < fd \<and> (\<forall>l. in_loop s l \<longrightarrow> free_descriptor fd (the_loop (lives s l)))"

text \<open>The worker that the pool deals next.\<close>

definition turn :: "server \<Rightarrow> nat" where
  "turn v = (case thread_pool v of None \<Rightarrow> 0 | Some p \<Rightarrow> eventloops p ! nat (next_loop p))"

text \<open>What the thread of worker \<open>l\<close> does by itself: a step of its loop, or leaving the loop and destroying it.\<close>

inductive worker_move :: "files \<Rightarrow> nat \<Rightarrow> system \<Rightarrow> system \<Rightarrow> bool" for fs :: files where
  working: "in_loop s l \<Longrightarrow> worker_step fs (lives s l) t \<Longrightarrow>
    worker_move fs l s (s\<lparr>acceptor := put_worker l (the_loop t) (acceptor s), lives := (lives s)(l := t)\<rparr>)"
| leaving: "in_loop s l \<Longrightarrow> stage (lives s l) = At_Check \<Longrightarrow> \<not> goes_on (lives s l) \<Longrightarrow> distinct timers \<Longrightarrow>
    set timers = set (timer_node_queue (the_loop (lives s l))) \<Longrightarrow>
    dom (fd2http (the_loop (lives s l))) \<subseteq> set fds \<Longrightarrow>
    destroy_EventLoop timers fds (the_loop (lives s l)) = Inr w \<Longrightarrow>
    worker_move fs l s (s\<lparr>acceptor := (acceptor s)\<lparr>workers := (workers (acceptor s))(l := None)\<rparr>,
      lives := (lives s)(l := (lives s l)\<lparr>the_loop := w\<rparr>)\<rparr>)"

text \<open>A pass of the loop of \<open>HandleNewConn\<close> is one step of the acceptor.\<close>

inductive system_step :: "files \<Rightarrow> system \<Rightarrow> system \<Rightarrow> bool" for fs :: files where
  accepting: "fresh fd s \<Longrightarrow> accept_one fs fd (acceptor s) = Inr v \<Longrightarrow> l = turn (acceptor s) \<Longrightarrow>
    workers v l = Some w \<Longrightarrow>
    system_step fs s (s\<lparr>acceptor := v, accepted := accepted s @ [fd],
      lives := (lives s)(l := (lives s l)\<lparr>the_loop := w, handed := handed (lives s l) @ [fd]\<rparr>)\<rparr>)"
| moving: "worker_move fs l s t \<Longrightarrow> system_step fs s t"
| quitting: "quit_worker l (acceptor s) = Inr v \<Longrightarrow>
    system_step fs s (s\<lparr>acceptor := v,
      lives := (lives s)(l := (lives s l)\<lparr>the_loop := Quit (the_loop (lives s l))\<rparr>)\<rparr>)"

text \<open>The pool has just been started; every thread is about to enter its loop.\<close>

definition system_start :: "(nat \<Rightarrow> event_loop) \<Rightarrow> server \<Rightarrow> system" where
  "system_start spawn v = \<lparr>acceptor = v,
     lives = (\<lambda>l. \<lparr>stage = At_Check, idle_polls = 0, handed = [], the_loop = spawn l\<rparr>), accepted = []\<rparr>"

inductive system_reachable :: "files \<Rightarrow> system \<Rightarrow> system \<Rightarrow> bool" for fs :: files and s0 :: system where
  begin_system: "system_reachable fs s0 s0"
| step_system: "system_reachable fs s0 s \<Longrightarrow> system_step fs s t \<Longrightarrow> system_reachable fs s0 t"

inductive_cases worker_moveE: "worker_move fs l s t"

inductive_cases system_stepE: "system_step fs s t"

section \<open>Counting over the workers\<close>

lemma dealt_snoc:
  "dealt ls k l (fds @ [fd]) = dealt ls k l fds @ (if ls ! ((k + length fds) mod length ls) = l then [fd] else [])"
  by (induction fds arbitrary: k) auto

lemma count_dealt:
  assumes "0 < n"
  shows "(\<Sum>l<n. count_list (dealt [0..<n] 0 l fds) fd) = count_list fds fd"
proof (induction fds rule: rev_induct)
  case (snoc fd' fds)
  have "length fds mod n < n" using assms by simp
  then have "count_list (dealt [0..<n] 0 l (fds @ [fd'])) fd =
      count_list (dealt [0..<n] 0 l fds) fd + (if l = length fds mod n then (if fd' = fd then 1 else 0) else 0)" for l
    by (simp add: dealt_snoc)
  then show ?case using snoc assms by (simp add: sum.distrib)
qed simp

lemma sum_at_most_one:
  fixes f :: "nat \<Rightarrow> nat"
  assumes "\<And>l. l < n \<Longrightarrow> f l \<le> 1" "\<And>l l'. l < n \<Longrightarrow> l' < n \<Longrightarrow> f l \<noteq> 0 \<Longrightarrow> f l' \<noteq> 0 \<Longrightarrow> l = l'"
  shows "(\<Sum>l<n. f l) \<le> 1"
proof (cases "\<exists>l<n. f l \<noteq> 0")
  case True
  then obtain l where l: "l < n" "f l \<noteq> 0" by blast
  have "(\<Sum>l<n. f l) = f l + (\<Sum>l' \<in> {..<n} - {l}. f l')" using l by (simp add: sum.remove)
  also have "(\<Sum>l' \<in> {..<n} - {l}. f l') = 0" using assms(2) l by auto
  finally show ?thesis using assms(1) [OF l(1)] by simp
qed simp


section \<open>The invariant\<close>

abbreviation open_on :: "system \<Rightarrow> nat \<Rightarrow> int \<Rightarrow> nat" where
  "open_on s l fd \<equiv> card (conns_on (the_loop (lives s l)) fd)"

abbreviation closed_on :: "system \<Rightarrow> nat \<Rightarrow> int \<Rightarrow> nat" where
  "closed_on s l fd \<equiv> closes fd (sys_log (the_loop (lives s l)))"

definition pool_at :: "nat \<Rightarrow> system \<Rightarrow> bool" where
  "pool_at n s \<longleftrightarrow> (\<exists>p. thread_pool (acceptor s) = Some p \<and> pool_ready p \<and> eventloops p = [0..<n] \<and>
     nat (next_loop p) = length (accepted s) mod n)"

definition runs_ok :: "nat \<Rightarrow> (nat \<Rightarrow> int) \<Rightarrow> system \<Rightarrow> bool" where
  "runs_ok n efd s \<longleftrightarrow> (\<forall>l w. workers (acceptor s) l = Some w \<longrightarrow> l < n \<and> w = the_loop (lives s l) \<and>
     life_ok (efd l) (lives s l) \<and> thread_id w \<noteq> thread_id (acceptor s))"

definition ended_ok :: "nat \<Rightarrow> (nat \<Rightarrow> int) \<Rightarrow> system \<Rightarrow> bool" where
  "ended_ok n efd s \<longleftrightarrow> (\<forall>l < n. \<not> in_loop s l \<longrightarrow> https (the_loop (lives s l)) = Map.empty \<and>
     (\<forall>fd. closed_on s l fd = count_list (handed (lives s l)) fd + (if fd = efd l then 1 else 0)))"

definition system_ok :: "nat \<Rightarrow> (nat \<Rightarrow> int) \<Rightarrow> system \<Rightarrow> bool" where
  "system_ok n efd s \<longleftrightarrow> pool_at n s \<and> runs_ok n efd s \<and> ended_ok n efd s \<and>
     (\<forall>l < n. handed (lives s l) = dealt [0..<n] 0 l (accepted s)) \<and>
     (\<forall>fd. \<forall>l < n. \<forall>l' < n. open_on s l fd \<noteq> 0 \<longrightarrow> open_on s l' fd \<noteq> 0 \<longrightarrow> l = l')"

lemma system_okD:
  assumes "system_ok n efd s"
  shows "pool_at n s" "runs_ok n efd s" "ended_ok n efd s"
    "l < n \<Longrightarrow> handed (lives s l) = dealt [0..<n] 0 l (accepted s)"
    "l < n \<Longrightarrow> l' < n \<Longrightarrow> open_on s l fd \<noteq> 0 \<Longrightarrow> open_on s l' fd \<noteq> 0 \<Longrightarrow> l = l'"
  using assms unfolding system_ok_def by blast+

lemma in_loopD:
  assumes "system_ok n efd s" "in_loop s l"
  shows "workers (acceptor s) l = Some (the_loop (lives s l))" "l < n" "life_ok (efd l) (lives s l)"
    "thread_id (the_loop (lives s l)) \<noteq> thread_id (acceptor s)"
  using system_okD(2) [OF assms(1)] assms(2) by (auto simp: runs_ok_def in_loop_def)

lemma ended_open: "system_ok n efd s \<Longrightarrow> l < n \<Longrightarrow> \<not> in_loop s l \<Longrightarrow> open_on s l fd = 0"
  using system_okD(3) by (fastforce simp: ended_ok_def conns_on_def)

text \<open>A change of one worker's life that hands nothing over.\<close>

lemma system_ok_one:
  assumes ok: "system_ok n efd s" and l: "l < n" and t: "handed t = handed (lives s l)"
    "\<And>fd. card (conns_on (the_loop t) fd) \<le> open_on s l fd"
    and pool: "thread_pool v = thread_pool (acceptor s)" "thread_id v = thread_id (acceptor s)"
    and others: "\<And>l'. l' \<noteq> l \<Longrightarrow> workers v l' = workers (acceptor s) l'"
    and this_one: "workers v l = Some (the_loop t) \<and> life_ok (efd l) t \<and> thread_id (the_loop t) \<noteq> thread_id v \<or>
      workers v l = None \<and> https (the_loop t) = Map.empty \<and>
      (\<forall>fd. closes fd (sys_log (the_loop t)) = count_list (handed t) fd + (if fd = efd l then 1 else 0))"
  shows "system_ok n efd (s\<lparr>acceptor := v, lives := (lives s)(l := t)\<rparr>)"
proof -
  let ?s = "s\<lparr>acceptor := v, lives := (lives s)(l := t)\<rparr>"
  have "pool_at n ?s" using system_okD(1) [OF ok] pool by (simp add: pool_at_def)
  moreover have "runs_ok n efd ?s" unfolding runs_ok_def
  proof (intro allI impI)
    fix k w assume w: "workers (acceptor ?s) k = Some w"
    show "k < n \<and> w = the_loop (lives ?s k) \<and> life_ok (efd k) (lives ?s k) \<and> thread_id w \<noteq> thread_id (acceptor ?s)"
      using w system_okD(2) [OF ok] l pool others [of k] this_one by (cases "k = l") (auto simp: runs_ok_def)
  qed
  moreover have "ended_ok n efd ?s" unfolding ended_ok_def
  proof (intro allI impI)
    fix k assume k: "k < n" "\<not> in_loop ?s k"
    show "https (the_loop (lives ?s k)) = Map.empty \<and>
        (\<forall>fd. closed_on ?s k fd = count_list (handed (lives ?s k)) fd + (if fd = efd k then 1 else 0))"
      using k system_okD(3) [OF ok] others [of k] this_one by (cases "k = l") (auto simp: ended_ok_def in_loop_def)
  qed
  moreover have "handed (lives ?s k) = dealt [0..<n] 0 k (accepted ?s)" if "k < n" for k
    using system_okD(4) [OF ok that] t(1) by (cases "k = l") simp_all
  moreover have "k = k'" if "k < n" "k' < n" "open_on ?s k fd \<noteq> 0" "open_on ?s k' fd \<noteq> 0" for fd k k'
  proof -
    have "open_on s j fd \<noteq> 0" if "open_on ?s j fd \<noteq> 0" for j using that t(2) [of fd] by (cases "j = l") auto
    then show ?thesis using system_okD(5) [OF ok that(1,2)] that(3,4) by blast
  qed
  ultimately show ?thesis unfolding system_ok_def by blast
qed


section \<open>Every step keeps it\<close>

lemma pool_atD:
  assumes "pool_at n s"
  obtains p where "thread_pool (acceptor s) = Some p" "pool_ready p" "eventloops p = [0..<n]"
    "nat (next_loop p) = length (accepted s) mod n" "turn (acceptor s) = length (accepted s) mod n"
    "eventloops p ! nat (next_loop p) = turn (acceptor s)" "0 < n"
proof -
  from assms obtain p where p: "thread_pool (acceptor s) = Some p" "pool_ready p" "eventloops p = [0..<n]"
    "nat (next_loop p) = length (accepted s) mod n" by (auto simp: pool_at_def)
  have "nat (next_loop p) < n" using pool_turns.pos_in [OF p(2)] p(3) by simp
  then show thesis using that p by (simp add: turn_def)
qed

lemma accept_one_ended:
  assumes "thread_pool s = Some p" "pool_ready p" "workers s (eventloops p ! nat (next_loop p)) = None"
  shows "accept_one fs fd s = Inl UseAfterFree"
proof -
  let ?l = "eventloops p ! nat (next_loop p)"
  obtain p' where p': "GetNextLoop p = Inr (?l, p')" using pool_turns.deals [OF assms(2)] by blast
  obtain r calls where "setSocketNonBlocking (fst (fcntl_rets s fd)) (snd (fcntl_rets s fd)) fd = (r, calls)"
    by fastforce
  then show ?thesis using assms(1,3) p' by (simp add: accept_one_def net_def)
qed

text \<open>What one pass of accepting does: it needs the worker whose turn it is, and hands over to it.\<close>

lemma accept_one_in_system:
  assumes ok: "system_ok n efd s"
  shows "in_loop s (turn (acceptor s)) \<Longrightarrow> \<exists>v. accept_one fs fd (acceptor s) = Inr v \<and>
      workers v = (workers (acceptor s))(turn (acceptor s) \<mapsto> queued_worker fd (the_loop (lives s (turn (acceptor s))))) \<and>
      pool_at n (s\<lparr>acceptor := v, accepted := accepted s @ [fd]\<rparr>) \<and> thread_id v = thread_id (acceptor s)"
    and "\<not> in_loop s (turn (acceptor s)) \<Longrightarrow> accept_one fs fd (acceptor s) = Inl UseAfterFree"
proof -
  obtain p where p: "thread_pool (acceptor s) = Some p" "pool_ready p" "eventloops p = [0..<n]"
    "nat (next_loop p) = length (accepted s) mod n" "turn (acceptor s) = length (accepted s) mod n"
    "eventloops p ! nat (next_loop p) = turn (acceptor s)" "0 < n" by (rule pool_atD [OF system_okD(1) [OF ok]])
  show "accept_one fs fd (acceptor s) = Inl UseAfterFree" if "\<not> in_loop s (turn (acceptor s))"
    using accept_one_ended [OF p(1,2)] that p(6) by (simp add: in_loop_def)
  assume "in_loop s (turn (acceptor s))"
  note w = in_loopD [OF ok this]
  obtain v p' where v: "accept_one fs fd (acceptor s) = Inr v" "thread_pool v = Some p'" "pool_ready p'"
    "eventloops p' = eventloops p" "nat (next_loop p') = Suc (nat (next_loop p)) mod length (eventloops p)"
    "workers v = (workers (acceptor s))(turn (acceptor s) \<mapsto> queued_worker fd (the_loop (lives s (turn (acceptor s)))))"
    "thread_id v = thread_id (acceptor s)"
    using accept_one_deals [OF p(1,2) p(6) [symmetric] w(1,4), of fs fd] by blast
  have "pool_at n (s\<lparr>acceptor := v, accepted := accepted s @ [fd]\<rparr>)"
    using v(2-5) p(3,4) by (simp add: pool_at_def mod_Suc_eq)
  then show "\<exists>v. accept_one fs fd (acceptor s) = Inr v \<and>
      workers v = (workers (acceptor s))(turn (acceptor s) \<mapsto> queued_worker fd (the_loop (lives s (turn (acceptor s))))) \<and>
      pool_at n (s\<lparr>acceptor := v, accepted := accepted s @ [fd]\<rparr>) \<and> thread_id v = thread_id (acceptor s)"
    using v by blast
qed

lemma fresh_not_open:
  assumes "system_ok n efd s" "fresh fd s" "l < n"
  shows "open_on s l fd = 0"
proof (cases "in_loop s l")
  case True
  then have "conns_on (the_loop (lives s l)) fd = {}" using assms(2) free_descriptor_none by (auto simp: fresh_def)
  then show ?thesis by simp
qed (use ended_open [OF assms(1,3)] in simp)

lemma accepting_ok:
  assumes ok: "system_ok n efd s" and fresh: "fresh fd s" and run: "accept_one fs fd (acceptor s) = Inr v"
    and l: "l = turn (acceptor s)" "workers v l = Some w"
  shows "system_ok n efd (s\<lparr>acceptor := v, accepted := accepted s @ [fd],
      lives := (lives s)(l := (lives s l)\<lparr>the_loop := w, handed := handed (lives s l) @ [fd]\<rparr>)\<rparr>)"
    (is "system_ok n efd ?s")
proof -
  have inl: "in_loop s l" using accept_one_in_system(2) [OF ok] run l(1) by fastforce
  obtain q where q: "worker_ok q (the_loop (lives s l))" using in_loopD(3) [OF ok inl] by (auto simp: life_ok_def)
  have free: "free_descriptor fd (the_loop (lives s l))" using fresh inl by (simp add: fresh_def)
  have v: "workers v = (workers (acceptor s))(l \<mapsto> queued_worker fd (the_loop (lives s l)))"
    "pool_at n (s\<lparr>acceptor := v, accepted := accepted s @ [fd]\<rparr>)" "thread_id v = thread_id (acceptor s)"
    using accept_one_in_system(1) [OF ok, of fs fd] inl run unfolding l(1) by auto
  then have w: "w = queued_worker fd (the_loop (lives s l))" using l(2) by simp
  have turn: "l < n" "l = length (accepted s) mod n"
    using in_loopD(2) [OF ok inl] pool_atD [OF system_okD(1) [OF ok]] l(1) by metis+
  have "pool_at n ?s" using v(2) by (simp add: pool_at_def)
  moreover have "runs_ok n efd ?s" unfolding runs_ok_def
  proof (intro allI impI)
    fix k u assume u: "workers (acceptor ?s) k = Some u"
    show "k < n \<and> u = the_loop (lives ?s k) \<and> life_ok (efd k) (lives ?s k) \<and> thread_id u \<noteq> thread_id (acceptor ?s)"
      using u system_okD(2) [OF ok] turn(1) v(1,3) w hand_over_life_ok [OF in_loopD(3) [OF ok inl] free]
        in_loopD(4) [OF ok inl] thread_id_queued by (cases "k = l") (auto simp: runs_ok_def)
  qed
  moreover have "ended_ok n efd ?s"
    using system_okD(3) [OF ok] v(1) by (auto simp: ended_ok_def in_loop_def)
  moreover have "handed (lives ?s k) = dealt [0..<n] 0 k (accepted ?s)" if "k < n" for k
    using system_okD(4) [OF ok that] turn by (auto simp: dealt_snoc)
  moreover have "k = k'" if "k < n" "k' < n" "open_on ?s k fd' \<noteq> 0" "open_on ?s k' fd' \<noteq> 0" for fd' k k'
  proof (cases "fd' = fd")
    case True
    then show ?thesis using that fresh_not_open [OF ok fresh] by (auto split: if_split_asm)
  next
    case False
    have "open_on s j fd' \<noteq> 0" if "open_on ?s j fd' \<noteq> 0" for j
      using that hand_over_ok(4) [OF q free, of fd'] False w by (cases "j = l") auto
    then show ?thesis using system_okD(5) [OF ok that(1,2)] that(3,4) by blast
  qed
  ultimately show ?thesis unfolding system_ok_def by blast
qed

lemma working_ok:
  assumes ok: "system_ok n efd s" and l: "in_loop s l" and step: "worker_step fs (lives s l) t"
  shows "system_ok n efd (s\<lparr>acceptor := put_worker l (the_loop t) (acceptor s), lives := (lives s)(l := t)\<rparr>)"
proof -
  note w = in_loopD [OF ok l]
  then obtain q where q: "worker_ok q (the_loop (lives s l))" by (auto simp: life_ok_def)
  obtain q' where k: "worker_ok q' (the_loop t)" "objects_kept (the_loop (lives s l)) (the_loop t)" "handed t = handed (lives s l)"
    "thread_id (the_loop t) = thread_id (the_loop (lives s l))" by (rule worker_step_kept [OF step q])
  show ?thesis
    by (rule system_ok_one [OF ok w(2) k(3) card_conns_kept [OF q k(2)]])
      (use k(4) w(4) worker_step_ok [OF step w(3)] in \<open>simp_all add: put_worker_def\<close>)
qed

lemma quitting_ok:
  assumes ok: "system_ok n efd s" and run: "quit_worker l (acceptor s) = Inr v"
  shows "system_ok n efd (s\<lparr>acceptor := v,
      lives := (lives s)(l := (lives s l)\<lparr>the_loop := Quit (the_loop (lives s l))\<rparr>)\<rparr>)"
proof -
  have l: "in_loop s l"
    using run by (cases "workers (acceptor s) l") (simp_all add: quit_worker_def in_loop_def)
  note w = in_loopD [OF ok l]
  have v: "v = put_worker l (Quit (the_loop (lives s l))) (acceptor s)" using run w(1) by (simp add: quit_worker_def)
  have "conns_on (Quit (the_loop (lives s l))) fd = conns_on (the_loop (lives s l)) fd" for fd
    by (simp add: conns_on_def Quit_def)
  moreover have "thread_id (Quit (the_loop (lives s l))) = thread_id (the_loop (lives s l))" by (simp add: Quit_def)
  ultimately show ?thesis
    by (intro system_ok_one [OF ok w(2)])
      (use w(4) Quit_life_ok [OF w(3)] in \<open>simp_all add: v put_worker_def\<close>)
qed

lemma leaving_ok:
  assumes ok: "system_ok n efd s" and l: "in_loop s l" and t: "distinct timers"
    "set timers = set (timer_node_queue (the_loop (lives s l)))" "dom (fd2http (the_loop (lives s l))) \<subseteq> set fds"
    and run: "destroy_EventLoop timers fds (the_loop (lives s l)) = Inr w"
  shows "system_ok n efd (s\<lparr>acceptor := (acceptor s)\<lparr>workers := (workers (acceptor s))(l := None)\<rparr>,
      lives := (lives s)(l := (lives s l)\<lparr>the_loop := w\<rparr>)\<rparr>)"
proof -
  note il = in_loopD [OF ok l]
  then obtain q where q: "worker_ok q (the_loop (lives s l))" "wakeup_fd (the_loop (lives s l)) = efd l"
    "\<forall>fd. balance (the_loop (lives s l)) fd = count_list (handed (lives s l)) fd" by (auto simp: life_ok_def)
  from destroy_EventLoop_ok [OF q(1) t] run q(2,3) have w: "https w = Map.empty"
    "\<forall>fd. closes fd (sys_log w) = count_list (handed (lives s l)) fd + (if fd = efd l then 1 else 0)" by auto
  then have "conns_on w fd = {}" for fd by (simp add: conns_on_def)
  then show ?thesis
    by (intro system_ok_one [OF ok il(2)]) (use w in simp_all)
qed

lemma worker_move_ok: "worker_move fs l s t \<Longrightarrow> system_ok n efd s \<Longrightarrow> system_ok n efd t"
  by (induction rule: worker_move.induct) (blast intro: working_ok leaving_ok)+

lemma system_step_ok: "system_step fs s t \<Longrightarrow> system_ok n efd s \<Longrightarrow> system_ok n efd t"
  by (induction rule: system_step.induct) (blast intro: accepting_ok quitting_ok worker_move_ok)+


section \<open>All reachable states\<close>

lemma system_start_ok:
  assumes "start_pool spawn v0 = Inr v" "thread_pool v0 = Some (new_EventLoopThreadPool (int n))" "0 < n"
    "workers v0 = Map.empty"
    and loops: "\<forall>l < n. new_EventLoop (tid l) (efd l) (clk l) (sks l) = Inr (spawn l) \<and> tid l \<noteq> thread_id v0"
  shows "system_ok n efd (system_start spawn v)"
proof -
  let ?s = "system_start spawn v"
  have v: "thread_pool v = Some (pool_start (\<lambda>i. i) (new_EventLoopThreadPool (int n)))" "thread_id v = thread_id v0"
    "workers v = (\<lambda>l. if l < n then Some (spawn l) else None)"
    using assms(1,2,4) by (auto simp: start_pool_def Let_def pool_start_new fun_eq_iff)
  have p: "pool_start (\<lambda>i. i) (new_EventLoopThreadPool (int n)) =
      \<lparr>started = True, thread_num = int n, next_loop = 0, threads = [0..<n], eventloops = [0..<n]\<rparr>"
    by (simp add: pool_start_new)
  have "pool_at n ?s" using v(1) pool_start_ready [of "int n" "\<lambda>i. i"] assms(3) by (simp add: pool_at_def system_start_def p)
  moreover have new: "worker_ok [] (spawn l)" "wakeup_fd (spawn l) = efd l" "balance (spawn l) fd = 0" "conns_on (spawn l) fd = {}"
    "thread_id (spawn l) \<noteq> thread_id v0" if "l < n" for l fd
    using loops that new_EventLoop_worker_ok [of "tid l" "efd l" "clk l" "sks l" "spawn l"]
      new_EventLoop_awaiting(3) [of "tid l" "efd l" "clk l" "sks l" "spawn l"] by auto
  then have "life_ok (efd l) (lives ?s l)" if "l < n" for l
    using that by (auto simp: life_ok_def system_start_def)
  then have "runs_ok n efd ?s" using new(5) v(2,3) by (auto simp: runs_ok_def system_start_def split: if_split_asm)
  moreover have "ended_ok n efd ?s" using v(3) by (simp add: ended_ok_def in_loop_def system_start_def)
  moreover have "handed (lives ?s l) = dealt [0..<n] 0 l (accepted ?s)" for l by (simp add: system_start_def)
  moreover have "open_on ?s l fd = 0" if "l < n" for l fd using new(4) [OF that] by (simp add: system_start_def)
  ultimately show ?thesis unfolding system_ok_def by simp
qed

lemma system_reachable_ok: "system_reachable fs s0 s \<Longrightarrow> system_ok n efd s0 \<Longrightarrow> system_ok n efd s"
  by (induction rule: system_reachable.induct) (blast intro: system_step_ok)+

text \<open>
  No running worker is ever stuck: in the middle of an iteration its next part goes through, a poll
  without events goes through, and when the loop ends its destructors go through.
\<close>

lemma worker_never_stuck:
  assumes "system_ok n efd s" "in_loop s l"
  shows "(\<exists>t. worker_step fs (lives s l) t) \<or> stage (lives s l) = At_Check \<and> \<not> goes_on (lives s l) \<and>
    (\<forall>timers fds. distinct timers \<longrightarrow> set timers = set (timer_node_queue (the_loop (lives s l))) \<longrightarrow>
      dom (fd2http (the_loop (lives s l))) \<subseteq> set fds \<longrightarrow> (\<exists>w. destroy_EventLoop timers fds (the_loop (lives s l)) = Inr w))"
proof -
  from in_loopD(3) [OF assms] obtain q where q: "worker_ok q (the_loop (lives s l))" by (auto simp: life_ok_def)
  show ?thesis
  proof (cases "stage (lives s l)")
    case At_Callbacks
    obtain v where "DoCallbacks (run_callback no_server fs) (the_loop (lives s l)) = Inr v" by (rule DoCallbacks_ok [OF q])
    then show ?thesis using callbacks [OF At_Callbacks] by blast
  next
    case At_Expiry
    obtain v where "HandleExpire (the_loop (lives s l)) = Inr v" by (rule HandleExpire_worker [OF q])
    then show ?thesis using expiry [OF At_Expiry] by blast
  next
    case At_Poll
    have "EpollWait [] (the_loop (lives s l)) = ([], the_loop (lives s l))" by simp
    from poll [OF At_Poll _ this] show ?thesis by (auto simp: kernel_events_def)
  next
    case At_Check
    then show ?thesis using check [OF At_Check] destroy_EventLoop_ok [OF q] by blast
  qed
qed

section \<open>Properties\<close>

text \<open>
  C2. From the start of the pool on, however accepting, the steps of the workers, quitting and the ends
  of loops interleave: every running worker satisfies the invariant of the reactor; connections are
  dealt in turn; no descriptor is open twice, in whichever workers; and over all workers a descriptor
  is open or has been closed exactly as often as it was accepted, or was the wake-up descriptor of a
  loop that has ended.
\<close>

theorem connections_across_workers:
  assumes "system_reachable fs (system_start spawn v) s"
    and "start_pool spawn v0 = Inr v" "thread_pool v0 = Some (new_EventLoopThreadPool (int n))" "0 < n"
    and "workers v0 = Map.empty"
    and "\<forall>l < n. new_EventLoop (tid l) (efd l) (clk l) (sks l) = Inr (spawn l) \<and> tid l \<noteq> thread_id v0"
  shows "(\<forall>l w. workers (acceptor s) l = Some w \<longrightarrow> (\<exists>extra. reactor_ok extra w)) \<and>
    (\<forall>l < n. handed (lives s l) = dealt [0..<n] 0 l (accepted s)) \<and>
    (\<forall>fd. (\<Sum>l<n. card (conns_on (the_loop (lives s l)) fd)) \<le> 1 \<and>
      (\<Sum>l<n. card (conns_on (the_loop (lives s l)) fd) + closes fd (sys_log (the_loop (lives s l)))) =
        count_list (accepted s) fd + card {l. l < n \<and> workers (acceptor s) l = None \<and> efd l = fd})"
proof -
  have ok: "system_ok n efd s" by (rule system_reachable_ok [OF assms(1) system_start_ok [OF assms(2-6)]])
  have run: "\<exists>extra. reactor_ok extra w" if "workers (acceptor s) l = Some w" for l w
    using in_loopD(1,3) [OF ok, of l] that worker_okD(2) by (fastforce simp: in_loop_def life_ok_def)
  have one: "(\<Sum>l<n. open_on s l fd) \<le> 1" for fd
  proof (rule sum_at_most_one)
    show "open_on s l fd \<le> 1" if "l < n" for l
      using in_loopD(3) [OF ok, of l] ended_open [OF ok that, of fd] by (cases "in_loop s l") (auto simp: life_ok_def)
  qed (rule system_okD(5) [OF ok])
  have each: "open_on s l fd + closed_on s l fd = count_list (dealt [0..<n] 0 l (accepted s)) fd +
      (if \<not> in_loop s l \<and> efd l = fd then 1 else 0)" if "l < n" for l fd
  proof (cases "in_loop s l")
    case True
    then show ?thesis using in_loopD(3) [OF ok True] system_okD(4) [OF ok that] by (simp add: life_ok_def balance_def)
  next
    case False
    then show ?thesis using system_okD(3,4) [OF ok] ended_open [OF ok that False] that by (auto simp: ended_ok_def)
  qed
  have "(\<Sum>l<n. open_on s l fd + closed_on s l fd) =
      count_list (accepted s) fd + card {l. l < n \<and> workers (acceptor s) l = None \<and> efd l = fd}" for fd
  proof -
    have "(\<Sum>l<n. if \<not> in_loop s l \<and> efd l = fd then 1 else 0) = card {l. l < n \<and> \<not> in_loop s l \<and> efd l = fd}"
      by (simp add: sum.If_cases Int_def)
    then show ?thesis using each count_dealt [OF assms(4)] by (simp add: sum.distrib in_loop_def)
  qed
  then show ?thesis using run one system_okD(4) [OF ok] by blast
qed

text \<open>Two workers, and a connection that is dealt to the first.\<close>

lemma one_accepted:
  obtains spawn v0 v s where "system_reachable (one_file ''a'' ''b'') (system_start spawn v) s" "accepted s = [7]"
    "start_pool spawn v0 = Inr v" "thread_pool v0 = Some (new_EventLoopThreadPool (int 2))" "workers v0 = Map.empty"
    "\<forall>l < 2. new_EventLoop (Suc l) (4 + int l) (\<lambda>_. (0, 0)) (\<lambda>_. quiet_sock) = Inr (spawn l) \<and> Suc l \<noteq> thread_id v0"
    "workers (acceptor s) 1 \<noteq> None" "turn (acceptor s) = 1" "workers (acceptor s) 0 \<noteq> None"
proof -
  define spawn where "spawn l = projr (new_EventLoop (Suc l) (4 + int l) (\<lambda>_. (0, 0)) (\<lambda>_. quiet_sock))" for l
  have spawn: "new_EventLoop (Suc l) (4 + int l) (\<lambda>_. (0, 0)) (\<lambda>_. quiet_sock) = Inr (spawn l)" for l
    using new_EventLoop_runs [of "Suc l" "4 + int l" "\<lambda>_. (0, 0)" "\<lambda>_. quiet_sock"] by (auto simp: spawn_def)
  obtain w where w: "new_EventLoop 0 3 (\<lambda>_. (0, 0)) (\<lambda>_. quiet_sock) = Inr w" using new_EventLoop_runs by blast
  let ?v0 = "new_Server w 8088 2 [7] (\<lambda>_. (0, 0))" and ?fs = "one_file ''a'' ''b''"
  have v0: "thread_pool ?v0 = Some (new_EventLoopThreadPool (int 2))" "workers ?v0 = Map.empty" "thread_id ?v0 = 0"
    using new_EventLoop_awaiting(3) [OF w] by (simp_all add: new_Server_def event_loop.defs)
  then have loops: "\<forall>l < 2. new_EventLoop (Suc l) (4 + int l) (\<lambda>_. (0, 0)) (\<lambda>_. quiet_sock) = Inr (spawn l) \<and> Suc l \<noteq> thread_id ?v0"
    using spawn by simp
  obtain v where v: "start_pool spawn ?v0 = Inr v" using v0(1) by (auto simp: start_pool_def Let_def)
  let ?s = "system_start spawn v"
  have ok: "system_ok 2 (\<lambda>l. 4 + int l) ?s" by (rule system_start_ok [OF v v0(1) _ v0(2) loops]) simp
  have start: "workers v = (\<lambda>l. if l < 2 then Some (spawn l) else None)" "turn v = 0"
    using v v0(1,2) by (auto simp: start_pool_def Let_def pool_start_new turn_def fun_eq_iff numeral_2_eq_2)
  have free: "free_descriptor 7 (spawn l)" if "l < 2" for l
    using new_EventLoop_worker_ok(2) [OF spawn, of l] new_EventLoop_worker_ok(4) [OF spawn, of l 7] that
    by (auto simp: free_descriptor_def conns_on_def)
  have fresh: "fresh 7 ?s"
    using free by (auto simp: fresh_def in_loop_def system_start_def start(1) split: if_split_asm)
  have in0: "in_loop ?s (turn (acceptor ?s))" by (simp add: in_loop_def system_start_def start)
  from accept_one_in_system(1) [OF ok in0, of ?fs 7] obtain v' where v': "accept_one ?fs 7 (acceptor ?s) = Inr v'"
    "workers v' = (workers v)(0 \<mapsto> queued_worker 7 (spawn 0))" "pool_at 2 (?s\<lparr>acceptor := v', accepted := accepted ?s @ [7]\<rparr>)"
    by (auto simp: system_start_def start(2))
  let ?t = "?s\<lparr>acceptor := v', accepted := accepted ?s @ [7],
    lives := (lives ?s)(0 := (lives ?s 0)\<lparr>the_loop := queued_worker 7 (spawn 0), handed := handed (lives ?s 0) @ [7]\<rparr>)\<rparr>"
  have "system_step ?fs ?s ?t"
    by (rule accepting [OF fresh v'(1)]) (simp_all add: v'(2) system_start_def start(2))
  from step_system [OF begin_system this] have "system_reachable ?fs ?s ?t" .
  moreover have "turn v' = 1"
    using pool_atD [OF v'(3)] by (auto simp: system_start_def)
  ultimately show thesis
    using that [of spawn v ?t ?v0] v v0(1,2) loops by (simp add: v'(2) start(1) system_start_def)
qed

lemma connections_across_workers_witness:
  "\<exists>spawn v s. system_reachable (one_file ''a'' ''b'') (system_start spawn v) s \<and> accepted s = [7] \<and> handed (lives s 0) = [7] \<and>
     (\<Sum>l<2. card (conns_on (the_loop (lives s l)) 7) + closes 7 (sys_log (the_loop (lives s l)))) = 1"
proof -
  obtain spawn v0 v s where s: "system_reachable (one_file ''a'' ''b'') (system_start spawn v) s" "accepted s = [7]"
    "start_pool spawn v0 = Inr v" "thread_pool v0 = Some (new_EventLoopThreadPool (int 2))" "workers v0 = Map.empty"
    "\<forall>l < 2. new_EventLoop (Suc l) (4 + int l) (\<lambda>_. (0, 0)) (\<lambda>_. quiet_sock) = Inr (spawn l) \<and> Suc l \<noteq> thread_id v0"
    by (rule one_accepted)
  have "{l. l < 2 \<and> workers (acceptor s) l = None \<and> 4 + int l = 7} = {}" by auto
  moreover have "dealt [0..<2] 0 0 [7] = [7]" by (simp add: upt_rec)
  ultimately show ?thesis
    using connections_across_workers [OF s(1,3,4) _ s(5,6)] s(1,2) by (intro exI [of _ spawn] exI [of _ v] exI [of _ s]) auto
qed

text \<open>
  C33. Accepting in such a system: a connection goes, with one queued callback, to the worker whose turn
  it is by the number of connections accepted before, and to no other; if that worker's thread has
  ended, accepting is a use of a destroyed loop, and it never fails otherwise.
\<close>

theorem accepting_needs_the_worker:
  assumes "system_reachable fs (system_start spawn v) s"
    and "start_pool spawn v0 = Inr v" "thread_pool v0 = Some (new_EventLoopThreadPool (int n))" "0 < n"
    and "workers v0 = Map.empty"
    and "\<forall>l < n. new_EventLoop (tid l) (efd l) (clk l) (sks l) = Inr (spawn l) \<and> tid l \<noteq> thread_id v0"
    and "l = length (accepted s) mod n"
  shows "case accept_one fs' fd (acceptor s) of
      Inr u \<Rightarrow> \<exists>w. workers (acceptor s) l = Some w \<and> workers u = (workers (acceptor s))(l \<mapsto> queued_worker fd w)
    | Inl f \<Rightarrow> f = UseAfterFree \<and> workers (acceptor s) l = None"
proof -
  have ok: "system_ok n efd s" by (rule system_reachable_ok [OF assms(1) system_start_ok [OF assms(2-6)]])
  have l: "turn (acceptor s) = l" using pool_atD [OF system_okD(1) [OF ok]] assms(7) by metis
  show ?thesis
  proof (cases "in_loop s l")
    case True
    then show ?thesis using accept_one_in_system(1) [OF ok, of fs' fd] in_loopD(1) [OF ok True] by (auto simp: l)
  next
    case False
    then show ?thesis using accept_one_in_system(2) [OF ok, of fs' fd] by (simp add: l in_loop_def)
  qed
qed

lemma accepting_needs_the_worker_witness:
  "\<exists>spawn v s u. system_reachable (one_file ''a'' ''b'') (system_start spawn v) s \<and> accepted s = [7] \<and>
     accept_one (one_file ''a'' ''b'') 8 (acceptor s) = Inr u \<and> workers u 1 \<noteq> workers (acceptor s) 1"
proof -
  let ?fs = "one_file ''a'' ''b''"
  obtain spawn v0 v s where s: "system_reachable ?fs (system_start spawn v) s" "accepted s = [7]"
    "start_pool spawn v0 = Inr v" "thread_pool v0 = Some (new_EventLoopThreadPool (int 2))" "workers v0 = Map.empty"
    "\<forall>l < 2. new_EventLoop (Suc l) (4 + int l) (\<lambda>_. (0, 0)) (\<lambda>_. quiet_sock) = Inr (spawn l) \<and> Suc l \<noteq> thread_id v0"
    "workers (acceptor s) 1 \<noteq> None" by (rule one_accepted)
  have "1 = length (accepted s) mod 2" by (simp add: s(2))
  from accepting_needs_the_worker [OF s(1,3,4) _ s(5,6) this, where fs' = ?fs and fd = 8] s(7) obtain u w where
    u: "accept_one ?fs 8 (acceptor s) = Inr u" "workers (acceptor s) 1 = Some w" "workers u 1 = Some (queued_worker 8 w)"
    by (cases "accept_one ?fs 8 (acceptor s)") auto
  have ok: "system_ok 2 (\<lambda>l. 4 + int l) s" by (rule system_reachable_ok [OF s(1) system_start_ok [OF s(3,4) _ s(5,6)]]) simp
  then obtain q where "worker_ok q w" using in_loopD(1,3) [OF ok, of 1] u(2) by (auto simp: in_loop_def life_ok_def)
  note k = worker_okD(2) [OF this]
  have "http_rc w (Suc (next_id w)) = 0"
    using refs_okD(1) [OF k, of "Suc (next_id w)"] refs_okD(2) [OF k, of "Suc (next_id w)"] by fastforce
  then have "callback_list (queued_worker 8 w) \<noteq> callback_list w" by (simp add: queued_worker_fields)
  then show ?thesis using s(1,2) u by (intro exI [of _ spawn] exI [of _ v] exI [of _ s] exI [of _ u]) auto
qed

end
