(* ===== verification/Server_Shutdown.thy ===== *)
theory Server_Shutdown
  imports System_Life
begin

text \<open>
  The end of the server: the destructor of the pool asks every loop to stop and joins the threads, while
  these finish their last iteration, leave their loops and destroy them. The pool keeps pointers to loops
  that are local variables of the threads, so stopping a thread that has ended before is a use of a
  destroyed loop.
\<close>

section \<open>The destructor among the threads\<close>

text \<open>The loops of the workers as the server's pointers see them after a step of the main thread.\<close>

definition with_acceptor :: "server \<Rightarrow> system \<Rightarrow> system" where
  "with_acceptor v s = s\<lparr>acceptor := v,
     lives := (\<lambda>l. case workers v l of None \<Rightarrow> lives s l | Some w \<Rightarrow> (lives s l)\<lparr>the_loop := w\<rparr>)\<rparr>"

inductive shutdown_step :: "files \<Rightarrow> pool_end \<times> system \<Rightarrow> pool_end \<times> system \<Rightarrow> bool" for fs :: files where
  destructor: "pool_end_step pe (acceptor s) = Inr (pe', v) \<Longrightarrow>
    shutdown_step fs (pe, s) (pe', with_acceptor v s)"
| thread: "worker_move fs l s t \<Longrightarrow> shutdown_step fs (pe, s) (pe, t)"

inductive_cases shutdown_stepE: "shutdown_step fs (pe, s) x"

inductive shutdown_reachable :: "files \<Rightarrow> system \<Rightarrow> pool_end \<Rightarrow> system \<Rightarrow> bool" for fs :: files and s0 :: system where
  begin_shutdown: "shutdown (acceptor s0) = (pe, v) \<Longrightarrow> shutdown_reachable fs s0 pe (s0\<lparr>acceptor := v\<rparr>)"
| step_shutdown: "shutdown_reachable fs s0 pe s \<Longrightarrow> shutdown_step fs (pe, s) (pe', t) \<Longrightarrow>
    shutdown_reachable fs s0 pe' t"

text \<open>
  The steps a thread has left in its loop once it was told to quit, with the one that leaves it: from
  the poll it runs the callbacks, expires timers and comes to the test of the loop.
\<close>

fun steps_left :: "life_stage \<Rightarrow> nat" where
  "steps_left At_Poll = 4"
| "steps_left At_Callbacks = 3"
| "steps_left At_Expiry = 2"
| "steps_left At_Check = 1"

definition work_left :: "nat \<Rightarrow> system \<Rightarrow> nat" where
  "work_left n s = (\<Sum>l<n. if in_loop s l then steps_left (stage (lives s l)) else 0)"

section \<open>The invariant\<close>

text \<open>The server with the pool it has let go of.\<close>

definition pooled :: "nat pool \<Rightarrow> system \<Rightarrow> system" where
  "pooled p s = s\<lparr>acceptor := (acceptor s)\<lparr>thread_pool := Some p\<rparr>\<rparr>"

lemma pooled_simps [simp]:
  "lives (pooled p s) = lives s" "accepted (pooled p s) = accepted s" "in_loop (pooled p s) l = in_loop s l"
  "workers (acceptor (pooled p s)) = workers (acceptor s)" "thread_pool (acceptor (pooled p s)) = Some p"
  by (simp_all add: pooled_def in_loop_def)

lemma update_order:
  fixes t :: system and v :: server
  shows "t\<lparr>lives := L, acceptor := a\<rparr> = t\<lparr>acceptor := a, lives := L\<rparr>"
    "v\<lparr>workers := ws, thread_pool := p\<rparr> = v\<lparr>thread_pool := p, workers := ws\<rparr>"
  by simp_all

definition told :: "system \<Rightarrow> nat \<Rightarrow> bool" where
  "told s l \<longleftrightarrow> (in_loop s l \<longrightarrow> \<not> is_looping (the_loop (lives s l)))"

fun at_end :: "nat \<Rightarrow> pool_end \<Rightarrow> system \<Rightarrow> bool" where
  "at_end n (Quitting ls ts) s \<longleftrightarrow> ts = [0..<n] \<and> (\<exists>k \<le> n. ls = [k..<n] \<and> (\<forall>l < k. told s l))"
| "at_end n (Joining ts) s \<longleftrightarrow> (\<forall>l < n. told s l) \<and> (\<exists>k \<le> n. ts = [k..<n] \<and> (\<forall>l < k. \<not> in_loop s l))"
| "at_end n Pool_gone s \<longleftrightarrow> (\<forall>l < n. \<not> in_loop s l)"

definition ending_ok :: "nat \<Rightarrow> (nat \<Rightarrow> int) \<Rightarrow> system \<Rightarrow> pool_end \<Rightarrow> system \<Rightarrow> bool" where
  "ending_ok n efd s0 pe s \<longleftrightarrow> (\<exists>p. system_ok n efd (pooled p s)) \<and> thread_pool (acceptor s) = None \<and>
     accepted s = accepted s0 \<and> net_calls (acceptor s) = net_calls (acceptor s0) \<and> at_end n pe s"

lemma with_acceptor_same:
  assumes "system_ok n efd (pooled p s)"
  shows "with_acceptor (acceptor s) s = s"
proof -
  have "(case workers (acceptor s) l of None \<Rightarrow> lives s l | Some w \<Rightarrow> (lives s l)\<lparr>the_loop := w\<rparr>) = lives s l" for l
    using in_loopD(1) [OF assms, of l] by (cases "workers (acceptor s) l") (auto simp: in_loop_def)
  then show ?thesis by (simp add: with_acceptor_def)
qed

lemma quit_in_system:
  assumes ok: "system_ok n efd (pooled p s)" and run: "quit_worker l (acceptor s) = Inr v"
  shows "l < n" "in_loop s l" "v = put_worker l (Quit (the_loop (lives s l))) (acceptor s)"
    "with_acceptor v s = s\<lparr>acceptor := v, lives := (lives s)(l := (lives s l)\<lparr>the_loop := Quit (the_loop (lives s l))\<rparr>)\<rparr>"
    "system_ok n efd (pooled p (with_acceptor v s))"
proof -
  show l: "in_loop s l"
    using run by (cases "workers (acceptor s) l") (simp_all add: quit_worker_def in_loop_def)
  then have w: "workers (acceptor s) l = Some (the_loop (lives s l))" using in_loopD(1) [OF ok] by simp
  show "l < n" using in_loopD(2) [OF ok] l by simp
  show v: "v = put_worker l (Quit (the_loop (lives s l))) (acceptor s)" using run w by (simp add: quit_worker_def)
  have "(case workers (acceptor s) k of None \<Rightarrow> lives s k | Some w \<Rightarrow> (lives s k)\<lparr>the_loop := w\<rparr>) = lives s k" for k
    using in_loopD(1) [OF ok, of k] by (cases "workers (acceptor s) k") (auto simp: in_loop_def)
  then show e: "with_acceptor v s =
      s\<lparr>acceptor := v, lives := (lives s)(l := (lives s l)\<lparr>the_loop := Quit (the_loop (lives s l))\<rparr>)\<rparr>"
    by (simp add: with_acceptor_def v put_worker_def fun_eq_iff)
  have "quit_worker l (acceptor (pooled p s)) = Inr (v\<lparr>thread_pool := Some p\<rparr>)"
    using w by (simp add: quit_worker_def v put_worker_def pooled_def)
  from quitting_ok [OF ok this] show "system_ok n efd (pooled p (with_acceptor v s))" by (simp add: e pooled_def update_order(1))
qed

lemma pooled_move:
  assumes "worker_move fs l s t"
  shows "worker_move fs l (pooled p s) (pooled p t)"
  using assms
proof cases
  case (working u)
  from worker_move.working [of "pooled p s" l fs u] working show ?thesis 
    by (simp add: pooled_def put_worker_def in_loop_def update_order)
next
  case (leaving timers fds w)
  from worker_move.leaving [of "pooled p s" l timers fds w fs] leaving show ?thesis
    by (simp add: pooled_def in_loop_def update_order)
qed

text \<open>A move of one worker's thread leaves the others alone, and never undoes \<open>Quit\<close>.\<close>

lemma worker_move_effect:
  assumes m: "worker_move fs l s t" and ok: "system_ok n efd (pooled p s)"
  shows "l < n" "in_loop s l" "accepted t = accepted s" "thread_pool (acceptor t) = thread_pool (acceptor s)"
    "net_calls (acceptor t) = net_calls (acceptor s)" "told s k \<Longrightarrow> told t k" "\<not> in_loop s k \<Longrightarrow> \<not> in_loop t k"
    "k \<noteq> l \<Longrightarrow> in_loop t k = in_loop s k \<and> lives t k = lives s k"
    "told s l \<Longrightarrow> in_loop t l \<Longrightarrow> steps_left (stage (lives t l)) < steps_left (stage (lives s l))"
proof -
  have "l < n \<and> in_loop s l \<and> accepted t = accepted s \<and> thread_pool (acceptor t) = thread_pool (acceptor s) \<and>
    net_calls (acceptor t) = net_calls (acceptor s) \<and> (\<forall>k. told s k \<longrightarrow> told t k) \<and> (\<forall>k. \<not> in_loop s k \<longrightarrow> \<not> in_loop t k) \<and>
    (\<forall>k. k \<noteq> l \<longrightarrow> in_loop t k = in_loop s k \<and> lives t k = lives s k) \<and>
    (told s l \<longrightarrow> in_loop t l \<longrightarrow> steps_left (stage (lives t l)) < steps_left (stage (lives s l)))"
    using m
  proof cases
    case (working u)
    have l: "in_loop (pooled p s) l" using working(2) by simp
    from in_loopD(3) [OF ok l] obtain q where q: "worker_ok q (the_loop (lives s l))" by (auto simp: life_ok_def)
    obtain q' where k: "is_looping (the_loop u) = is_looping (the_loop (lives s l))" by (rule worker_step_kept [OF working(3) q])
    have "steps_left (stage u) < steps_left (stage (lives s l))" if "\<not> is_looping (the_loop (lives s l))"
      using working(3) that by cases (auto simp: goes_on_def)
    then show ?thesis using working k in_loopD(2) [OF ok l]
      by (auto simp: told_def in_loop_def put_worker_def)
  next
    case (leaving timers fds w)
    have "in_loop (pooled p s) l" using leaving(2) by simp
    then show ?thesis using leaving in_loopD(2) [OF ok] by (auto simp: told_def in_loop_def)
  qed
  then show "l < n" "in_loop s l" "accepted t = accepted s" "thread_pool (acceptor t) = thread_pool (acceptor s)"
    "net_calls (acceptor t) = net_calls (acceptor s)" "told s k \<Longrightarrow> told t k" "\<not> in_loop s k \<Longrightarrow> \<not> in_loop t k"
    "k \<noteq> l \<Longrightarrow> in_loop t k = in_loop s k \<and> lives t k = lives s k"
    "told s l \<Longrightarrow> in_loop t l \<Longrightarrow> steps_left (stage (lives t l)) < steps_left (stage (lives s l))" by blast+
qed

lemma ending_okD:
  assumes "ending_ok n efd s0 pe s"
  obtains p where "system_ok n efd (pooled p s)"
    "thread_pool (acceptor s) = None" "accepted s = accepted s0" "net_calls (acceptor s) = net_calls (acceptor s0)" "at_end n pe s"
  using assms by (auto simp: ending_ok_def)

lemma at_end_move:
  assumes "at_end n pe s" "worker_move fs l s t" "system_ok n efd (pooled p s)"
  shows "at_end n pe t"
proof -
  have k: "told s k \<Longrightarrow> told t k" "\<not> in_loop s k \<Longrightarrow> \<not> in_loop t k" for k
    using worker_move_effect(6,7) [OF assms(2,3)] by blast+
  show ?thesis
  proof (cases pe)
    case (Quitting ls ts)
    then show ?thesis using assms(1) k(1) by (simp, blast)
  next
    case (Joining ts)
    then show ?thesis using assms(1) k by (simp, blast)
  next
    case Pool_gone
    then show ?thesis using assms(1) k(2) by simp
  qed
qed

lemma ending_move:
  assumes "ending_ok n efd s0 pe s" "worker_move fs l s t"
  shows "ending_ok n efd s0 pe t"
proof -
  from assms(1) obtain p where p: "system_ok n efd (pooled p s)" "thread_pool (acceptor s) = None"
    "accepted s = accepted s0" "net_calls (acceptor s) = net_calls (acceptor s0)" "at_end n pe s" by (rule ending_okD)
  note m = worker_move_effect [OF assms(2) p(1)]
  show ?thesis using worker_move_ok [OF pooled_move [OF assms(2)] p(1)] m(3-5) p(2-4) at_end_move [OF p(5) assms(2) p(1)]
    by (auto simp: ending_ok_def)
qed

lemma upt_ConsD: "l # ls = [k..<n] \<Longrightarrow> l = k \<and> ls = [Suc k..<n] \<and> k < n"
  by (cases "k < n") (auto simp: upt_conv_Cons)

lemma upt_NilD: "[] = [k..<n] \<Longrightarrow> k \<le> n \<Longrightarrow> k = n"
proof -
  assume "[] = [k..<n]" "k \<le> n"
  then have "length [k..<n] = 0" by (metis list.size(3))
  then show ?thesis using \<open>k \<le> n\<close> by simp
qed

lemma ending_destructor:
  assumes e: "ending_ok n efd s0 pe s" and run: "pool_end_step pe (acceptor s) = Inr (pe', v)"
  shows "ending_ok n efd s0 pe' (with_acceptor v s)"
proof -
  from e obtain p where p: "system_ok n efd (pooled p s)" "thread_pool (acceptor s) = None"
    "accepted s = accepted s0" "net_calls (acceptor s) = net_calls (acceptor s0)" "at_end n pe s" by (rule ending_okD)
  have same: ?thesis if "v = acceptor s" "at_end n pe' s"
    using that with_acceptor_same [OF p(1)] p by (auto simp: ending_ok_def)
  consider (quit) l ls ts where "pe = Quitting (l # ls) ts" | (quits) ts where "pe = Quitting [] ts"
    | (join) l ts where "pe = Joining (l # ts)" | (last) "pe = Joining []" | (gone) "pe = Pool_gone"
    by (metis neq_Nil_conv pool_end.exhaust)
  then show ?thesis
  proof cases
    case quit
    then have v: "quit_worker l (acceptor s) = Inr v" "pe' = Quitting ls ts" using run by auto
    note q = quit_in_system [OF p(1) v(1)]
    obtain k where k': "ts = [0..<n]" "l # ls = [k..<n]" "\<forall>j < k. told s j" using p(5) quit by auto
    then have k: "ts = [0..<n]" "k < n" "l = k" "ls = [Suc k..<n]" "\<forall>j < k. told s j"
      using upt_ConsD [OF k'(2)] by simp_all
    have "told (with_acceptor v s) j" if "j < Suc k" for j
      unfolding q(4) using k(3,5) that by (cases "j = k") (auto simp: q(3) told_def in_loop_def put_worker_def Quit_def)
    then have "at_end n pe' (with_acceptor v s)" using k(1-4) by (simp add: v(2)) (metis Suc_leI)
    moreover have "thread_pool v = None" "net_calls v = net_calls (acceptor s)" using p(2) by (simp_all add: q(3) put_worker_def)
    ultimately show ?thesis using q(5) p(3,4) by (auto simp: ending_ok_def with_acceptor_def)
  next
    case quits
    then obtain k where k: "ts = [0..<n]" "k \<le> n" "[] = [k..<n]" "\<forall>l < k. told s l" using p(5) by auto
    have "k = n" by (rule upt_NilD [OF k(3,2)])
    then have "at_end n pe' s" using k run quits by auto
    then show ?thesis by (rule same [rotated]) (use quits run in auto)
  next
    case join
    obtain k where k': "l # ts = [k..<n]" "\<forall>j < k. \<not> in_loop s j" using p(5) join by auto
    then have k: "k < n" "l = k" "ts = [Suc k..<n]" "\<forall>j < k. \<not> in_loop s j" using upt_ConsD [OF k'(1)] by simp_all
    have "\<forall>j < Suc k. \<not> in_loop s j" if "workers (acceptor s) l = None" using k that by (auto simp: in_loop_def less_Suc_eq)
    moreover have "Suc k \<le> n" using k(1) by simp
    ultimately have "at_end n (Joining ts) s" if "workers (acceptor s) l = None" using that p(5) join k(3) by auto
    moreover have "pe' = (if workers (acceptor s) l = None then Joining ts else pe)" using run join by auto
    ultimately have "at_end n pe' s" using p(5) by (cases "workers (acceptor s) l") simp_all
    then show ?thesis by (rule same [rotated]) (use join run in \<open>auto split: if_split_asm\<close>)
  next
    case last
    then obtain k where k: "k \<le> n" "[] = [k..<n]" "\<forall>l < k. \<not> in_loop s l" using p(5) by auto
    have "k = n" by (rule upt_NilD [OF k(2,1)])
    then have "at_end n pe' s" using k(3) run last by simp
    then show ?thesis by (rule same [rotated]) (use last run in auto)
  next
    case gone
    show ?thesis by (rule same) (use gone run p(5) in auto)
  qed
qed

lemma ending_step: "shutdown_step fs (pe, s) (pe', t) \<Longrightarrow> ending_ok n efd s0 pe s \<Longrightarrow> ending_ok n efd s0 pe' t"
  by (elim shutdown_stepE) (auto intro: ending_destructor ending_move)

text \<open>The pool holds each of its threads once, and accepting does not change that.\<close>

definition pool_threads :: "system \<Rightarrow> nat list option" where
  "pool_threads s = map_option threads (thread_pool (acceptor s))"

lemma accept_one_threads: "accept_one fs fd s = Inr v \<Longrightarrow> map_option threads (thread_pool v) = map_option threads (thread_pool s)"
  by (cases "thread_pool s")
    (auto simp: accept_one_def net_def with_worker_def GetNextLoop_def put_worker_def Let_def split: prod.split_asm if_split_asm option.split_asm)

lemma system_reachable_threads: "system_reachable fs s0 s \<Longrightarrow> pool_threads s = pool_threads s0"
proof (induction rule: system_reachable.induct)
  case (step_system s t)
  have "pool_threads t = pool_threads s"
    using step_system(2)
  proof cases
    case (accepting fd v l w)
    then show ?thesis using accept_one_threads by (simp add: pool_threads_def)
  next
    case (moving l)
    from moving show ?thesis by cases (simp_all add: pool_threads_def put_worker_def)
  next
    case (quitting l v)
    from quitting(2) show ?thesis
      by (cases "workers (acceptor s) l") (auto simp: quitting(1) pool_threads_def quit_worker_def put_worker_def)
  qed
  then show ?case using step_system by simp
qed simp

lemma shutdown_reachable_ok:
  assumes r: "shutdown_reachable fs s0 pe s" and ok: "system_ok n efd s0" and t: "pool_threads s0 = Some [0..<n]"
  shows "ending_ok n efd s0 pe s"
  using r
proof (induction rule: shutdown_reachable.induct)
  case (begin_shutdown pe v)
  from system_okD(1) [OF ok] obtain p where p: "thread_pool (acceptor s0) = Some p" "eventloops p = [0..<n]"
    by (auto simp: pool_at_def)
  then have v: "pe = Quitting [0..<n] [0..<n]" "v = (acceptor s0)\<lparr>thread_pool := None\<rparr>"
    using begin_shutdown t by (auto simp: shutdown_def pool_threads_def)
  have "pooled p (s0\<lparr>acceptor := v\<rparr>) = s0" using p(1) by (cases s0) (simp add: pooled_def v(2))
  then have "system_ok n efd (pooled p (s0\<lparr>acceptor := v\<rparr>))" using ok by simp
  moreover have "at_end n pe (s0\<lparr>acceptor := v\<rparr>)" by (auto simp: v)
  ultimately show ?case by (auto simp: ending_ok_def v)
next
  case (step_shutdown pe s pe' t)
  then show ?case using ending_step by blast
qed

section \<open>Joining ends\<close>

text \<open>A thread that was told to quit can always move, and a move takes one step of its remaining work.\<close>

lemma worker_moves:
  assumes ok: "system_ok n efd (pooled p s)" and l: "in_loop s l"
  shows "\<exists>t. worker_move fs l s t"
proof -
  have inl: "in_loop (pooled p s) l" using l by simp
  from worker_never_stuck [OF ok inl, of fs] show ?thesis
  proof (elim disjE exE conjE)
    fix t assume "worker_step fs (lives (pooled p s) l) t"
    then show ?thesis using working [OF l] by fastforce
  next
    assume a: "stage (lives (pooled p s) l) = At_Check" "\<not> goes_on (lives (pooled p s) l)"
      "\<forall>timers fds. distinct timers \<longrightarrow> set timers = set (timer_node_queue (the_loop (lives (pooled p s) l))) \<longrightarrow>
        dom (fd2http (the_loop (lives (pooled p s) l))) \<subseteq> set fds \<longrightarrow>
        (\<exists>w. destroy_EventLoop timers fds (the_loop (lives (pooled p s) l)) = Inr w)"
    let ?timers = "remdups (timer_node_queue (the_loop (lives s l)))" and ?fds = "efd l # handed (lives s l)"
    have d: "dom (fd2http (the_loop (lives s l))) \<subseteq> set ?fds" using table_handed [OF in_loopD(3) [OF ok inl]] by simp
    then obtain w where "destroy_EventLoop ?timers ?fds (the_loop (lives s l)) = Inr w" using a(3) by fastforce
    from leaving [OF l _ _ _ _ d this] a(1,2) show ?thesis by auto
  qed
qed

lemma work_left_move:
  assumes ok: "system_ok n efd (pooled p s)" and m: "worker_move fs l s t" and told: "told s l"
  shows "work_left n t < work_left n s"
proof -
  note e = worker_move_effect [OF m ok]
  let ?f = "\<lambda>s k. if in_loop s k then steps_left (stage (lives s k)) else 0"
  have "0 < steps_left (stage (lives s l))" by (cases "stage (lives s l)") simp_all
  then have less: "?f t l < ?f s l" using e(2) e(9) [OF told] by simp
  then have "\<forall>k \<in> {..<n}. ?f t k \<le> ?f s k" using e(8) by (metis order_less_imp_le order_refl)
  moreover have "\<exists>k \<in> {..<n}. ?f t k < ?f s k" using e(1) less by blast
  ultimately show ?thesis unfolding work_left_def by (rule sum_strict_mono_ex1 [OF finite_lessThan])
qed

lemma joining_ends:
  assumes "ending_ok n efd s0 (Joining ts) s"
  shows "\<exists>t. rtranclp (shutdown_step fs) (Joining ts, s) (Pool_gone, t)"
  using assms
proof (induction "work_left n s + length ts" arbitrary: s ts rule: less_induct)
  case less
  from less.prems obtain p where p: "system_ok n efd (pooled p s)" "at_end n (Joining ts) s" by (rule ending_okD)
  note same = with_acceptor_same [OF p(1)]
  show ?case
  proof (cases ts)
    case Nil
    have "shutdown_step fs (Joining [], s) (Pool_gone, s)"
      using destructor [of "Joining []" s Pool_gone "acceptor s" fs] by (simp add: same)
    then show ?thesis unfolding Nil by blast
  next
    case (Cons l ls)
    show ?thesis
    proof (cases "in_loop s l")
      case True
      obtain t where t: "worker_move fs l s t" using worker_moves [OF p(1) True] by blast
      have "l < n" using worker_move_effect(1) [OF t p(1)] .
      then have "work_left n t < work_left n s" using work_left_move [OF p(1) t] p(2) by simp
      then obtain u where "rtranclp (shutdown_step fs) (Joining ts, t) (Pool_gone, u)"
        using less.hyps ending_move [OF less.prems t] by fastforce
      then show ?thesis using thread [OF t] by (meson converse_rtranclp_into_rtranclp)
    next
      case False
      then have run: "pool_end_step (Joining ts) (acceptor s) = Inr (Joining ls, acceptor s)" by (simp add: Cons in_loop_def)
      have "ending_ok n efd s0 (Joining ls) s" using ending_destructor [OF less.prems run] by (simp add: same)
      then obtain u where "rtranclp (shutdown_step fs) (Joining ls, s) (Pool_gone, u)"
        using less.hyps [of s ls] Cons by auto
      moreover have "shutdown_step fs (Joining ts, s) (Joining ls, s)" using destructor [OF run, of fs] by (simp add: same)
      ultimately show ?thesis by (meson converse_rtranclp_into_rtranclp)
    qed
  qed
qed

section \<open>Properties\<close>

text \<open>
  C34. The end of the server, whatever the threads of the pool do meanwhile: the destructor of the pool
  faults exactly when it calls \<open>Quit\<close> through the pointer to a loop whose thread has left, as it does
  after five idle polls, and it stops the loop otherwise. Once it joins, every loop that still runs has
  been stopped; a thread that has not left can always move, each of its moves takes one of at most four
  remaining steps, and so joining ends. At the end every thread has left, and over all workers each
  accepted descriptor and each wake-up descriptor has been closed exactly as often as it was opened. No
  call is made on the listening descriptor, which stays open.
\<close>

theorem shutdown_needs_running_workers:
  assumes "system_reachable fs (system_start spawn v) s0"
    and "start_pool spawn v0 = Inr v" "thread_pool v0 = Some (new_EventLoopThreadPool (int n))" "0 < n"
    and "workers v0 = Map.empty"
    and "\<forall>l < n. new_EventLoop (tid l) (efd l) (clk l) (sks l) = Inr (spawn l) \<and> tid l \<noteq> thread_id v0"
    and "shutdown_reachable fs s0 pe s"
  shows "(case pool_end_step pe (acceptor s) of
      Inl f \<Rightarrow> f = UseAfterFree \<and> (\<exists>l ls ts. pe = Quitting (l # ls) ts \<and> workers (acceptor s) l = None)
    | Inr (pe', u) \<Rightarrow> \<forall>l ls ts. pe = Quitting (l # ls) ts \<longrightarrow>
        (\<exists>w. workers (acceptor s) l = Some w \<and> workers u = (workers (acceptor s))(l \<mapsto> Quit w))) \<and>
    (\<forall>ts. pe = Joining ts \<longrightarrow>
       (\<forall>l w. workers (acceptor s) l = Some w \<longrightarrow> \<not> is_looping w \<and> (\<exists>t. worker_move fs l s t) \<and>
          (\<forall>t. worker_move fs l s t \<longrightarrow> work_left n t < work_left n s)) \<and>
       work_left n s \<le> 4 * n \<and> (\<exists>t. rtranclp (shutdown_step fs) (Joining ts, s) (Pool_gone, t))) \<and>
    (pe = Pool_gone \<longrightarrow> (\<forall>l. workers (acceptor s) l = None) \<and>
       (\<forall>fd. (\<Sum>l<n. closes fd (sys_log (the_loop (lives s l)))) =
          count_list (accepted s0) fd + card {l. l < n \<and> efd l = fd})) \<and>
    net_calls (acceptor s) = net_calls (acceptor s0)"
proof -
  have ok0: "system_ok n efd s0" by (rule system_reachable_ok [OF assms(1) system_start_ok [OF assms(2-6)]])
  have "pool_threads (system_start spawn v) = Some [0..<n]"
    using assms(2,3) by (auto simp: pool_threads_def system_start_def start_pool_def Let_def pool_start_new)
  then have "pool_threads s0 = Some [0..<n]" using system_reachable_threads [OF assms(1)] by simp
  note e = shutdown_reachable_ok [OF assms(7) ok0 this]
  from e obtain p where p: "system_ok n efd (pooled p s)" "accepted s = accepted s0"
    "net_calls (acceptor s) = net_calls (acceptor s0)" "at_end n pe s" by (rule ending_okD)
  have inl: "l < n \<and> w = the_loop (lives s l) \<and> in_loop s l" if "workers (acceptor s) l = Some w" for l w
    using in_loopD(1,2) [OF p(1), of l] that by (auto simp: in_loop_def)
  have quits: "case pool_end_step pe (acceptor s) of
      Inl f \<Rightarrow> f = UseAfterFree \<and> (\<exists>l ls ts. pe = Quitting (l # ls) ts \<and> workers (acceptor s) l = None)
    | Inr (pe', u) \<Rightarrow> \<forall>l ls ts. pe = Quitting (l # ls) ts \<longrightarrow>
        (\<exists>w. workers (acceptor s) l = Some w \<and> workers u = (workers (acceptor s))(l \<mapsto> Quit w))"
  proof (cases "\<exists>l ls ts. pe = Quitting (l # ls) ts")
    case True
    then obtain l ls ts where "pe = Quitting (l # ls) ts" by blast
    then show ?thesis by (cases "workers (acceptor s) l") (auto simp: quit_worker_def put_worker_def)
  next
    case False
    then show ?thesis by (cases "(pe, acceptor s)" rule: pool_end_step.cases) auto
  qed
  have joins: "(\<forall>l w. workers (acceptor s) l = Some w \<longrightarrow> \<not> is_looping w \<and> (\<exists>t. worker_move fs l s t) \<and>
          (\<forall>t. worker_move fs l s t \<longrightarrow> work_left n t < work_left n s)) \<and>
       (\<exists>t. rtranclp (shutdown_step fs) (Joining ts, s) (Pool_gone, t))" if j: "pe = Joining ts" for ts
  proof -
    have told: "told s l" if "l < n" for l using p(4) j that by simp
    show ?thesis
      using joining_ends [OF e [unfolded j], of fs] inl told worker_moves [OF p(1)] work_left_move [OF p(1)]
      unfolding told_def by blast
  qed
  have "work_left n s \<le> (\<Sum>l<n. 4)" unfolding work_left_def
  proof (rule sum_mono)
    show "(if in_loop s l then steps_left (stage (lives s l)) else 0) \<le> 4" for l by (cases "stage (lives s l)") simp_all
  qed
  then have bound: "work_left n s \<le> 4 * n" by simp
  have "(\<forall>l. workers (acceptor s) l = None) \<and> (\<forall>fd. (\<Sum>l<n. closed_on s l fd) =
      count_list (accepted s0) fd + card {l. l < n \<and> efd l = fd})" if "pe = Pool_gone"
  proof -
    have out: "\<not> in_loop s l" if "l < n" for l using p(4) \<open>pe = Pool_gone\<close> that by simp
    have "closed_on s l fd = count_list (dealt [0..<n] 0 l (accepted s0)) fd + (if efd l = fd then 1 else 0)" if "l < n" for l fd
      using system_okD(3,4) [OF p(1)] that out [OF that] p(2) by (auto simp: ended_ok_def)
    moreover have "(\<Sum>l<n. if efd l = fd then 1 else 0) = card {l. l < n \<and> efd l = fd}" for fd
      by (simp add: sum.If_cases Int_def)
    moreover have "workers (acceptor s) l = None" for l using inl [of l] out [of l] by (cases "workers (acceptor s) l") auto
    ultimately show ?thesis using count_dealt [OF assms(4)] by (simp add: sum.distrib)
  qed
  then show ?thesis using quits joins bound p(3) by blast
qed

text \<open>Two workers, one connection, and a shutdown while both are in their loops.\<close>

lemma shutdown_needs_running_workers_witness:
  "\<exists>spawn v s0 s t. system_reachable (one_file ''a'' ''b'') (system_start spawn v) s0 \<and> accepted s0 = [7] \<and>
     shutdown_reachable (one_file ''a'' ''b'') s0 (Joining [0, 1]) s \<and>
     rtranclp (shutdown_step (one_file ''a'' ''b'')) (Joining [0, 1], s) (Pool_gone, t)"
proof -
  let ?fs = "one_file ''a'' ''b''"
  obtain spawn v0 v s0 where s0: "system_reachable ?fs (system_start spawn v) s0" "accepted s0 = [7]"
    "start_pool spawn v0 = Inr v" "thread_pool v0 = Some (new_EventLoopThreadPool (int 2))" "workers v0 = Map.empty"
    "\<forall>l < 2. new_EventLoop (Suc l) (4 + int l) (\<lambda>_. (0, 0)) (\<lambda>_. quiet_sock) = Inr (spawn l) \<and> Suc l \<noteq> thread_id v0"
    "workers (acceptor s0) 1 \<noteq> None" "turn (acceptor s0) = 1" "workers (acceptor s0) 0 \<noteq> None" by (rule one_accepted)
  note main = shutdown_needs_running_workers [OF s0(1,3,4) _ s0(5,6)]
  have "pool_threads (system_start spawn v) = Some [0, 1]"
    using s0(3,4) by (auto simp: pool_threads_def system_start_def start_pool_def Let_def pool_start_new upt_rec)
  then have t: "pool_threads s0 = Some [0, 1]" using system_reachable_threads [OF s0(1)] by simp
  have "system_ok 2 (\<lambda>l. 4 + int l) s0" by (rule system_reachable_ok [OF s0(1) system_start_ok [OF s0(3,4) _ s0(5,6)]]) simp
  then have "pool_at 2 s0" by (rule system_okD(1))
  then obtain p where p: "thread_pool (acceptor s0) = Some p" "eventloops p = [0, 1]" by (auto simp: pool_at_def upt_rec)
  have r0: "shutdown_reachable ?fs s0 (Quitting [0, 1] [0, 1]) (s0\<lparr>acceptor := (acceptor s0)\<lparr>thread_pool := None\<rparr>\<rparr>)"
    by (rule begin_shutdown) (use p t in \<open>simp add: shutdown_def pool_threads_def\<close>)
  have step: "shutdown_reachable ?fs s0 pe' (with_acceptor u s)"
    if "shutdown_reachable ?fs s0 pe s" "pool_end_step pe (acceptor s) = Inr (pe', u)" for pe s pe' u
    by (rule step_shutdown [OF that(1) destructor [OF that(2)]])
  have quit: "\<exists>u. shutdown_reachable ?fs s0 (Quitting ls [0, 1]) (with_acceptor u s) \<and>
      (\<forall>k. workers (acceptor s) k \<noteq> None \<longrightarrow> workers u k \<noteq> None)"
    if r: "shutdown_reachable ?fs s0 (Quitting (l # ls) [0, 1]) s" and l: "workers (acceptor s) l \<noteq> None" for l ls s
  proof -
    obtain u where u: "pool_end_step (Quitting (l # ls) [0, 1]) (acceptor s) = Inr (Quitting ls [0, 1], u)"
      using l by (cases "workers (acceptor s) l") (auto simp: quit_worker_def)
    then show ?thesis using step [OF r u] main [OF _ r] by (intro exI [of _ u]) auto
  qed
  obtain u1 where u1: "shutdown_reachable ?fs s0 (Quitting [1] [0, 1]) (with_acceptor u1 (s0\<lparr>acceptor := (acceptor s0)\<lparr>thread_pool := None\<rparr>\<rparr>))"
    "\<forall>k. workers (acceptor s0) k \<noteq> None \<longrightarrow> workers u1 k \<noteq> None" using quit [OF r0] s0(9) by auto
  obtain u2 where u2: "shutdown_reachable ?fs s0 (Quitting [] [0, 1])
      (with_acceptor u2 (with_acceptor u1 (s0\<lparr>acceptor := (acceptor s0)\<lparr>thread_pool := None\<rparr>\<rparr>)))"
    using quit [OF u1(1)] u1(2) s0(7) by (auto simp: with_acceptor_def)
  from step [OF u2] have r: "\<exists>s. shutdown_reachable ?fs s0 (Joining [0, 1]) s" by fastforce
  then obtain s where s: "shutdown_reachable ?fs s0 (Joining [0, 1]) s" by blast
  obtain t where "rtranclp (shutdown_step ?fs) (Joining [0, 1], s) (Pool_gone, t)" using main [OF _ s] by auto
  then show ?thesis using s0(1,2) s by blast
qed

end
