(* ===== verification/Demos.thy ===== *)
theory Demos
  imports Socket_Setup
begin

text \<open>
  The two demonstration programs, \<^verbatim>\<open>src/ServerDemo.cpp\<close> and \<^verbatim>\<open>src/ClientDemo.cpp\<close>: a server that
  handles one visitor after the other with blocking calls, and a client for it. What the kernel
  answers is given; the effects are kept in order. A byte of a local array that nothing was stored
  in is \<open>None\<close>.
\<close>

section \<open>Buffers\<close>

datatype demo_effect = D_print string | D_connect int "nat \<times> nat \<times> nat \<times> nat" nat | D_write int string | D_close int

text \<open>\<open>cout << buf\<close> for an array of characters.\<close>

fun print_cstr :: "char option list \<Rightarrow> string result" where
  "print_cstr [] = Inl OutOfRange"
| "print_cstr (None # buf) = Inl UninitialisedRead"
| "print_cstr (Some c # buf) = (if c = CHR 0x00 then Inr '''' else bindR (print_cstr buf) (\<lambda>t. Inr (c # t)))"

text \<open>A fresh array of \<open>n\<close> characters after \<open>read\<close> with its size; \<open>None\<close> is a failed read.\<close>

definition read_into :: "nat \<Rightarrow> string option \<Rightarrow> char option list" where
  "read_into n ret = (case ret of
       Some xs \<Rightarrow> List.map Some (take n xs) @ replicate (n - length xs) None
     | None \<Rightarrow> replicate n None)"

text \<open>\<open>char sendbuf[256] = "..."\<close> fills the rest with zeros.\<close>

definition padded :: "string \<Rightarrow> string" where
  "padded msg = msg @ replicate (256 - length msg) (CHR 0x00)"

definition endl :: string where
  "endl = [CHR 0x0A]"

section \<open>The server\<close>

record visitor =
  v_fd :: int
  v_addr :: "nat \<times> nat \<times> nat \<times> nat"
  v_sent :: "string option"

definition dotted :: "nat \<times> nat \<times> nat \<times> nat \<Rightarrow> string" where
  "dotted addr = (case addr of (a, b, c, d) \<Rightarrow>
     to_string a @ ''.'' @ to_string b @ ''.'' @ to_string c @ ''.'' @ to_string d)"

definition server_msg :: string where
  "server_msg = ''hello this is the first msg from server by leeeyf''"

text \<open>
  One round of the loop. The copy of ten bytes of \<open>send_buf\<close> onto themselves at its end changes
  nothing that is ever read. The descriptor stays open.
\<close>

definition serve_visitor :: "visitor \<Rightarrow> demo_effect list \<Rightarrow> demo_effect list result" where
  "serve_visitor v log =
     (let log = log @ [D_print (''client addr: '' @ dotted (v_addr v) @ endl)];
          recv_buf = read_into 512 (v_sent v) in
      bindR (print_cstr recv_buf) (\<lambda>t.
      Inr (log @ [D_print (t @ endl), D_write (v_fd v) (padded server_msg)])))"

definition ServerDemo_main :: "listen_answers \<Rightarrow> visitor list \<Rightarrow> (int \<times> demo_effect list) result" where
  "ServerDemo_main a visitors =
     (let log = [D_print (''Hello FlashWebserver!'' @ endl)];
          listen_fd = fst (SocketBindListen a 8081) in
      bindR (forR serve_visitor (takeWhile (\<lambda>v. v_fd v > 0) visitors) log) (\<lambda>log. Inr (listen_fd, log)))"

section \<open>The client\<close>

definition client_msg :: string where
  "client_msg = ''hello this is the first msg from client by leeeyf''"

definition ClientDemo_main :: "int \<Rightarrow> string option \<Rightarrow> demo_effect list result" where
  "ClientDemo_main sock reply =
     (let log = [D_connect sock (127, 0, 0, 1) 8081, D_write sock (padded client_msg)];
          recvbuf = read_into 256 reply in
      bindR (print_cstr recvbuf) (\<lambda>t. Inr (log @ [D_print (t @ endl), D_close sock])))"

section \<open>Properties\<close>

lemma print_cstr_ok: "CHR 0x00 \<notin> set xs \<Longrightarrow> print_cstr (List.map Some xs @ Some (CHR 0x00) # rest) = Inr xs"
  by (induction xs) auto

lemma print_cstr_none: "CHR 0x00 \<notin> set xs \<Longrightarrow> \<exists>e. print_cstr (List.map Some xs @ replicate n None) = Inl e"
proof (induction xs)
  case Nil
  show ?case by (cases n) simp_all
qed auto

lemma print_padded:
  assumes "CHR 0x00 \<notin> set msg" "length msg < 256" "256 \<le> n"
  shows "print_cstr (read_into n (Some (padded msg))) = Inr msg"
proof -
  obtain k where "256 - length msg = Suc k" using assms(2) by (cases "256 - length msg") auto
  then have "read_into n (Some (padded msg)) =
      List.map Some msg @ Some (CHR 0x00) # (replicate k (Some (CHR 0x00)) @ replicate (n - 256) None)"
    using assms by (simp add: read_into_def padded_def)
  then show ?thesis using print_cstr_ok [OF assms(1)] by simp
qed

text \<open>The two programs understand each other when the messages are not split.\<close>

lemma demos_talk:
  assumes "v_sent v = Some (padded client_msg)"
  shows "serve_visitor v log = Inr (log @ [D_print (''client addr: '' @ dotted (v_addr v) @ endl),
      D_print (client_msg @ endl), D_write (v_fd v) (padded server_msg)])"
    "ClientDemo_main sock (Some (padded server_msg)) = Inr [D_connect sock (127, 0, 0, 1) 8081,
      D_write sock (padded client_msg), D_print (server_msg @ endl), D_close sock]"
  using print_padded [of client_msg 512] print_padded [of server_msg 256] assms
  by (simp_all add: serve_visitor_def ClientDemo_main_def Let_def client_msg_def server_msg_def)

text \<open>
  A visitor whose bytes hold no zero, one that leaves at once included, makes the server print bytes
  that it never received.
\<close>

lemma server_demo_unterminated:
  assumes "v_sent v = None \<or> (\<exists>xs. v_sent v = Some xs \<and> CHR 0x00 \<notin> set xs)"
  shows "\<exists>e. serve_visitor v log = Inl e"
proof -
  obtain ys n where "read_into 512 (v_sent v) = List.map Some ys @ replicate n None" "CHR 0x00 \<notin> set ys"
  proof (cases "v_sent v")
    case None
    then show ?thesis using that [of "[]" 512] by (simp add: read_into_def)
  next
    case (Some xs)
    then show ?thesis using assms that [of "take 512 xs" "512 - length xs"]
      by (auto simp: read_into_def dest: in_set_takeD)
  qed
  then show ?thesis using print_cstr_none [of ys n] by (auto simp: serve_visitor_def Let_def)
qed

end
