(* ===== verification/Doctest_String.thy ===== *)
theory Doctest_String
  imports Flash_Prelude "HOL-Library.Char_ord" "HOL-Library.List_Lexorder"
begin

text \<open>
  The string class of \<^verbatim>\<open>src/Utils/doctest.h\<close>: a union of 24 bytes that holds up to 23
  characters in place and otherwise a pointer to a heap block with a size and a capacity. The
  active member of the union is the constructor; the last byte of the buffer, which also counts
  the free characters, is kept as the source writes it. A cell is \<open>None\<close> while nothing was stored
  in it, and every copy checks the bounds of the block it writes to. \<open>size_type\<close> is
  \<open>unsigned\<close>, so sizes are naturals below \<open>2\<^sup>3\<^sup>2\<close> and arithmetic wraps by \<open>u32\<close>.
  \<open>represents s xs\<close> says that a string is well formed and its characters are \<open>xs\<close>; the
  lemmas show what every operation does to the characters.
\<close>

section \<open>C strings\<close>

text \<open>\<open>std::strcmp\<close> compares as \<open>unsigned char\<close>; only the sign of its result is specified.\<close>

fun strcmp :: "string \<Rightarrow> string \<Rightarrow> int" where
  "strcmp [] [] = 0"
| "strcmp [] (b # bs) = - int (of_char b)"
| "strcmp (a # as) [] = int (of_char a)"
| "strcmp (a # as) (b # bs) =
     (if a = b then strcmp as bs else int (of_char a) - int (of_char b))"

text \<open>\<open>char\<close> is signed; \<open>tolower\<close> in the C locale changes the letters A to Z only.\<close>

definition schar :: "char \<Rightarrow> int" where
  "schar c = (let n = int (of_char c) in if n < 128 then n else n - 256)"

definition tolower :: "char \<Rightarrow> char" where
  "tolower c = (let n = of_char c :: nat in if 65 \<le> n \<and> n \<le> 90 then char_of (n + 32) else c)"

text \<open>\<open>stricmp\<close>: the terminator counts as character 0.\<close>

fun stricmp :: "string \<Rightarrow> string \<Rightarrow> int" where
  "stricmp [] [] = 0"
| "stricmp [] (b # bs) = - schar (tolower b)"
| "stricmp (a # as) [] = schar (tolower a)"
| "stricmp (a # as) (b # bs) =
     (let d = schar (tolower a) - schar (tolower b) in if d \<noteq> 0 then d else stricmp as bs)"

definition NUL :: char where
  "NUL = CHR 0x00"

lemma char_of_0 [simp]: "char_of (0 :: nat) = NUL"
  by (simp add: NUL_def char_of_def)

lemma of_char_eq_0_iff: "(of_char c :: nat) = 0 \<longleftrightarrow> c = NUL"
  using of_char_eq_iff [of c NUL, where 'a = nat] by (simp add: NUL_def)

lemma schar_inj: "schar a = schar b \<longleftrightarrow> a = b"
proof
  assume "schar a = schar b"
  moreover have "int (of_char a) < 256" "int (of_char b) < 256"
    using nat_of_char_less_256 [of a] nat_of_char_less_256 [of b] by linarith+
  ultimately have "int (of_char a) = int (of_char b)"
    by (simp only: schar_def Let_def split: if_splits)
  then show "a = b" by (metis of_char_eq_iff of_nat_eq_iff)
qed simp

lemma schar_0_iff: "schar c = 0 \<longleftrightarrow> c = NUL"
  using schar_inj [of c NUL] by (simp add: schar_def NUL_def)

lemma tolower_NUL_iff: "tolower c = NUL \<longleftrightarrow> c = NUL"
proof
  assume t: "tolower c = NUL"
  show "c = NUL"
  proof (cases "65 \<le> (of_char c :: nat) \<and> (of_char c :: nat) \<le> 90")
    case True
    then have "(of_char (tolower c) :: nat) = of_char c + 32"
      by (simp add: tolower_def of_char_of take_bit_eq_mod)
    with t show ?thesis by (simp add: NUL_def)
  next
    case False
    with t show ?thesis by (auto simp: tolower_def Let_def)
  qed
qed (simp add: tolower_def NUL_def)

lemma strcmp_eq_0_iff: "NUL \<notin> set s \<Longrightarrow> NUL \<notin> set t \<Longrightarrow> strcmp s t = 0 \<longleftrightarrow> s = t"
  by (induction s t rule: strcmp.induct) (auto simp: of_char_eq_0_iff)

lemma strcmp_less_iff: "NUL \<notin> set s \<Longrightarrow> NUL \<notin> set t \<Longrightarrow> strcmp s t < 0 \<longleftrightarrow> s < t"
proof (induction s t rule: strcmp.induct)
  case (2 b bs)
  then show ?case by (auto simp: of_char_eq_0_iff less_le)
next
  case (4 a as b bs)
  then show ?case by (auto simp: Cons_less_Cons less_char_def)
qed auto

lemma strcmp_refl [simp]: "strcmp s s = 0"
  by (induction s) auto

lemma strcmp_swap: "strcmp t s = - strcmp s t"
  by (induction s t rule: strcmp.induct) auto

lemma stricmp_eq_0_iff:
  "NUL \<notin> set s \<Longrightarrow> NUL \<notin> set t \<Longrightarrow> stricmp s t = 0 \<longleftrightarrow> List.map tolower s = List.map tolower t"
  by (induction s t rule: stricmp.induct)
    (auto simp: Let_def schar_0_iff tolower_NUL_iff schar_inj)

lemma stricmp_refl [simp]: "stricmp s s = 0"
  by (induction s) auto

lemma strcmp_less_trans:
  "NUL \<notin> set s \<Longrightarrow> NUL \<notin> set t \<Longrightarrow> NUL \<notin> set u \<Longrightarrow>
   strcmp s t < 0 \<Longrightarrow> strcmp t u < 0 \<Longrightarrow> strcmp s u < 0"
proof (induction s t arbitrary: u rule: strcmp.induct)
  case (2 b bs)
  then show ?case by (cases u) (auto simp: of_char_eq_0_iff neq0_conv [symmetric] simp del: neq0_conv)
next
  case (4 a as b bs)
  then show ?case by (cases u) (auto split: if_splits)
qed (auto simp: of_char_eq_0_iff)

section \<open>The representation\<close>

definition u32 :: "int \<Rightarrow> nat" where
  "u32 x = nat (x mod 2 ^ 32)"

definition String_npos :: nat where
  "String_npos = u32 (- 1)"

definition String_len :: nat where
  "String_len = 24"

definition String_last :: nat where
  "String_last = String_len - 1"

type_synonym cells = "char option list"

datatype dt_String =
    OnStack cells
  | OnHeap (data_ptr: cells) (data_size: nat) (data_capacity: nat)

definition fresh_cells :: "nat \<Rightarrow> cells" where
  "fresh_cells n = replicate n None"

definition store_cells :: "cells \<Rightarrow> nat \<Rightarrow> cells \<Rightarrow> cells result" where
  "store_cells dst off src =
     (if off + length src \<le> length dst
      then Inr (take off dst @ src @ drop (off + length src) dst) else Inl OutOfRange)"

definition load_cells :: "cells \<Rightarrow> nat \<Rightarrow> nat \<Rightarrow> cells result" where
  "load_cells src off n = (if off + n \<le> length src then Inr (take n (drop off src)) else Inl OutOfRange)"

text \<open>The buffer member of the union; what the view left in it is indeterminate.\<close>

definition union_buf :: "dt_String \<Rightarrow> cells" where
  "union_buf s = (case s of OnStack b \<Rightarrow> b | OnHeap _ _ _ \<Rightarrow> fresh_cells String_len)"

definition isOnStack :: "dt_String \<Rightarrow> bool" where
  "isOnStack s = (case s of OnStack _ \<Rightarrow> True | OnHeap _ _ _ \<Rightarrow> False)"

definition String_setLast :: "nat \<Rightarrow> cells \<Rightarrow> cells result" where
  "String_setLast n b = store_cells b String_last [Some (char_of n)]"

text \<open>\<open>allocate\<close>; the caller writes through the returned pointer with \<open>write_chars\<close>.\<close>

definition String_allocate :: "dt_String \<Rightarrow> nat \<Rightarrow> dt_String result" where
  "String_allocate s sz =
     (if sz \<le> String_last
      then bindR (store_cells (union_buf s) sz [Some NUL]) (\<lambda>b.
           bindR (String_setLast (String_last - sz) b) (\<lambda>b. Inr (OnStack b)))
      else (let cap = u32 (int sz + 1) in
           bindR (store_cells (fresh_cells cap) sz [Some NUL]) (\<lambda>p. Inr (OnHeap p sz cap))))"

definition c_cells :: "dt_String \<Rightarrow> cells" where
  "c_cells s = (case s of OnStack b \<Rightarrow> b | OnHeap p _ _ \<Rightarrow> p)"

definition write_chars :: "dt_String \<Rightarrow> nat \<Rightarrow> cells \<Rightarrow> dt_String result" where
  "write_chars s off src = (case s of
       OnStack b \<Rightarrow> bindR (store_cells b off src) (\<lambda>b. Inr (OnStack b))
     | OnHeap p sz cap \<Rightarrow> bindR (store_cells p off src) (\<lambda>p. Inr (OnHeap p sz cap)))"

definition String_setSize :: "dt_String \<Rightarrow> nat \<Rightarrow> dt_String result" where
  "String_setSize s sz = (case s of
       OnStack b \<Rightarrow> bindR (store_cells b sz [Some NUL]) (\<lambda>b.
         bindR (String_setLast (u32 (int String_last - int sz)) b) (\<lambda>b. Inr (OnStack b)))
     | OnHeap p _ cap \<Rightarrow> bindR (store_cells p sz [Some NUL]) (\<lambda>p. Inr (OnHeap p sz cap)))"

section \<open>The operations\<close>

definition String_empty :: "dt_String" where
  "String_empty = OnStack ([Some NUL] @ fresh_cells 22 @ [Some (char_of String_last)])"

definition raw_String :: dt_String where
  "raw_String = OnStack (fresh_cells String_len)"

text \<open>\<open>String(const char*, size_type)\<close> from the cells \<open>in\<close> points to, and \<open>String(const char*)\<close>.\<close>

definition String_from :: "cells \<Rightarrow> nat \<Rightarrow> dt_String result" where
  "String_from input in_size =
     bindR (String_allocate raw_String in_size) (\<lambda>s.
     bindR (load_cells input 0 in_size) (\<lambda>cs. write_chars s 0 cs))"

definition String_of_cstr :: "string \<Rightarrow> dt_String result" where
  "String_of_cstr xs = String_from (List.map Some xs @ [Some NUL]) (u32 (int (length xs)))"

definition String_copy :: "dt_String \<Rightarrow> dt_String \<Rightarrow> dt_String result" where
  "String_copy self other = (case other of
       OnStack b \<Rightarrow> Inr (OnStack b)
     | OnHeap p sz cap \<Rightarrow>
         bindR (String_allocate self sz) (\<lambda>s. bindR (load_cells p 0 sz) (\<lambda>cs. write_chars s 0 cs)))"

definition String_copy_of :: "dt_String \<Rightarrow> dt_String result" where
  "String_copy_of other = String_copy raw_String other"

text \<open>Assignment from a different object; assigning an object to itself does nothing.\<close>

definition String_assign :: "dt_String \<Rightarrow> dt_String \<Rightarrow> dt_String result" where
  "String_assign self other = String_copy self other"

text \<open>Moving out of a string: the new value and what is left behind.\<close>

definition String_move :: "dt_String \<Rightarrow> (dt_String \<times> dt_String) result" where
  "String_move other =
     bindR (store_cells (union_buf other) 0 [Some NUL]) (\<lambda>b.
     bindR (String_setLast String_last b) (\<lambda>b. Inr (other, OnStack b)))"

definition String_size :: "dt_String \<Rightarrow> nat result" where
  "String_size s = (case s of
       OnStack b \<Rightarrow> (case b ! String_last of
           None \<Rightarrow> Inl UninitialisedRead
         | Some c \<Rightarrow> Inr (u32 (int String_last - int (of_char c mod 32))))
     | OnHeap _ sz _ \<Rightarrow> Inr sz)"

definition String_capacity :: "dt_String \<Rightarrow> nat" where
  "String_capacity s = (case s of OnStack _ \<Rightarrow> String_len | OnHeap _ _ cap \<Rightarrow> cap)"

text \<open>\<open>operator+=\<close> with a different object as its argument.\<close>

definition String_append :: "dt_String \<Rightarrow> dt_String \<Rightarrow> dt_String result" where
  "String_append self other =
     bindR (String_size self) (\<lambda>my_old_size.
     bindR (String_size other) (\<lambda>other_size.
     let total_size = u32 (int my_old_size + int other_size) in
     bindR (load_cells (c_cells other) 0 (other_size + 1)) (\<lambda>src.
     case self of
       OnStack b \<Rightarrow>
         if total_size < String_len
         then bindR (store_cells b my_old_size src) (\<lambda>b.
              bindR (String_setLast (String_last - total_size) b) (\<lambda>b. Inr (OnStack b)))
         else (let cap = u32 (int total_size + 1) in
              bindR (load_cells b 0 my_old_size) (\<lambda>old.
              bindR (store_cells (fresh_cells cap) 0 old) (\<lambda>temp.
              bindR (store_cells temp my_old_size src) (\<lambda>p. Inr (OnHeap p total_size cap)))))
     | OnHeap p _ cap \<Rightarrow>
         if total_size < cap
         then bindR (store_cells p my_old_size src) (\<lambda>p. Inr (OnHeap p total_size cap))
         else (let cap2 = u32 (2 * int cap);
                   cap' = if cap2 \<le> total_size then u32 (int total_size + 1) else cap2 in
              bindR (load_cells p 0 my_old_size) (\<lambda>old.
              bindR (store_cells (fresh_cells cap') 0 old) (\<lambda>temp.
              bindR (store_cells temp my_old_size src) (\<lambda>p. Inr (OnHeap p total_size cap'))))))))"

definition String_at :: "dt_String \<Rightarrow> nat \<Rightarrow> char result" where
  "String_at s i =
     (if i < length (c_cells s)
      then (case c_cells s ! i of None \<Rightarrow> Inl UninitialisedRead | Some c \<Rightarrow> Inr c)
      else Inl OutOfRange)"

text \<open>\<open>substr\<close> of a temporary works in place, of an lvalue by copying.\<close>

definition substr_cnt :: "nat \<Rightarrow> nat \<Rightarrow> nat \<Rightarrow> nat" where
  "substr_cnt sz pos cnt = min cnt (u32 (int sz - 1 - int pos))"

definition String_substr_move :: "dt_String \<Rightarrow> nat \<Rightarrow> nat \<Rightarrow> dt_String result" where
  "String_substr_move s pos cnt =
     bindR (String_size s) (\<lambda>sz.
     let n = substr_cnt sz pos cnt in
     bindR (load_cells (c_cells s) pos n) (\<lambda>cs.
     bindR (write_chars s 0 cs) (\<lambda>s. String_setSize s n)))"

definition String_substr :: "dt_String \<Rightarrow> nat \<Rightarrow> nat \<Rightarrow> dt_String result" where
  "String_substr s pos cnt =
     bindR (String_size s) (\<lambda>sz.
     let n = substr_cnt sz pos cnt in
     if pos \<le> length (c_cells s) then String_from (drop pos (c_cells s)) n else Inl OutOfRange)"

text \<open>The loop of \<open>find\<close> runs upwards to the end, that of \<open>rfind\<close> downwards from an index.\<close>

function find_loop :: "dt_String \<Rightarrow> char \<Rightarrow> nat \<Rightarrow> nat \<Rightarrow> nat result" where
  "find_loop s ch end it =
     (if it < end
      then bindR (String_at s it) (\<lambda>c. if c \<noteq> ch then find_loop s ch end (it + 1) else Inr it)
      else Inr String_npos)"
  by pat_completeness auto
termination by (relation "measure (\<lambda>(s, ch, end, it). end - it)") auto

definition String_find :: "dt_String \<Rightarrow> char \<Rightarrow> nat \<Rightarrow> nat result" where
  "String_find s ch pos = bindR (String_size s) (\<lambda>sz. find_loop s ch sz pos)"

fun rfind_loop :: "dt_String \<Rightarrow> char \<Rightarrow> nat \<Rightarrow> nat result" where
  "rfind_loop s ch it =
     bindR (String_at s it) (\<lambda>c.
       if c \<noteq> ch then (case it of 0 \<Rightarrow> Inr String_npos | Suc i \<Rightarrow> rfind_loop s ch i) else Inr it)"

definition String_rfind :: "dt_String \<Rightarrow> char \<Rightarrow> nat \<Rightarrow> nat result" where
  "String_rfind s ch pos =
     bindR (String_size s) (\<lambda>sz. rfind_loop s ch (min pos (u32 (int sz - 1))))"

text \<open>The characters before the terminator, as the C functions read them.\<close>

fun cstr_cells :: "cells \<Rightarrow> string result" where
  "cstr_cells [] = Inl OutOfRange"
| "cstr_cells (None # cs) = Inl UninitialisedRead"
| "cstr_cells (Some c # cs) = (if c = NUL then Inr [] else bindR (cstr_cells cs) (\<lambda>xs. Inr (c # xs)))"

definition String_c_str :: "dt_String \<Rightarrow> string result" where
  "String_c_str s = cstr_cells (c_cells s)"

definition String_compare_cstr :: "dt_String \<Rightarrow> string \<Rightarrow> bool \<Rightarrow> int result" where
  "String_compare_cstr s other no_case =
     bindR (String_c_str s) (\<lambda>xs. Inr (if no_case then stricmp xs other else strcmp xs other))"

definition String_compare :: "dt_String \<Rightarrow> dt_String \<Rightarrow> bool \<Rightarrow> int result" where
  "String_compare s other no_case =
     bindR (String_c_str other) (\<lambda>ys. String_compare_cstr s ys no_case)"

definition String_plus :: "dt_String \<Rightarrow> dt_String \<Rightarrow> dt_String result" where
  "String_plus lhs rhs = bindR (String_copy_of lhs) (\<lambda>s. String_append s rhs)"

definition String_eq :: "dt_String \<Rightarrow> dt_String \<Rightarrow> bool result" where
  "String_eq l r = bindR (String_compare l r False) (\<lambda>d. Inr (d = 0))"

definition String_ne :: "dt_String \<Rightarrow> dt_String \<Rightarrow> bool result" where
  "String_ne l r = bindR (String_compare l r False) (\<lambda>d. Inr (d \<noteq> 0))"

definition String_lt :: "dt_String \<Rightarrow> dt_String \<Rightarrow> bool result" where
  "String_lt l r = bindR (String_compare l r False) (\<lambda>d. Inr (d < 0))"

definition String_gt :: "dt_String \<Rightarrow> dt_String \<Rightarrow> bool result" where
  "String_gt l r = bindR (String_compare l r False) (\<lambda>d. Inr (d > 0))"

definition String_le :: "dt_String \<Rightarrow> dt_String \<Rightarrow> bool result" where
  "String_le l r = bindR (String_ne l r) (\<lambda>n. if n then String_lt l r else Inr True)"

definition String_ge :: "dt_String \<Rightarrow> dt_String \<Rightarrow> bool result" where
  "String_ge l r = bindR (String_ne l r) (\<lambda>n. if n then String_gt l r else Inr True)"

section \<open>What the operations do to the characters\<close>

definition represents :: "dt_String \<Rightarrow> string \<Rightarrow> bool" where
  "represents s xs = (case s of
       OnStack b \<Rightarrow> length b = 24 \<and> length xs < 24 \<and>
         take (Suc (length xs)) b = List.map Some (xs @ [NUL]) \<and>
         b ! 23 = Some (char_of (23 - length xs))
     | OnHeap p sz cap \<Rightarrow> length p = cap \<and> cap < 2 ^ 32 \<and> sz = length xs \<and> sz < cap \<and>
         take (Suc (length xs)) p = List.map Some (xs @ [NUL]))"

lemma u32_small [simp]: "0 \<le> x \<Longrightarrow> x < 2 ^ 32 \<Longrightarrow> u32 x = nat x"
  by (simp add: u32_def)

lemma u32_bound: "u32 x < 2 ^ 32"
  by (simp add: u32_def nat_less_iff)

lemma String_len_simps [simp]: "String_len = 24" "String_last = 23"
  by (simp_all add: String_len_def String_last_def)

lemma String_npos_eq: "String_npos = 2 ^ 32 - 1"
  by (simp add: String_npos_def u32_def)

lemma c_cells_simps [simp]: "c_cells (OnStack b) = b" "c_cells (OnHeap p sz cap) = p"
  by (simp_all add: c_cells_def)

lemma fresh_last: "(fresh_cells (Suc n))[n := x] = fresh_cells n @ [x]"
proof -
  have "fresh_cells (Suc n) = fresh_cells n @ [None]"
    by (simp only: fresh_cells_def replicate_Suc replicate_append_same)
  then show ?thesis by (simp add: list_update_append fresh_cells_def)
qed

lemma length_fresh [simp]: "length (fresh_cells n) = n"
  by (simp add: fresh_cells_def)

lemma store_cells_ok:
  "off + length src \<le> length dst \<Longrightarrow>
   store_cells dst off src = Inr (take off dst @ src @ drop (off + length src) dst)"
  by (simp add: store_cells_def)

lemma store_one:
  "i < length b \<Longrightarrow> store_cells b i [x] = Inr (b[i := x])"
  by (simp add: store_cells_def upd_conv_take_nth_drop)

lemma setLast_eq: "length b = 24 \<Longrightarrow> String_setLast n b = Inr (b[23 := Some (char_of n)])"
  by (simp add: String_setLast_def store_one)

lemma represents_length: "represents s xs \<Longrightarrow> length xs < 2 ^ 32 - 1"
  by (auto simp: represents_def split: dt_String.splits)

lemma represents_cells:
  assumes "represents s xs"
  shows "take (Suc (length xs)) (c_cells s) = List.map Some (xs @ [NUL])"
    "Suc (length xs) \<le> length (c_cells s)"
  using assms by (auto simp: represents_def c_cells_def split: dt_String.splits)

lemma represents_chars:
  assumes "represents s xs"
  shows "take (length xs) (c_cells s) = List.map Some xs"
proof -
  have "take (length xs) (take (Suc (length xs)) (c_cells s)) = List.map Some xs"
    using represents_cells(1) [OF assms] by simp
  then show ?thesis by simp
qed

lemma represents_load:
  "represents s xs \<Longrightarrow> load_cells (c_cells s) 0 (Suc (length xs)) = Inr (List.map Some (xs @ [NUL]))"
  using represents_cells [of s xs] by (simp add: load_cells_def)

lemma represents_load_part:
  assumes "represents s xs" "pos + n \<le> length xs"
  shows "load_cells (c_cells s) pos n = Inr (List.map Some (take n (drop pos xs)))"
proof -
  have "take n (drop pos (c_cells s)) = take n (drop pos (take (length xs) (c_cells s)))"
    using assms(2) by (simp add: drop_take min_def)
  then show ?thesis
    using assms represents_cells(2) [OF assms(1)] represents_chars [OF assms(1)]
    by (simp add: load_cells_def take_map drop_map)
qed

lemma represents_size [simp]:
  assumes "represents s xs"
  shows "String_size s = Inr (length xs)"
proof (cases s)
  case (OnStack b)
  with assms show ?thesis
    by (simp add: represents_def String_size_def mod_less)
next
  case (OnHeap p sz cap)
  with assms show ?thesis by (simp add: represents_def String_size_def)
qed

text \<open>A buffer with terminated characters becomes a small string once its last byte is set.\<close>

lemma stack_finish:
  assumes "length b = 24" "length xs < 24" "take (Suc (length xs)) b = List.map Some (xs @ [NUL])"
  shows "represents (OnStack (b[23 := Some (char_of (23 - length xs))])) xs"
proof -
  have "(List.map Some (xs @ [NUL]))[23 := Some (char_of (23 - length xs))] = List.map Some (xs @ [NUL])"
  proof (cases "length xs = 23")
    case True
    then show ?thesis by (simp add: list_update_append)
  next
    case False
    with assms(2) show ?thesis by (intro list_update_beyond) simp
  qed
  with assms show ?thesis by (simp add: represents_def take_update_swap)
qed

lemma take_Suc_append_terminated:
  assumes "take m dst = List.map Some xs" "m = length xs"
  shows "take (Suc (length (xs @ ys))) (take m dst @ List.map Some (ys @ [NUL]) @ rest)
           = List.map Some ((xs @ ys) @ [NUL])"
  using assms by simp

lemma stored_length: "off + length src \<le> length dst \<Longrightarrow>
    length (take off dst @ src @ drop (off + length src) dst) = length dst"
  by simp

lemma alloc_write:
  assumes n: "length xs + 1 < 2 ^ 32" and b: "length (union_buf s) = 24"
  shows "\<exists>s'. bindR (String_allocate s (length xs)) (\<lambda>s. write_chars s 0 (List.map Some xs)) = Inr s' \<and>
     represents s' xs"
proof (cases "length xs \<le> 23")
  case True
  let ?n = "length xs" and ?b = "union_buf s"
  let ?b2 = "?b[?n := Some NUL, 23 := Some (char_of (23 - ?n))]"
  have a: "String_allocate s ?n = Inr (OnStack ?b2)"
    using True b by (simp add: String_allocate_def store_one setLast_eq)
  let ?b3 = "List.map Some xs @ drop ?n ?b2"
  have nul: "?b2 ! ?n = Some NUL"
    using True b by (cases "?n = 23") simp_all
  have d: "drop ?n ?b2 = Some NUL # drop (Suc ?n) ?b2"
    using True b nul Cons_nth_drop_Suc [of ?n ?b2] by simp
  have "take (Suc ?n) ?b3 = List.map Some (xs @ [NUL])" by (simp add: d)
  moreover have "?b3 ! 23 = Some (char_of (23 - ?n))" using True b by (simp add: nth_append)
  moreover have "length ?b3 = 24" using True b by simp
  ultimately have "represents (OnStack ?b3) xs" using True by (simp add: represents_def)
  moreover have "write_chars (OnStack ?b2) 0 (List.map Some xs) = Inr (OnStack ?b3)"
    using True b by (simp add: write_chars_def store_cells_ok)
  ultimately show ?thesis by (simp only: a bindR_simps ex_simps) blast
next
  case False
  let ?n = "length xs"
  have c: "u32 (int ?n + 1) = Suc ?n" using n by (simp add: nat_add_distrib)
  have a: "String_allocate s ?n = Inr (OnHeap (fresh_cells ?n @ [Some NUL]) ?n (Suc ?n))"
    using False n by (simp add: String_allocate_def c store_one fresh_last Let_def)
  have "represents (OnHeap (List.map Some xs @ [Some NUL]) ?n (Suc ?n)) xs"
    using n by (simp add: represents_def)
  moreover have "write_chars (OnHeap (fresh_cells ?n @ [Some NUL]) ?n (Suc ?n)) 0 (List.map Some xs)
      = Inr (OnHeap (List.map Some xs @ [Some NUL]) ?n (Suc ?n))"
    by (simp add: write_chars_def store_cells_ok)
  ultimately show ?thesis by (simp only: a bindR_simps ex_simps) blast
qed

lemma String_from_ok:
  assumes "n + 1 < 2 ^ 32" "n \<le> length cells" "take n cells = List.map Some xs"
  shows "\<exists>s. String_from cells n = Inr s \<and> represents s xs"
proof -
  have "length xs = n" using assms(2,3) by (metis length_map length_take min.absorb2)
  then show ?thesis
    using alloc_write [of xs raw_String] assms
    by (simp add: String_from_def load_cells_def raw_String_def union_buf_def fresh_cells_def)
qed

lemma represents_union_buf: "represents s xs \<Longrightarrow> length (union_buf s) = 24"
  by (auto simp: represents_def union_buf_def fresh_cells_def split: dt_String.splits)

lemma String_of_cstr_ok:
  assumes "length xs + 1 < 2 ^ 32"
  shows "\<exists>s. String_of_cstr xs = Inr s \<and> represents s xs"
  using String_from_ok [of "length xs" "List.map Some xs @ [Some NUL]" xs] assms
  by (simp add: String_of_cstr_def)

lemma String_empty_ok: "represents String_empty []"
  by (simp add: represents_def String_empty_def fresh_cells_def NUL_def nth_append)

lemma String_copy_ok:
  assumes t: "represents t xs" and s: "length (union_buf s) = 24"
  shows "\<exists>s'. String_copy s t = Inr s' \<and> represents s' xs"
proof (cases t)
  case (OnStack b)
  with t show ?thesis by (simp add: String_copy_def)
next
  case (OnHeap p sz cap)
  with t have "sz = length xs" by (simp add: represents_def)
  moreover have "load_cells p 0 (length xs) = Inr (List.map Some xs)"
    using represents_load_part [OF t, of 0 "length xs"] OnHeap by (simp add: c_cells_def)
  ultimately show ?thesis
    using alloc_write [OF _ s, of xs] represents_length [OF t] OnHeap by (simp add: String_copy_def)
qed

lemma String_copy_of_ok: "represents t xs \<Longrightarrow> \<exists>s. String_copy_of t = Inr s \<and> represents s xs"
  unfolding String_copy_of_def
  by (rule String_copy_ok) (simp_all add: raw_String_def union_buf_def fresh_cells_def)

lemma String_assign_ok:
  "represents s ys \<Longrightarrow> represents t xs \<Longrightarrow> \<exists>s'. String_assign s t = Inr s' \<and> represents s' xs"
  unfolding String_assign_def by (rule String_copy_ok) (auto dest: represents_union_buf)

lemma String_move_ok:
  assumes "represents s xs"
  shows "\<exists>rest. String_move s = Inr (s, rest) \<and> represents rest []"
proof -
  let ?b = "(union_buf s)[0 := Some NUL]"
  have b: "length ?b = 24" using represents_union_buf [OF assms] by simp
  then have "take (Suc 0) ?b = [Some NUL]" by (cases "union_buf s") auto
  then show ?thesis
    using b stack_finish [of ?b "[]"] by (simp add: String_move_def store_one setLast_eq)
qed

text \<open>Appending after \<open>m\<close> characters, in whichever block.\<close>

lemma append_into:
  assumes "take (length xs) dst = List.map Some xs" "length xs + length ys < length dst"
  shows "\<exists>d. store_cells dst (length xs) (List.map Some (ys @ [NUL])) = Inr d \<and> length d = length dst \<and>
     take (Suc (length xs + length ys)) d = List.map Some ((xs @ ys) @ [NUL])"
  using assms take_Suc_append_terminated [of "length xs" dst xs ys]
  by (simp add: store_cells_ok)

lemma append_copied:
  assumes "length xs + length ys < n"
  shows "\<exists>d. bindR (store_cells (fresh_cells n) 0 (List.map Some xs))
       (\<lambda>temp. store_cells temp (length xs) (List.map Some (ys @ [NUL]))) = Inr d \<and> length d = n \<and>
     take (Suc (length xs + length ys)) d = List.map Some ((xs @ ys) @ [NUL])"
  using append_into [of xs "List.map Some xs @ drop (length xs) (fresh_cells n)" ys] assms
  by (simp add: store_cells_ok fresh_cells_def)

lemma String_append_ok:
  assumes s: "represents s xs" and t: "represents t ys" and n: "length xs + length ys + 1 < 2 ^ 32"
  shows "\<exists>s'. String_append s t = Inr s' \<and> represents s' (xs @ ys)"
proof -
  let ?m = "length xs" and ?k = "length ys"
  have tot: "u32 (int ?m + int ?k) = ?m + ?k" "u32 (int (?m + ?k) + 1) = Suc (?m + ?k)"
    "u32 (int ?m + int ?k + 1) = Suc (?m + ?k)"
    using n by (simp_all add: nat_add_distrib)
  have old: "load_cells (c_cells s) 0 ?m = Inr (List.map Some xs)"
    using represents_load_part [OF s, of 0 ?m] by simp
  note app = String_append_def represents_size [OF t] tot Let_def
    represents_load [OF t] bindR_simps Suc_eq_plus1 [symmetric]
  show ?thesis
  proof (cases s)
    case (OnStack b)
    note sz = represents_size [OF s [unfolded OnStack]]
    from OnStack s have b: "length b = 24" "take ?m b = List.map Some xs"
      using represents_chars [OF s] by (simp_all add: represents_def)
    show ?thesis
    proof (cases "?m + ?k < 24")
      case True
      then obtain d where "store_cells b ?m (List.map Some (ys @ [NUL])) = Inr d" "length d = 24"
        "take (Suc (?m + ?k)) d = List.map Some ((xs @ ys) @ [NUL])"
        using append_into [OF b(2), of ys] b(1) by auto
      then show ?thesis
        using True OnStack stack_finish [of d "xs @ ys"]
        by (simp add: app sz setLast_eq del: List.map_append)
    next
      case False
      obtain d where d: "bindR (store_cells (fresh_cells (Suc (?m + ?k))) 0 (List.map Some xs))
           (\<lambda>temp. store_cells temp ?m (List.map Some (ys @ [NUL]))) = Inr d" "length d = Suc (?m + ?k)"
        "take (Suc (?m + ?k)) d = List.map Some ((xs @ ys) @ [NUL])"
        using append_copied [of xs ys "Suc (?m + ?k)"] by auto
      have "String_append s t = bindR (bindR (store_cells (fresh_cells (Suc (?m + ?k))) 0 (List.map Some xs))
           (\<lambda>temp. store_cells temp ?m (List.map Some (ys @ [NUL])))) (\<lambda>p. Inr (OnHeap p (?m + ?k) (Suc (?m + ?k))))"
        using False OnStack old by (simp add: app sz bindR_assoc del: List.map_append)
      with d n show ?thesis by (simp add: represents_def)
    qed
  next
    case (OnHeap p len cap)
    note sz = represents_size [OF s [unfolded OnHeap]]
    from OnHeap s have p: "length p = cap" "cap < 2 ^ 32" "take ?m p = List.map Some xs"
      using represents_chars [OF s] by (simp_all add: represents_def)
    show ?thesis
    proof (cases "?m + ?k < cap")
      case True
      then obtain d where "store_cells p ?m (List.map Some (ys @ [NUL])) = Inr d" "length d = cap"
        "take (Suc (?m + ?k)) d = List.map Some ((xs @ ys) @ [NUL])"
        using append_into [OF p(3), of ys] p(1) by auto
      then show ?thesis using True OnHeap p(2)
        by (simp add: app sz represents_def del: List.map_append)
    next
      case False
      let ?c2 = "u32 (2 * int cap)"
      let ?cap = "if ?c2 \<le> ?m + ?k then Suc (?m + ?k) else ?c2"
      have c: "?m + ?k < ?cap" "?cap < 2 ^ 32" using n u32_bound by auto
      obtain d where d: "bindR (store_cells (fresh_cells ?cap) 0 (List.map Some xs))
           (\<lambda>temp. store_cells temp ?m (List.map Some (ys @ [NUL]))) = Inr d" "length d = ?cap"
        "take (Suc (?m + ?k)) d = List.map Some ((xs @ ys) @ [NUL])"
        using append_copied [OF c(1)] by auto
      have "String_append s t = bindR (bindR (store_cells (fresh_cells ?cap) 0 (List.map Some xs))
           (\<lambda>temp. store_cells temp ?m (List.map Some (ys @ [NUL])))) (\<lambda>p. Inr (OnHeap p (?m + ?k) ?cap))"
        using False OnHeap old by (simp add: app sz bindR_assoc del: List.map_append)
      with d c show ?thesis by (simp add: represents_def)
    qed
  qed
qed

lemma String_plus_ok:
  assumes "represents s xs" "represents t ys" "length xs + length ys + 1 < 2 ^ 32"
  shows "\<exists>s'. String_plus s t = Inr s' \<and> represents s' (xs @ ys)"
proof -
  obtain c where "String_copy_of s = Inr c" "represents c xs" using String_copy_of_ok [OF assms(1)] by blast
  then show ?thesis using String_append_ok [of c xs t ys] assms(2,3) by (simp add: String_plus_def)
qed

declare find_loop.simps [simp del] rfind_loop.simps [simp del]

lemma represents_at [simp]:
  assumes "represents s xs" "i < length xs"
  shows "String_at s i = Inr (xs ! i)"
proof -
  have "c_cells s ! i = take (length xs) (c_cells s) ! i" using assms(2) by simp
  also have "\<dots> = Some (xs ! i)" using assms(2) by (simp only: represents_chars [OF assms(1)] nth_map)
  finally show ?thesis using assms represents_cells(2) [OF assms(1)] by (simp add: String_at_def)
qed

lemma find_loop_ok:
  assumes "represents s xs"
  shows "find_loop s ch (length xs) it = Inr (if ch \<in> set (drop it xs)
    then it + length (takeWhile (\<lambda>c. c \<noteq> ch) (drop it xs)) else String_npos)"
proof (induction "length xs - it" arbitrary: it)
  case 0
  then show ?case by (subst find_loop.simps) simp
next
  case (Suc n)
  then have i: "it < length xs" and IH: "find_loop s ch (length xs) (it + 1) =
      Inr (if ch \<in> set (drop (it + 1) xs)
        then it + 1 + length (takeWhile (\<lambda>c. c \<noteq> ch) (drop (it + 1) xs)) else String_npos)"
    using Suc(1) [of "it + 1"] by auto
  have d: "drop it xs = xs ! it # drop (it + 1) xs" using i by (simp add: Cons_nth_drop_Suc)
  show ?case
    using i represents_at [OF assms i] IH by (subst find_loop.simps) (auto simp: d)
qed

lemma String_find_ok:
  "represents s xs \<Longrightarrow> String_find s ch pos = Inr (if ch \<in> set (drop pos xs)
    then pos + length (takeWhile (\<lambda>c. c \<noteq> ch) (drop pos xs)) else String_npos)"
  by (simp add: String_find_def find_loop_ok)

lemma rfind_loop_ok:
  "represents s xs \<Longrightarrow> it < length xs \<Longrightarrow>
   rfind_loop s ch it = Inr (if \<exists>i \<le> it. xs ! i = ch then GREATEST i. i \<le> it \<and> xs ! i = ch else String_npos)"
proof (induction it)
  case 0
  have "(GREATEST i. i \<le> 0 \<and> xs ! i = xs ! 0) = 0" by (rule Greatest_equality) simp_all
  with 0 show ?case by (auto simp: rfind_loop.simps [of s ch 0])
next
  case (Suc it)
  show ?case
  proof (cases "xs ! Suc it = ch")
    case True
    then have "(GREATEST i. i \<le> Suc it \<and> xs ! i = ch) = Suc it"
      by (intro Greatest_equality) simp_all
    with True Suc.prems show ?thesis by (auto simp: rfind_loop.simps [of s ch "Suc it"])
  next
    case False
    then have "i \<le> Suc it \<and> xs ! i = ch \<longleftrightarrow> i \<le> it \<and> xs ! i = ch" for i by (auto simp: le_Suc_eq)
    moreover have "rfind_loop s ch (Suc it) = rfind_loop s ch it"
      using Suc.prems False by (simp add: rfind_loop.simps [of s ch "Suc it"])
    ultimately show ?thesis using Suc.IH Suc.prems by auto
  qed
qed

lemma substr_cnt_in:
  "pos < sz \<Longrightarrow> sz < 2 ^ 32 \<Longrightarrow> substr_cnt sz pos cnt = min cnt (sz - 1 - pos)"
  by (simp add: substr_cnt_def nat_diff_distrib)

lemma String_substr_ok:
  assumes s: "represents s xs" and pos: "pos < length xs"
  shows "\<exists>t. String_substr s pos cnt = Inr t \<and> represents t (take (min cnt (length xs - 1 - pos)) (drop pos xs))"
proof -
  let ?n = "min cnt (length xs - 1 - pos)"
  have n: "substr_cnt (length xs) pos cnt = ?n"
    using substr_cnt_in [OF pos] represents_length [OF s] by simp
  have l: "load_cells (c_cells s) pos ?n = Inr (List.map Some (take ?n (drop pos xs)))"
    by (rule represents_load_part [OF s]) (use pos in auto)
  then have t: "take ?n (drop pos (c_cells s)) = List.map Some (take ?n (drop pos xs))"
    and b: "pos + ?n \<le> length (c_cells s)"
    by (simp_all add: load_cells_def split: if_splits)
  show ?thesis
    using String_from_ok [OF _ _ t] b represents_length [OF s] s
    by (simp add: String_substr_def n Let_def)
qed

lemma String_substr_move_ok:
  assumes s: "represents s xs" and pos: "pos < length xs"
  shows "\<exists>t. String_substr_move s pos cnt = Inr t \<and>
     represents t (take (min cnt (length xs - 1 - pos)) (drop pos xs))"
proof -
  let ?n = "min cnt (length xs - 1 - pos)"
  let ?zs = "take ?n (drop pos xs)"
  have n: "substr_cnt (length xs) pos cnt = ?n"
    using substr_cnt_in [OF pos] represents_length [OF s] by simp
  have len: "length ?zs = ?n" "?n < length xs" using pos by auto
  have l: "load_cells (c_cells s) pos ?n = Inr (List.map Some ?zs)"
    by (rule represents_load_part [OF s]) (use pos in auto)
  have eq: "String_substr_move s pos cnt =
      bindR (write_chars s 0 (List.map Some ?zs)) (\<lambda>s. String_setSize s ?n)"
    using l s by (simp add: String_substr_move_def n Let_def)
  have fits: "0 + length (List.map Some ?zs) \<le> length (c_cells s)"
    using represents_cells(2) [OF s] len by simp
  let ?d = "(List.map Some ?zs @ drop ?n (c_cells s))[?n := Some NUL]"
  have d: "take (Suc ?n) ?d = List.map Some (?zs @ [NUL])"
    using len represents_cells(2) [OF s]
    by (simp add: list_update_append take_append Cons_nth_drop_Suc [symmetric] del: take_map)
  show ?thesis
  proof (cases s)
    case (OnStack b)
    then have b: "length b = 24" "length xs < 24" using s by (auto simp: represents_def)
    then have ld: "length (List.map Some ?zs @ drop ?n b) = 24" using len by simp
    have "write_chars s 0 (List.map Some ?zs) = Inr (OnStack (List.map Some ?zs @ drop ?n b))"
      using fits OnStack len by (simp add: write_chars_def store_cells_ok del: take_map)
    moreover have "String_setSize (OnStack (List.map Some ?zs @ drop ?n b)) ?n
        = Inr (OnStack (?d[23 := Some (char_of (23 - ?n))]))"
      using ld len b OnStack
      by (simp add: String_setSize_def store_one setLast_eq nat_diff_distrib del: take_map)
    moreover have "represents (OnStack (?d[23 := Some (char_of (23 - ?n))])) ?zs"
      using stack_finish [of ?d ?zs] d len(1) ld len(2) b(2) OnStack by (simp only: length_list_update c_cells_simps)
    ultimately show ?thesis by (simp only: eq bindR_simps) blast
  next
    case (OnHeap p sz cap)
    then have p: "length p = cap" "length xs < cap" "cap < 2 ^ 32" using s by (auto simp: represents_def)
    then have ld: "length (List.map Some ?zs @ drop ?n p) = cap" using len by simp
    have "write_chars s 0 (List.map Some ?zs) = Inr (OnHeap (List.map Some ?zs @ drop ?n p) sz cap)"
      using fits OnHeap len by (simp add: write_chars_def store_cells_ok del: take_map)
    moreover have "String_setSize (OnHeap (List.map Some ?zs @ drop ?n p) sz cap) ?n
        = Inr (OnHeap ?d ?n cap)"
      using ld len p OnHeap by (simp add: String_setSize_def store_one del: take_map)
    moreover have "represents (OnHeap ?d ?n cap) ?zs"
      using d len p ld OnHeap by (simp add: represents_def)
    ultimately show ?thesis by (simp only: eq bindR_simps) blast
  qed
qed

lemma cstr_cells_terminated:
  "cstr_cells (List.map Some (xs @ [NUL]) @ rest) = Inr (takeWhile (\<lambda>c. c \<noteq> NUL) xs)"
  by (induction xs) auto

lemma represents_c_str [simp]:
  assumes "represents s xs"
  shows "String_c_str s = Inr (takeWhile (\<lambda>c. c \<noteq> NUL) xs)"
  using cstr_cells_terminated [of xs "drop (Suc (length xs)) (c_cells s)"]
  by (simp only: String_c_str_def represents_cells(1) [OF assms, symmetric] append_take_drop_id)

lemma takeWhile_NUL [simp]: "NUL \<notin> set xs \<Longrightarrow> takeWhile (\<lambda>c. c \<noteq> NUL) xs = xs"
  by (simp add: takeWhile_eq_all_conv) (metis)

lemma takeWhile_no_NUL: "NUL \<notin> set (takeWhile (\<lambda>c. c \<noteq> NUL) xs)"
  by (auto dest: set_takeWhileD)

text \<open>Comparing is comparing the characters before the terminators, by their codes.\<close>

lemma String_compare_ok:
  assumes "represents s xs" "represents t ys"
  shows "String_compare s t no_case = Inr (if no_case
      then stricmp (takeWhile (\<lambda>c. c \<noteq> NUL) xs) (takeWhile (\<lambda>c. c \<noteq> NUL) ys)
      else strcmp (takeWhile (\<lambda>c. c \<noteq> NUL) xs) (takeWhile (\<lambda>c. c \<noteq> NUL) ys))"
  using assms by (simp add: String_compare_def String_compare_cstr_def)

lemma String_orders_ok:
  assumes "represents s xs" "represents t ys"
  defines "a \<equiv> takeWhile (\<lambda>c. c \<noteq> NUL) xs" and "b \<equiv> takeWhile (\<lambda>c. c \<noteq> NUL) ys"
  shows "String_eq s t = Inr (a = b)" "String_ne s t = Inr (a \<noteq> b)" "String_lt s t = Inr (a < b)"
    "String_gt s t = Inr (b < a)" "String_le s t = Inr (a \<le> b)" "String_ge s t = Inr (b \<le> a)"
proof -
  have n: "NUL \<notin> set a" "NUL \<notin> set b" by (simp_all add: a_def b_def takeWhile_no_NUL)
  have gt: "0 < strcmp a b \<longleftrightarrow> b < a" using strcmp_less_iff [OF n(2,1)] strcmp_swap [of b a] by linarith
  show ops: "String_eq s t = Inr (a = b)" "String_ne s t = Inr (a \<noteq> b)" "String_lt s t = Inr (a < b)"
    "String_gt s t = Inr (b < a)"
    using String_compare_ok [OF assms(1,2), of False] strcmp_eq_0_iff [OF n] strcmp_less_iff [OF n] gt
    by (simp_all add: String_eq_def String_ne_def String_lt_def String_gt_def a_def b_def)
  show "String_le s t = Inr (a \<le> b)" "String_ge s t = Inr (b \<le> a)"
    using ops by (auto simp: String_le_def String_ge_def)
qed

lemma String_rfind_ok:
  fixes pos :: nat
  assumes "represents s xs" "xs \<noteq> []"
  defines "k \<equiv> min pos (length xs - 1)"
  shows "String_rfind s ch pos = Inr (if \<exists>i \<le> k. xs ! i = ch then GREATEST i. i \<le> k \<and> xs ! i = ch else String_npos)"
proof -
  have "u32 (int (length xs) - 1) = length xs - 1" using assms(2) represents_length [OF assms(1)]
    by (cases xs) simp_all
  moreover have "k < length xs" using assms(2) by (cases xs) (simp_all add: k_def)
  ultimately show ?thesis using rfind_loop_ok [OF assms(1), of k ch] assms(1) by (simp add: String_rfind_def k_def)
qed

section \<open>Properties\<close>



text \<open>
  \<open>substr\<close> with the default count, which stands for the rest of the string, loses the last
  character, in place and by copying: the copy of a whole string from position 0 is the string
  without its last character.
\<close>

theorem String_substr_drops_last:
  assumes "represents s xs" "pos < length xs"
  shows "(\<exists>t. String_substr s pos String_npos = Inr t \<and> represents t (butlast (drop pos xs))) \<and>
    (\<exists>t. String_substr_move s pos String_npos = Inr t \<and> represents t (butlast (drop pos xs)))"
proof -
  have "min String_npos (length xs - 1 - pos) = length (drop pos xs) - 1"
    using represents_length [OF assms(1)] by (auto simp: String_npos_eq)
  then have "take (min String_npos (length xs - 1 - pos)) (drop pos xs) = butlast (drop pos xs)"
    by (simp add: butlast_conv_take)
  then show ?thesis
    using String_substr_ok [OF assms, of String_npos] String_substr_move_ok [OF assms, of String_npos] by simp
qed

theorem String_substr_drops_last_witness:
  "\<exists>s t. String_of_cstr ''abc'' = Inr s \<and> String_substr s 0 String_npos = Inr t \<and> represents t ''ab''"
proof -
  obtain s where s: "String_of_cstr ''abc'' = Inr s" "represents s ''abc''"
    using String_of_cstr_ok [of "''abc''"] by auto
  then show ?thesis using String_substr_drops_last [OF s(2), of 0] by auto
qed

end
