(* ===== verification/Doctest_Text.thy ===== *)
theory Doctest_Text
  imports Doctest_String
begin

text \<open>
  The functions of \<^verbatim>\<open>src/Utils/doctest.h\<close> that work on the characters of C strings: wildcard
  matching, filters, hashing, stringification, file names and colours. A C string is the list of
  its characters before the terminator.
\<close>

section \<open>Wildcards\<close>

text \<open>\<open>wildcmp\<close>: pointers into the two strings are the suffixes they point to.\<close>

definition chars_match :: "bool \<Rightarrow> char \<Rightarrow> char \<Rightarrow> bool" where
  "chars_match caseSensitive w c =
     ((if caseSensitive then w = c else tolower w = tolower c) \<or> w = CHR ''?'')"

lemma length_minus_less [simp]: "length xs - Suc 0 < length xs \<longleftrightarrow> xs \<noteq> []"
  by (cases xs) auto

function wild_loop :: "bool \<Rightarrow> string \<Rightarrow> string \<Rightarrow> string \<Rightarrow> string \<Rightarrow> bool" where
  "wild_loop cs [] wild mp cp = (dropWhile (\<lambda>c. c = CHR ''*'') wild = [])"
| "wild_loop cs (c # str) [] mp cp = wild_loop cs cp mp mp (tl cp)"
| "wild_loop cs (c # str) (w # ws) mp cp =
     (if w = CHR ''*''
      then (if ws = [] then True else wild_loop cs (c # str) ws ws str)
      else if chars_match cs w c then wild_loop cs str ws mp cp
      else wild_loop cs cp mp mp (tl cp))"
  by pat_completeness auto
termination
  by (relation "measures
      [\<lambda>(cs, str, wild, mp, cp). max (count_list wild CHR ''*'') (count_list mp CHR ''*''),
       \<lambda>(cs, str, wild, mp, cp). length cp, \<lambda>(cs, str, wild, mp, cp). length str]") auto

fun wild_prefix :: "bool \<Rightarrow> string \<Rightarrow> string \<Rightarrow> string \<Rightarrow> string \<Rightarrow> bool" where
  "wild_prefix cs [] wild mp cp = wild_loop cs [] wild mp cp"
| "wild_prefix cs (c # str) [] mp cp = False"
| "wild_prefix cs (c # str) (w # ws) mp cp =
     (if w = CHR ''*'' then wild_loop cs (c # str) (w # ws) mp cp
      else if chars_match cs w c then wild_prefix cs str ws mp cp else False)"

definition wildcmp :: "string \<Rightarrow> string \<Rightarrow> bool \<Rightarrow> bool" where
  "wildcmp str wild caseSensitive = wild_prefix caseSensitive str wild wild str"

text \<open>What a mask means: \<open>*\<close> stands for any characters, \<open>?\<close> for one, others for themselves.\<close>

function glob :: "bool \<Rightarrow> string \<Rightarrow> string \<Rightarrow> bool" where
  "glob cs [] s = (s = [])"
| "glob cs (w # ws) s =
     (if w = CHR ''*'' then glob cs ws s \<or> (case s of [] \<Rightarrow> False | c # t \<Rightarrow> glob cs (w # ws) t)
      else (case s of [] \<Rightarrow> False | c # t \<Rightarrow> chars_match cs w c \<and> glob cs ws t))"
  by pat_completeness auto
termination by (relation "measure (\<lambda>(cs, w, s). length w + length s)") auto

definition matchesAny :: "string \<Rightarrow> string list \<Rightarrow> bool \<Rightarrow> bool \<Rightarrow> bool" where
  "matchesAny name filters matchEmpty caseSensitive =
     (if filters = [] \<and> matchEmpty then True
      else list_ex (\<lambda>curr. wildcmp name curr caseSensitive) filters)"

lemma glob_nil [simp]: "glob cs w [] \<longleftrightarrow> dropWhile (\<lambda>c. c = CHR ''*'') w = []"
  by (induction w) auto

lemma glob_plain_prefix:
  "glob cs (pre @ w) s \<Longrightarrow> CHR ''*'' \<notin> set pre \<Longrightarrow> length pre \<le> length s \<and> glob cs w (drop (length pre) s)"
proof (induction pre arbitrary: s)
  case (Cons p pre)
  then show ?case by (cases s) auto
qed simp

lemma glob_star_iff: "glob cs (CHR ''*'' # w) s \<longleftrightarrow> (\<exists>k \<le> length s. glob cs w (drop k s))"
proof (induction s)
  case (Cons c s)
  have "(\<exists>k \<le> length (c # s). glob cs w (drop k (c # s))) \<longleftrightarrow>
      glob cs w (c # s) \<or> (\<exists>k \<le> length s. glob cs w (drop k s))"
    by (auto simp: Suc_le_eq less_Suc_eq_le split: nat.splits dest: not0_implies_Suc
        intro: exI [of _ "0 :: nat"] exI [of _ "Suc _"])
      (metis Suc_le_mono drop_0 drop_Suc_Cons not0_implies_Suc)
  with Cons show ?case by simp
qed simp

lemma glob_star_drop: "glob cs (CHR ''*'' # w) (drop k s) \<Longrightarrow> glob cs (CHR ''*'' # w) s"
  by (metis (no_types, opaque_lifting) add.commute drop_drop drop_all glob_star_iff le_cases length_drop
      nat_le_iff_add le_diff_conv2 drop_eq_Nil)

lemma glob_star_star: "glob cs (CHR ''*'' # CHR ''*'' # w) s \<Longrightarrow> glob cs (CHR ''*'' # w) s"
  by (meson glob_star_drop glob_star_iff)

text \<open>
  Backtracking to the last star only is enough: the invariant says how far the string and the
  mask have advanced together since that star.
\<close>

lemma wild_loop_iff:
  assumes "mp = pre @ wild" "CHR ''*'' \<notin> set pre" "length u = length pre" "cp = tl (u @ str)"
  shows "wild_loop cs str wild mp cp \<longleftrightarrow> glob cs wild str \<or> glob cs (CHR ''*'' # mp) cp"
  using assms
proof (induction cs str wild mp cp arbitrary: pre u rule: wild_loop.induct)
  case (1 cs wild mp cp)
  have "glob cs (CHR ''*'' # mp) cp \<Longrightarrow> glob cs wild []"
  proof -
    assume "glob cs (CHR ''*'' # mp) cp"
    then obtain k where "glob cs (pre @ wild) (drop k cp)" using "1.prems"(1) glob_star_iff by auto
    then have l: "length pre \<le> length cp - k" "glob cs wild (drop (length pre) (drop k cp))"
      using glob_plain_prefix "1.prems"(2) by (metis length_drop)+
    have "length cp = length pre - 1" using "1.prems"(3,4) by simp
    with l(1) have "pre = []" by (cases pre) auto
    with "1.prems"(3,4) have "cp = []" by simp
    note e = \<open>pre = []\<close> this
    with e l(2) show ?thesis by simp
  qed
  then show ?case by auto
next
  case (2 cs c str mp cp)
  have "wild_loop cs cp mp mp (tl cp) \<longleftrightarrow> glob cs mp cp \<or> glob cs (CHR ''*'' # mp) (tl cp)"
    by (rule "2.IH" [of "[]" "[]"]) simp_all
  then show ?case by (cases cp) auto
next
  case (3 cs c str w ws mp cp)
  show ?case
  proof (cases "w = CHR ''*''")
    case star: True
    have old: "glob cs (CHR ''*'' # mp) cp \<Longrightarrow> glob cs (w # ws) (c # str)"
    proof -
      assume "glob cs (CHR ''*'' # mp) cp"
      then obtain k where "glob cs (pre @ w # ws) (drop k cp)" using "3.prems"(1) glob_star_iff by auto
      then have "glob cs (w # ws) (drop (length pre) (drop k cp))"
        using glob_plain_prefix "3.prems"(2) by blast
      moreover have "drop (length pre) cp = str"
        using "3.prems"(3,4) by (cases u) (auto simp flip: "3.prems"(3))
      then have "drop (length pre) (drop k cp) = drop (Suc k) (c # str)"
        by (metis add.commute drop_drop drop_Suc_Cons)
      ultimately show ?thesis using glob_star_drop star by metis
    qed
    show ?thesis
    proof (cases "ws = []")
      case True
      have "glob cs [CHR ''*''] (c # str)" by (induction str arbitrary: c) auto
      then show ?thesis using star True by simp
    next
      case False
      have "wild_loop cs (c # str) ws ws str \<longleftrightarrow> glob cs ws (c # str) \<or> glob cs (CHR ''*'' # ws) str"
        by (rule "3.IH"(1) [OF star False, of "[]" "[]"]) simp_all
      then show ?thesis using star False old by auto
    qed
  next
    case plain: False
    show ?thesis
    proof (cases "chars_match cs w c")
      case True
      have "wild_loop cs str ws mp cp \<longleftrightarrow> glob cs ws str \<or> glob cs (CHR ''*'' # mp) cp"
        by (rule "3.IH"(2) [OF plain True, of "pre @ [w]" "u @ [c]"]) (use "3.prems" plain in auto)
      then show ?thesis using plain True by simp
    next
      case False
      have "wild_loop cs cp mp mp (tl cp) \<longleftrightarrow> glob cs mp cp \<or> glob cs (CHR ''*'' # mp) (tl cp)"
        by (rule "3.IH"(3) [OF plain False, of "[]" "[]"]) simp_all
      then show ?thesis using plain False by (cases cp) auto
    qed
  qed
qed

lemma wild_prefix_iff: "wild_prefix cs str wild mp cp \<longleftrightarrow> glob cs wild str"
proof (induction cs str wild mp cp rule: wild_prefix.induct)
  case (3 cs c str w ws mp cp)
  have "wild_loop cs (c # str) (w # ws) mp cp = wild_loop cs (c # str) (w # ws) (w # ws) str"
    if "w = CHR ''*''" using that by simp
  also have "\<dots> \<longleftrightarrow> glob cs (w # ws) (c # str)" if w: "w = CHR ''*''"
    using wild_loop_iff [of "w # ws" "[]" "w # ws" "[]" str "c # str" cs]
      glob_star_star [of cs ws str] glob_star_drop [of cs ws 1 "c # str"] unfolding w by auto
  ultimately show ?case using 3 by auto
qed simp_all

lemma wildcmp_iff: "wildcmp str wild cs \<longleftrightarrow> glob cs wild str"
  by (simp add: wildcmp_def wild_prefix_iff)

lemma glob_no_wildcards:
  "CHR ''*'' \<notin> set w \<Longrightarrow> CHR ''?'' \<notin> set w \<Longrightarrow>
   glob cs w s \<longleftrightarrow> (if cs then w = s else List.map tolower w = List.map tolower s)"
proof (induction w arbitrary: s)
  case (Cons a w)
  then show ?case by (cases s) (auto simp: chars_match_def)
qed auto

section \<open>Hashing\<close>

text \<open>\<open>unsigned long long\<close> is a 64-bit word; a \<open>char\<close> is added with its sign.\<close>

definition hash_pair :: "64 word \<Rightarrow> 64 word \<Rightarrow> 64 word" where
  "hash_pair a b = push_bit 5 a + b"

fun hash_chars :: "64 word \<Rightarrow> string \<Rightarrow> 64 word" where
  "hash_chars h [] = h"
| "hash_chars h (c # str) = hash_chars ((push_bit 5 h + h) + word_of_int (schar c)) str"

definition hash_cstr :: "string \<Rightarrow> 64 word" where
  "hash_cstr str = hash_chars 5381 str"

section \<open>File names\<close>

text \<open>\<open>std::strrchr\<close>: a null pointer is \<open>None\<close>, which is below every pointer into the string.\<close>

fun strrchr :: "string \<Rightarrow> char \<Rightarrow> nat option" where
  "strrchr [] ch = None"
| "strrchr (c # s) ch =
     (case strrchr s ch of Some i \<Rightarrow> Some (Suc i) | None \<Rightarrow> if c = ch then Some 0 else None)"

definition skipPathFromFilename :: "bool \<Rightarrow> string \<Rightarrow> string" where
  "skipPathFromFilename no_path_in_filenames file =
     (if no_path_in_filenames
      then (case (strrchr file (CHR 0x5C), strrchr file (CHR ''/'')) of
          (None, None) \<Rightarrow> file
        | (Some b, None) \<Rightarrow> drop (b + 1) file
        | (None, Some f) \<Rightarrow> drop (f + 1) file
        | (Some b, Some f) \<Rightarrow> drop ((if b > f then b else f) + 1) file)
      else file)"

section \<open>Matching a substring\<close>

datatype Contains = Contains (contains_string: string)

definition checkWith :: "Contains \<Rightarrow> string \<Rightarrow> bool" where
  "checkWith c other = (find_sub (contains_string c) other \<noteq> None)"

definition toString_Contains :: "Contains \<Rightarrow> string" where
  "toString_Contains c = ''Contains( '' @ contains_string c @ '' )''"

definition Contains_eq :: "string \<Rightarrow> Contains \<Rightarrow> bool" where
  "Contains_eq lhs rhs = checkWith rhs lhs"

definition Contains_ne :: "string \<Rightarrow> Contains \<Rightarrow> bool" where
  "Contains_ne lhs rhs = (\<not> checkWith rhs lhs)"

section \<open>Stringification\<close>

definition toString_nullptr :: string where
  "toString_nullptr = ''nullptr''"

definition toString_bool :: "bool \<Rightarrow> string" where
  "toString_bool b = (if b then ''true'' else ''false'')"

definition toString_int :: "int \<Rightarrow> string" where
  "toString_int i = (if i < 0 then ''-'' @ to_string (nat (- i)) else to_string (nat i))"

text \<open>A \<open>char\<close> is printed as the number it is.\<close>

definition toString_char :: "char \<Rightarrow> string" where
  "toString_char c = toString_int (schar c)"

definition filldata_pointer :: "string option \<Rightarrow> string" where
  "filldata_pointer p = (case p of Some address \<Rightarrow> address | None \<Rightarrow> ''nullptr'')"

text \<open>
  The thread-local stream that \<open>tlssPush\<close> and \<open>tlssPop\<close> share: popping takes what was written
  since the matching push and moves the write position back.
\<close>

record tlss =
  tlss_stack :: "nat list"
  tlss_text :: string

definition tlssPush :: "tlss \<Rightarrow> tlss" where
  "tlssPush g = g\<lparr>tlss_stack := length (tlss_text g) # tlss_stack g\<rparr>"

definition tlss_write :: "string \<Rightarrow> tlss \<Rightarrow> tlss" where
  "tlss_write t g = g\<lparr>tlss_text := tlss_text g @ t\<rparr>"

definition tlssPop :: "tlss \<Rightarrow> (string \<times> tlss) option" where
  "tlssPop g = (case tlss_stack g of
       [] \<Rightarrow> None
     | pos # rest \<Rightarrow> Some (drop pos (tlss_text g), g\<lparr>tlss_stack := rest, tlss_text := take pos (tlss_text g)\<rparr>))"

definition toStreamLit :: "string \<Rightarrow> tlss \<Rightarrow> (string \<times> tlss) option" where
  "toStreamLit t g = tlssPop (tlss_write t (tlssPush g))"

lemma toStreamLit_nested: "toStreamLit t g = Some (t, g)"
  by (simp add: toStreamLit_def tlssPush_def tlss_write_def tlssPop_def)

section \<open>Colours\<close>

datatype Color =
    Color_None | White | Red | Green | Blue | Cyan | Yellow | Grey | Bright
  | BrightRed | BrightGreen | LightGrey | BrightWhite

definition Color_code :: "Color \<Rightarrow> nat" where
  "Color_code c = (case c of
       Color_None \<Rightarrow> 0 | White \<Rightarrow> 1 | Red \<Rightarrow> 2 | Green \<Rightarrow> 3 | Blue \<Rightarrow> 4 | Cyan \<Rightarrow> 5 | Yellow \<Rightarrow> 6 | Grey \<Rightarrow> 7
     | Bright \<Rightarrow> 0x10 | BrightRed \<Rightarrow> or 0x10 2 | BrightGreen \<Rightarrow> or 0x10 3 | LightGrey \<Rightarrow> or 0x10 7
     | BrightWhite \<Rightarrow> or 0x10 1)"

definition color_to_stream :: "bool \<Rightarrow> bool \<Rightarrow> bool \<Rightarrow> Color \<Rightarrow> string" where
  "color_to_stream no_colors isatty force_colors code =
     (if no_colors \<or> (\<not> isatty \<and> \<not> force_colors) then []
      else CHR 0x1B # (case code of
          Red \<Rightarrow> ''[0;31m'' | Green \<Rightarrow> ''[0;32m'' | Blue \<Rightarrow> ''[0;34m'' | Cyan \<Rightarrow> ''[0;36m''
        | Yellow \<Rightarrow> ''[0;33m'' | Grey \<Rightarrow> ''[1;30m'' | LightGrey \<Rightarrow> ''[0;37m''
        | BrightRed \<Rightarrow> ''[1;31m'' | BrightGreen \<Rightarrow> ''[1;32m'' | BrightWhite \<Rightarrow> ''[1;37m''
        | _ \<Rightarrow> ''[0m''))"

section \<open>Properties\<close>

text \<open>
  C16. The two-phase loop with one backtracking point decides exactly whether the mask matches the
  whole string, where \<open>*\<close> stands for any characters and \<open>?\<close> for one; it always ends.
\<close>

theorem wildcmp_decides_masks:
  "wildcmp str wild caseSensitive \<longleftrightarrow> glob caseSensitive wild str"
  by (rule wildcmp_iff)

end
