(* ===== verification/Doctest_Types.thy ===== *)
theory Doctest_Types
  imports Doctest_Text Complex_Main
begin

text \<open>
  The data of \<^verbatim>\<open>src/Utils/doctest.h\<close>: kinds of assertions as bit masks, test cases and suites,
  options, the counters with their lanes, the state of a run with its reset and final accounting,
  and the order and registration of test cases. A \<open>double\<close> is a rational number; the rounding of
  an arithmetic operation is the parameter \<open>rnd\<close>, and not-a-number and infinities are left out.
\<close>

section \<open>Kinds of assertions\<close>

type_synonym assertType = nat

definition is_warn :: assertType where "is_warn = 1"
definition is_check :: assertType where "is_check = 2 * is_warn"
definition is_require :: assertType where "is_require = 2 * is_check"
definition is_normal :: assertType where "is_normal = 2 * is_require"
definition is_throws :: assertType where "is_throws = 2 * is_normal"
definition is_throws_as :: assertType where "is_throws_as = 2 * is_throws"
definition is_throws_with :: assertType where "is_throws_with = 2 * is_throws_as"
definition is_nothrow :: assertType where "is_nothrow = 2 * is_throws_with"
definition is_false :: assertType where "is_false = 2 * is_nothrow"
definition is_unary :: assertType where "is_unary = 2 * is_false"
definition is_eq :: assertType where "is_eq = 2 * is_unary"
definition is_ne :: assertType where "is_ne = 2 * is_eq"
definition is_lt :: assertType where "is_lt = 2 * is_ne"
definition is_gt :: assertType where "is_gt = 2 * is_lt"
definition is_ge :: assertType where "is_ge = 2 * is_gt"
definition is_le :: assertType where "is_le = 2 * is_ge"

lemmas assert_flags = is_warn_def is_check_def is_require_def is_normal_def is_throws_def
  is_throws_as_def is_throws_with_def is_nothrow_def is_false_def is_unary_def is_eq_def is_ne_def
  is_lt_def is_gt_def is_ge_def is_le_def

text \<open>The macro types \<open>DT_WARN\<close> to \<open>DT_REQUIRE_UNARY_FALSE\<close>: a level and a kind.\<close>

datatype level = WARN | CHECK | REQUIRE

datatype kind =
    PLAIN | FALSE | THROWS | THROWS_AS | THROWS_WITH | THROWS_WITH_AS | NOTHROW
  | EQ | NE | GT | LT | GE | LE | UNARY | UNARY_FALSE

fun level_flag :: "level \<Rightarrow> assertType" where
  "level_flag WARN = is_warn"
| "level_flag CHECK = is_check"
| "level_flag REQUIRE = is_require"

fun kind_flags :: "kind \<Rightarrow> assertType" where
  "kind_flags PLAIN = is_normal"
| "kind_flags FALSE = or is_normal is_false"
| "kind_flags THROWS = is_throws"
| "kind_flags THROWS_AS = is_throws_as"
| "kind_flags THROWS_WITH = is_throws_with"
| "kind_flags THROWS_WITH_AS = or is_throws_with is_throws_as"
| "kind_flags NOTHROW = is_nothrow"
| "kind_flags EQ = or is_normal is_eq"
| "kind_flags NE = or is_normal is_ne"
| "kind_flags GT = or is_normal is_gt"
| "kind_flags LT = or is_normal is_lt"
| "kind_flags GE = or is_normal is_ge"
| "kind_flags LE = or is_normal is_le"
| "kind_flags UNARY = or is_normal is_unary"
| "kind_flags UNARY_FALSE = or (or is_normal is_false) is_unary"

definition DT :: "level \<Rightarrow> kind \<Rightarrow> assertType" where
  "DT l k = or (kind_flags k) (level_flag l)"

definition has_flag :: "assertType \<Rightarrow> assertType \<Rightarrow> bool" where
  "has_flag ty f = (and ty f \<noteq> 0)"

fun level_name :: "level \<Rightarrow> string" where
  "level_name WARN = ''WARN''"
| "level_name CHECK = ''CHECK''"
| "level_name REQUIRE = ''REQUIRE''"

fun kind_name :: "kind \<Rightarrow> string" where
  "kind_name PLAIN = ''''"
| "kind_name FALSE = ''_FALSE''"
| "kind_name THROWS = ''_THROWS''"
| "kind_name THROWS_AS = ''_THROWS_AS''"
| "kind_name THROWS_WITH = ''_THROWS_WITH''"
| "kind_name THROWS_WITH_AS = ''_THROWS_WITH_AS''"
| "kind_name NOTHROW = ''_NOTHROW''"
| "kind_name EQ = ''_EQ''"
| "kind_name NE = ''_NE''"
| "kind_name GT = ''_GT''"
| "kind_name LT = ''_LT''"
| "kind_name GE = ''_GE''"
| "kind_name LE = ''_LE''"
| "kind_name UNARY = ''_UNARY''"
| "kind_name UNARY_FALSE = ''_UNARY_FALSE''"

definition macro_types :: "(level \<times> kind) list" where
  "macro_types = List.product [WARN, CHECK, REQUIRE]
     [PLAIN, FALSE, THROWS, THROWS_AS, THROWS_WITH, THROWS_WITH_AS, NOTHROW,
      EQ, NE, GT, LT, GE, LE, UNARY, UNARY_FALSE]"

text \<open>\<open>assertString\<close> throws a logic error on any other value: \<open>None\<close>.\<close>

definition assertString :: "assertType \<Rightarrow> string option" where
  "assertString ty = (case List.find (\<lambda>(l, k). DT l k = ty) macro_types of
       Some (l, k) \<Rightarrow> Some (level_name l @ kind_name k) | None \<Rightarrow> None)"

definition failureString :: "assertType \<Rightarrow> string" where
  "failureString ty =
     (if has_flag ty is_warn then ''WARNING''
      else if has_flag ty is_check then ''ERROR''
      else if has_flag ty is_require then ''FATAL ERROR'' else '''')"

section \<open>Approximate numbers\<close>

type_synonym double = rat

record Approx =
  m_epsilon :: double
  m_scale :: double
  m_value :: double

text \<open>The epsilon of \<open>float\<close> is \<open>2\<^sup>-\<^sup>2\<^sup>3\<close>, that of \<open>double\<close> \<open>2\<^sup>-\<^sup>5\<^sup>2\<close>.\<close>

definition new_Approx :: "(double \<Rightarrow> double) \<Rightarrow> double \<Rightarrow> Approx" where
  "new_Approx rnd v = \<lparr>m_epsilon = rnd (1 / 2 ^ 23 * 100), m_scale = 1, m_value = v\<rparr>"

definition Approx_epsilon :: "double \<Rightarrow> Approx \<Rightarrow> Approx" where
  "Approx_epsilon e a = a\<lparr>m_epsilon := e\<rparr>"

definition Approx_scale :: "double \<Rightarrow> Approx \<Rightarrow> Approx" where
  "Approx_scale s a = a\<lparr>m_scale := s\<rparr>"

definition Approx_call :: "(double \<Rightarrow> double) \<Rightarrow> Approx \<Rightarrow> double \<Rightarrow> Approx" where
  "Approx_call rnd a v = Approx_scale (m_scale a) (Approx_epsilon (m_epsilon a) (new_Approx rnd v))"

definition Approx_eq :: "(double \<Rightarrow> double) \<Rightarrow> double \<Rightarrow> Approx \<Rightarrow> bool" where
  "Approx_eq rnd lhs rhs =
     (\<bar>rnd (lhs - m_value rhs)\<bar> <
      rnd (m_epsilon rhs * rnd (m_scale rhs + max \<bar>lhs\<bar> \<bar>m_value rhs\<bar>)))"

definition Approx_ne :: "(double \<Rightarrow> double) \<Rightarrow> double \<Rightarrow> Approx \<Rightarrow> bool" where
  "Approx_ne rnd lhs rhs = (\<not> Approx_eq rnd lhs rhs)"

definition Approx_le :: "(double \<Rightarrow> double) \<Rightarrow> double \<Rightarrow> Approx \<Rightarrow> bool" where
  "Approx_le rnd lhs rhs = (lhs < m_value rhs \<or> Approx_eq rnd lhs rhs)"

definition Approx_le' :: "(double \<Rightarrow> double) \<Rightarrow> Approx \<Rightarrow> double \<Rightarrow> bool" where
  "Approx_le' rnd lhs rhs = (m_value lhs < rhs \<or> Approx_eq rnd rhs lhs)"

definition Approx_ge :: "(double \<Rightarrow> double) \<Rightarrow> double \<Rightarrow> Approx \<Rightarrow> bool" where
  "Approx_ge rnd lhs rhs = (lhs > m_value rhs \<or> Approx_eq rnd lhs rhs)"

definition Approx_ge' :: "(double \<Rightarrow> double) \<Rightarrow> Approx \<Rightarrow> double \<Rightarrow> bool" where
  "Approx_ge' rnd lhs rhs = (m_value lhs > rhs \<or> Approx_eq rnd rhs lhs)"

definition Approx_lt :: "(double \<Rightarrow> double) \<Rightarrow> double \<Rightarrow> Approx \<Rightarrow> bool" where
  "Approx_lt rnd lhs rhs = (lhs < m_value rhs \<and> \<not> Approx_eq rnd lhs rhs)"

definition Approx_lt' :: "(double \<Rightarrow> double) \<Rightarrow> Approx \<Rightarrow> double \<Rightarrow> bool" where
  "Approx_lt' rnd lhs rhs = (m_value lhs < rhs \<and> \<not> Approx_eq rnd rhs lhs)"

definition Approx_gt :: "(double \<Rightarrow> double) \<Rightarrow> double \<Rightarrow> Approx \<Rightarrow> bool" where
  "Approx_gt rnd lhs rhs = (lhs > m_value rhs \<and> \<not> Approx_eq rnd lhs rhs)"

definition Approx_gt' :: "(double \<Rightarrow> double) \<Rightarrow> Approx \<Rightarrow> double \<Rightarrow> bool" where
  "Approx_gt' rnd lhs rhs = (m_value lhs > rhs \<and> \<not> Approx_eq rnd rhs lhs)"

definition DBL_EPSILON :: double where
  "DBL_EPSILON = 1 / 2 ^ 52"

end
