(* ===== verification/Doctest_State.thy ===== *)
theory Doctest_State
  imports Doctest_Types
begin

text \<open>
  The records of \<^verbatim>\<open>src/Utils/doctest.h\<close>: test suites and cases with their decorators, order and
  registration, data of assertions and messages, signatures of subcases, the options, and the
  state of a run with its counters. A null \<open>const char*\<close> is \<open>None\<close>; test functions are referred
  to by a number.
\<close>

section \<open>Test suites and test cases\<close>

record TestSuite =
  ts_test_suite :: "string option"
  ts_description :: "string option"
  ts_skip :: bool
  ts_no_breaks :: bool
  ts_no_output :: bool
  ts_may_fail :: bool
  ts_should_fail :: bool
  ts_expected_failures :: int
  ts_timeout :: double

definition new_TestSuite :: TestSuite where
  "new_TestSuite = \<lparr>ts_test_suite = None, ts_description = None, ts_skip = False, ts_no_breaks = False,
     ts_no_output = False, ts_may_fail = False, ts_should_fail = False, ts_expected_failures = 0,
     ts_timeout = 0\<rparr>"

definition TestSuite_name :: "string \<Rightarrow> TestSuite \<Rightarrow> TestSuite" where
  "TestSuite_name input s = s\<lparr>ts_test_suite := Some input\<rparr>"

record TestCaseData =
  tc_file :: string
  tc_line :: nat
  tc_name :: "string option"
  tc_test_suite :: "string option"
  tc_description :: "string option"
  tc_skip :: bool
  tc_no_breaks :: bool
  tc_no_output :: bool
  tc_may_fail :: bool
  tc_should_fail :: bool
  tc_expected_failures :: int
  tc_timeout :: double

record TestCase = TestCaseData +
  tc_test :: nat
  tc_type :: string
  tc_template_id :: int
  tc_full_name :: string

definition new_TestCase ::
  "nat \<Rightarrow> string \<Rightarrow> nat \<Rightarrow> TestSuite \<Rightarrow> string \<Rightarrow> int \<Rightarrow> TestCase" where
  "new_TestCase test file line test_suite type template_id =
     \<lparr>tc_file = file, tc_line = line, tc_name = None, tc_test_suite = ts_test_suite test_suite,
      tc_description = ts_description test_suite, tc_skip = ts_skip test_suite,
      tc_no_breaks = ts_no_breaks test_suite, tc_no_output = ts_no_output test_suite,
      tc_may_fail = ts_may_fail test_suite, tc_should_fail = ts_should_fail test_suite,
      tc_expected_failures = ts_expected_failures test_suite, tc_timeout = ts_timeout test_suite,
      tc_test = test, tc_type = type, tc_template_id = template_id, tc_full_name = ''''\<rparr>"

text \<open>Copying points the name of a templated test case to the copied full name.\<close>

definition TestCase_copy :: "TestCase \<Rightarrow> TestCase" where
  "TestCase_copy t = (if tc_template_id t \<noteq> -1 then t\<lparr>tc_name := Some (tc_full_name t)\<rparr> else t)"

definition TestCase_name :: "string \<Rightarrow> TestCase \<Rightarrow> TestCase" where
  "TestCase_name input t =
     (if tc_template_id t \<noteq> -1
      then let full = input @ ''<'' @ tc_type t @ ''>'' in t\<lparr>tc_full_name := full, tc_name := Some full\<rparr>
      else t\<lparr>tc_name := Some input\<rparr>)"

text \<open>The decorators that \<open>DOCTEST_DEFINE_DECORATOR\<close> generates, for both records.\<close>

datatype decorator =
    D_test_suite string | D_description string | D_skip bool | D_no_breaks bool | D_no_output bool
  | D_timeout double | D_may_fail bool | D_should_fail bool | D_expected_failures int

fun fill_TestCase :: "decorator \<Rightarrow> TestCase \<Rightarrow> TestCase" where
  "fill_TestCase (D_test_suite d) s = s\<lparr>tc_test_suite := Some d\<rparr>"
| "fill_TestCase (D_description d) s = s\<lparr>tc_description := Some d\<rparr>"
| "fill_TestCase (D_skip d) s = s\<lparr>tc_skip := d\<rparr>"
| "fill_TestCase (D_no_breaks d) s = s\<lparr>tc_no_breaks := d\<rparr>"
| "fill_TestCase (D_no_output d) s = s\<lparr>tc_no_output := d\<rparr>"
| "fill_TestCase (D_timeout d) s = s\<lparr>tc_timeout := d\<rparr>"
| "fill_TestCase (D_may_fail d) s = s\<lparr>tc_may_fail := d\<rparr>"
| "fill_TestCase (D_should_fail d) s = s\<lparr>tc_should_fail := d\<rparr>"
| "fill_TestCase (D_expected_failures d) s = s\<lparr>tc_expected_failures := d\<rparr>"

fun fill_TestSuite :: "decorator \<Rightarrow> TestSuite \<Rightarrow> TestSuite" where
  "fill_TestSuite (D_test_suite d) s = s\<lparr>ts_test_suite := Some d\<rparr>"
| "fill_TestSuite (D_description d) s = s\<lparr>ts_description := Some d\<rparr>"
| "fill_TestSuite (D_skip d) s = s\<lparr>ts_skip := d\<rparr>"
| "fill_TestSuite (D_no_breaks d) s = s\<lparr>ts_no_breaks := d\<rparr>"
| "fill_TestSuite (D_no_output d) s = s\<lparr>ts_no_output := d\<rparr>"
| "fill_TestSuite (D_timeout d) s = s\<lparr>ts_timeout := d\<rparr>"
| "fill_TestSuite (D_may_fail d) s = s\<lparr>ts_may_fail := d\<rparr>"
| "fill_TestSuite (D_should_fail d) s = s\<lparr>ts_should_fail := d\<rparr>"
| "fill_TestSuite (D_expected_failures d) s = s\<lparr>ts_expected_failures := d\<rparr>"

text \<open>
  The orders. \<open>TestCase_less\<close> tells test cases apart in the set of registered ones; the three
  comparators sort them. A null name or suite makes \<open>strcmp\<close> undefined: registered test cases
  have both, and \<open>the\<close> stands for the dereference.
\<close>

definition TestCase_less :: "TestCase \<Rightarrow> TestCase \<Rightarrow> bool" where
  "TestCase_less a b =
     (if tc_line a \<noteq> tc_line b then tc_line a < tc_line b
      else let name_cmp = strcmp (the (tc_name a)) (the (tc_name b)) in
        if name_cmp \<noteq> 0 then name_cmp < 0
        else let file_cmp = strcmp (tc_file a) (tc_file b) in
          if file_cmp \<noteq> 0 then file_cmp < 0 else tc_template_id a < tc_template_id b)"

definition fileOrderComparator :: "TestCase \<Rightarrow> TestCase \<Rightarrow> bool" where
  "fileOrderComparator lhs rhs =
     (let res = strcmp (tc_file lhs) (tc_file rhs) in
      if res \<noteq> 0 then res < 0
      else if tc_line lhs \<noteq> tc_line rhs then tc_line lhs < tc_line rhs
      else tc_template_id lhs < tc_template_id rhs)"

definition suiteOrderComparator :: "TestCase \<Rightarrow> TestCase \<Rightarrow> bool" where
  "suiteOrderComparator lhs rhs =
     (let res = strcmp (the (tc_test_suite lhs)) (the (tc_test_suite rhs)) in
      if res \<noteq> 0 then res < 0 else fileOrderComparator lhs rhs)"

definition nameOrderComparator :: "TestCase \<Rightarrow> TestCase \<Rightarrow> bool" where
  "nameOrderComparator lhs rhs =
     (let res = strcmp (the (tc_name lhs)) (the (tc_name rhs)) in
      if res \<noteq> 0 then res < 0 else suiteOrderComparator lhs rhs)"

text \<open>\<open>std::set::insert\<close> keeps the elements in order and ignores an equivalent one.\<close>

fun set_insert :: "('a \<Rightarrow> 'a \<Rightarrow> bool) \<Rightarrow> 'a \<Rightarrow> 'a list \<Rightarrow> 'a list" where
  "set_insert lt x [] = [x]"
| "set_insert lt x (y # ys) =
     (if lt x y then x # y # ys else if lt y x then y # set_insert lt x ys else y # ys)"

definition regTest :: "TestCase \<Rightarrow> TestCase list \<Rightarrow> TestCase list" where
  "regTest tc registered = set_insert TestCase_less (TestCase_copy tc) registered"

text \<open>\<open>std::sort\<close>: insertion sort; which order equivalent elements get is left open there.\<close>

fun sort_insert :: "('a \<Rightarrow> 'a \<Rightarrow> bool) \<Rightarrow> 'a \<Rightarrow> 'a list \<Rightarrow> 'a list" where
  "sort_insert lt x [] = [x]"
| "sort_insert lt x (y # ys) = (if lt y x then y # sort_insert lt x ys else x # y # ys)"

definition std_sort :: "('a \<Rightarrow> 'a \<Rightarrow> bool) \<Rightarrow> 'a list \<Rightarrow> 'a list" where
  "std_sort lt xs = foldr (sort_insert lt) xs []"

section \<open>Subcases, assertions and messages\<close>

record SubcaseSignature =
  sig_name :: string
  sig_file :: string
  sig_line :: int

definition SubcaseSignature_eq :: "SubcaseSignature \<Rightarrow> SubcaseSignature \<Rightarrow> bool" where
  "SubcaseSignature_eq a b \<longleftrightarrow>
     sig_line a = sig_line b \<and> strcmp (sig_file a) (sig_file b) = 0 \<and> strcmp (sig_name a) (sig_name b) = 0"

definition SubcaseSignature_less :: "SubcaseSignature \<Rightarrow> SubcaseSignature \<Rightarrow> bool" where
  "SubcaseSignature_less a b =
     (if sig_line a \<noteq> sig_line b then sig_line a < sig_line b
      else if strcmp (sig_file a) (sig_file b) \<noteq> 0 then strcmp (sig_file a) (sig_file b) < 0
      else strcmp (sig_name a) (sig_name b) < 0)"

definition hash_SubcaseSignature :: "SubcaseSignature \<Rightarrow> 64 word" where
  "hash_SubcaseSignature sig =
     hash_pair (hash_pair (hash_cstr (sig_file sig)) (hash_cstr (sig_name sig))) (word_of_int (sig_line sig))"

definition hash_stack :: "SubcaseSignature list \<Rightarrow> 64 word" where
  "hash_stack sigs = foldl (\<lambda>running sig. hash_pair running (hash_SubcaseSignature sig)) 0 sigs"

text \<open>The first \<open>count\<close> signatures; a count past the end would leave the vector.\<close>

definition hash_stack_count :: "SubcaseSignature list \<Rightarrow> nat \<Rightarrow> 64 word" where
  "hash_stack_count sigs count = hash_stack (take count sigs)"

datatype StringContains = SC_string string | SC_contains Contains

definition StringContains_check :: "StringContains \<Rightarrow> string \<Rightarrow> bool" where
  "StringContains_check sc str = (case sc of
       SC_string content \<Rightarrow> content = str | SC_contains c \<Rightarrow> checkWith c str)"

fun StringContains_c_str :: "StringContains \<Rightarrow> string" where
  "StringContains_c_str (SC_string content) = content"
| "StringContains_c_str (SC_contains c) = contains_string c"

record AssertData =
  ad_test_case :: "TestCase option"
  ad_at :: assertType
  ad_file :: string
  ad_line :: int
  ad_expr :: string
  ad_failed :: bool
  ad_threw :: bool
  ad_exception :: string
  ad_decomp :: string
  ad_threw_as :: bool
  ad_exception_type :: string
  ad_exception_string :: StringContains

definition new_AssertData ::
  "TestCase option \<Rightarrow> assertType \<Rightarrow> string \<Rightarrow> int \<Rightarrow> string \<Rightarrow> string \<Rightarrow> StringContains \<Rightarrow> AssertData" where
  "new_AssertData current ty file line expr exception_type exception_string =
     \<lparr>ad_test_case = current, ad_at = ty, ad_file = file, ad_line = line, ad_expr = expr,
      ad_failed = True, ad_threw = False, ad_exception = '''', ad_decomp = '''', ad_threw_as = False,
      ad_exception_type = exception_type, ad_exception_string = exception_string\<rparr>"

record MessageData =
  md_string :: string
  md_file :: string
  md_line :: int
  md_severity :: assertType

section \<open>Options\<close>

datatype out_stream = Out_null | Out_discard | Out_file string | Out_stdout | Out_user nat

record ContextOptions =
  opt_cout :: out_stream
  opt_binary_name :: string
  opt_currentTest :: "TestCase option"
  opt_out :: string
  opt_order_by :: string
  opt_rand_seed :: "32 word"
  opt_first :: "32 word"
  opt_last :: "32 word"
  opt_abort_after :: int
  opt_subcase_filter_levels :: int
  opt_success :: bool
  opt_case_sensitive :: bool
  opt_exit :: bool
  opt_duration :: bool
  opt_minimal :: bool
  opt_quiet :: bool
  opt_no_throw :: bool
  opt_no_exitcode :: bool
  opt_no_run :: bool
  opt_no_intro :: bool
  opt_no_version :: bool
  opt_no_colors :: bool
  opt_force_colors :: bool
  opt_no_breaks :: bool
  opt_no_skip :: bool
  opt_gnu_file_line :: bool
  opt_no_path_in_filenames :: bool
  opt_no_line_numbers :: bool
  opt_no_debug_output :: bool
  opt_no_skipped_summary :: bool
  opt_no_time_in_output :: bool
  opt_help :: bool
  opt_version :: bool
  opt_count :: bool
  opt_list_test_cases :: bool
  opt_list_test_suites :: bool
  opt_list_reporters :: bool

section \<open>Counters with lanes\<close>

text \<open>
  \<open>MultiLaneAtomic<int>\<close>: one counter per lane; a thread works on the lane it was given by the
  running number of its first access. Atomic integers wrap around.
\<close>

type_synonym lanes = "int list"

definition THREAD_LANES :: nat where
  "THREAD_LANES = 32"

definition lane_of_thread :: "nat \<Rightarrow> nat" where
  "lane_of_thread n = n mod THREAD_LANES"

definition new_lanes :: lanes where
  "new_lanes = replicate THREAD_LANES 0"

definition lanes_fetch_add :: "nat \<Rightarrow> int \<Rightarrow> lanes \<Rightarrow> int \<times> lanes" where
  "lanes_fetch_add lane arg m = (m ! lane, m[lane := c_int (m ! lane + arg)])"

definition lanes_fetch_sub :: "nat \<Rightarrow> int \<Rightarrow> lanes \<Rightarrow> int \<times> lanes" where
  "lanes_fetch_sub lane arg m = (m ! lane, m[lane := c_int (m ! lane - arg)])"

definition lanes_pre_increment :: "nat \<Rightarrow> lanes \<Rightarrow> int \<times> lanes" where
  "lanes_pre_increment lane m = (let (old, m') = lanes_fetch_add lane 1 m in (c_int (old + 1), m'))"

definition lanes_post_increment :: "nat \<Rightarrow> lanes \<Rightarrow> int \<times> lanes" where
  "lanes_post_increment lane m = lanes_fetch_add lane 1 m"

definition lanes_load :: "lanes \<Rightarrow> int" where
  "lanes_load m = foldl (\<lambda>result c. c_int (result + c)) 0 m"

fun lanes_store_from :: "int \<Rightarrow> lanes \<Rightarrow> lanes" where
  "lanes_store_from desired [] = []"
| "lanes_store_from desired (c # cs) = desired # lanes_store_from 0 cs"

definition lanes_store :: "int \<Rightarrow> lanes \<Rightarrow> lanes" where
  "lanes_store desired m = lanes_store_from desired m"

section \<open>The state of a run\<close>

definition FR_None :: nat where "FR_None = 0"
definition AssertFailure :: nat where "AssertFailure = 1"
definition FR_Exception :: nat where "FR_Exception = 2"
definition Crash :: nat where "Crash = 4"
definition TooManyFailedAsserts :: nat where "TooManyFailedAsserts = 8"
definition Timeout :: nat where "Timeout = 16"
definition ShouldHaveFailedButDidnt :: nat where "ShouldHaveFailedButDidnt = 32"
definition ShouldHaveFailedAndDid :: nat where "ShouldHaveFailedAndDid = 64"
definition DidntFailExactlyNumTimes :: nat where "DidntFailExactlyNumTimes = 128"
definition FailedExactlyNumTimes :: nat where "FailedExactlyNumTimes = 256"
definition CouldHaveFailedAndDid :: nat where "CouldHaveFailedAndDid = 512"

record TestRunStats =
  numTestCases :: nat
  numTestCasesPassingFilters :: nat
  numTestSuitesPassingFilters :: nat
  numTestCasesFailed :: nat
  numAsserts :: int
  numAssertsFailed :: int

record CurrentTestCaseStats =
  numAssertsCurrentTest :: int
  numAssertsFailedCurrentTest :: int
  seconds :: double
  failure_flags :: nat
  testCaseSuccess :: bool

record TestCaseException =
  error_string :: string
  is_crash :: bool

record QueryData =
  query_run_stats :: "TestRunStats option"
  query_data :: "TestCase list"

text \<open>
  The calls of the reporter interface, in the order they are made; each goes to every reporter
  in use. A log of these calls stands for the reporters.
\<close>

datatype event =
    report_query QueryData
  | test_run_start
  | test_run_end TestRunStats
  | test_case_start TestCase
  | test_case_reenter TestCase
  | test_case_end CurrentTestCaseStats
  | test_case_exception TestCaseException
  | subcase_start SubcaseSignature
  | subcase_end
  | log_assert AssertData
  | log_message MessageData
  | test_case_skipped TestCase

record ContextState =
  cs_opt :: ContextOptions
  cs_run :: TestRunStats
  cs_cur :: CurrentTestCaseStats
  numAssertsCurrentTest_atomic :: lanes
  numAssertsFailedCurrentTest_atomic :: lanes
  cs_lane :: nat
  cs_filters :: "string list list"
  reporters_currently_used :: "string list"
  cs_handler :: bool
  cs_timer :: "64 word"
  stringifiedContexts :: "string list"
  reachedLeaf :: bool
  subcaseStack :: "SubcaseSignature list"
  nextSubcaseStack :: "SubcaseSignature list"
  fullyTraversedSubcases :: "64 word list"
  currentSubcaseDepth :: nat
  shouldLogCurrentException :: bool
  cs_log :: "event list"

definition emit :: "event \<Rightarrow> ContextState \<Rightarrow> ContextState" where
  "emit e s = s\<lparr>cs_log := cs_log s @ [e]\<rparr>"

definition resetRunData :: "ContextState \<Rightarrow> ContextState" where
  "resetRunData s = s\<lparr>
     cs_run := \<lparr>numTestCases = 0, numTestCasesPassingFilters = 0, numTestSuitesPassingFilters = 0,
       numTestCasesFailed = 0, numAsserts = 0, numAssertsFailed = 0\<rparr>,
     cs_cur := (cs_cur s)\<lparr>numAssertsCurrentTest := 0, numAssertsFailedCurrentTest := 0\<rparr>\<rparr>"

text \<open>\<open>getElapsedSeconds\<close> from the ticks of the clock, in microseconds.\<close>

definition getElapsedSeconds :: "(double \<Rightarrow> double) \<Rightarrow> 64 word \<Rightarrow> 64 word \<Rightarrow> double" where
  "getElapsedSeconds rnd now started = rnd (rnd (of_nat (unat (now - started))) / 1000000)"

definition getElapsedMicroseconds :: "64 word \<Rightarrow> 64 word \<Rightarrow> 32 word" where
  "getElapsedMicroseconds now started = ucast (now - started)"

definition getCurrentTicks :: "nat \<Rightarrow> nat \<Rightarrow> 64 word" where
  "getCurrentTicks tv_sec tv_usec = of_nat tv_sec * 1000000 + of_nat tv_usec"

text \<open>The flags of a finished test case, from those collected so far.\<close>

definition timed_out :: "(double \<Rightarrow> double) \<Rightarrow> double \<Rightarrow> double \<Rightarrow> bool" where
  "timed_out rnd secs timeout \<longleftrightarrow>
     Approx_ne rnd 0 (Approx_epsilon DBL_EPSILON (new_Approx rnd timeout)) \<and>
     Approx_gt' rnd (Approx_epsilon DBL_EPSILON (new_Approx rnd secs)) timeout"

definition decorated_flags :: "TestCase \<Rightarrow> int \<Rightarrow> nat \<Rightarrow> nat" where
  "decorated_flags tc failed flags =
     (if tc_should_fail tc
      then (if flags \<noteq> 0 then or flags ShouldHaveFailedAndDid else or flags ShouldHaveFailedButDidnt)
      else if flags \<noteq> 0 \<and> tc_may_fail tc then or flags CouldHaveFailedAndDid
      else if tc_expected_failures tc > 0
      then (if failed = tc_expected_failures tc then or flags FailedExactlyNumTimes
            else or flags DidntFailExactlyNumTimes)
      else flags)"

definition ok_to_fail :: "nat \<Rightarrow> bool" where
  "ok_to_fail flags \<longleftrightarrow> and ShouldHaveFailedAndDid flags \<noteq> 0 \<or>
     and CouldHaveFailedAndDid flags \<noteq> 0 \<or> and FailedExactlyNumTimes flags \<noteq> 0"

definition finalizeTestCaseData :: "(double \<Rightarrow> double) \<Rightarrow> 64 word \<Rightarrow> ContextState \<Rightarrow> ContextState" where
  "finalizeTestCaseData rnd now s =
     (let secs = getElapsedSeconds rnd now (cs_timer s);
          asserts = lanes_load (numAssertsCurrentTest_atomic s);
          failed = lanes_load (numAssertsFailedCurrentTest_atomic s);
          tc = the (opt_currentTest (cs_opt s));
          flags1 = failure_flags (cs_cur s);
          flags2 = (if failed \<noteq> 0 then or flags1 AssertFailure else flags1);
          flags3 = (if timed_out rnd secs (tc_timeout tc) then or flags2 Timeout else flags2);
          flags = decorated_flags tc failed flags3;
          success = (\<not> (flags \<noteq> 0 \<and> \<not> ok_to_fail flags)) in
      s\<lparr>cs_run := (cs_run s)\<lparr>
          numAsserts := c_int (numAsserts (cs_run s) + asserts),
          numAssertsFailed := c_int (numAssertsFailed (cs_run s) + failed),
          numTestCasesFailed := numTestCasesFailed (cs_run s) + (if success then 0 else 1)\<rparr>,
        cs_cur := \<lparr>numAssertsCurrentTest = asserts, numAssertsFailedCurrentTest = failed,
          seconds = secs, failure_flags = flags, testCaseSuccess = success\<rparr>\<rparr>)"

end
