(* ===== verification/Doctest_Stats.thy ===== *)
theory Doctest_Stats
  imports Doctest_State "HOL-Library.Product_Lexorder"
begin

text \<open>
  Facts about the data of the test framework: names of assertion macros, the counters with lanes
  against a single counter, the verdict over a test case, and the orders of test cases.
\<close>

section \<open>Names of assertions\<close>

lemma DT_values:
  "DT WARN PLAIN = 9" "DT CHECK PLAIN = 10" "DT REQUIRE PLAIN = 12"
  "DT WARN FALSE = 265" "DT CHECK FALSE = 266" "DT REQUIRE FALSE = 268"
  "DT WARN THROWS = 17" "DT CHECK THROWS = 18" "DT REQUIRE THROWS = 20"
  "DT WARN THROWS_AS = 33" "DT CHECK THROWS_AS = 34" "DT REQUIRE THROWS_AS = 36"
  "DT WARN THROWS_WITH = 65" "DT CHECK THROWS_WITH = 66" "DT REQUIRE THROWS_WITH = 68"
  "DT WARN THROWS_WITH_AS = 97" "DT CHECK THROWS_WITH_AS = 98" "DT REQUIRE THROWS_WITH_AS = 100"
  "DT WARN NOTHROW = 129" "DT CHECK NOTHROW = 130" "DT REQUIRE NOTHROW = 132"
  "DT WARN EQ = 1033" "DT CHECK EQ = 1034" "DT REQUIRE EQ = 1036"
  "DT WARN NE = 2057" "DT CHECK NE = 2058" "DT REQUIRE NE = 2060"
  "DT WARN GT = 8201" "DT CHECK GT = 8202" "DT REQUIRE GT = 8204"
  "DT WARN LT = 4105" "DT CHECK LT = 4106" "DT REQUIRE LT = 4108"
  "DT WARN GE = 16393" "DT CHECK GE = 16394" "DT REQUIRE GE = 16396"
  "DT WARN LE = 32777" "DT CHECK LE = 32778" "DT REQUIRE LE = 32780"
  "DT WARN UNARY = 521" "DT CHECK UNARY = 522" "DT REQUIRE UNARY = 524"
  "DT WARN UNARY_FALSE = 777" "DT CHECK UNARY_FALSE = 778" "DT REQUIRE UNARY_FALSE = 780"
  by (simp_all add: DT_def assert_flags)

lemma assertString_eq: "assertString (DT l k) = Some (level_name l @ kind_name k)"
  by (induction l; induction k; simp add: assertString_def macro_types_def DT_values)

lemma failureString_eq: "failureString (DT l k) =
    (case l of WARN \<Rightarrow> ''WARNING'' | CHECK \<Rightarrow> ''ERROR'' | REQUIRE \<Rightarrow> ''FATAL ERROR'')"
  by (induction l; induction k; simp add: failureString_def has_flag_def assert_flags DT_values)

section \<open>Counters\<close>

lemma c_int_cong: "x mod 2 ^ 32 = y mod 2 ^ 32 \<Longrightarrow> c_int x = c_int y"
  unfolding c_int_def by (metis mod_add_left_eq)

lemma c_int_mod: "c_int x mod 2 ^ 32 = x mod 2 ^ 32"
  unfolding c_int_def by (simp add: mod_diff_left_eq)

lemma c_int_add_left: "c_int (c_int x + y) = c_int (x + y)"
  by (rule c_int_cong) (metis c_int_mod mod_add_left_eq)

lemma c_int_add_right: "c_int (x + c_int y) = c_int (x + y)"
  by (metis add.commute c_int_add_left)

lemma lanes_load_from: "foldl (\<lambda>result c. c_int (result + c)) (c_int a) m = c_int (a + sum_list m)"
  by (induction m arbitrary: a) (simp_all add: c_int_add_left add.assoc)

lemma lanes_load_eq: "lanes_load m = c_int (sum_list m)"
  using lanes_load_from [of 0 m] by (simp add: lanes_load_def)

lemma sum_list_update_int: "i < length m \<Longrightarrow> sum_list (m[i := x]) = sum_list m + x - (m ! i :: int)"
  by (induction m arbitrary: i) (auto split: nat.split)

lemma lanes_load_update:
  "i < length m \<Longrightarrow> lanes_load (m[i := c_int (m ! i + x)]) = c_int (lanes_load m + x)"
proof -
  assume i: "i < length m"
  have "lanes_load (m[i := c_int (m ! i + x)]) = c_int ((sum_list m - m ! i) + c_int (m ! i + x))"
    using i by (simp add: lanes_load_eq sum_list_update_int algebra_simps)
  also have "\<dots> = c_int (lanes_load m + x)"
    by (simp add: c_int_add_right c_int_add_left lanes_load_eq)
  finally show ?thesis .
qed

lemma sum_lanes_store: "m \<noteq> [] \<Longrightarrow> sum_list (lanes_store d m) = d"
proof -
  have "sum_list (lanes_store_from 0 m) = 0" for m by (induction m) auto
  then show "m \<noteq> [] \<Longrightarrow> ?thesis" by (cases m) (auto simp: lanes_store_def)
qed

section \<open>Verdicts\<close>

lemmas reason_flags = AssertFailure_def FR_Exception_def Crash_def TooManyFailedAsserts_def Timeout_def
  ShouldHaveFailedButDidnt_def ShouldHaveFailedAndDid_def DidntFailExactlyNumTimes_def
  FailedExactlyNumTimes_def CouldHaveFailedAndDid_def

lemma low_flags_bit: "f < 2 ^ n \<Longrightarrow> n \<le> k \<Longrightarrow> \<not> bit (f :: nat) k"
proof -
  assume "f < 2 ^ n" "n \<le> k"
  then have "f < 2 ^ k" by (meson order_less_le_trans one_le_numeral power_increasing)
  then show ?thesis by (simp add: bit_iff_odd)
qed

lemma ok_to_fail_iff: "ok_to_fail f \<longleftrightarrow> bit f 6 \<or> bit f 9 \<or> bit f 8"
proof -
  have "and 64 f \<noteq> 0 \<longleftrightarrow> bit f 6" "and 512 f \<noteq> 0 \<longleftrightarrow> bit f 9" "and 256 f \<noteq> 0 \<longleftrightarrow> bit f 8"
    using and_exp_eq_0_iff_not_bit [of f 6] and_exp_eq_0_iff_not_bit [of f 9]
      and_exp_eq_0_iff_not_bit [of f 8] by (simp_all add: ac_simps)
  then show ?thesis by (simp add: ok_to_fail_def reason_flags)
qed

lemma bits_of_flags:
  "bit (32 :: nat) 6 = False" "bit (32 :: nat) 9 = False" "bit (32 :: nat) 8 = False"
  "bit (64 :: nat) 6" "bit (512 :: nat) 9" "bit (256 :: nat) 8"
  "bit (128 :: nat) 6 = False" "bit (128 :: nat) 9 = False" "bit (128 :: nat) 8 = False"
  by (simp_all add: bit_iff_odd)

lemma or_flag_bound: "f < 2 ^ n \<Longrightarrow> g < 2 ^ n \<Longrightarrow> or f g < (2 :: nat) ^ n"
  by (simp flip: take_bit_nat_eq_self_iff add: take_bit_or)

lemma or_eq_0: "or f g = (0 :: nat) \<longleftrightarrow> f = 0 \<and> g = 0"
  by (auto simp: or_eq_0_iff)

lemma decorated_verdict:
  assumes "f < 32"
  shows "decorated_flags tc n f \<noteq> 0 \<and> \<not> ok_to_fail (decorated_flags tc n f) \<longleftrightarrow>
    \<not> (if tc_should_fail tc then f \<noteq> 0
       else if f \<noteq> 0 \<and> tc_may_fail tc then True
       else if tc_expected_failures tc > 0 then n = tc_expected_failures tc else f = 0)"
proof -
  have b: "\<not> bit f 6" "\<not> bit f 9" "\<not> bit f 8"
    using low_flags_bit [of f 5] assms by simp_all
  show ?thesis
    by (auto simp: decorated_flags_def ok_to_fail_iff bit_or_iff b bits_of_flags bit_Suc_0_iff or_eq_0 reason_flags simp del: neq0_conv)
qed

lemma finalize_verdict:
  fixes rnd :: "double \<Rightarrow> double" and now :: "64 word"
  assumes "opt_currentTest (cs_opt s) = Some tc" "failure_flags (cs_cur s) < 16"
  defines "failed \<equiv> lanes_load (numAssertsFailedCurrentTest_atomic s)"
  defines "bad \<equiv> failure_flags (cs_cur s) \<noteq> 0 \<or> failed \<noteq> 0 \<or>
     timed_out rnd (getElapsedSeconds rnd now (cs_timer s)) (tc_timeout tc)"
  shows "testCaseSuccess (cs_cur (finalizeTestCaseData rnd now s)) \<longleftrightarrow>
      (if tc_should_fail tc then bad
       else if bad \<and> tc_may_fail tc then True
       else if tc_expected_failures tc > 0 then failed = tc_expected_failures tc else \<not> bad)"
proof -
  define f2 where "f2 = (if failed \<noteq> 0 then or (failure_flags (cs_cur s)) AssertFailure
      else failure_flags (cs_cur s))"
  define f3 where "f3 = (if timed_out rnd (getElapsedSeconds rnd now (cs_timer s)) (tc_timeout tc)
      then or f2 Timeout else f2)"
  have "f2 < 2 ^ 4"
    using assms(2) or_flag_bound [of "failure_flags (cs_cur s)" 4 AssertFailure]
    by (simp add: f2_def AssertFailure_def)
  then have f3: "f3 < 2 ^ 5"
    using or_flag_bound [of f2 5 Timeout] by (simp add: f3_def Timeout_def)
  have nz: "f3 \<noteq> 0 \<longleftrightarrow> bad" unfolding f3_def f2_def bad_def
    by (auto simp: or_eq_0 reason_flags simp del: neq0_conv)
  then have z: "f3 = 0 \<longleftrightarrow> \<not> bad" by blast
  have "testCaseSuccess (cs_cur (finalizeTestCaseData rnd now s)) \<longleftrightarrow>
      \<not> (decorated_flags tc failed f3 \<noteq> 0 \<and> \<not> ok_to_fail (decorated_flags tc failed f3))"
    by (simp add: finalizeTestCaseData_def Let_def assms(1) failed_def f3_def f2_def)
  also have "\<dots> \<longleftrightarrow> (if tc_should_fail tc then f3 \<noteq> 0
       else if f3 \<noteq> 0 \<and> tc_may_fail tc then True
       else if tc_expected_failures tc > 0 then failed = tc_expected_failures tc else f3 = 0)"
    by (subst decorated_verdict) (use f3 in simp_all)
  finally show ?thesis by (simp only: nz z not_not)
qed

section \<open>Orders\<close>

lemma sort_insert_key:
  "\<forall>y \<in> set ys. lt y x \<longleftrightarrow> key y < key x \<Longrightarrow> sort_insert lt x ys = insort_key key x ys"
  by (induction ys) auto

lemma std_sort_key:
  assumes "\<And>x y. x \<in> set xs \<Longrightarrow> y \<in> set xs \<Longrightarrow> lt x y \<longleftrightarrow> key x < key y"
  shows "std_sort lt xs = sort_key key xs"
  using assms
proof (induction xs)
  case (Cons x xs)
  then have "std_sort lt xs = sort_key key xs" by simp
  moreover have "sort_insert lt x (sort_key key xs) = insort_key key x (sort_key key xs)"
    by (rule sort_insert_key) (simp add: Cons.prems)
  ultimately show ?case by (simp add: std_sort_def)
qed (simp add: std_sort_def)

text \<open>Names that C code can compare: no character is the terminator.\<close>

definition c_names :: "TestCase \<Rightarrow> bool" where
  "c_names t \<longleftrightarrow> NUL \<notin> set (tc_file t) \<and>
     (\<exists>n. tc_name t = Some n \<and> NUL \<notin> set n) \<and> (\<exists>n. tc_test_suite t = Some n \<and> NUL \<notin> set n)"

definition file_key :: "TestCase \<Rightarrow> string \<times> nat \<times> int" where
  "file_key t = (tc_file t, tc_line t, tc_template_id t)"

lemma fileOrder_key:
  "c_names a \<Longrightarrow> c_names b \<Longrightarrow> fileOrderComparator a b \<longleftrightarrow> file_key a < file_key b"
  by (auto simp: c_names_def fileOrderComparator_def file_key_def Let_def strcmp_eq_0_iff strcmp_less_iff)

lemma suiteOrder_key:
  "c_names a \<Longrightarrow> c_names b \<Longrightarrow> suiteOrderComparator a b \<longleftrightarrow>
     (the (tc_test_suite a), file_key a) < (the (tc_test_suite b), file_key b)"
  using fileOrder_key [of a b]
  by (auto simp: c_names_def suiteOrderComparator_def Let_def strcmp_eq_0_iff strcmp_less_iff)

lemma nameOrder_key:
  "c_names a \<Longrightarrow> c_names b \<Longrightarrow> nameOrderComparator a b \<longleftrightarrow>
     (the (tc_name a), the (tc_test_suite a), file_key a) <
     (the (tc_name b), the (tc_test_suite b), file_key b)"
  using suiteOrder_key [of a b]
  by (auto simp: c_names_def nameOrderComparator_def Let_def strcmp_eq_0_iff strcmp_less_iff)

section \<open>Properties\<close>

text \<open>
  Splitting a counter over lanes changes nothing for its users: adding or subtracting on any
  thread's lane changes the loaded value exactly as on one 32-bit counter, and a stored value is
  loaded back.
\<close>

theorem MultiLaneAtomic_refines_counter:
  assumes "length m = THREAD_LANES"
  shows "lanes_load (snd (lanes_fetch_add (lane_of_thread n) arg m)) = c_int (lanes_load m + arg) \<and>
    lanes_load (snd (lanes_fetch_sub (lane_of_thread n) arg m)) = c_int (lanes_load m - arg) \<and>
    lanes_load (snd (lanes_pre_increment (lane_of_thread n) m)) = c_int (lanes_load m + 1) \<and>
    lanes_load (lanes_store d m) = c_int d"
proof -
  have l: "lane_of_thread n < length m" using assms by (simp add: lane_of_thread_def THREAD_LANES_def)
  have "m \<noteq> []" using l by auto
  then show ?thesis
    using lanes_load_update [OF l, of arg] lanes_load_update [OF l, of "- arg"] lanes_load_update [OF l, of 1]
    by (simp add: lanes_fetch_add_def lanes_fetch_sub_def lanes_pre_increment_def lanes_load_eq [of "lanes_store d m"]
        sum_lanes_store Let_def)
qed

theorem MultiLaneAtomic_refines_counter_witness:
  "lanes_load (snd (lanes_fetch_add (lane_of_thread 33) 5 (lanes_store 7 new_lanes))) = c_int (7 + 5)"
proof -
  have "length (lanes_store 7 new_lanes) = THREAD_LANES"
    by (simp add: new_lanes_def THREAD_LANES_def lanes_store_def numeral_eq_Suc)
  then have "lanes_load (snd (lanes_fetch_add (lane_of_thread 33) 5 (lanes_store 7 new_lanes)))
      = c_int (lanes_load (lanes_store 7 new_lanes) + 5)"
    using MultiLaneAtomic_refines_counter by blast
  also have "lanes_load (lanes_store 7 new_lanes) = c_int 7"
    using MultiLaneAtomic_refines_counter [of new_lanes] by (simp add: new_lanes_def)
  finally show ?thesis by (simp add: c_int_add_left)
qed

text \<open>
  C39. The verdict over a test case: with \<open>should_fail\<close> it succeeds exactly when something went
  wrong, a test case that may fail never fails, an expected number of failed assertions decides
  alone (whatever exception or timeout came with it), and otherwise nothing may go wrong.
\<close>

theorem test_case_verdict:
  assumes "opt_currentTest (cs_opt s) = Some tc" "failure_flags (cs_cur s) < 16"
  shows "testCaseSuccess (cs_cur (finalizeTestCaseData rnd now s)) \<longleftrightarrow>
    (let failed = lanes_load (numAssertsFailedCurrentTest_atomic s);
         bad = (failure_flags (cs_cur s) \<noteq> 0 \<or> failed \<noteq> 0 \<or>
           timed_out rnd (getElapsedSeconds rnd now (cs_timer s)) (tc_timeout tc)) in
     if tc_should_fail tc then bad
     else if bad \<and> tc_may_fail tc then True
     else if tc_expected_failures tc > 0 then failed = tc_expected_failures tc else \<not> bad)"
  using finalize_verdict [OF assms, of rnd now] by (simp only: Let_def)

text \<open>
  Sorting the registered test cases by file, by suite or by name is sorting by the tuple of
  the file, line and template number, with the suite, and the name and the suite, before them.
\<close>

theorem test_order_by_keys:
  assumes "\<forall>t \<in> set ts. c_names t"
  shows "std_sort fileOrderComparator ts = sort_key file_key ts \<and>
    std_sort suiteOrderComparator ts = sort_key (\<lambda>t. (the (tc_test_suite t), file_key t)) ts \<and>
    std_sort nameOrderComparator ts =
      sort_key (\<lambda>t. (the (tc_name t), the (tc_test_suite t), file_key t)) ts"
  using assms by (simp add: std_sort_key fileOrder_key suiteOrder_key nameOrder_key)

end
