(* ===== verification/Doctest_Options.thy ===== *)
theory Doctest_Options
  imports Doctest_State
begin

text \<open>
  The command line of the test framework in \<^verbatim>\<open>src/Utils/doctest.h\<close>: options are looked up from
  the last argument to the first, with and without the prefix \<^verbatim>\<open>dt-\<close>; lists are split at
  commas that no backslash escapes; \<open>setOption\<close> goes through the same parser. The arguments are
  C strings.
\<close>

section \<open>Looking up an option\<close>

definition OPTIONS_PREFIX :: string where
  "OPTIONS_PREFIX = ''dt-''"

text \<open>
  One argument: the value after the pattern, or the empty string for a flag; \<open>None\<close> if it does
  not match. Only the first occurrence of the pattern in the argument is looked at.
\<close>

definition option_match :: "bool \<Rightarrow> string \<Rightarrow> string \<Rightarrow> string option" where
  "option_match value pattern arg = (case find_sub pattern arg of
       None \<Rightarrow> None
     | Some i \<Rightarrow>
         let temp = drop i arg in
         if value \<or> length temp = length pattern then
           (if list_all (\<lambda>c. c = CHR ''-'') (take i arg) \<and> arg \<noteq> [] \<and> hd arg = CHR ''-'' then
              (if value then
                 (let rest = drop (length pattern) temp in if length rest \<noteq> 0 then Some rest else None)
               else Some '''')
            else None)
         else None)"

fun parse_backwards :: "bool \<Rightarrow> string \<Rightarrow> string list \<Rightarrow> string option" where
  "parse_backwards value pattern [] = None"
| "parse_backwards value pattern (arg # earlier) =
     (case option_match value pattern arg of Some v \<Rightarrow> Some v | None \<Rightarrow> parse_backwards value pattern earlier)"

definition parseOptionImpl :: "string list \<Rightarrow> string \<Rightarrow> bool \<Rightarrow> string option" where
  "parseOptionImpl argv pattern value = parse_backwards value pattern (rev argv)"

definition parseOption :: "string list \<Rightarrow> string \<Rightarrow> bool \<Rightarrow> string option" where
  "parseOption argv pattern value =
     (case parseOptionImpl argv (drop (length OPTIONS_PREFIX) pattern) value of
        Some v \<Rightarrow> Some v
      | None \<Rightarrow> parseOptionImpl argv pattern value)"

definition parseFlag :: "string list \<Rightarrow> string \<Rightarrow> bool" where
  "parseFlag argv pattern = (parseOption argv pattern False \<noteq> None)"

section \<open>Lists and numbers\<close>

definition flush :: "string \<Rightarrow> string list \<Rightarrow> string list" where
  "flush s res = (if length s > 0 then res @ [s] else res)"

fun tokenize :: "string \<Rightarrow> bool \<Rightarrow> string \<Rightarrow> string list \<Rightarrow> string list" where
  "tokenize [] seenBackslash s res = flush (if seenBackslash then s @ [CHR 0x5C] else s) res"
| "tokenize (character # rest) seenBackslash s res =
     (if seenBackslash \<and> (character = CHR '','' \<or> character = CHR 0x5C)
      then tokenize rest False (s @ [character]) res
      else
        (let s = (if seenBackslash then s @ [CHR 0x5C] else s) in
         if character = CHR 0x5C then tokenize rest True s res
         else if character = CHR '','' then tokenize rest False '''' (flush s res)
         else tokenize rest False (s @ [character]) res))"

text \<open>The list is appended to what the filter already holds.\<close>

definition parseCommaSepArgs :: "string list \<Rightarrow> string \<Rightarrow> string list \<Rightarrow> string list" where
  "parseCommaSepArgs argv pattern res = (case parseOption argv pattern True of
       None \<Rightarrow> res | Some filtersString \<Rightarrow> tokenize filtersString False '''' res)"

text \<open>\<open>std::atoi\<close>, which the GNU library computes in a \<open>long\<close> that saturates.\<close>

definition is_space :: "char \<Rightarrow> bool" where
  "is_space c \<longleftrightarrow> c = CHR '' '' \<or> (9 \<le> (of_char c :: nat) \<and> (of_char c :: nat) \<le> 13)"

definition is_digit :: "char \<Rightarrow> bool" where
  "is_digit c \<longleftrightarrow> 48 \<le> (of_char c :: nat) \<and> (of_char c :: nat) \<le> 57"

definition atoi :: "string \<Rightarrow> int" where
  "atoi s =
     (let t = dropWhile is_space s;
          neg = (t \<noteq> [] \<and> hd t = CHR ''-'');
          u = (if t \<noteq> [] \<and> (hd t = CHR ''-'' \<or> hd t = CHR ''+'') then tl t else t);
          n = foldl (\<lambda>n c. 10 * n + (int (of_char c) - 48)) 0 (takeWhile is_digit u) in
      c_int (max (- (2 ^ 63)) (min (2 ^ 63 - 1) (if neg then - n else n))))"

datatype optionType = option_bool | option_int

definition parseIntOption :: "string list \<Rightarrow> string \<Rightarrow> optionType \<Rightarrow> int option" where
  "parseIntOption argv pattern type = (case parseOption argv pattern True of
       None \<Rightarrow> None
     | Some parsedValue \<Rightarrow> (case type of
         option_int \<Rightarrow> (let theInt = atoi parsedValue in if theInt \<noteq> 0 then Some theInt else None)
       | option_bool \<Rightarrow>
           map_option (\<lambda>r. if r mod 2 = 0 then 1 else 0) (List.find (\<lambda>r. stricmp parsedValue
               ((if r mod 2 = 0 then [''1'', ''true'', ''on'', ''yes''] else [''0'', ''false'', ''off'', ''no'']) ! (nat r div 2)) = 0)
             [0, 1, 2, 3, 4, 5, 6, 7 :: int])))"

section \<open>Parsing all arguments\<close>

definition parse_bool :: "string list \<Rightarrow> string \<Rightarrow> string \<Rightarrow> bool \<Rightarrow> bool \<Rightarrow> bool \<Rightarrow> bool" where
  "parse_bool argv name sname withDefaults dflt old =
     (case parseIntOption argv (OPTIONS_PREFIX @ name @ ''='') option_bool of
        Some r \<Rightarrow> r \<noteq> 0
      | None \<Rightarrow> (case parseIntOption argv (OPTIONS_PREFIX @ sname @ ''='') option_bool of
          Some r \<Rightarrow> r \<noteq> 0
        | None \<Rightarrow>
            if parseFlag argv (OPTIONS_PREFIX @ name) \<or> parseFlag argv (OPTIONS_PREFIX @ sname) then True
            else if withDefaults then dflt else old))"

definition parse_int :: "string list \<Rightarrow> string \<Rightarrow> string \<Rightarrow> bool \<Rightarrow> 'a \<Rightarrow> 'a \<Rightarrow> (int \<Rightarrow> 'a) \<Rightarrow> 'a" where
  "parse_int argv name sname withDefaults dflt old conv =
     (case parseIntOption argv (OPTIONS_PREFIX @ name @ ''='') option_int of
        Some r \<Rightarrow> conv r
      | None \<Rightarrow> (case parseIntOption argv (OPTIONS_PREFIX @ sname @ ''='') option_int of
          Some r \<Rightarrow> conv r
        | None \<Rightarrow> if withDefaults then dflt else old))"

definition parse_str :: "string list \<Rightarrow> string \<Rightarrow> string \<Rightarrow> bool \<Rightarrow> string \<Rightarrow> string \<Rightarrow> string" where
  "parse_str argv name sname withDefaults dflt old =
     (case parseOption argv (OPTIONS_PREFIX @ name @ ''='') True of
        Some v \<Rightarrow> v
      | None \<Rightarrow> (case parseOption argv (OPTIONS_PREFIX @ sname @ ''='') True of
          Some v \<Rightarrow> v
        | None \<Rightarrow> if withDefaults then dflt else old))"

text \<open>The nine filters, each with a long and a short name.\<close>

definition filter_names :: "(string \<times> string) list" where
  "filter_names =
     [(''source-file'', ''sf''), (''source-file-exclude'', ''sfe''), (''test-suite'', ''ts''),
      (''test-suite-exclude'', ''tse''), (''test-case'', ''tc''), (''test-case-exclude'', ''tce''),
      (''subcase'', ''sc''), (''subcase-exclude'', ''sce''), (''reporters'', ''r'')]"

definition parse_filter :: "string list \<Rightarrow> string \<times> string \<Rightarrow> string list \<Rightarrow> string list" where
  "parse_filter argv names res =
     parseCommaSepArgs argv (OPTIONS_PREFIX @ snd names @ ''='')
       (parseCommaSepArgs argv (OPTIONS_PREFIX @ fst names @ ''='') res)"

definition parse_filters :: "string list \<Rightarrow> string list list \<Rightarrow> string list list" where
  "parse_filters argv filters = List.map (\<lambda>(names, res). parse_filter argv names res) (zip filter_names filters)"

definition parse_numbers :: "string list \<Rightarrow> bool \<Rightarrow> ContextOptions \<Rightarrow> ContextOptions" where
  "parse_numbers argv withDefaults q = q\<lparr>
     opt_out := parse_str argv ''out'' ''o'' withDefaults '''' (opt_out q),
     opt_order_by := parse_str argv ''order-by'' ''ob'' withDefaults ''file'' (opt_order_by q),
     opt_rand_seed := parse_int argv ''rand-seed'' ''rs'' withDefaults 0 (opt_rand_seed q) word_of_int,
     opt_first := parse_int argv ''first'' ''f'' withDefaults 0 (opt_first q) word_of_int,
     opt_last := parse_int argv ''last'' ''l'' withDefaults (- 1) (opt_last q) word_of_int,
     opt_abort_after := parse_int argv ''abort-after'' ''aa'' withDefaults 0 (opt_abort_after q) id,
     opt_subcase_filter_levels :=
       parse_int argv ''subcase-filter-levels'' ''scfl'' withDefaults (2 ^ 31 - 1) (opt_subcase_filter_levels q) id\<rparr>"

definition parse_flags :: "string list \<Rightarrow> bool \<Rightarrow> ContextOptions \<Rightarrow> ContextOptions" where
  "parse_flags argv withDefaults q = q\<lparr>
     opt_success := parse_bool argv ''success'' ''s'' withDefaults False (opt_success q),
     opt_case_sensitive := parse_bool argv ''case-sensitive'' ''cs'' withDefaults False (opt_case_sensitive q),
     opt_exit := parse_bool argv ''exit'' ''e'' withDefaults False (opt_exit q),
     opt_duration := parse_bool argv ''duration'' ''d'' withDefaults False (opt_duration q),
     opt_minimal := parse_bool argv ''minimal'' ''m'' withDefaults False (opt_minimal q),
     opt_quiet := parse_bool argv ''quiet'' ''q'' withDefaults False (opt_quiet q),
     opt_no_throw := parse_bool argv ''no-throw'' ''nt'' withDefaults False (opt_no_throw q),
     opt_no_exitcode := parse_bool argv ''no-exitcode'' ''ne'' withDefaults False (opt_no_exitcode q),
     opt_no_run := parse_bool argv ''no-run'' ''nr'' withDefaults False (opt_no_run q),
     opt_no_intro := parse_bool argv ''no-intro'' ''ni'' withDefaults False (opt_no_intro q),
     opt_no_version := parse_bool argv ''no-version'' ''nv'' withDefaults False (opt_no_version q),
     opt_no_colors := parse_bool argv ''no-colors'' ''nc'' withDefaults False (opt_no_colors q),
     opt_force_colors := parse_bool argv ''force-colors'' ''fc'' withDefaults False (opt_force_colors q),
     opt_no_breaks := parse_bool argv ''no-breaks'' ''nb'' withDefaults False (opt_no_breaks q),
     opt_no_skip := parse_bool argv ''no-skip'' ''ns'' withDefaults False (opt_no_skip q),
     opt_gnu_file_line := parse_bool argv ''gnu-file-line'' ''gfl'' withDefaults True (opt_gnu_file_line q),
     opt_no_path_in_filenames := parse_bool argv ''no-path-filenames'' ''npf'' withDefaults False (opt_no_path_in_filenames q),
     opt_no_line_numbers := parse_bool argv ''no-line-numbers'' ''nln'' withDefaults False (opt_no_line_numbers q),
     opt_no_debug_output := parse_bool argv ''no-debug-output'' ''ndo'' withDefaults False (opt_no_debug_output q),
     opt_no_skipped_summary := parse_bool argv ''no-skipped-summary'' ''nss'' withDefaults False (opt_no_skipped_summary q),
     opt_no_time_in_output := parse_bool argv ''no-time-in-output'' ''ntio'' withDefaults False (opt_no_time_in_output q)\<rparr>"

text \<open>The queries, each of which also asks to exit.\<close>

definition any_flag :: "string list \<Rightarrow> string list \<Rightarrow> bool" where
  "any_flag argv names = list_ex (\<lambda>n. parseFlag argv (OPTIONS_PREFIX @ n)) names"

definition parse_queries :: "string list \<Rightarrow> bool \<Rightarrow> ContextOptions \<Rightarrow> ContextOptions" where
  "parse_queries argv withDefaults q =
     (let q = (if withDefaults then q\<lparr>opt_help := False, opt_version := False, opt_count := False,
            opt_list_test_cases := False, opt_list_test_suites := False, opt_list_reporters := False\<rparr> else q);
          q = (if any_flag argv [''help'', ''h'', ''?''] then q\<lparr>opt_help := True, opt_exit := True\<rparr> else q);
          q = (if any_flag argv [''version'', ''v''] then q\<lparr>opt_version := True, opt_exit := True\<rparr> else q);
          q = (if any_flag argv [''count'', ''c''] then q\<lparr>opt_count := True, opt_exit := True\<rparr> else q);
          q = (if any_flag argv [''list-test-cases'', ''ltc'']
               then q\<lparr>opt_list_test_cases := True, opt_exit := True\<rparr> else q);
          q = (if any_flag argv [''list-test-suites'', ''lts'']
               then q\<lparr>opt_list_test_suites := True, opt_exit := True\<rparr> else q) in
      if any_flag argv [''list-reporters'', ''lr'']
      then q\<lparr>opt_list_reporters := True, opt_exit := True\<rparr> else q)"

definition parseArgs :: "string list \<Rightarrow> bool \<Rightarrow> ContextState \<Rightarrow> ContextState" where
  "parseArgs argv withDefaults p = p\<lparr>
     cs_filters := parse_filters argv (cs_filters p),
     cs_opt := parse_queries argv withDefaults (parse_flags argv withDefaults
       (parse_numbers argv withDefaults (cs_opt p)))\<rparr>"

text \<open>
  The state before the first parse: members without an initialiser are indeterminate in the source
  and hold a fixed value here until \<open>parseArgs\<close> with defaults or the run sets them.
\<close>

definition raw_options :: ContextOptions where
  "raw_options = \<lparr>opt_cout = Out_null, opt_binary_name = '''', opt_currentTest = None, opt_out = '''',
     opt_order_by = '''', opt_rand_seed = 0, opt_first = 0, opt_last = 0, opt_abort_after = 0,
     opt_subcase_filter_levels = 0,
     opt_success = False,
     opt_case_sensitive = False,
     opt_exit = False,
     opt_duration = False,
     opt_minimal = False,
     opt_quiet = False,
     opt_no_throw = False,
     opt_no_exitcode = False,
     opt_no_run = False,
     opt_no_intro = False,
     opt_no_version = False,
     opt_no_colors = False,
     opt_force_colors = False,
     opt_no_breaks = False,
     opt_no_skip = False,
     opt_gnu_file_line = False,
     opt_no_path_in_filenames = False,
     opt_no_line_numbers = False,
     opt_no_debug_output = False,
     opt_no_skipped_summary = False,
     opt_no_time_in_output = False,
     opt_help = False, opt_version = False, opt_count = False, opt_list_test_cases = False,
     opt_list_test_suites = False, opt_list_reporters = False\<rparr>"

definition new_ContextState :: ContextState where
  "new_ContextState = \<lparr>cs_opt = raw_options,
     cs_run = \<lparr>numTestCases = 0, numTestCasesPassingFilters = 0, numTestSuitesPassingFilters = 0,
       numTestCasesFailed = 0, numAsserts = 0, numAssertsFailed = 0\<rparr>,
     cs_cur = \<lparr>numAssertsCurrentTest = 0, numAssertsFailedCurrentTest = 0, seconds = 0,
       failure_flags = 0, testCaseSuccess = False\<rparr>,
     numAssertsCurrentTest_atomic = new_lanes, numAssertsFailedCurrentTest_atomic = new_lanes,
     cs_lane = 0, cs_filters = replicate 9 [], reporters_currently_used = [], cs_handler = False,
     cs_timer = 0, stringifiedContexts = [], reachedLeaf = False, subcaseStack = [],
     nextSubcaseStack = [], fullyTraversedSubcases = [], currentSubcaseDepth = 0,
     shouldLogCurrentException = False, cs_log = []\<rparr>"

definition applyCommandLine :: "string list \<Rightarrow> ContextState \<Rightarrow> ContextState" where
  "applyCommandLine argv p =
     (let p = parseArgs argv False p in
      if argv \<noteq> [] then p\<lparr>cs_opt := (cs_opt p)\<lparr>opt_binary_name := hd argv\<rparr>\<rparr> else p)"

definition new_Context :: "string list \<Rightarrow> ContextState" where
  "new_Context argv =
     (let p = parseArgs argv True new_ContextState in
      if argv \<noteq> [] then p\<lparr>cs_opt := (cs_opt p)\<lparr>opt_binary_name := hd argv\<rparr>\<rparr> else p)"

definition setOption :: "string \<Rightarrow> string \<Rightarrow> ContextState \<Rightarrow> ContextState" where
  "setOption option value p = parseArgs [''-'' @ option @ ''='' @ value] False p"

definition setOption_bool :: "string \<Rightarrow> bool \<Rightarrow> ContextState \<Rightarrow> ContextState" where
  "setOption_bool option value p = setOption option (if value then ''true'' else ''false'') p"

definition setOption_int :: "string \<Rightarrow> int \<Rightarrow> ContextState \<Rightarrow> ContextState" where
  "setOption_int option value p = setOption option (toString_int value) p"

definition addFilter :: "string \<Rightarrow> string \<Rightarrow> ContextState \<Rightarrow> ContextState" where
  "addFilter filt value p = setOption filt value p"

definition clearFilters :: "ContextState \<Rightarrow> ContextState" where
  "clearFilters p = p\<lparr>cs_filters := List.map (\<lambda>_. []) (cs_filters p)\<rparr>"

definition shouldExit :: "ContextState \<Rightarrow> bool" where
  "shouldExit p = opt_exit (cs_opt p)"

definition setAssertHandler :: "bool \<Rightarrow> ContextState \<Rightarrow> ContextState" where
  "setAssertHandler ah p = p\<lparr>cs_handler := ah\<rparr>"

definition setCout :: "nat \<Rightarrow> ContextState \<Rightarrow> ContextState" where
  "setCout out p = p\<lparr>cs_opt := (cs_opt p)\<lparr>opt_cout := Out_user out\<rparr>\<rparr>"

section \<open>Reading back what was written\<close>

text \<open>The argument \<open>-name=value\<close>, with any number of dashes.\<close>

lemma find_sub_prefix: "find_sub pat (pat @ s) = Some 0"
  by (cases "pat @ s") (auto, metis append_eq_conv_conj)

lemma find_sub_dashes:
  assumes "pat \<noteq> []" "hd pat \<noteq> CHR ''-''" "list_all (\<lambda>c. c = CHR ''-'') dashes"
  shows "find_sub pat (dashes @ pat @ s) = Some (length dashes)"
  using assms(3)
proof (induction dashes)
  case (Cons d dashes)
  have "take (length pat) (d # dashes @ pat @ s) \<noteq> pat"
    using assms(1,2) Cons.prems by (cases pat) auto
  with Cons show ?case by simp
qed (simp add: find_sub_prefix)

lemma option_match_value:
  assumes "pat \<noteq> []" "hd pat \<noteq> CHR ''-''" "list_all (\<lambda>c. c = CHR ''-'') dashes" "dashes \<noteq> []" "v \<noteq> []"
  shows "option_match True pat (dashes @ pat @ v) = Some v"
  using assms by (simp add: option_match_def find_sub_dashes Let_def list_all_iff)

lemma parseOption_last:
  assumes "pat \<noteq> []" "hd pat \<noteq> CHR ''-''" "list_all (\<lambda>c. c = CHR ''-'') dashes" "dashes \<noteq> []" "v \<noteq> []"
  shows "parseOption (argv @ [dashes @ pat @ v]) (OPTIONS_PREFIX @ pat) True = Some v"
  using option_match_value [OF assms] by (simp add: parseOption_def parseOptionImpl_def OPTIONS_PREFIX_def)

lemma to_string_digits: "c \<in> set (to_string n) \<Longrightarrow> is_digit c"
proof (induction n arbitrary: c rule: to_string.induct)
  case (1 n)
  have d: "is_digit (digit_char d)" for d
  proof -
    have "d mod 10 \<in> {0, 1, 2, 3, 4, 5, 6, 7, 8, 9}" by (rule digit_cases) simp
    then show ?thesis by (auto simp: digit_char_def is_digit_def)
  qed
  from 1 show ?case by (auto simp: to_string.simps [of n] d split: if_splits)
qed

lemma to_string_nonempty [simp]: "to_string n \<noteq> []"
  by (subst to_string.simps) simp

lemma int_digits: "\<forall>c \<in> set s. is_digit c \<Longrightarrow>
   foldl (\<lambda>n c. 10 * n + (int (of_char c) - 48)) (int m) s = int (foldl (\<lambda>n c. 10 * n + char_digit c) m s)"
proof (induction s arbitrary: m)
  case (Cons c s)
  then have eq: "10 * int m + (int (of_char c) - 48) = int (10 * m + char_digit c)"
    by (simp add: is_digit_def char_digit_def)
  have "foldl (\<lambda>n c. 10 * n + (int (of_char c) - 48)) (int (10 * m + char_digit c)) s =
      int (foldl (\<lambda>n c. 10 * n + char_digit c) (10 * m + char_digit c) s)"
    by (rule Cons.IH) (use Cons.prems in auto)
  then show ?case by (simp only: foldl_Cons eq)
qed simp

lemma atoi_toString:
  assumes "- (2 ^ 31) \<le> n" "n < 2 ^ 31"
  shows "atoi (toString_int n) = n"
proof -
  have t: "takeWhile is_digit (to_string m) = to_string m" for m
    by (simp add: takeWhile_eq_all_conv to_string_digits)
  have v: "foldl (\<lambda>n c. 10 * n + (int (of_char c) - 48)) 0 (to_string m) = int m" for m
    using int_digits [of "to_string m" 0] to_string_digits of_decimal_to_string [of m]
    by (simp add: of_decimal_def)
  obtain d ds where d: "to_string (nat n) = d # ds" "is_digit d"
    using to_string_digits [of _ "nat n"] to_string_nonempty [of "nat n"] by (cases "to_string (nat n)") auto
  then have "\<not> is_space d" "d \<noteq> CHR ''-''" "d \<noteq> CHR ''+''" by (auto simp: is_digit_def is_space_def)
  moreover have m: "min (2 ^ 63 - 1) n = n" "max (- (2 ^ 63)) n = n" "c_int n = n" using assms by simp_all
  ultimately show ?thesis
  proof (cases "n < 0")
    case True
    then show ?thesis using m
      by (simp add: atoi_def toString_int_def is_space_def Let_def t v)
  next
    case False
    moreover have "takeWhile is_digit (d # ds) = d # ds"
      "foldl (\<lambda>n c. 10 * n + (int (of_char c) - 48)) 0 (d # ds) = n"
      using t [of "nat n"] v [of "nat n"] False by (simp_all only: d)
    ultimately show ?thesis
      using m assms d \<open>\<not> is_space d\<close> \<open>d \<noteq> CHR ''-''\<close> \<open>d \<noteq> CHR ''+''\<close>
      by (simp add: atoi_def toString_int_def Let_def takeWhile_eq_all_conv [THEN iffD2] max_def)
  qed
qed

lemma toString_int_nonempty [simp]: "toString_int n \<noteq> []"
  by (simp add: toString_int_def)

lemma parse_int_set:
  assumes "name \<noteq> []" "hd name \<noteq> CHR ''-''" "- (2 ^ 31) \<le> n" "n < 2 ^ 31"
  shows "parseIntOption [''-'' @ name @ ''='' @ toString_int n] (OPTIONS_PREFIX @ name @ ''='') option_int
    = (if n = 0 then None else Some n)"
  using parseOption_last [of "name @ ''=''" "''-''" "toString_int n" "[]"] assms
  by (simp add: parseIntOption_def atoi_toString Let_def)

lemma toString_int_0: "toString_int 0 = ''0''"
  by (simp add: toString_int_def to_string.simps digit_char_def)

lemma parse_int_stores:
  assumes n: "- (2 ^ 31) \<le> n" "n < 2 ^ 31" and name: "name \<noteq> []" "hd name \<noteq> CHR ''-''"
    and short: "find_sub (sname @ ''='') (''-'' @ name @ ''=0'') = None"
      "find_sub (OPTIONS_PREFIX @ sname @ ''='') (''-'' @ name @ ''=0'') = None"
  shows "parse_int [''-'' @ name @ ''='' @ toString_int n] name sname False dflt old conv =
    (if n = 0 then old else conv n)"
proof -
  have "parseOption [''-'' @ name @ ''=0''] (OPTIONS_PREFIX @ sname @ ''='') True = None"
    using short by (simp add: parseOption_def parseOptionImpl_def option_match_def OPTIONS_PREFIX_def)
  then have s2: "parseIntOption [''-'' @ name @ ''='' @ toString_int n] (OPTIONS_PREFIX @ sname @ ''='') option_int = None"
    if "n = 0" using that by (simp add: parseIntOption_def toString_int_0)
  show ?thesis
  proof (cases "n = 0")
    case True
    then show ?thesis unfolding parse_int_def s2 [OF True] parse_int_set [OF name n] by simp
  next
    case False
    then show ?thesis unfolding parse_int_def parse_int_set [OF name n] by simp
  qed
qed

lemma parse_queries_fields [simp]:
  "opt_rand_seed (parse_queries argv wd q) = opt_rand_seed q"
  "opt_first (parse_queries argv wd q) = opt_first q"
  "opt_last (parse_queries argv wd q) = opt_last q"
  "opt_abort_after (parse_queries argv wd q) = opt_abort_after q"
  "opt_subcase_filter_levels (parse_queries argv wd q) = opt_subcase_filter_levels q"
  by (simp_all add: parse_queries_def Let_def)

lemma parse_flags_fields [simp]:
  "opt_rand_seed (parse_flags argv wd q) = opt_rand_seed q"
  "opt_first (parse_flags argv wd q) = opt_first q"
  "opt_last (parse_flags argv wd q) = opt_last q"
  "opt_abort_after (parse_flags argv wd q) = opt_abort_after q"
  "opt_subcase_filter_levels (parse_flags argv wd q) = opt_subcase_filter_levels q"
  by (simp_all add: parse_flags_def)

text \<open>Writing a list of filters: commas and backslashes escaped, separated by commas.\<close>

fun escape :: "string \<Rightarrow> string" where
  "escape [] = []"
| "escape (c # s) = (if c = CHR '','' \<or> c = CHR 0x5C then CHR 0x5C # c # escape s else c # escape s)"

fun join_filters :: "string list \<Rightarrow> string" where
  "join_filters [] = []"
| "join_filters [f] = escape f"
| "join_filters (f # g # fs) = escape f @ '','' @ join_filters (g # fs)"

lemma tokenize_escape: "tokenize (escape f @ rest) False s res = tokenize rest False (s @ f) res"
  by (induction f arbitrary: s) simp_all

lemma tokenize_join:
  "fs \<noteq> [] \<Longrightarrow> \<forall>f \<in> set fs. f \<noteq> [] \<Longrightarrow> tokenize (join_filters fs) False '''' res = res @ fs"
proof (induction fs arbitrary: res rule: join_filters.induct)
  case (2 f)
  then show ?case using tokenize_escape [of f "[]"] by (simp add: flush_def)
next
  case (3 f g fs)
  then show ?case using tokenize_escape [of f "'','' @ join_filters (g # fs)"] by (simp add: flush_def)
qed simp

section \<open>Properties\<close>

text \<open>
  C40. Round trip: a list of non-empty filters written with escapes and commas as the last argument
  of the command line is read back unchanged, after what the filter already held.
\<close>

theorem filters_roundtrip:
  assumes "fs \<noteq> []" "\<forall>f \<in> set fs. f \<noteq> ''''" "name \<noteq> ''''" "hd name \<noteq> CHR ''-''"
  shows "parseCommaSepArgs (argv @ [''--'' @ name @ ''='' @ join_filters fs]) (OPTIONS_PREFIX @ name @ ''='') res
    = res @ fs"
proof -
  obtain f gs where f: "fs = f # gs" "f \<noteq> []" using assms(1,2) by (cases fs) auto
  then have "escape f \<noteq> []" by (cases f) auto
  then have "join_filters fs \<noteq> []" using f by (cases gs) auto
  then show ?thesis
    using parseOption_last [of "name @ ''=''" "''--''" "join_filters fs" argv] assms
    by (simp add: parseCommaSepArgs_def tokenize_join)
qed

theorem filters_roundtrip_witness:
  "join_filters [''a,b'', ''c*''] = [CHR ''a'', CHR 0x5C, CHR '','', CHR ''b'', CHR '','', CHR ''c'', CHR ''*''] \<and>
   parseCommaSepArgs ([''prog''] @ [''--'' @ ''tc'' @ ''='' @ join_filters [''a,b'', ''c*'']])
     (OPTIONS_PREFIX @ ''tc'' @ ''='') [] = [''a,b'', ''c*'']"
  using filters_roundtrip [of "[''a,b'', ''c*'']" "''tc''" "[''prog'']" "[]"] by simp

text \<open>
  Setting a numeric option from the program stores any \<open>int\<close> but zero; zero leaves the old
  value, so that a limit once set cannot be lifted again.
\<close>

theorem setOption_int_stores:
  assumes "- (2 ^ 31) \<le> n" "n < 2 ^ 31"
  shows "opt_abort_after (cs_opt (setOption_int ''abort-after'' n s)) =
      (if n = 0 then opt_abort_after (cs_opt s) else n) \<and>
    opt_first (cs_opt (setOption_int ''first'' n s)) =
      (if n = 0 then opt_first (cs_opt s) else word_of_int n) \<and>
    opt_last (cs_opt (setOption_int ''last'' n s)) =
      (if n = 0 then opt_last (cs_opt s) else word_of_int n) \<and>
    opt_rand_seed (cs_opt (setOption_int ''rand-seed'' n s)) =
      (if n = 0 then opt_rand_seed (cs_opt s) else word_of_int n) \<and>
    opt_subcase_filter_levels (cs_opt (setOption_int ''subcase-filter-levels'' n s)) =
      (if n = 0 then opt_subcase_filter_levels (cs_opt s) else n)"
  using parse_int_stores [OF assms, of "''abort-after''" "''aa''" 0 "opt_abort_after (cs_opt s)" id]
    parse_int_stores [OF assms, of "''first''" "''f''" 0 "opt_first (cs_opt s)" word_of_int]
    parse_int_stores [OF assms, of "''last''" "''l''" "-1" "opt_last (cs_opt s)" word_of_int]
    parse_int_stores [OF assms, of "''rand-seed''" "''rs''" 0 "opt_rand_seed (cs_opt s)" word_of_int]
    parse_int_stores [OF assms, of "''subcase-filter-levels''" "''scfl''" "2 ^ 31 - 1"
      "opt_subcase_filter_levels (cs_opt s)" id]
  by (simp add: setOption_int_def setOption_def parseArgs_def parse_numbers_def OPTIONS_PREFIX_def)

theorem setOption_int_stores_witness:
  "opt_abort_after (cs_opt (setOption_int ''abort-after'' 0 (setOption_int ''abort-after'' 3 new_ContextState))) = 3"
  using setOption_int_stores [of 0 "setOption_int ''abort-after'' 3 new_ContextState"]
    setOption_int_stores [of 3 new_ContextState] by simp

end
