(* ===== verification/Doctest_Assert.thy ===== *)
theory Doctest_Assert
  imports Doctest_Stats Doctest_Options
begin

text \<open>
  Assertions, messages and contexts of \<^verbatim>\<open>src/Utils/doctest.h\<close>: evaluating an expression, logging
  the result, counting it, and throwing. A thrown \<open>TestFailureException\<close> and an abort are values;
  breaking into a debugger is a flag. The user's assert handler is only known to exist or not.
\<close>

section \<open>Counting and throwing\<close>

definition checkIfShouldThrow :: "assertType \<Rightarrow> ContextState \<Rightarrow> bool" where
  "checkIfShouldThrow ty s =
     (if has_flag ty is_require then True
      else has_flag ty is_check \<and> opt_abort_after (cs_opt s) > 0 \<and>
        c_int (numAssertsFailed (cs_run s) + lanes_load (numAssertsFailedCurrentTest_atomic s))
          \<ge> opt_abort_after (cs_opt s))"

definition throwException :: "ContextState \<Rightarrow> ContextState" where
  "throwException s = s\<lparr>shouldLogCurrentException := False\<rparr>"

definition addAssert :: "assertType \<Rightarrow> ContextState \<Rightarrow> ContextState" where
  "addAssert ty s =
     (if and ty is_warn = 0
      then s\<lparr>numAssertsCurrentTest_atomic :=
        snd (lanes_post_increment (cs_lane s) (numAssertsCurrentTest_atomic s))\<rparr> else s)"

definition addFailedAssert :: "assertType \<Rightarrow> ContextState \<Rightarrow> ContextState" where
  "addFailedAssert ty s =
     (if and ty is_warn = 0
      then s\<lparr>numAssertsFailedCurrentTest_atomic :=
        snd (lanes_post_increment (cs_lane s) (numAssertsFailedCurrentTest_atomic s))\<rparr> else s)"

section \<open>Exceptions\<close>

datatype exn = Std_exception string | Std_string string | C_string string | Other_exn nat

text \<open>A translator gives the text of the exceptions of its type and \<open>None\<close> for others.\<close>

type_synonym translator = "nat \<times> (exn \<Rightarrow> string option)"

definition registerExceptionTranslatorImpl :: "translator \<Rightarrow> translator list \<Rightarrow> translator list" where
  "registerExceptionTranslatorImpl et ts = (if fst et \<in> fst ` set ts then ts else ts @ [et])"

fun translate_by :: "translator list \<Rightarrow> exn \<Rightarrow> string option" where
  "translate_by [] e = None"
| "translate_by (t # ts) e = (case snd t e of Some res \<Rightarrow> Some res | None \<Rightarrow> translate_by ts e)"

definition translateActiveException :: "translator list \<Rightarrow> exn \<Rightarrow> string" where
  "translateActiveException ts e = (case translate_by ts e of
       Some res \<Rightarrow> res
     | None \<Rightarrow> (case e of
         Std_exception what \<Rightarrow> what | Std_string msg \<Rightarrow> c_str msg | C_string msg \<Rightarrow> msg
       | Other_exn _ \<Rightarrow> ''unknown exception''))"

section \<open>Results of assertions\<close>

datatype outcome = Continues bool ContextState | Throws ContextState | Aborts

definition RB_setResult :: "bool \<Rightarrow> string \<Rightarrow> AssertData \<Rightarrow> AssertData" where
  "RB_setResult passed decomp rb = rb\<lparr>ad_decomp := decomp, ad_failed := \<not> passed\<rparr>"

definition RB_translateException :: "translator list \<Rightarrow> exn \<Rightarrow> AssertData \<Rightarrow> AssertData" where
  "RB_translateException ts e rb = rb\<lparr>ad_threw := True, ad_exception := translateActiveException ts e\<rparr>"

definition RB_verdict :: "AssertData \<Rightarrow> bool" where
  "RB_verdict rb =
     (let ty = ad_at rb in
      if has_flag ty is_throws then \<not> ad_threw rb
      else if has_flag ty is_throws_as \<and> has_flag ty is_throws_with then
        \<not> ad_threw_as rb \<or> \<not> StringContains_check (ad_exception_string rb) (ad_exception rb)
      else if has_flag ty is_throws_as then \<not> ad_threw_as rb
      else if has_flag ty is_throws_with then
        \<not> StringContains_check (ad_exception_string rb) (ad_exception rb)
      else if has_flag ty is_nothrow then ad_threw rb
      else ad_failed rb)"

definition failed_out_of_a_testing_context :: "AssertData \<Rightarrow> ContextState \<Rightarrow> ContextState option" where
  "failed_out_of_a_testing_context ad s = (if cs_handler s then Some s else None)"

definition may_break :: "bool \<Rightarrow> ContextState \<Rightarrow> bool" where
  "may_break debugger s \<longleftrightarrow> debugger \<and> \<not> opt_no_breaks (cs_opt s) \<and>
     (case opt_currentTest (cs_opt s) of None \<Rightarrow> True | Some tc \<Rightarrow> \<not> tc_no_breaks tc)"

text \<open>\<open>log\<close>: whether to break into the debugger, the assertion and the state; \<open>None\<close> is an abort.\<close>

definition RB_log :: "bool \<Rightarrow> bool \<Rightarrow> AssertData \<Rightarrow> ContextState \<Rightarrow> (bool \<times> AssertData \<times> ContextState) option" where
  "RB_log running debugger rb s =
     (let rb = rb\<lparr>ad_failed := RB_verdict rb\<rparr>;
          rb = (if length (ad_exception rb) \<noteq> 0
                then rb\<lparr>ad_exception := [CHR 0x22] @ ad_exception rb @ [CHR 0x22]\<rparr> else rb) in
      case (if running then
              (let s = emit (log_assert rb) (addAssert (ad_at rb) s) in
               Some (if ad_failed rb then addFailedAssert (ad_at rb) s else s))
            else if ad_failed rb then failed_out_of_a_testing_context rb s
            else Some s) of
        None \<Rightarrow> None
      | Some s \<Rightarrow> Some (ad_failed rb \<and> may_break debugger s, rb, s))"

definition RB_react :: "AssertData \<Rightarrow> ContextState \<Rightarrow> outcome" where
  "RB_react rb s =
     (if ad_failed rb \<and> checkIfShouldThrow (ad_at rb) s then Throws (throwException s)
      else Continues (\<not> ad_failed rb) s)"

text \<open>The macros \<open>DOCTEST_ASSERT_OUT_OF_TESTS\<close> and \<open>DOCTEST_ASSERT_IN_TESTS\<close>.\<close>

definition assert_out_of_tests ::
  "assertType \<Rightarrow> string \<Rightarrow> int \<Rightarrow> string \<Rightarrow> bool \<Rightarrow> string \<Rightarrow> ContextState \<Rightarrow> outcome" where
  "assert_out_of_tests ty file line expr failed decomp s =
     (if failed then
        (let rb = (new_AssertData (opt_currentTest (cs_opt s)) ty file line expr '''' (SC_string ''''))
               \<lparr>ad_failed := failed, ad_decomp := decomp\<rparr> in
         case failed_out_of_a_testing_context rb s of
           None \<Rightarrow> Aborts
         | Some s \<Rightarrow> if checkIfShouldThrow ty s then Throws (throwException s) else Continues (\<not> failed) s)
      else Continues (\<not> failed) s)"

definition assert_in_tests ::
  "bool \<Rightarrow> assertType \<Rightarrow> string \<Rightarrow> int \<Rightarrow> string \<Rightarrow> bool \<Rightarrow> string \<Rightarrow> ContextState \<Rightarrow> outcome" where
  "assert_in_tests debugger ty file line expr failed decomp s =
     (let rb = (new_AssertData (opt_currentTest (cs_opt s)) ty file line expr '''' (SC_string ''''))
            \<lparr>ad_failed := failed\<rparr>;
          rb = (if failed \<or> opt_success (cs_opt s) then rb\<lparr>ad_decomp := decomp\<rparr> else rb) in
      case RB_log True debugger rb s of
        None \<Rightarrow> Aborts
      | Some (_, rb, s) \<Rightarrow>
          if ad_failed rb \<and> checkIfShouldThrow ty s then Throws (throwException s)
          else Continues (\<not> failed) s)"

definition run_assert ::
  "bool \<Rightarrow> bool \<Rightarrow> assertType \<Rightarrow> string \<Rightarrow> int \<Rightarrow> string \<Rightarrow> bool \<Rightarrow> string \<Rightarrow> ContextState \<Rightarrow> outcome" where
  "run_assert running debugger ty file line expr failed decomp s =
     (if \<not> running then assert_out_of_tests ty file line expr failed decomp s
      else assert_in_tests debugger ty file line expr failed decomp s)"

text \<open>\<open>decomp_assert\<close> takes a \<open>Result\<close>: passed and its decomposition.\<close>

record Result =
  m_passed :: bool
  m_decomp :: string

definition decomp_assert ::
  "bool \<Rightarrow> bool \<Rightarrow> assertType \<Rightarrow> string \<Rightarrow> int \<Rightarrow> string \<Rightarrow> Result \<Rightarrow> ContextState \<Rightarrow> outcome" where
  "decomp_assert running debugger ty file line expr res s =
     run_assert running debugger ty file line expr (\<not> m_passed res) (m_decomp res) s"

text \<open>Expressions over a type with a printer; the comparisons are those of the operand type.\<close>

datatype comparison = C_eq | C_ne | C_gt | C_lt | C_ge | C_le

fun comparison_op :: "comparison \<Rightarrow> int \<Rightarrow> int \<Rightarrow> bool" where
  "comparison_op C_eq l r = (l = r)"
| "comparison_op C_ne l r = (l \<noteq> r)"
| "comparison_op C_gt l r = (l > r)"
| "comparison_op C_lt l r = (l < r)"
| "comparison_op C_ge l r = (l \<ge> r)"
| "comparison_op C_le l r = (l \<le> r)"

fun comparison_str :: "comparison \<Rightarrow> string" where
  "comparison_str C_eq = '' == ''"
| "comparison_str C_ne = '' != ''"
| "comparison_str C_gt = '' >  ''"
| "comparison_str C_lt = '' <  ''"
| "comparison_str C_ge = '' >= ''"
| "comparison_str C_le = '' <= ''"

definition stringifyBinaryExpr :: "int \<Rightarrow> string \<Rightarrow> int \<Rightarrow> string" where
  "stringifyBinaryExpr lhs oper rhs = toString_int lhs @ oper @ toString_int rhs"

text \<open>\<open>Expression_lhs\<close> compared with a right-hand side, and converted to a \<open>Result\<close> alone.\<close>

definition compare_result :: "assertType \<Rightarrow> bool \<Rightarrow> comparison \<Rightarrow> int \<Rightarrow> int \<Rightarrow> Result" where
  "compare_result ty success c lhs rhs =
     (let res = comparison_op c lhs rhs;
          res = (if has_flag ty is_false then \<not> res else res) in
      if \<not> res \<or> success then \<lparr>m_passed = res, m_decomp = stringifyBinaryExpr lhs (comparison_str c) rhs\<rparr>
      else \<lparr>m_passed = res, m_decomp = ''''\<rparr>)"

definition unary_result :: "assertType \<Rightarrow> bool \<Rightarrow> int \<Rightarrow> Result" where
  "unary_result ty success lhs =
     (let res = (lhs \<noteq> 0);
          res = (if has_flag ty is_false then \<not> res else res) in
      if \<not> res \<or> success then \<lparr>m_passed = res, m_decomp = toString_int lhs\<rparr>
      else \<lparr>m_passed = res, m_decomp = ''''\<rparr>)"

definition binary_assert ::
  "bool \<Rightarrow> bool \<Rightarrow> comparison \<Rightarrow> assertType \<Rightarrow> string \<Rightarrow> int \<Rightarrow> string \<Rightarrow> int \<Rightarrow> int \<Rightarrow> ContextState \<Rightarrow> outcome" where
  "binary_assert running debugger c ty file line expr lhs rhs s =
     run_assert running debugger ty file line expr (\<not> comparison_op c lhs rhs)
       (stringifyBinaryExpr lhs '', '' rhs) s"

definition unary_assert ::
  "bool \<Rightarrow> bool \<Rightarrow> assertType \<Rightarrow> string \<Rightarrow> int \<Rightarrow> string \<Rightarrow> int \<Rightarrow> ContextState \<Rightarrow> outcome" where
  "unary_assert running debugger ty file line expr val s =
     (let failed = (val = 0);
          failed = (if has_flag ty is_false then \<not> failed else failed) in
      run_assert running debugger ty file line expr failed (toString_int val) s)"

definition RB_binary_assert :: "bool \<Rightarrow> comparison \<Rightarrow> int \<Rightarrow> int \<Rightarrow> AssertData \<Rightarrow> bool \<times> AssertData" where
  "RB_binary_assert success c lhs rhs rb =
     (let rb = rb\<lparr>ad_failed := \<not> comparison_op c lhs rhs\<rparr>;
          rb = (if ad_failed rb \<or> success then rb\<lparr>ad_decomp := stringifyBinaryExpr lhs '', '' rhs\<rparr> else rb) in
      (\<not> ad_failed rb, rb))"

definition RB_unary_assert :: "bool \<Rightarrow> int \<Rightarrow> AssertData \<Rightarrow> bool \<times> AssertData" where
  "RB_unary_assert success val rb =
     (let rb = rb\<lparr>ad_failed := (val = 0)\<rparr>;
          rb = (if has_flag (ad_at rb) is_false then rb\<lparr>ad_failed := \<not> ad_failed rb\<rparr> else rb);
          rb = (if ad_failed rb \<or> success then rb\<lparr>ad_decomp := toString_int val\<rparr> else rb) in
      (\<not> ad_failed rb, rb))"

section \<open>Messages and contexts\<close>

record MessageBuilder = MessageData +
  mb_logged :: bool

definition new_MessageBuilder :: "string \<Rightarrow> int \<Rightarrow> assertType \<Rightarrow> tlss \<Rightarrow> MessageBuilder \<times> tlss" where
  "new_MessageBuilder file line severity g =
     (\<lparr>md_string = '''', md_file = file, md_line = line, md_severity = severity, mb_logged = False\<rparr>,
      tlssPush g)"

definition destroy_MessageBuilder :: "MessageBuilder \<Rightarrow> tlss \<Rightarrow> tlss option" where
  "destroy_MessageBuilder mb g = (if \<not> mb_logged mb then map_option snd (tlssPop g) else Some g)"

definition MB_put :: "string \<Rightarrow> tlss \<Rightarrow> tlss" where
  "MB_put t g = tlss_write t g"

definition MB_log ::
  "bool \<Rightarrow> MessageBuilder \<Rightarrow> tlss \<Rightarrow> ContextState \<Rightarrow> (bool \<times> MessageBuilder \<times> tlss \<times> ContextState) option" where
  "MB_log debugger mb g s =
     (case (if \<not> mb_logged mb
            then map_option (\<lambda>(t, g). (mb\<lparr>md_string := t, mb_logged := True\<rparr>, g)) (tlssPop g)
            else Some (mb, g)) of
        None \<Rightarrow> None
      | Some (mb, g) \<Rightarrow>
          let s = emit (log_message (MessageData.truncate mb)) s;
              isWarn = has_flag (md_severity mb) is_warn;
              s = (if \<not> isWarn then addFailedAssert (md_severity mb) (addAssert (md_severity mb) s) else s) in
          Some (may_break debugger s \<and> \<not> isWarn, mb, g, s))"

definition MB_react :: "MessageBuilder \<Rightarrow> ContextState \<Rightarrow> outcome" where
  "MB_react mb s = (if has_flag (md_severity mb) is_require then Throws (throwException s) else Continues True s)"

text \<open>
  The active contexts of \<open>INFO\<close>, each with the text it prints. Leaving a scope while an exception
  is under way keeps the text.
\<close>

definition new_ContextScope :: "string \<Rightarrow> string list \<Rightarrow> string list" where
  "new_ContextScope t contexts = contexts @ [t]"

definition ContextScope_destroy ::
  "bool \<Rightarrow> string \<Rightarrow> string list \<times> ContextState \<Rightarrow> string list \<times> ContextState" where
  "ContextScope_destroy uncaught_exceptions t cs =
     (butlast (fst cs),
      if uncaught_exceptions then (snd cs)\<lparr>stringifiedContexts := stringifiedContexts (snd cs) @ [c_str t]\<rparr>
      else snd cs)"

definition ContextScope_move ::
  "bool \<Rightarrow> string \<times> bool \<Rightarrow> string list \<times> ContextState \<Rightarrow> (string \<times> bool) \<times> string list \<times> ContextState" where
  "ContextScope_move uncaught_exceptions other cs =
     (let cs = (if snd other then ContextScope_destroy uncaught_exceptions (fst other) cs else cs) in
      ((fst other, False), new_ContextScope (fst other) (fst cs), snd cs))"

section \<open>Fatal signals\<close>

text \<open>What is done with a signal: as before the tests, or \<open>handleSignal\<close>.\<close>

datatype disposition = Previous nat | Handle_signal

record signal_state =
  sig_actions :: "nat \<Rightarrow> disposition"
  old_actions :: "nat \<Rightarrow> disposition"
  alt_stack :: nat
  old_stack :: nat
  fh_isSet :: bool

definition signalDefs :: "(nat \<times> string) list" where
  "signalDefs =
     [(2, ''SIGINT - Terminal interrupt signal''), (4, ''SIGILL - Illegal instruction signal''),
      (8, ''SIGFPE - Floating point error signal''), (11, ''SIGSEGV - Segmentation violation signal''),
      (15, ''SIGTERM - Termination request signal''), (6, ''SIGABRT - Abort (abnormal termination) signal'')]"

definition new_FatalConditionHandler :: "nat \<Rightarrow> signal_state \<Rightarrow> signal_state" where
  "new_FatalConditionHandler mem f =
     fold (\<lambda>(id, _) f. f\<lparr>old_actions := (old_actions f)(id := sig_actions f id),
         sig_actions := (sig_actions f)(id := Handle_signal)\<rparr>)
       signalDefs (f\<lparr>fh_isSet := True, old_stack := alt_stack f, alt_stack := mem\<rparr>)"

definition FatalConditionHandler_reset :: "signal_state \<Rightarrow> signal_state" where
  "FatalConditionHandler_reset f =
     (if fh_isSet f
      then (fold (\<lambda>(id, _) f. f\<lparr>sig_actions := (sig_actions f)(id := old_actions f id)\<rparr>) signalDefs f)
         \<lparr>alt_stack := old_stack f, fh_isSet := False\<rparr>
      else f)"

definition signal_name :: "nat \<Rightarrow> string" where
  "signal_name sig = (case List.find (\<lambda>(id, _). sig = id) signalDefs of
       Some (_, name) \<Rightarrow> name | None \<Rightarrow> ''<unknown signal>'')"

fun end_subcases :: "SubcaseSignature list \<Rightarrow> ContextState \<Rightarrow> ContextState" where
  "end_subcases [] s = s\<lparr>subcaseStack := []\<rparr>"
| "end_subcases (_ # rest) s = end_subcases rest (emit subcase_end (s\<lparr>subcaseStack := rest\<rparr>))"

definition reportFatal :: "(double \<Rightarrow> double) \<Rightarrow> 64 word \<Rightarrow> string \<Rightarrow> ContextState \<Rightarrow> ContextState" where
  "reportFatal rnd now message s =
     (let s = s\<lparr>cs_cur := (cs_cur s)\<lparr>failure_flags := or (failure_flags (cs_cur s)) Crash\<rparr>\<rparr>;
          s = emit (test_case_exception \<lparr>error_string = message, is_crash = True\<rparr>) s;
          s = end_subcases (subcaseStack s) s;
          s = finalizeTestCaseData rnd now s;
          s = emit (test_case_end (cs_cur s)) s in
      emit (test_run_end (cs_run s)) s)"

text \<open>\<open>handleSignal\<close> gives the previous handlers back before it reports and raises the signal again.\<close>

definition handleSignal ::
  "(double \<Rightarrow> double) \<Rightarrow> 64 word \<Rightarrow> nat \<Rightarrow> signal_state \<Rightarrow> ContextState \<Rightarrow> signal_state \<times> ContextState \<times> nat" where
  "handleSignal rnd now sig f s = (FatalConditionHandler_reset f, reportFatal rnd now (signal_name sig) s, sig)"

section \<open>Properties\<close>

lemma emit_fields [simp]:
  "cs_opt (emit e s) = cs_opt s" "cs_run (emit e s) = cs_run s" "cs_cur (emit e s) = cs_cur s"
  "numAssertsCurrentTest_atomic (emit e s) = numAssertsCurrentTest_atomic s"
  "numAssertsFailedCurrentTest_atomic (emit e s) = numAssertsFailedCurrentTest_atomic s"
  "cs_lane (emit e s) = cs_lane s" "cs_log (emit e s) = cs_log s @ [e]" "cs_handler (emit e s) = cs_handler s"
  "cs_filters (emit e s) = cs_filters s" "reporters_currently_used (emit e s) = reporters_currently_used s"
  "cs_timer (emit e s) = cs_timer s" "stringifiedContexts (emit e s) = stringifiedContexts s"
  "reachedLeaf (emit e s) = reachedLeaf s" "subcaseStack (emit e s) = subcaseStack s"
  "nextSubcaseStack (emit e s) = nextSubcaseStack s"
  "fullyTraversedSubcases (emit e s) = fullyTraversedSubcases s"
  "currentSubcaseDepth (emit e s) = currentSubcaseDepth s"
  "shouldLogCurrentException (emit e s) = shouldLogCurrentException s"
  by (simp_all add: emit_def)

text \<open>The state of an outcome.\<close>

fun outcome_state :: "outcome \<Rightarrow> ContextState option" where
  "outcome_state (Continues _ s) = Some s"
| "outcome_state (Throws s) = Some s"
| "outcome_state Aborts = None"

lemma level_flags:
  "has_flag (DT l k) is_warn \<longleftrightarrow> l = WARN" "and (DT l k) is_warn = 0 \<longleftrightarrow> l \<noteq> WARN"
  "has_flag (DT l k) is_check \<longleftrightarrow> l = CHECK" "has_flag (DT l k) is_require \<longleftrightarrow> l = REQUIRE"
  by (induction l; induction k; simp add: has_flag_def assert_flags DT_values)+

lemma plain_flags:
  "k \<in> {PLAIN, FALSE, EQ, NE, GT, LT, GE, LE, UNARY, UNARY_FALSE} \<Longrightarrow>
   \<not> has_flag (DT l k) is_throws \<and> \<not> has_flag (DT l k) is_throws_as \<and>
   \<not> has_flag (DT l k) is_throws_with \<and> \<not> has_flag (DT l k) is_nothrow"
  by (induction l; induction k; simp add: has_flag_def assert_flags DT_values)

definition counted :: "AssertData \<Rightarrow> assertType \<Rightarrow> bool \<Rightarrow> ContextState \<Rightarrow> ContextState" where
  "counted rb ty failed s =
     (if failed then addFailedAssert ty (emit (log_assert rb) (addAssert ty s))
      else emit (log_assert rb) (addAssert ty s))"

lemma RB_log_plain:
  assumes "\<not> has_flag (ad_at rb) is_throws" "\<not> has_flag (ad_at rb) is_throws_as"
    "\<not> has_flag (ad_at rb) is_throws_with" "\<not> has_flag (ad_at rb) is_nothrow" "ad_exception rb = []"
  shows "RB_log True debugger rb s =
    Some (ad_failed rb \<and> may_break debugger (counted rb (ad_at rb) (ad_failed rb) s), rb,
      counted rb (ad_at rb) (ad_failed rb) s)"
  using assms by (simp add: RB_log_def RB_verdict_def Let_def counted_def)

lemma assert_in_tests_plain:
  assumes "\<not> has_flag ty is_throws" "\<not> has_flag ty is_throws_as"
    "\<not> has_flag ty is_throws_with" "\<not> has_flag ty is_nothrow"
  shows "\<exists>rb. assert_in_tests debugger ty file line expr failed decomp s =
    (if failed \<and> checkIfShouldThrow ty (counted rb ty failed s)
     then Throws (throwException (counted rb ty failed s)) else Continues (\<not> failed) (counted rb ty failed s))"
proof -
  let ?rb = "(new_AssertData (opt_currentTest (cs_opt s)) ty file line expr '''' (SC_string ''''))
            \<lparr>ad_failed := failed\<rparr>"
  let ?rb2 = "if failed \<or> opt_success (cs_opt s) then ?rb\<lparr>ad_decomp := decomp\<rparr> else ?rb"
  have f: "ad_at ?rb2 = ty" "ad_exception ?rb2 = []" "ad_failed ?rb2 = failed"
    by (simp_all add: new_AssertData_def)
  have "assert_in_tests debugger ty file line expr failed decomp s =
    (if failed \<and> checkIfShouldThrow ty (counted ?rb2 ty failed s)
     then Throws (throwException (counted ?rb2 ty failed s)) else Continues (\<not> failed) (counted ?rb2 ty failed s))"
    using RB_log_plain [of ?rb2 debugger s] assms unfolding assert_in_tests_def Let_def f by simp
  then show ?thesis by blast
qed

lemma throwException_fields [simp]:
  "cs_opt (throwException s) = cs_opt s" "cs_run (throwException s) = cs_run s"
  "numAssertsCurrentTest_atomic (throwException s) = numAssertsCurrentTest_atomic s"
  "numAssertsFailedCurrentTest_atomic (throwException s) = numAssertsFailedCurrentTest_atomic s"
  by (simp_all add: throwException_def)

lemma counted_fields:
  assumes "length (numAssertsCurrentTest_atomic s) = THREAD_LANES"
    "length (numAssertsFailedCurrentTest_atomic s) = THREAD_LANES" "cs_lane s < THREAD_LANES"
  shows "lanes_load (numAssertsCurrentTest_atomic (counted rb (DT l k) failed s)) =
      (if l = WARN then lanes_load (numAssertsCurrentTest_atomic s)
       else c_int (lanes_load (numAssertsCurrentTest_atomic s) + 1))"
    "lanes_load (numAssertsFailedCurrentTest_atomic (counted rb (DT l k) failed s)) =
      (if l = WARN \<or> \<not> failed then lanes_load (numAssertsFailedCurrentTest_atomic s)
       else c_int (lanes_load (numAssertsFailedCurrentTest_atomic s) + 1))"
    "cs_opt (counted rb (DT l k) failed s) = cs_opt s" "cs_run (counted rb (DT l k) failed s) = cs_run s"
proof -
  have up: "lanes_load (snd (lanes_post_increment (cs_lane s) m)) = c_int (lanes_load m + 1)"
    if "length m = THREAD_LANES" for m
    using lanes_load_update [of "cs_lane s" m 1] assms(3) that
    by (simp add: lanes_post_increment_def lanes_fetch_add_def)
  show "lanes_load (numAssertsCurrentTest_atomic (counted rb (DT l k) failed s)) =
      (if l = WARN then lanes_load (numAssertsCurrentTest_atomic s)
       else c_int (lanes_load (numAssertsCurrentTest_atomic s) + 1))"
    using up [OF assms(1)] by (simp add: counted_def addAssert_def addFailedAssert_def level_flags)
  show "lanes_load (numAssertsFailedCurrentTest_atomic (counted rb (DT l k) failed s)) =
      (if l = WARN \<or> \<not> failed then lanes_load (numAssertsFailedCurrentTest_atomic s)
       else c_int (lanes_load (numAssertsFailedCurrentTest_atomic s) + 1))"
    using up [OF assms(2)] by (simp add: counted_def addAssert_def addFailedAssert_def level_flags)
qed (simp_all add: counted_def addAssert_def addFailedAssert_def)

text \<open>
  An assertion on a value that runs inside of a test: warnings are never counted and never
  throw; every other one adds one to the assertions and, if it failed, one to the failures; a
  failed requirement always throws and a failed check throws exactly when the failures, this one
  included, reach the limit of \<open>abort_after\<close>.
\<close>

theorem assertion_levels:
  assumes "k \<in> {PLAIN, FALSE, EQ, NE, GT, LT, GE, LE, UNARY, UNARY_FALSE}"
    "length (numAssertsCurrentTest_atomic s) = THREAD_LANES"
    "length (numAssertsFailedCurrentTest_atomic s) = THREAD_LANES" "cs_lane s < THREAD_LANES"
  shows "\<exists>s'. outcome_state (run_assert True debugger (DT l k) file line expr failed decomp s) = Some s' \<and>
    lanes_load (numAssertsCurrentTest_atomic s') =
      (if l = WARN then lanes_load (numAssertsCurrentTest_atomic s)
       else c_int (lanes_load (numAssertsCurrentTest_atomic s) + 1)) \<and>
    lanes_load (numAssertsFailedCurrentTest_atomic s') =
      (if l = WARN \<or> \<not> failed then lanes_load (numAssertsFailedCurrentTest_atomic s)
       else c_int (lanes_load (numAssertsFailedCurrentTest_atomic s) + 1)) \<and>
    (run_assert True debugger (DT l k) file line expr failed decomp s = Throws s' \<longleftrightarrow>
      failed \<and> (l = REQUIRE \<or> (l = CHECK \<and> opt_abort_after (cs_opt s) > 0 \<and>
        c_int (numAssertsFailed (cs_run s) + lanes_load (numAssertsFailedCurrentTest_atomic s'))
          \<ge> opt_abort_after (cs_opt s))))"
proof -
  obtain rb where rb: "run_assert True debugger (DT l k) file line expr failed decomp s =
    (if failed \<and> checkIfShouldThrow (DT l k) (counted rb (DT l k) failed s)
     then Throws (throwException (counted rb (DT l k) failed s))
     else Continues (\<not> failed) (counted rb (DT l k) failed s))"
    using assert_in_tests_plain [of "DT l k" debugger "file" line expr failed decomp s]
      plain_flags [OF assms(1), of l] by (auto simp: run_assert_def)
  let ?c = "counted rb (DT l k) failed s"
  let ?s = "if failed \<and> checkIfShouldThrow (DT l k) ?c then throwException ?c else ?c"
  show ?thesis
    by (rule exI [of _ ?s]) (simp add: rb counted_fields [OF assms(2-4)] checkIfShouldThrow_def level_flags)
qed

theorem assertion_levels_witness:
  "\<exists>s'. run_assert True False (DT REQUIRE EQ) ''f.cpp'' 3 ''1 == 2'' True ''1, 2'' new_ContextState = Throws s'
     \<and> lanes_load (numAssertsFailedCurrentTest_atomic s') = 1"
proof -
  have "lanes_load (numAssertsFailedCurrentTest_atomic new_ContextState) = 0"
    by (simp add: new_ContextState_def new_lanes_def lanes_load_eq sum_list_replicate)
  then show ?thesis
    using assertion_levels [of EQ new_ContextState False REQUIRE "''f.cpp''" 3 "''1 == 2''" True "''1, 2''"]
    by (auto simp: new_ContextState_def new_lanes_def THREAD_LANES_def)
qed

text \<open>A handler that is constructed and reset leaves the handling of signals as it was.\<close>

lemma handler_round:
  "sig_actions (FatalConditionHandler_reset (new_FatalConditionHandler mem f)) = sig_actions f"
  "alt_stack (FatalConditionHandler_reset (new_FatalConditionHandler mem f)) = alt_stack f"
  by (simp_all add: FatalConditionHandler_reset_def new_FatalConditionHandler_def signalDefs_def fun_eq_iff)

text \<open>
  Round trip of the signal handlers: after a handler was constructed, with none set before,
  resetting it gives every signal and the alternative stack their previous dispositions back.
\<close>

theorem signal_handlers_restored:
  "sig_actions (FatalConditionHandler_reset (new_FatalConditionHandler mem f)) = sig_actions f \<and>
   alt_stack (FatalConditionHandler_reset (new_FatalConditionHandler mem f)) = alt_stack f"
  by (simp add: handler_round)

end
