(* ===== verification/Doctest_Subcase.thy ===== *)
theory Doctest_Subcase
  imports Doctest_Assert
begin

text \<open>
  Subcases of \<^verbatim>\<open>src/Utils/doctest.h\<close>: the constructor and destructor of \<open>Subcase\<close>, which decide by
  the shared state of the run whether a subcase is entered, and which one the next pass of the test
  case goes to. A test body is a tree of subcases; one pass runs one leaf of it.
\<close>

section \<open>Entering and leaving\<close>

text \<open>\<open>size_t(subcase_filter_levels)\<close> of a negative level is above every size.\<close>

definition checkFilters :: "SubcaseSignature \<Rightarrow> ContextState \<Rightarrow> bool" where
  "checkFilters sig s =
     (if opt_subcase_filter_levels (cs_opt s) < 0 \<or>
         length (subcaseStack s) < nat (opt_subcase_filter_levels (cs_opt s))
      then \<not> matchesAny (sig_name sig) (cs_filters s ! 6) True (opt_case_sensitive (cs_opt s)) \<or>
        matchesAny (sig_name sig) (cs_filters s ! 7) False (opt_case_sensitive (cs_opt s))
      else False)"

definition new_Subcase :: "SubcaseSignature \<Rightarrow> ContextState \<Rightarrow> (bool \<times> ContextState) result" where
  "new_Subcase sig s =
     (if \<not> reachedLeaf s then
        (if length (nextSubcaseStack s) \<le> length (subcaseStack s) \<or>
            SubcaseSignature_eq (nextSubcaseStack s ! length (subcaseStack s)) sig
         then
           (if checkFilters sig s then Inr (False, s)
            else Inr (True, emit (subcase_start sig)
              (s\<lparr>subcaseStack := subcaseStack s @ [sig], currentSubcaseDepth := currentSubcaseDepth s + 1\<rparr>)))
         else Inr (False, s))
      else if currentSubcaseDepth s \<ge> length (subcaseStack s) then Inl OutOfRange
      else if SubcaseSignature_eq (subcaseStack s ! currentSubcaseDepth s) sig then
        Inr (True, emit (subcase_start sig) (s\<lparr>currentSubcaseDepth := currentSubcaseDepth s + 1\<rparr>))
      else if length (nextSubcaseStack s) \<le> currentSubcaseDepth s \<and>
          hash_pair (hash_stack_count (subcaseStack s) (currentSubcaseDepth s)) (hash_SubcaseSignature sig)
            \<notin> set (fullyTraversedSubcases s)
      then
        (if checkFilters sig s then Inr (False, s)
         else Inr (False, s\<lparr>nextSubcaseStack := take (currentSubcaseDepth s) (subcaseStack s) @ [sig]\<rparr>))
      else Inr (False, s))"

definition late_exception :: event where
  "late_exception = test_case_exception \<lparr>error_string =
     ''exception thrown in subcase - will translate later '' @
     ''when the whole test case has been exited (cannot '' @
     ''translate while there is an active exception)'', is_crash = False\<rparr>"

definition destroy_Subcase :: "bool \<Rightarrow> bool \<Rightarrow> ContextState \<Rightarrow> ContextState" where
  "destroy_Subcase uncaught_exceptions entered s =
     (if entered then
        (let s = s\<lparr>currentSubcaseDepth := currentSubcaseDepth s - 1\<rparr>;
             s = (if \<not> reachedLeaf s then
                s\<lparr>fullyTraversedSubcases := hash_stack (subcaseStack s) # fullyTraversedSubcases s,
                  nextSubcaseStack := [], reachedLeaf := True\<rparr>
               else if nextSubcaseStack s = [] then
                s\<lparr>fullyTraversedSubcases := hash_stack (subcaseStack s) # fullyTraversedSubcases s\<rparr>
               else s);
             s = (if uncaught_exceptions \<and> shouldLogCurrentException s
               then (emit late_exception s)\<lparr>shouldLogCurrentException := False\<rparr> else s) in
         emit subcase_end s)
      else s)"

section \<open>Bodies made of subcases\<close>

datatype body = Body "(SubcaseSignature \<times> body) list"

fun run_body :: "body \<Rightarrow> ContextState \<Rightarrow> ContextState result"
  and run_subcases :: "(SubcaseSignature \<times> body) list \<Rightarrow> ContextState \<Rightarrow> ContextState result"
  and run_subcase :: "SubcaseSignature \<times> body \<Rightarrow> ContextState \<Rightarrow> ContextState result" where
  "run_body (Body subs) s = run_subcases subs s"
| "run_subcases [] s = Inr s"
| "run_subcases (sub # subs) s = bindR (run_subcase sub s) (run_subcases subs)"
| "run_subcase (sig, b) s =
     bindR (new_Subcase sig s) (\<lambda>(entered, s).
     bindR (if entered then run_body b s else Inr s) (\<lambda>s. Inr (destroy_Subcase False entered s)))"

text \<open>The state before the body runs in a round of the loop in \<open>Context::run\<close>.\<close>

definition start_pass :: "ContextState \<Rightarrow> ContextState" where
  "start_pass s = s\<lparr>reachedLeaf := False, subcaseStack := [], currentSubcaseDepth := 0,
     shouldLogCurrentException := True, stringifiedContexts := []\<rparr>"

section \<open>The reference\<close>

text \<open>The paths to the leaves of a tree, in the order of the program text.\<close>

fun leaf_paths :: "(SubcaseSignature \<times> body) list \<Rightarrow> SubcaseSignature list list" where
  "leaf_paths [] = []"
| "leaf_paths ((sig, Body subs) # rest) =
     (if subs = [] then [[sig]] else List.map ((#) sig) (leaf_paths subs)) @ leaf_paths rest"

text \<open>What the reporters are told in a pass that runs the leaf at a path: it is entered from the top and left.\<close>

definition pass_events :: "SubcaseSignature list \<Rightarrow> event list" where
  "pass_events path = List.map subcase_start path @ replicate (length path) subcase_end"

text \<open>All paths to nodes.\<close>

fun node_paths :: "(SubcaseSignature \<times> body) list \<Rightarrow> SubcaseSignature list list" where
  "node_paths [] = []"
| "node_paths ((sig, Body subs) # rest) =
     ([sig] # List.map ((#) sig) (node_paths subs)) @ node_paths rest"

text \<open>Siblings are told apart by their signatures.\<close>

fun distinct_siblings :: "(SubcaseSignature \<times> body) list \<Rightarrow> bool" where
  "distinct_siblings [] = True"
| "distinct_siblings ((sig, Body subs) # rest) \<longleftrightarrow>
     sig \<notin> fst ` set rest \<and> distinct_siblings subs \<and> distinct_siblings rest"

section \<open>One pass, abstractly\<close>

text \<open>
  From the path of the node a pass is to go to: the leaf it runs, and the path of the node the next
  pass goes to, which is empty after the last leaf.
\<close>

type_synonym path = "SubcaseSignature list"
type_synonym forest = "(SubcaseSignature \<times> body) list"

fun sibling :: "forest \<Rightarrow> path" where
  "sibling [] = []"
| "sibling ((sig, b) # rest) = [sig]"

fun visit :: "forest \<Rightarrow> path \<Rightarrow> path \<times> path" where
  "visit [] p = ([], [])"
| "visit ((sig, Body subs) # rest) p =
     (if p = [] \<or> hd p = sig
      then (let (l, n) = visit subs (tl p) in (sig # l, if n \<noteq> [] then sig # n else sibling rest))
      else visit rest p)"

fun from_path :: "forest \<Rightarrow> path \<Rightarrow> path list" where
  "from_path [] p = []"
| "from_path ((sig, Body subs) # rest) p =
     (if p = [] \<or> hd p = sig
      then (if subs = [] then [[sig]] else List.map ((#) sig) (from_path subs (tl p))) @ leaf_paths rest
      else from_path rest p)"

definition valid :: "forest \<Rightarrow> path \<Rightarrow> bool" where
  "valid bs p \<longleftrightarrow> p = [] \<or> p \<in> set (node_paths bs)"

lemma node_paths_nonempty: "p \<in> set (node_paths bs) \<Longrightarrow> p \<noteq> []"
  by (induction bs rule: node_paths.induct) auto

lemma from_path_Nil [simp]: "from_path bs [] = leaf_paths bs"
  by (induction bs rule: leaf_paths.induct) auto

lemma leaf_paths_eq_Nil [simp]: "leaf_paths bs = [] \<longleftrightarrow> bs = []"
  by (induction bs rule: leaf_paths.induct) auto

lemma leaf_is_node: "p \<in> set (leaf_paths bs) \<Longrightarrow> p \<in> set (node_paths bs)"
  by (induction bs arbitrary: p rule: leaf_paths.induct) (auto split: if_splits)

lemma node_path_head: "p \<in> set (node_paths bs) \<Longrightarrow> hd p \<in> fst ` set bs"
  by (induction bs arbitrary: p rule: node_paths.induct) auto

lemma valid_Cons:
  assumes "valid ((sig, Body subs) # rest) p" "sig \<notin> fst ` set rest"
  shows "p = [] \<or> hd p = sig \<Longrightarrow> valid subs (tl p)" "\<not> (p = [] \<or> hd p = sig) \<Longrightarrow> p \<in> set (node_paths rest)"
  using assms node_path_head [of p rest] by (cases p; auto simp: valid_def)+

lemma sibling_node: "sibling bs \<noteq> [] \<Longrightarrow> sibling bs \<in> set (node_paths bs)"
  by (cases bs rule: node_paths.cases) auto

lemma from_path_sibling: "distinct_siblings bs \<Longrightarrow> from_path bs (sibling bs) = leaf_paths bs"
  by (cases bs rule: node_paths.cases) auto

lemma visit_from_path:
  assumes "distinct_siblings bs" "bs \<noteq> []" "valid bs p" "visit bs p = (l, n)"
  shows "from_path bs p = l # (if n = [] then [] else from_path bs n) \<and> l \<noteq> [] \<and>
    (n \<noteq> [] \<longrightarrow> n \<in> set (node_paths bs)) \<and> (p \<in> set (leaf_paths bs) \<longrightarrow> l = p)"
  using assms
proof (induction bs arbitrary: p l n rule: node_paths.induct)
  case (2 sig subs rest)
  note vc = valid_Cons [OF "2.prems"(3)]
  have d: "sig \<notin> fst ` set rest" "distinct_siblings subs" "distinct_siblings rest"
    using "2.prems"(1) by auto
  have sib: "sibling rest \<noteq> [] \<Longrightarrow> hd (sibling rest) \<noteq> sig"
    using sibling_node [of rest] node_path_head [of "sibling rest" rest] d(1) by auto
  have nil: "sibling rest = [] \<longleftrightarrow> rest = []" by (cases rest rule: sibling.cases) auto
  have S: "(if sibling rest = [] then [] else from_path ((sig, Body subs) # rest) (sibling rest)) = leaf_paths rest"
    using sib nil from_path_sibling [OF d(3)] by auto
  have N: "sibling rest \<noteq> [] \<longrightarrow> sibling rest \<in> set (node_paths ((sig, Body subs) # rest))"
    using sibling_node [of rest] by auto
  show ?case
  proof (cases "p = [] \<or> hd p = sig")
    case here: True
    obtain l' n' where v: "visit subs (tl p) = (l', n')" by (cases "visit subs (tl p)")
    have notrest: "p \<notin> set (leaf_paths rest)"
      using here d(1) node_path_head [of p rest] leaf_is_node [of p rest] node_paths_nonempty [of p rest] by auto
    from v have l: "l = sig # l'" and n: "n = (if n' \<noteq> [] then sig # n' else sibling rest)"
      using "2.prems"(4) here by auto
    show ?thesis
    proof (cases "subs = []")
      case True
      then have ln: "l = [sig]" "n = sibling rest" using v l n by auto
      have fp: "from_path ((sig, Body subs) # rest) p = [sig] # leaf_paths rest" using here True by auto
      have "p \<in> set (leaf_paths ((sig, Body subs) # rest)) \<longrightarrow> p = [sig]"
        using True notrest by auto
      then show ?thesis unfolding fp ln S
        using N by (simp del: leaf_paths.simps node_paths.simps)
    next
      case False
      have IH: "from_path subs (tl p) = l' # (if n' = [] then [] else from_path subs n') \<and> l' \<noteq> [] \<and>
          (n' \<noteq> [] \<longrightarrow> n' \<in> set (node_paths subs)) \<and> (tl p \<in> set (leaf_paths subs) \<longrightarrow> l' = tl p)"
        using "2.IH"(1) [OF d(2) False _ v] vc(1) [OF d(1) here] by blast
      have "p \<in> set (leaf_paths ((sig, Body subs) # rest)) \<longrightarrow> l = p"
      proof
        assume "p \<in> set (leaf_paths ((sig, Body subs) # rest))"
        then have "p \<in> (#) sig ` set (leaf_paths subs)" using False notrest by auto
        then show "l = p" using IH l by auto
      qed
      then show ?thesis
      proof (cases "n' = []")
        case True
        then have "from_path ((sig, Body subs) # rest) p = l # leaf_paths rest"
          using here False IH l by auto
        moreover have "n = sibling rest" using True n by simp
        ultimately show ?thesis using l N S nil \<open>p \<in> _ \<longrightarrow> l = p\<close>
          by (auto simp del: leaf_paths.simps node_paths.simps from_path.simps)
      next
        case n': False
        have "from_path ((sig, Body subs) # rest) p =
            List.map ((#) sig) (l' # from_path subs n') @ leaf_paths rest"
          using here False IH n' by auto
        then show ?thesis using False n' n l IH \<open>p \<in> _ \<longrightarrow> l = p\<close> by simp
      qed
    qed
  next
    case False
    then have p: "p \<in> set (node_paths rest)" by (rule vc(2) [OF d(1)])
    then have "rest \<noteq> []" "valid rest p" by (auto simp: valid_def)
    then have "from_path rest p = l # (if n = [] then [] else from_path rest n) \<and> l \<noteq> [] \<and>
        (n \<noteq> [] \<longrightarrow> n \<in> set (node_paths rest)) \<and> (p \<in> set (leaf_paths rest) \<longrightarrow> l = p)"
      using "2.IH"(2) [OF d(3)] "2.prems"(4) False by simp
    moreover have "hd n \<noteq> sig" if "n \<noteq> []" "n \<in> set (node_paths rest)"
      using that node_path_head [of n rest] d(1) by auto
    moreover have "p \<in> set (leaf_paths ((sig, Body subs) # rest)) \<longrightarrow> p \<in> set (leaf_paths rest)"
      using False by auto
    ultimately show ?thesis using False by auto
  qed
qed simp

section \<open>One pass, on the state\<close>

definition sig_ok :: "SubcaseSignature \<Rightarrow> bool" where
  "sig_ok sig \<longleftrightarrow> NUL \<notin> set (sig_file sig) \<and> NUL \<notin> set (sig_name sig)"

definition no_filters :: "ContextState \<Rightarrow> bool" where
  "no_filters s \<longleftrightarrow> cs_filters s ! 6 = [] \<and> cs_filters s ! 7 = []"

text \<open>The part of the state that subcases use, and what a run over it does.\<close>

definition sub_view :: "ContextState \<Rightarrow> bool \<times> path \<times> path \<times> 64 word set \<times> nat" where
  "sub_view s = (reachedLeaf s, subcaseStack s, nextSubcaseStack s, set (fullyTraversedSubcases s),
     currentSubcaseDepth s)"

lemma sub_view_emit [simp]: "sub_view (emit e s) = sub_view s" "no_filters (emit e s) = no_filters s"
  by (simp_all add: sub_view_def emit_def no_filters_def)

lemma signature_eq: "sig_ok a \<Longrightarrow> sig_ok b \<Longrightarrow> SubcaseSignature_eq a b \<longleftrightarrow> a = b"
  by (cases a; cases b) (auto simp: SubcaseSignature_eq_def sig_ok_def strcmp_eq_0_iff)

lemma checkFilters_none: "no_filters s \<Longrightarrow> \<not> checkFilters sig s"
  by (simp add: no_filters_def checkFilters_def matchesAny_def)

lemma hash_snoc: "hash_pair (hash_stack p) (hash_SubcaseSignature sig) = hash_stack (p @ [sig])"
  by (simp add: hash_stack_def)

text \<open>Going down: a subcase is entered unless the next pass is for another one at its depth.\<close>

lemma descend_enter:
  assumes "sub_view s = (False, S, N, T, d)" "no_filters s" "sig_ok sig"
    "length N \<le> length S \<or> N ! length S = sig"
  shows "\<exists>s'. new_Subcase sig s = Inr (True, s') \<and> sub_view s' = (False, S @ [sig], N, T, d + 1) \<and> no_filters s' \<and>
    cs_log s' = cs_log s @ [subcase_start sig]"
  using assms signature_eq [OF assms(3,3)]
  by (auto simp: new_Subcase_def sub_view_def checkFilters_none emit_def no_filters_def)

lemma descend_skip:
  assumes "sub_view s = (False, S, N, T, d)" "sig_ok sig" "sig_ok (N ! length S)"
    "length S < length N" "N ! length S \<noteq> sig"
  shows "new_Subcase sig s = Inr (False, s)"
  using assms signature_eq [OF assms(3,2)] by (auto simp: new_Subcase_def sub_view_def)

text \<open>After the leaf: the first subcase that follows becomes the next one, the others are passed by.\<close>

lemma after_leaf:
  assumes "sub_view s = (True, S, N, T, d)" "no_filters s" "d < length S" "sig_ok (S ! d)"
    "\<forall>sig \<in> fst ` set bs. sig_ok sig \<and> sig \<noteq> S ! d" "N = [] \<or> d < length N"
    "N = [] \<Longrightarrow> bs \<noteq> [] \<Longrightarrow> hash_stack (take d S @ sibling bs) \<notin> T"
  shows "\<exists>s'. run_subcases bs s = Inr s' \<and> no_filters s' \<and> cs_log s' = cs_log s \<and>
     sub_view s' = (True, S, if N = [] \<and> bs \<noteq> [] then take d S @ sibling bs else N, T, d)"
  using assms
proof (induction bs arbitrary: s N)
  case (Cons sb rest)
  obtain sig b where sb: "sb = (sig, b)" by (cases sb)
  have neq: "\<not> SubcaseSignature_eq (S ! d) sig"
    using signature_eq [of "S ! d" sig] sb Cons.prems(4,5) by auto
  have v: "reachedLeaf s" "subcaseStack s = S" "nextSubcaseStack s = N"
    "set (fullyTraversedSubcases s) = T" "currentSubcaseDepth s = d"
    using Cons.prems(1) by (auto simp: sub_view_def)
  show ?case
  proof (cases "N = []")
    case True
    let ?s = "s\<lparr>nextSubcaseStack := take d S @ [sig]\<rparr>"
    have "hash_pair (hash_stack_count S d) (hash_SubcaseSignature sig) \<notin> T"
      using Cons.prems(7) True sb by (simp add: hash_stack_count_def hash_snoc)
    then have "run_subcase (sig, b) s = Inr ?s"
      using v neq True Cons.prems(2,3) by (simp add: new_Subcase_def checkFilters_none destroy_Subcase_def)
    moreover have "\<exists>s'. run_subcases rest ?s = Inr s' \<and> no_filters s' \<and> cs_log s' = cs_log ?s \<and>
        sub_view s' = (True, S, if take d S @ [sig] = [] \<and> rest \<noteq> [] then take d S @ sibling rest
          else take d S @ [sig], T, d)"
      by (rule Cons.IH [of ?s "take d S @ [sig]"])
        (use v Cons.prems sb in \<open>auto simp: sub_view_def no_filters_def\<close>)
    ultimately show ?thesis using True sb by simp
  next
    case False
    then have "run_subcase (sig, b) s = Inr s"
      using v neq Cons.prems(3,6) by (simp add: new_Subcase_def destroy_Subcase_def)
    moreover have "\<exists>s'. run_subcases rest s = Inr s' \<and> no_filters s' \<and> cs_log s' = cs_log s \<and>
        sub_view s' = (True, S, if N = [] \<and> rest \<noteq> [] then take d S @ sibling rest else N, T, d)"
      by (rule Cons.IH [of s N]) (use Cons.prems False sb in auto)
    ultimately show ?thesis using False sb by simp
  qed
qed simp

lemma destroy_leaf:
  assumes "sub_view s = (False, S, N, T, Suc d)" "no_filters s"
  shows "sub_view (destroy_Subcase False True s) = (True, S, [], insert (hash_stack S) T, d)"
    "no_filters (destroy_Subcase False True s)" "cs_log (destroy_Subcase False True s) = cs_log s @ [subcase_end]"
  using assms by (auto simp: destroy_Subcase_def Let_def sub_view_def emit_def no_filters_def)

lemma destroy_inner:
  assumes "sub_view s = (True, S, N, T, Suc d)" "hash_stack S \<in> T" "no_filters s"
  shows "sub_view (destroy_Subcase False True s) = (True, S, N, T, d)"
    "no_filters (destroy_Subcase False True s)" "cs_log (destroy_Subcase False True s) = cs_log s @ [subcase_end]"
  using assms by (auto simp: destroy_Subcase_def Let_def sub_view_def emit_def no_filters_def)

lemma destroy_not_entered [simp]: "destroy_Subcase u False s = s"
  by (simp add: destroy_Subcase_def)

lemma sibling_path: "(x, b) \<in> set bs \<Longrightarrow> [x] \<in> set (node_paths bs)"
  by (induction bs rule: node_paths.induct) auto

text \<open>A pass runs the leaf that \<open>visit\<close> gives, and leaves the next path to go to.\<close>

lemma pass_simulates:
  assumes "sub_view s = (False, S, N, T, length S)" "no_filters s" "bs \<noteq> []" "distinct_siblings bs"
    "\<forall>q \<in> set (node_paths bs). \<forall>x \<in> set q. sig_ok x"
    "(p = [] \<and> length N \<le> length S) \<or> (p \<in> set (node_paths bs) \<and> N = S @ p)"
    "visit bs p = (l, n)" "n \<noteq> [] \<Longrightarrow> hash_stack (S @ n) \<notin> insert (hash_stack (S @ l)) T"
  shows "\<exists>s'. run_subcases bs s = Inr s' \<and> no_filters s' \<and> cs_log s' = cs_log s @ pass_events l \<and>
    sub_view s' = (True, S @ l, if n = [] then [] else S @ n, insert (hash_stack (S @ l)) T, length S)"
  using assms
proof (induction bs arbitrary: s S N p l n rule: node_paths.induct)
  case (2 sig subs rest)
  note prems = "2.prems"
  have d: "sig \<notin> fst ` set rest" "distinct_siblings subs" "distinct_siblings rest" using prems(4) by auto
  have sig: "sig_ok sig" and subs_ok: "\<forall>q \<in> set (node_paths subs). \<forall>x \<in> set q. sig_ok x"
    and rest_ok: "\<forall>q \<in> set (node_paths rest). \<forall>x \<in> set q. sig_ok x"
    using prems(5) by (auto simp: ball_Un)
  have valid: "valid ((sig, Body subs) # rest) p" using prems(6) by (auto simp: valid_def)
  show ?case
  proof (cases "p = [] \<or> hd p = sig")
    case here: True
    obtain l' n' where v: "visit subs (tl p) = (l', n')" by (cases "visit subs (tl p)")
    then have l: "l = sig # l'" and n: "n = (if n' \<noteq> [] then sig # n' else sibling rest)"
      using prems(7) here by auto
    have N: "length N \<le> length S \<or> N ! length S = sig"
      using prems(6) here node_paths_nonempty [of p] by (cases p) (auto simp: nth_append)
    obtain s1 where s1: "new_Subcase sig s = Inr (True, s1)"
      "sub_view s1 = (False, S @ [sig], N, T, length (S @ [sig]))" "no_filters s1"
      "cs_log s1 = cs_log s @ [subcase_start sig]"
      using descend_enter [OF prems(1,2) sig N] by auto
    let ?T = "insert (hash_stack (S @ l)) T" and ?N = "if n' = [] then [] else S @ sig # n'"
    have "\<exists>s2. run_subcase (sig, Body subs) s = Inr s2 \<and> no_filters s2 \<and> cs_log s2 = cs_log s @ pass_events l \<and>
        sub_view s2 = (True, S @ l, ?N, ?T, length S)"
    proof (cases "subs = []")
      case True
      then have "l' = []" "n' = []" using v by auto
      then show ?thesis
        using destroy_leaf [of s1 "S @ [sig]" N T "length S"] s1 True l by (simp add: pass_events_def)
    next
      case False
      have p': "(tl p = [] \<and> length N \<le> length (S @ [sig])) \<or>
          (tl p \<in> set (node_paths subs) \<and> N = (S @ [sig]) @ tl p)"
        using prems(6) here valid_Cons(1) [OF valid d(1) here] by (cases p) (auto simp: valid_def)
      have n'': "n' \<noteq> [] \<Longrightarrow> hash_stack ((S @ [sig]) @ n') \<notin> insert (hash_stack ((S @ [sig]) @ l')) T"
        using prems(8) l n by auto
      obtain s2 where s2: "run_subcases subs s1 = Inr s2" "no_filters s2" "cs_log s2 = cs_log s1 @ pass_events l'"
        "sub_view s2 = (True, (S @ [sig]) @ l', if n' = [] then [] else (S @ [sig]) @ n',
           insert (hash_stack ((S @ [sig]) @ l')) T, length (S @ [sig]))"
        using "2.IH"(1) [OF s1(2,3) False d(2) subs_ok p' v n''] by blast
      have "run_subcase (sig, Body subs) s = Inr (destroy_Subcase False True s2)" using s1(1) s2(1) by simp
      moreover have "sub_view (destroy_Subcase False True s2) = (True, S @ l, ?N, ?T, length S)"
        "no_filters (destroy_Subcase False True s2)"
        using destroy_inner [of s2 "S @ l" ?N ?T "length S"] s2(2,4) l by (auto split: if_splits)
      moreover have "cs_log (destroy_Subcase False True s2) = cs_log s @ pass_events l"
        using destroy_inner(3) [of s2 "S @ l" ?N ?T "length S"] s2(2-4) s1(4) l
        by (auto simp: pass_events_def replicate_append_same split: if_splits)
      ultimately show ?thesis by blast
    qed
    then obtain s2 where s2: "run_subcase (sig, Body subs) s = Inr s2" "no_filters s2" "cs_log s2 = cs_log s @ pass_events l"
      "sub_view s2 = (True, S @ l, ?N, ?T, length S)" by blast
    have top: "(S @ l) ! length S = sig" "length S < length (S @ l)" "take (length S) (S @ l) = S"
      using l by simp_all
    have others: "\<forall>x \<in> fst ` set rest. sig_ok x \<and> x \<noteq> (S @ l) ! length S"
    proof
      fix x assume "x \<in> fst ` set rest"
      then have x: "x \<noteq> sig" using d(1) by blast
      from \<open>x \<in> _\<close> obtain b where "(x, b) \<in> set rest" by auto
      then have "[x] \<in> set (node_paths rest)" by (rule sibling_path)
      then have "sig_ok x" by (rule rest_ok [rule_format]) simp
      with x top(1) show "sig_ok x \<and> x \<noteq> (S @ l) ! length S" by simp
    qed
    obtain s3 where s3: "run_subcases rest s2 = Inr s3" "no_filters s3" "cs_log s3 = cs_log s @ pass_events l"
      "sub_view s3 = (True, S @ l, if ?N = [] \<and> rest \<noteq> [] then take (length S) (S @ l) @ sibling rest else ?N,
         ?T, length S)"
    proof -
      have nextl: "?N = [] \<or> length S < length ?N" by simp
      have unseen: "hash_stack (take (length S) (S @ l) @ sibling rest) \<notin> ?T" if "?N = []" "rest \<noteq> []"
      proof -
        have "n' = []" using that(1) by (auto split: if_splits)
        moreover have "sibling rest \<noteq> []" using that(2) by (cases rest rule: sibling.cases) auto
        ultimately show ?thesis using prems(8) n top(3) by simp
      qed
      have "sig_ok ((S @ l) ! length S)" using sig top(1) by simp
      from after_leaf [OF s2(4,2) top(2) this others nextl unseen] that s2(3) show thesis by auto
    qed
    have "(if ?N = [] \<and> rest \<noteq> [] then S @ sibling rest else ?N) = (if n = [] then [] else S @ n)"
      using n by (cases rest rule: sibling.cases) auto
    with s3(4) top(3) have "sub_view s3 = (True, S @ l, if n = [] then [] else S @ n, ?T, length S)"
      by (simp only: refl)
    moreover have "run_subcases ((sig, Body subs) # rest) s = Inr s3" using s2(1) s3(1) by simp
    ultimately show ?thesis using s3(2,3) by blast
  next
    case False
    then have p: "p \<in> set (node_paths rest)" by (rule valid_Cons(2) [OF valid d(1)])
    then have "rest \<noteq> []" "p \<noteq> []" using node_paths_nonempty by auto
    have N: "N = S @ p" using prems(6) \<open>p \<noteq> []\<close> by blast
    have x: "N ! length S = hd p" "length S < length N" using N \<open>p \<noteq> []\<close> by (simp_all add: hd_conv_nth nth_append)
    have "sig_ok (hd p)" using rest_ok p \<open>p \<noteq> []\<close> by (meson list.set_sel(1))
    then have "new_Subcase sig s = Inr (False, s)"
      using descend_skip [OF prems(1) sig] x False by auto
    then have skip: "run_subcase (sig, Body subs) s = Inr s" by simp
    have "visit rest p = (l, n)" using prems(7) False by auto
    then have "\<exists>s'. run_subcases rest s = Inr s' \<and> no_filters s' \<and> cs_log s' = cs_log s @ pass_events l \<and>
        sub_view s' = (True, S @ l, if n = [] then [] else S @ n, insert (hash_stack (S @ l)) T, length S)"
      using "2.IH"(2) [OF prems(1,2) \<open>rest \<noteq> []\<close> d(3) rest_ok _ _ prems(8)] p N by blast
    with skip show ?thesis by simp
  qed
qed simp

section \<open>All passes\<close>

lemma start_pass_view:
  "sub_view (start_pass s) = (False, [], nextSubcaseStack s, set (fullyTraversedSubcases s), 0)"
  "no_filters (start_pass s) = no_filters s"
  by (simp_all add: sub_view_def start_pass_def no_filters_def)

lemma distinct_leaf_paths: "distinct_siblings bs \<Longrightarrow> distinct (leaf_paths bs)"
proof (induction bs rule: leaf_paths.induct)
  case (2 sig subs rest)
  have "p \<notin> set (leaf_paths rest)" if "p \<noteq> []" "hd p = sig" for p
    using that leaf_is_node [of p rest] node_path_head [of p rest] "2.prems" by auto
  then show ?case using 2 by (cases "subs = []") (auto simp: distinct_map)
qed simp

text \<open>
  What holds before a pass: the leaves run so far and those from the path the pass goes to are all
  leaves, and the set of traversed subcases is that of the hashes of the leaves run.
\<close>

definition before_pass :: "forest \<Rightarrow> path list \<Rightarrow> ContextState \<Rightarrow> bool" where
  "before_pass bs visited s \<longleftrightarrow> valid bs (nextSubcaseStack s) \<and> no_filters s \<and>
     set (fullyTraversedSubcases s) = hash_stack ` set visited \<and>
     visited @ from_path bs (nextSubcaseStack s) = leaf_paths bs"

lemma one_more_leaf:
  assumes bs: "bs \<noteq> []" "distinct_siblings bs" "\<forall>q \<in> set (node_paths bs). \<forall>x \<in> set q. sig_ok x"
    and inj: "inj_on hash_stack (set (node_paths bs))" and b: "before_pass bs visited s"
  obtains s' l where "run_body (Body bs) (start_pass s) = Inr s'" "cs_log s' = cs_log s @ pass_events l"
    "from_path bs (nextSubcaseStack s) = l # (if nextSubcaseStack s' = [] then [] else from_path bs (nextSubcaseStack s'))"
    "nextSubcaseStack s' \<noteq> [] \<Longrightarrow> before_pass bs (visited @ [l]) s'"
proof -
  let ?p = "nextSubcaseStack s"
  from b have s: "valid bs ?p" "no_filters s" "set (fullyTraversedSubcases s) = hash_stack ` set visited"
    "visited @ from_path bs ?p = leaf_paths bs" by (simp_all add: before_pass_def)
  obtain l n where v: "visit bs ?p = (l, n)" by (cases "visit bs ?p")
  have fp: "from_path bs ?p = l # (if n = [] then [] else from_path bs n)" and "l \<noteq> []"
    and node: "n \<noteq> [] \<Longrightarrow> n \<in> set (node_paths bs)"
    using visit_from_path [OF bs(2,1) s(1) v] by auto
  let ?T = "set (fullyTraversedSubcases s)"
  have unseen: "hash_stack ([] @ n) \<notin> insert (hash_stack ([] @ l)) ?T" if n: "n \<noteq> []"
  proof
    assume "hash_stack ([] @ n) \<in> insert (hash_stack ([] @ l)) ?T"
    then obtain q where q: "q \<in> set (visited @ [l])" "hash_stack n = hash_stack q" using s(3) by auto
    have leaf: "set (visited @ [l]) \<subseteq> set (leaf_paths bs)" using s(4) fp by (metis append.assoc
          append_Cons append_Nil set_append sup_ge1)
    then have "q \<in> set (node_paths bs)" using q(1) leaf_is_node by blast
    then have "n = q" using inj q(2) node [OF n] by (auto dest: inj_onD)
    then have "n \<in> set (leaf_paths bs)" using q(1) leaf by blast
    obtain l2 n2 where v2: "visit bs n = (l2, n2)" by (cases "visit bs n")
    have "n \<in> set (from_path bs n)"
      using visit_from_path [OF bs(2,1) _ v2] node [OF n] \<open>n \<in> set (leaf_paths bs)\<close> by (auto simp: valid_def)
    moreover have "distinct ((visited @ [l]) @ from_path bs n)"
      using distinct_leaf_paths [OF bs(2)] s(4) fp n by simp
    ultimately show False using q(1) \<open>n = q\<close> by auto
  qed
  have p: "(?p = [] \<and> length ?p \<le> length ([] :: path)) \<or> (?p \<in> set (node_paths bs) \<and> ?p = [] @ ?p)"
    using s(1) by (auto simp: valid_def)
  obtain s1 where s1: "run_subcases bs (start_pass s) = Inr s1" "no_filters s1" "cs_log s1 = cs_log s @ pass_events l"
    "sub_view s1 = (True, l, n, insert (hash_stack l) ?T, 0)"
    using pass_simulates [of "start_pass s" "[]" ?p ?T bs ?p l n, OF _ _ bs p v unseen]
      s(2) start_pass_view by (auto simp: start_pass_def split: if_splits)
  then have f: "nextSubcaseStack s1 = n" "set (fullyTraversedSubcases s1) = hash_stack ` set (visited @ [l])"
    using s(3) by (auto simp: sub_view_def)
  have "before_pass bs (visited @ [l]) s1" if "n \<noteq> []"
    using f s1(2) node [OF that] s(4) fp that by (simp add: before_pass_def valid_def)
  with that s1(1,3) fp f(1) show thesis by simp
qed

end
