(* ===== verification/Doctest_Run.thy ===== *)
theory Doctest_Run
  imports Doctest_Subcase
begin

text \<open>
  \<open>Context::run\<close> of \<^verbatim>\<open>src/Utils/doctest.h\<close>: choosing the output and the reporters, ordering the
  registered tests, filtering them, listing or running them, and the result. A test function is
  given by what a call of it does to the state of the run; the random numbers and the readings of
  the clock are parameters. The loop over the subcases of a test case may not end.
\<close>

section \<open>What a run depends on\<close>

text \<open>
  How the call of a test function ends: by returning, with a \<open>TestFailureException\<close>, with another
  exception, or by a signal.
\<close>

datatype finish = Returned ContextState | Failed ContextState | Threw exn ContextState | Signalled nat ContextState

text \<open>
  \<open>env_body k n\<close> is call number \<open>n\<close> of test function \<open>k\<close> while its test case runs; \<open>env_start\<close> and
  \<open>env_stop\<close> give the clock at the beginning and the end of a test case.
\<close>

record env =
  env_body :: "nat \<Rightarrow> nat \<Rightarrow> ContextState \<Rightarrow> finish result"
  env_translators :: "translator list"
  env_rand :: "32 word \<Rightarrow> nat \<Rightarrow> nat"
  env_rnd :: "double \<Rightarrow> double"
  env_start :: "nat \<Rightarrow> 64 word"
  env_stop :: "nat \<Rightarrow> 64 word"

section \<open>Reporters\<close>

text \<open>The registered reporters and the listeners: maps ordered by priority, then name.\<close>

type_synonym reporterMap = "((int \<times> string) \<times> nat) list"

definition reporter_key_less :: "(int \<times> string) \<times> nat \<Rightarrow> (int \<times> string) \<times> nat \<Rightarrow> bool" where
  "reporter_key_less a b \<longleftrightarrow>
     fst (fst a) < fst (fst b) \<or> (fst (fst a) = fst (fst b) \<and> strcmp (snd (fst a)) (snd (fst b)) < 0)"

definition registerReporterImpl ::
  "string \<Rightarrow> int \<Rightarrow> nat \<Rightarrow> bool \<Rightarrow> reporterMap \<times> reporterMap \<Rightarrow> reporterMap \<times> reporterMap" where
  "registerReporterImpl name priority c isReporter rl =
     (if isReporter then (set_insert reporter_key_less ((priority, name), c) (fst rl), snd rl)
      else (fst rl, set_insert reporter_key_less ((priority, name), c) (snd rl)))"

text \<open>The reporters in use: those a filter selects, with the listeners put in front one by one.\<close>

definition select_reporters :: "reporterMap \<times> reporterMap \<Rightarrow> ContextState \<Rightarrow> ContextState" where
  "select_reporters rl s =
     (let s = (if cs_filters s ! 8 = [] then s\<lparr>cs_filters := (cs_filters s)[8 := [''console'']]\<rparr> else s);
          chosen = filter (\<lambda>r. matchesAny (snd (fst r)) (cs_filters s ! 8) False (opt_case_sensitive (cs_opt s))) (fst rl);
          used = reporters_currently_used s @ List.map (\<lambda>r. snd (fst r)) chosen in
      s\<lparr>reporters_currently_used := foldl (\<lambda>used l. snd (fst l) # used) used (snd rl)\<rparr>)"

definition choose_cout :: "ContextState \<Rightarrow> ContextState" where
  "choose_cout s =
     (if opt_cout (cs_opt s) = Out_null
      then s\<lparr>cs_opt := (cs_opt s)\<lparr>opt_cout :=
          (if opt_quiet (cs_opt s) then Out_discard
           else if length (opt_out (cs_opt s)) \<noteq> 0 then Out_file (opt_out (cs_opt s))
           else Out_stdout)\<rparr>\<rparr>
      else s)"

section \<open>Order and selection\<close>

text \<open>The exchanges of the random order, downwards from the last index.\<close>

fun shuffle_tests :: "(nat \<Rightarrow> nat) \<Rightarrow> nat \<Rightarrow> nat \<Rightarrow> 'a list \<Rightarrow> 'a list" where
  "shuffle_tests rand k 0 xs = xs"
| "shuffle_tests rand k (Suc i) xs =
     (let j = rand k mod (Suc i + 1) in
      shuffle_tests rand (k + 1) i (xs[Suc i := xs ! j, j := xs ! Suc i]))"

definition order_tests :: "env \<Rightarrow> ContextOptions \<Rightarrow> TestCase list \<Rightarrow> TestCase list" where
  "order_tests E q tests =
     (if tests = [] then []
      else if stricmp (opt_order_by q) ''file'' = 0 then std_sort fileOrderComparator tests
      else if stricmp (opt_order_by q) ''suite'' = 0 then std_sort suiteOrderComparator tests
      else if stricmp (opt_order_by q) ''name'' = 0 then std_sort nameOrderComparator tests
      else if stricmp (opt_order_by q) ''rand'' = 0
      then shuffle_tests (env_rand E (opt_rand_seed q)) 0 (length tests - 1) tests
      else tests)"

definition query_mode :: "ContextOptions \<Rightarrow> bool" where
  "query_mode q \<longleftrightarrow> opt_count q \<or> opt_list_test_cases q \<or> opt_list_test_suites q"

definition filtered_out :: "ContextState \<Rightarrow> TestCase \<Rightarrow> bool" where
  "filtered_out s tc \<longleftrightarrow>
     (let c = opt_case_sensitive (cs_opt s); f = cs_filters s;
          suite = the (tc_test_suite tc); name = the (tc_name tc) in
      tc_skip tc \<and> \<not> opt_no_skip (cs_opt s) \<or>
      \<not> matchesAny (tc_file tc) (f ! 0) True c \<or> matchesAny (tc_file tc) (f ! 1) False c \<or>
      \<not> matchesAny suite (f ! 2) True c \<or> matchesAny suite (f ! 3) False c \<or>
      \<not> matchesAny name (f ! 4) True c \<or> matchesAny name (f ! 5) False c)"

definition out_of_range :: "ContextOptions \<Rightarrow> nat \<Rightarrow> bool" where
  "out_of_range q n \<longleftrightarrow>
     unat (opt_last q) < n \<and> unat (opt_first q) \<le> unat (opt_last q) \<or> unat (opt_first q) > n"

section \<open>Running a test case\<close>

definition add_failure_flags :: "nat \<Rightarrow> ContextState \<Rightarrow> ContextState" where
  "add_failure_flags fl s = s\<lparr>cs_cur := (cs_cur s)\<lparr>failure_flags := or (failure_flags (cs_cur s)) fl\<rparr>\<rparr>"

text \<open>
  The state of the signals goes along. A signal that arrives while the test runs is reported and
  raised again, which ends the process.
\<close>

datatype 'a progress = Goes_on 'a | Dies nat ContextState

definition one_pass ::
  "env \<Rightarrow> TestCase \<Rightarrow> nat \<Rightarrow> signal_state \<times> ContextState \<Rightarrow> (signal_state \<times> ContextState) progress result" where
  "one_pass E tc n ms =
     (let sg = new_FatalConditionHandler 1 (fst ms) in
      bindR (env_body E (tc_test tc) n (start_pass (snd ms))) (\<lambda>r. Inr (case r of
          Returned s \<Rightarrow> Goes_on (FatalConditionHandler_reset sg, s)
        | Failed s \<Rightarrow> Goes_on (FatalConditionHandler_reset sg, add_failure_flags AssertFailure s)
        | Threw e s \<Rightarrow> Goes_on (FatalConditionHandler_reset sg, add_failure_flags FR_Exception
            (emit (test_case_exception \<lparr>error_string = translateActiveException (env_translators E) e,
                is_crash = False\<rparr>) s))
        | Signalled sig s \<Rightarrow>
            (case handleSignal (env_rnd E) (env_stop E (tc_test tc)) sig sg s of (_, s', sig') \<Rightarrow> Dies sig' s'))))"

definition too_many_failed :: "ContextState \<Rightarrow> bool" where
  "too_many_failed s \<longleftrightarrow> opt_abort_after (cs_opt s) > 0 \<and>
     c_int (numAssertsFailed (cs_run s) + lanes_load (numAssertsFailedCurrentTest_atomic s))
       \<ge> opt_abort_after (cs_opt s)"

partial_function (option) run_passes ::
  "env \<Rightarrow> TestCase \<Rightarrow> nat \<Rightarrow> signal_state \<times> ContextState \<Rightarrow> (signal_state \<times> ContextState) progress result option" where
  "run_passes E tc n ms = (case one_pass E tc n ms of
       Inr (Goes_on (sg, s)) \<Rightarrow>
         (let run_test = (\<not> too_many_failed s);
              s = (if run_test then s else add_failure_flags TooManyFailedAsserts s) in
          if nextSubcaseStack s \<noteq> [] \<and> run_test
          then run_passes E tc (n + 1) (sg, emit (test_case_reenter tc) s)
          else Some (Inr (Goes_on (sg, s))))
     | r \<Rightarrow> Some r)"

definition set_currentTest :: "TestCase option \<Rightarrow> ContextState \<Rightarrow> ContextState" where
  "set_currentTest t s = s\<lparr>cs_opt := (cs_opt s)\<lparr>opt_currentTest := t\<rparr>\<rparr>"

definition begin_test :: "env \<Rightarrow> TestCase \<Rightarrow> ContextState \<Rightarrow> ContextState" where
  "begin_test E tc s =
     (let s = set_currentTest (Some tc) s;
          s = s\<lparr>cs_cur := (cs_cur s)\<lparr>failure_flags := FR_None, seconds := 0\<rparr>,
             numAssertsFailedCurrentTest_atomic := lanes_store 0 (numAssertsFailedCurrentTest_atomic s),
             numAssertsCurrentTest_atomic := lanes_store 0 (numAssertsCurrentTest_atomic s),
             fullyTraversedSubcases := []\<rparr>;
          s = emit (test_case_start tc) s in
      s\<lparr>cs_timer := env_start E (tc_test tc)\<rparr>)"

definition end_test :: "env \<Rightarrow> TestCase \<Rightarrow> ContextState \<Rightarrow> ContextState" where
  "end_test E tc s =
     (let s = finalizeTestCaseData (env_rnd E) (env_stop E (tc_test tc)) s;
          s = emit (test_case_end (cs_cur s)) s in
      set_currentTest None s)"

definition execute_test ::
  "env \<Rightarrow> TestCase \<Rightarrow> signal_state \<times> ContextState \<Rightarrow> (signal_state \<times> ContextState) progress result option" where
  "execute_test E tc ms = (case run_passes E tc 0 (fst ms, begin_test E tc (snd ms)) of
       Some (Inr (Goes_on (sg, s))) \<Rightarrow> Some (Inr (Goes_on (sg, end_test E tc s)))
     | r \<Rightarrow> r)"

section \<open>The loop over the tests\<close>

text \<open>
  The suites listed so far and the results of a query go along; the state is that before the
  remaining tests.
\<close>

record query_state =
  suites_listed :: "string list"
  query_results :: "TestCase list"

definition list_suite :: "TestCase \<Rightarrow> query_state \<times> ContextState \<Rightarrow> query_state \<times> ContextState" where
  "list_suite tc qs =
     (let suite = the (tc_test_suite tc) in
      if suite \<notin> set (suites_listed (fst qs)) \<and> suite \<noteq> ''''
      then (\<lparr>suites_listed = suites_listed (fst qs) @ [suite], query_results = query_results (fst qs) @ [tc]\<rparr>,
            (snd qs)\<lparr>cs_run := (cs_run (snd qs))\<lparr>numTestSuitesPassingFilters := numTestSuitesPassingFilters (cs_run (snd qs)) + 1\<rparr>\<rparr>)
      else qs)"

fun run_tests ::
  "env \<Rightarrow> TestCase list \<Rightarrow> query_state \<Rightarrow> signal_state \<times> ContextState \<Rightarrow>
     (query_state \<times> signal_state \<times> ContextState) progress result option" where
  "run_tests E [] qr ms = Some (Inr (Goes_on (qr, ms)))"
| "run_tests E (tc # tcs) qr (sg, s) =
     (let out = filtered_out s tc;
          s = (if out then s else s\<lparr>cs_run := (cs_run s)\<lparr>numTestCasesPassingFilters := numTestCasesPassingFilters (cs_run s) + 1\<rparr>\<rparr>) in
      if out \<or> out_of_range (cs_opt s) (numTestCasesPassingFilters (cs_run s))
      then run_tests E tcs qr (sg, if query_mode (cs_opt s) then s else emit (test_case_skipped tc) s)
      else if opt_count (cs_opt s) then run_tests E tcs qr (sg, s)
      else if opt_list_test_cases (cs_opt s)
      then run_tests E tcs (qr\<lparr>query_results := query_results qr @ [tc]\<rparr>) (sg, s)
      else if opt_list_test_suites (cs_opt s)
      then (case list_suite tc (qr, s) of (qr, s) \<Rightarrow> run_tests E tcs qr (sg, s))
      else (case execute_test E tc (sg, s) of
          Some (Inr (Goes_on (sg, s))) \<Rightarrow>
            if opt_abort_after (cs_opt s) > 0 \<and> numAssertsFailed (cs_run s) \<ge> opt_abort_after (cs_opt s)
            then Some (Inr (Goes_on (qr, sg, s)))
            else run_tests E tcs qr (sg, s)
        | Some (Inr (Dies sig s)) \<Rightarrow> Some (Inr (Dies sig s))
        | Some (Inl f) \<Rightarrow> Some (Inl f)
        | None \<Rightarrow> None))"

declare run_tests.simps(2) [simp del]

section \<open>The run\<close>

text \<open>
  What the process keeps besides the context: the current context, whether tests are running,
  whether colours are off, and the handling of signals. A context is named by a number.
\<close>

record process =
  g_cs :: "nat option"
  is_running_in_test :: bool
  g_no_colors :: bool
  pr_signals :: signal_state
  altStackMem :: bool

definition cleanup_and_return ::
  "nat option \<Rightarrow> process \<times> ContextState \<Rightarrow> int \<times> process \<times> ContextState" where
  "cleanup_and_return old_cs ps =
     (let p = (fst ps)\<lparr>altStackMem := False, g_cs := old_cs, is_running_in_test := False\<rparr>;
          s = (snd ps)\<lparr>reporters_currently_used := []\<rparr> in
      (if numTestCasesFailed (cs_run s) \<noteq> 0 \<and> \<not> opt_no_exitcode (cs_opt s) then 1 else 0, p, s))"

text \<open>Up to the choice between a query about the program and the tests.\<close>

definition prepare_run ::
  "nat \<Rightarrow> reporterMap \<times> reporterMap \<Rightarrow> process \<times> ContextState \<Rightarrow> process \<times> ContextState" where
  "prepare_run this rl ps =
     ((fst ps)\<lparr>g_cs := Some this, is_running_in_test := True, g_no_colors := opt_no_colors (cs_opt (snd ps)),
        altStackMem := True\<rparr>,
      select_reporters rl (choose_cout (resetRunData (snd ps))))"

definition finish_tests :: "query_state \<times> ContextState \<Rightarrow> ContextState" where
  "finish_tests qs =
     (let s = snd qs in
      if \<not> query_mode (cs_opt s) then emit (test_run_end (cs_run s)) s
      else emit (report_query \<lparr>query_run_stats = Some (cs_run s), query_data = query_results (fst qs)\<rparr>) s)"

definition count_tests :: "nat \<Rightarrow> ContextState \<Rightarrow> ContextState" where
  "count_tests n s = s\<lparr>cs_run := (cs_run s)\<lparr>numTestCases := n\<rparr>\<rparr>"

definition start_tests :: "ContextState \<Rightarrow> ContextState" where
  "start_tests s = (if \<not> query_mode (cs_opt s) then emit test_run_start s else s)"

datatype run_end = Exit int process ContextState | Killed nat ContextState

definition run ::
  "env \<Rightarrow> nat \<Rightarrow> reporterMap \<times> reporterMap \<Rightarrow> TestCase list \<Rightarrow> process \<times> ContextState \<Rightarrow> run_end result option" where
  "run E this rl tests ps =
     (let old_cs = g_cs (fst ps); (p, s) = prepare_run this rl ps; q = cs_opt s in
      if opt_no_run q \<or> opt_version q \<or> opt_help q \<or> opt_list_reporters q
      then (case cleanup_and_return old_cs (p, emit (report_query \<lparr>query_run_stats = None, query_data = []\<rparr>) s) of
          (code, p, s) \<Rightarrow> Some (Inr (Exit code p s)))
      else (case run_tests E (order_tests E q tests) \<lparr>suites_listed = [], query_results = []\<rparr>
                (pr_signals p, start_tests (count_tests (length tests) s)) of
          None \<Rightarrow> None
        | Some (Inl f) \<Rightarrow> Some (Inl f)
        | Some (Inr (Dies sig s)) \<Rightarrow> Some (Inr (Killed sig s))
        | Some (Inr (Goes_on (qr, sg, s))) \<Rightarrow>
            (case cleanup_and_return old_cs (p\<lparr>pr_signals := sg\<rparr>, finish_tests (qr, s)) of
               (code, p, s) \<Rightarrow> Some (Inr (Exit code p s)))))"

text \<open>The queries a reporter makes about contexts, and the default \<open>main\<close>.\<close>

definition get_num_active_contexts :: "string list \<Rightarrow> nat" where
  "get_num_active_contexts contexts = length contexts"

definition get_num_stringified_contexts :: "ContextState \<Rightarrow> nat" where
  "get_num_stringified_contexts s = length (stringifiedContexts s)"

definition dt_main ::
  "env \<Rightarrow> nat \<Rightarrow> reporterMap \<times> reporterMap \<Rightarrow> TestCase list \<Rightarrow> string list \<Rightarrow> process \<Rightarrow> run_end result option" where
  "dt_main E this rl tests argv p = run E this rl tests (p, new_Context argv)"

end
