(* ===== verification/Doctest_Runs.thy ===== *)
theory Doctest_Runs
  imports Doctest_Run
begin

text \<open>
  What \<open>Context::run\<close> does with the tests: which ones it lists and runs, what it returns, that
  nested subcases are run completely, and a test that is run without end.
\<close>

section \<open>Which tests\<close>

text \<open>
  The tests that pass the filters, counted from 1, in the range of \<open>first\<close> and \<open>last\<close>. A \<open>last\<close>
  below \<open>first\<close> is ignored.
\<close>

definition selected :: "ContextState \<Rightarrow> TestCase list \<Rightarrow> TestCase list" where
  "selected s tcs =
     (let passing = filter (\<lambda>tc. \<not> filtered_out s tc) tcs;
          first = unat (opt_first (cs_opt s)); last = unat (opt_last (cs_opt s)) in
      drop (first - 1) (if first \<le> last then take last passing else passing))"

fun selected_from :: "ContextOptions \<Rightarrow> (TestCase \<Rightarrow> bool) \<Rightarrow> nat \<Rightarrow> TestCase list \<Rightarrow> TestCase list" where
  "selected_from q out n [] = []"
| "selected_from q out n (tc # tcs) =
     (if out tc then selected_from q out n tcs
      else (if out_of_range q (n + 1) then [] else [tc]) @ selected_from q out (n + 1) tcs)"

lemma selected_from_eq:
  "selected_from q out n tcs =
     (let passing = filter (\<lambda>tc. \<not> out tc) tcs; first = unat (opt_first q); last = unat (opt_last q) in
      drop (first - 1 - n) (if first \<le> last then take (last - n) passing else passing))"
proof (induction tcs arbitrary: n)
  case (Cons tc tcs)
  show ?case
  proof (cases "out tc")
    case False
    then show ?thesis
      by (cases "unat (opt_first q) - Suc n"; cases "unat (opt_last q) - n")
        (auto simp: Cons.IH out_of_range_def Let_def diff_Suc split: nat.splits)
  qed (simp add: Cons.IH Let_def)
qed simp

lemma selected_eq: "selected s tcs = selected_from (cs_opt s) (filtered_out s) 0 tcs"
  by (simp add: selected_def selected_from_eq Let_def)

lemma filtered_out_cong:
  "cs_opt s' = cs_opt s \<Longrightarrow> \<forall>i < 6. cs_filters s' ! i = cs_filters s ! i \<Longrightarrow> filtered_out s' = filtered_out s"
  by (rule ext) (simp add: filtered_out_def Let_def)


definition passed_tests :: "nat \<Rightarrow> ContextState \<Rightarrow> ContextState" where
  "passed_tests n s = s\<lparr>cs_run := (cs_run s)\<lparr>numTestCasesPassingFilters := numTestCasesPassingFilters (cs_run s) + n\<rparr>\<rparr>"

lemma passed_tests_simps [simp]:
  "cs_opt (passed_tests n s) = cs_opt s" "cs_filters (passed_tests n s) = cs_filters s"
  "cs_log (passed_tests n s) = cs_log s" "nextSubcaseStack (passed_tests n s) = nextSubcaseStack s"
  "numTestCasesPassingFilters (cs_run (passed_tests n s)) = numTestCasesPassingFilters (cs_run s) + n"
  "numTestCasesFailed (cs_run (passed_tests n s)) = numTestCasesFailed (cs_run s)"
  "filtered_out (passed_tests n s) = filtered_out s"
  "passed_tests m (passed_tests n s) = passed_tests (m + n) s" "passed_tests 0 s = s"
  by (simp_all add: passed_tests_def filtered_out_def fun_eq_iff)

lemma run_tests_Cons:
  "run_tests E (tc # tcs) qr (sg, s) =
     (let out = filtered_out s tc; s = passed_tests (if out then 0 else 1) s in
      if out \<or> out_of_range (cs_opt s) (numTestCasesPassingFilters (cs_run s))
      then run_tests E tcs qr (sg, if query_mode (cs_opt s) then s else emit (test_case_skipped tc) s)
      else if opt_count (cs_opt s) then run_tests E tcs qr (sg, s)
      else if opt_list_test_cases (cs_opt s)
      then run_tests E tcs (qr\<lparr>query_results := query_results qr @ [tc]\<rparr>) (sg, s)
      else if opt_list_test_suites (cs_opt s)
      then (case list_suite tc (qr, s) of (qr, s) \<Rightarrow> run_tests E tcs qr (sg, s))
      else (case execute_test E tc (sg, s) of
          Some (Inr (Goes_on (sg, s))) \<Rightarrow>
            if opt_abort_after (cs_opt s) > 0 \<and> numAssertsFailed (cs_run s) \<ge> opt_abort_after (cs_opt s)
            then Some (Inr (Goes_on (qr, sg, s)))
            else run_tests E tcs qr (sg, s)
        | Some (Inr (Dies sig s)) \<Rightarrow> Some (Inr (Dies sig s))
        | Some (Inl f) \<Rightarrow> Some (Inl f)
        | None \<Rightarrow> None))"
  by (simp add: run_tests.simps(2) passed_tests_def Let_def)

text \<open>Listing test cases collects the selected ones and changes only the count of those passing.\<close>

lemma run_tests_list:
  assumes "opt_list_test_cases (cs_opt s)" "\<not> opt_count (cs_opt s)"
  shows "run_tests E tcs qr (sg, s) = Some (Inr (Goes_on
     (qr\<lparr>query_results := query_results qr @
        selected_from (cs_opt s) (filtered_out s) (numTestCasesPassingFilters (cs_run s)) tcs\<rparr>, sg,
      passed_tests (length (filter (\<lambda>tc. \<not> filtered_out s tc) tcs)) s)))"
  using assms
proof (induction tcs arbitrary: qr s)
  case (Cons tc tcs)
  have q: "query_mode (cs_opt s)" using Cons.prems by (simp add: query_mode_def)
  show ?case
    using Cons.IH [of s] Cons.IH [of "passed_tests 1 s"] Cons.prems q
    by (cases "filtered_out s tc") (simp_all add: run_tests_Cons Let_def)
qed simp

section \<open>Running flat tests\<close>

text \<open>What the reporters are told about test cases: those started, and the verdicts.\<close>

fun started :: "event list \<Rightarrow> TestCase list" where
  "started [] = []"
| "started (test_case_start tc # es) = tc # started es"
| "started (e # es) = started es"

fun verdicts :: "event list \<Rightarrow> bool list" where
  "verdicts [] = []"
| "verdicts (test_case_end st # es) = testCaseSuccess st # verdicts es"
| "verdicts (e # es) = verdicts es"

lemma started_append [simp]: "started (es @ es') = started es @ started es'"
  by (induction es rule: started.induct) simp_all

lemma verdicts_append [simp]: "verdicts (es @ es') = verdicts es @ verdicts es'"
  by (induction es rule: verdicts.induct) simp_all

text \<open>
  What test functions do to the state: they neither change options, filters and the totals of the
  run nor report the beginning or end of a test case. A flat one leaves no subcase to be visited,
  and raises no signal.
\<close>

definition keeps :: "ContextState \<Rightarrow> ContextState \<Rightarrow> bool" where
  "keeps s s' \<longleftrightarrow> cs_opt s' = cs_opt s \<and> cs_filters s' = cs_filters s \<and> cs_run s' = cs_run s \<and>
     nextSubcaseStack s' = nextSubcaseStack s \<and>
     started (cs_log s') = started (cs_log s) \<and> verdicts (cs_log s') = verdicts (cs_log s)"

definition flat_tests :: "env \<Rightarrow> bool" where
  "flat_tests E \<longleftrightarrow> (\<forall>k n s. \<exists>s'. keeps s s' \<and>
     (env_body E k n s = Inr (Returned s') \<or> env_body E k n s = Inr (Failed s') \<or>
      (\<exists>e. env_body E k n s = Inr (Threw e s'))))"

lemma keeps_start_pass: "keeps (start_pass s) s' \<Longrightarrow> keeps s s'"
  by (simp add: keeps_def start_pass_def)

lemma keeps_flags [simp]: "keeps s (add_failure_flags fl s') = keeps s s'"
  by (simp add: keeps_def add_failure_flags_def)

lemma keeps_exception [simp]: "keeps s (emit (test_case_exception x) s') = keeps s s'"
  by (simp add: keeps_def)

lemma run_passes_flat:
  assumes "flat_tests E" "nextSubcaseStack s = []"
  shows "\<exists>sg' s'. run_passes E tc n (sg, s) = Some (Inr (Goes_on (sg', s'))) \<and> keeps s s' \<and>
     sig_actions sg' = sig_actions sg \<and> alt_stack sg' = alt_stack sg"
proof -
  let ?sg = "FatalConditionHandler_reset (new_FatalConditionHandler 1 sg)"
  obtain s1 where s1: "keeps (start_pass s) s1" "env_body E (tc_test tc) n (start_pass s) = Inr (Returned s1) \<or>
      env_body E (tc_test tc) n (start_pass s) = Inr (Failed s1) \<or>
      (\<exists>e. env_body E (tc_test tc) n (start_pass s) = Inr (Threw e s1))"
    using assms(1) unfolding flat_tests_def by blast
  then obtain s2 where s2: "one_pass E tc n (sg, s) = Inr (Goes_on (?sg, s2))" "keeps s s2"
    using keeps_start_pass [of s s1] by (auto simp: one_pass_def Let_def)
  let ?s3 = "if too_many_failed s2 then add_failure_flags TooManyFailedAsserts s2 else s2"
  have "keeps s ?s3" using s2(2) by simp
  moreover have "nextSubcaseStack ?s3 = []"
    using s2(2) assms(2) by (simp add: keeps_def add_failure_flags_def)
  then have "run_passes E tc n (sg, s) = Some (Inr (Goes_on (?sg, ?s3)))"
    using s2(1) by (subst run_passes.simps) (simp add: Let_def split: if_splits)
  ultimately show ?thesis using handler_round by blast
qed


text \<open>A test case that was executed: started once, and one verdict, counted when it is a failure.\<close>

lemma end_test_fields:
  "cs_filters (end_test E tc s) = cs_filters s" "nextSubcaseStack (end_test E tc s) = nextSubcaseStack s"
  "cs_opt (end_test E tc s) = (cs_opt s)\<lparr>opt_currentTest := None\<rparr>"
  "started (cs_log (end_test E tc s)) = started (cs_log s)"
  "numTestCasesPassingFilters (cs_run (end_test E tc s)) = numTestCasesPassingFilters (cs_run s)"
  "\<exists>ok. verdicts (cs_log (end_test E tc s)) = verdicts (cs_log s) @ [ok] \<and>
     numTestCasesFailed (cs_run (end_test E tc s)) = numTestCasesFailed (cs_run s) + (if ok then 0 else 1)"
  by (simp_all add: end_test_def set_currentTest_def finalizeTestCaseData_def Let_def emit_def)

lemma begin_test_fields:
  "cs_filters (begin_test E tc s) = cs_filters s" "nextSubcaseStack (begin_test E tc s) = nextSubcaseStack s"
  "cs_opt (begin_test E tc s) = (cs_opt s)\<lparr>opt_currentTest := Some tc\<rparr>"
  "started (cs_log (begin_test E tc s)) = started (cs_log s) @ [tc]"
  "verdicts (cs_log (begin_test E tc s)) = verdicts (cs_log s)"
  "cs_run (begin_test E tc s) = cs_run s"
  by (simp_all add: begin_test_def set_currentTest_def Let_def emit_def)

lemma no_currentTest: "opt_currentTest q = None \<Longrightarrow> q\<lparr>opt_currentTest := None\<rparr> = q"
  by (cases q) simp

text \<open>The part of the state that the loop over the tests depends on.\<close>

definition between_tests :: "signal_state \<times> ContextState \<Rightarrow> signal_state \<times> ContextState \<Rightarrow> bool" where
  "between_tests a b \<longleftrightarrow>
     cs_opt (snd b) = cs_opt (snd a) \<and> cs_filters (snd b) = cs_filters (snd a) \<and>
     nextSubcaseStack (snd b) = nextSubcaseStack (snd a) \<and>
     sig_actions (fst b) = sig_actions (fst a) \<and> alt_stack (fst b) = alt_stack (fst a)"

lemma execute_test_flat:
  assumes "flat_tests E" "nextSubcaseStack s = []" "opt_currentTest (cs_opt s) = None"
  shows "\<exists>sg' s' ok. execute_test E tc (sg, s) = Some (Inr (Goes_on (sg', s'))) \<and>
     between_tests (sg, s) (sg', s') \<and>
     numTestCasesPassingFilters (cs_run s') = numTestCasesPassingFilters (cs_run s) \<and>
     started (cs_log s') = started (cs_log s) @ [tc] \<and> verdicts (cs_log s') = verdicts (cs_log s) @ [ok] \<and>
     numTestCasesFailed (cs_run s') = numTestCasesFailed (cs_run s) + (if ok then 0 else 1)"
proof -
  obtain sg1 s1 where 1: "run_passes E tc 0 (sg, begin_test E tc s) = Some (Inr (Goes_on (sg1, s1)))"
    "keeps (begin_test E tc s) s1" "sig_actions sg1 = sig_actions sg" "alt_stack sg1 = alt_stack sg"
    using run_passes_flat [OF assms(1), of "begin_test E tc s" tc 0 sg] assms(2) begin_test_fields(2) by auto
  obtain ok where ok: "verdicts (cs_log (end_test E tc s1)) = verdicts (cs_log s1) @ [ok]"
    "numTestCasesFailed (cs_run (end_test E tc s1)) = numTestCasesFailed (cs_run s1) + (if ok then 0 else 1)"
    using end_test_fields(6) by blast
  have "execute_test E tc (sg, s) = Some (Inr (Goes_on (sg1, end_test E tc s1)))"
    using 1(1) by (simp add: execute_test_def)
  moreover have "between_tests (sg, s) (sg1, end_test E tc s1)"
    using 1(2-4) assms(3)
    by (simp add: between_tests_def keeps_def end_test_fields begin_test_fields no_currentTest)
  ultimately show ?thesis
    using ok 1(2) by (auto simp: keeps_def end_test_fields(4,5) begin_test_fields)
qed

lemma between_tests_trans: "between_tests a b \<Longrightarrow> between_tests b c \<Longrightarrow> between_tests a c"
  by (simp add: between_tests_def)

lemma between_tests_skip:
  "between_tests (sg, passed_tests n s) b \<Longrightarrow> between_tests (sg, s) b"
  "between_tests (sg, emit e s) b \<Longrightarrow> between_tests (sg, s) b"
  by (simp_all add: between_tests_def)

text \<open>The loop runs the selected tests, and counts the failed ones.\<close>

lemma run_tests_flat:
  assumes "flat_tests E" "\<not> query_mode (cs_opt s)" "opt_abort_after (cs_opt s) \<le> 0"
    "nextSubcaseStack s = []" "opt_currentTest (cs_opt s) = None"
  shows "\<exists>sg' s' oks. run_tests E tcs qr (sg, s) = Some (Inr (Goes_on (qr, sg', s'))) \<and>
     between_tests (sg, s) (sg', s') \<and>
     started (cs_log s') = started (cs_log s) @
       selected_from (cs_opt s) (filtered_out s) (numTestCasesPassingFilters (cs_run s)) tcs \<and>
     verdicts (cs_log s') = verdicts (cs_log s) @ oks \<and>
     length oks = length (selected_from (cs_opt s) (filtered_out s) (numTestCasesPassingFilters (cs_run s)) tcs) \<and>
     numTestCasesFailed (cs_run s') = numTestCasesFailed (cs_run s) + length (filter Not oks)"
  using assms
proof (induction tcs arbitrary: sg s)
  case Nil
  then show ?case by (simp add: between_tests_def)
next
  case (Cons tc tcs)
  have q: "\<not> opt_count (cs_opt s)" "\<not> opt_list_test_cases (cs_opt s)" "\<not> opt_list_test_suites (cs_opt s)"
    using Cons.prems(2) by (simp_all add: query_mode_def)
  let ?s = "passed_tests (if filtered_out s tc then 0 else 1) s"
  show ?case
  proof (cases "filtered_out s tc \<or> out_of_range (cs_opt s) (numTestCasesPassingFilters (cs_run ?s))")
    case True
    then have step: "run_tests E (tc # tcs) qr (sg, s) = run_tests E tcs qr (sg, emit (test_case_skipped tc) ?s)"
      using Cons.prems(2) by (simp add: run_tests_Cons Let_def)
    have "filtered_out (emit (test_case_skipped tc) ?s) = filtered_out s"
      by (rule filtered_out_cong) simp_all
    moreover have "selected_from (cs_opt s) (filtered_out s) (numTestCasesPassingFilters (cs_run s)) (tc # tcs) =
        selected_from (cs_opt s) (filtered_out s) (numTestCasesPassingFilters (cs_run ?s)) tcs"
      using True by (simp split: if_splits)
    moreover have "between_tests (sg, s) b" if "between_tests (sg, emit (test_case_skipped tc) ?s) b" for b
      using that between_tests_skip by blast
    ultimately show ?thesis
      using Cons.IH [of "emit (test_case_skipped tc) ?s" sg] Cons.prems unfolding step
      by (simp only: emit_fields passed_tests_simps started_append verdicts_append started.simps verdicts.simps
          append_Nil2) blast
  next
    case False
    then have out: "\<not> filtered_out s tc" "\<not> out_of_range (cs_opt s) (numTestCasesPassingFilters (cs_run s) + 1)"
      by (auto split: if_splits)
    obtain sg1 s1 ok where 1: "execute_test E tc (sg, passed_tests 1 s) = Some (Inr (Goes_on (sg1, s1)))"
      "between_tests (sg, passed_tests 1 s) (sg1, s1)"
      "numTestCasesPassingFilters (cs_run s1) = numTestCasesPassingFilters (cs_run s) + 1"
      "started (cs_log s1) = started (cs_log s) @ [tc]" "verdicts (cs_log s1) = verdicts (cs_log s) @ [ok]"
      "numTestCasesFailed (cs_run s1) = numTestCasesFailed (cs_run s) + (if ok then 0 else 1)"
      using execute_test_flat [OF Cons.prems(1), of "passed_tests 1 s" tc sg] Cons.prems(4,5) by auto
    have same: "cs_opt s1 = cs_opt s" "nextSubcaseStack s1 = []" "filtered_out s1 = filtered_out s"
      using 1(2) Cons.prems(4) by (auto simp: between_tests_def intro: filtered_out_cong)
    obtain sg2 s2 oks where 2: "run_tests E tcs qr (sg1, s1) = Some (Inr (Goes_on (qr, sg2, s2)))"
      "between_tests (sg1, s1) (sg2, s2)"
      "started (cs_log s2) = started (cs_log s1) @
         selected_from (cs_opt s) (filtered_out s) (numTestCasesPassingFilters (cs_run s) + 1) tcs"
      "verdicts (cs_log s2) = verdicts (cs_log s1) @ oks"
      "length oks = length (selected_from (cs_opt s) (filtered_out s) (numTestCasesPassingFilters (cs_run s) + 1) tcs)"
      "numTestCasesFailed (cs_run s2) = numTestCasesFailed (cs_run s1) + length (filter Not oks)"
      using Cons.IH [of s1 sg1] Cons.prems same 1(3) by auto
    have "run_tests E (tc # tcs) qr (sg, s) = Some (Inr (Goes_on (qr, sg2, s2)))"
      using q Cons.prems(3) out 1(1) 2(1) same(1) by (simp add: run_tests_Cons Let_def)
    moreover have "between_tests (sg, s) (sg2, s2)"
      using between_tests_trans [OF 1(2) 2(2)] by (rule between_tests_skip(1))
    ultimately show ?thesis
      using 1(4-6) 2(3-6) out by (intro exI [of _ sg2] exI [of _ s2] exI [of _ "ok # oks"]) simp
  qed
qed


section \<open>The whole run\<close>

lemma prepare_run_fields:
  "pr_signals (fst (prepare_run this rl (p, s))) = pr_signals p"
  "opt_currentTest (cs_opt (snd (prepare_run this rl (p, s)))) = opt_currentTest (cs_opt s)"
  "query_mode (cs_opt (snd (prepare_run this rl (p, s)))) = query_mode (cs_opt s)"
  "opt_count (cs_opt (snd (prepare_run this rl (p, s)))) = opt_count (cs_opt s)"
  "opt_list_test_cases (cs_opt (snd (prepare_run this rl (p, s)))) = opt_list_test_cases (cs_opt s)"
  "opt_no_run (cs_opt (snd (prepare_run this rl (p, s)))) = opt_no_run (cs_opt s)"
  "opt_version (cs_opt (snd (prepare_run this rl (p, s)))) = opt_version (cs_opt s)"
  "opt_help (cs_opt (snd (prepare_run this rl (p, s)))) = opt_help (cs_opt s)"
  "opt_list_reporters (cs_opt (snd (prepare_run this rl (p, s)))) = opt_list_reporters (cs_opt s)"
  "opt_abort_after (cs_opt (snd (prepare_run this rl (p, s)))) = opt_abort_after (cs_opt s)"
  "opt_no_exitcode (cs_opt (snd (prepare_run this rl (p, s)))) = opt_no_exitcode (cs_opt s)"
  "opt_first (cs_opt (snd (prepare_run this rl (p, s)))) = opt_first (cs_opt s)"
  "opt_last (cs_opt (snd (prepare_run this rl (p, s)))) = opt_last (cs_opt s)"
  "order_tests E (cs_opt (snd (prepare_run this rl (p, s)))) = order_tests E (cs_opt s)"
  "filtered_out (snd (prepare_run this rl (p, s))) = filtered_out s"
  "nextSubcaseStack (snd (prepare_run this rl (p, s))) = nextSubcaseStack s"
  "cs_log (snd (prepare_run this rl (p, s))) = cs_log s"
  "numTestCasesPassingFilters (cs_run (snd (prepare_run this rl (p, s)))) = 0"
  "numTestCasesFailed (cs_run (snd (prepare_run this rl (p, s)))) = 0"
  by (simp_all add: prepare_run_def select_reporters_def choose_cout_def resetRunData_def Let_def query_mode_def
      order_tests_def fun_eq_iff filtered_out_def)

lemma selected_from_cong:
  "opt_first q = opt_first q' \<Longrightarrow> opt_last q = opt_last q' \<Longrightarrow> selected_from q = selected_from q'"
proof (intro ext)
  fix out n tcs
  assume "opt_first q = opt_first q'" "opt_last q = opt_last q'"
  then show "selected_from q out n tcs = selected_from q' out n tcs"
    by (induction tcs arbitrary: n) (auto simp: out_of_range_def)
qed

lemma before_tests_fields:
  "cs_opt (start_tests (count_tests n s)) = cs_opt s" "cs_filters (start_tests (count_tests n s)) = cs_filters s"
  "nextSubcaseStack (start_tests (count_tests n s)) = nextSubcaseStack s"
  "filtered_out (start_tests (count_tests n s)) = filtered_out s"
  "started (cs_log (start_tests (count_tests n s))) = started (cs_log s)"
  "verdicts (cs_log (start_tests (count_tests n s))) = verdicts (cs_log s)"
  "query_mode (cs_opt s) \<Longrightarrow> cs_log (start_tests (count_tests n s)) = cs_log s"
  "numTestCasesPassingFilters (cs_run (start_tests (count_tests n s))) = numTestCasesPassingFilters (cs_run s)"
  "numTestCasesFailed (cs_run (start_tests (count_tests n s))) = numTestCasesFailed (cs_run s)"
  by (simp_all add: start_tests_def count_tests_def emit_def filtered_out_def fun_eq_iff Let_def)

text \<open>
  Listing test cases tells the reporters exactly the test cases that pass all the filters,
  in the chosen order and between \<open>first\<close> and \<open>last\<close>, counts the passing ones, and succeeds.
\<close>

theorem list_query_lists_selected:
  assumes "opt_list_test_cases (cs_opt s)" "\<not> opt_count (cs_opt s)" "\<not> opt_no_run (cs_opt s)"
    "\<not> opt_version (cs_opt s)" "\<not> opt_help (cs_opt s)" "\<not> opt_list_reporters (cs_opt s)"
  shows "let ordered = order_tests E (cs_opt s) tests in
     \<exists>p' s'. run E this rl tests (p, s) = Some (Inr (Exit 0 p' s')) \<and>
       cs_log s' = cs_log s @ [report_query \<lparr>query_run_stats = Some (cs_run s'), query_data = selected s ordered\<rparr>] \<and>
       numTestCasesPassingFilters (cs_run s') = length (filter (\<lambda>tc. \<not> filtered_out s tc) ordered)"
proof -
  obtain p1 s1 where 1: "prepare_run this rl (p, s) = (p1, s1)" by (cases "prepare_run this rl (p, s)")
  note f = prepare_run_fields [where this = this and rl = rl and p = p and s = s, unfolded 1 fst_conv snd_conv]
  have q: "query_mode (cs_opt s)" using assms by (simp add: query_mode_def)
  let ?s = "start_tests (count_tests (length tests) s1)"
  have sel: "selected_from (cs_opt s1) = selected_from (cs_opt s)" by (rule selected_from_cong) (simp_all add: f)
  have r: "run_tests E (order_tests E (cs_opt s1) tests) \<lparr>suites_listed = [], query_results = []\<rparr> (pr_signals p1, ?s) =
      Some (Inr (Goes_on (\<lparr>suites_listed = [], query_results = selected s (order_tests E (cs_opt s) tests)\<rparr>, pr_signals p1,
        passed_tests (length (filter (\<lambda>tc. \<not> filtered_out s tc) (order_tests E (cs_opt s) tests))) ?s)))"
    using run_tests_list [of ?s] assms
    by (simp add: before_tests_fields f sel selected_eq)
  let ?s2 = "passed_tests (length (filter (\<lambda>tc. \<not> filtered_out s tc) (order_tests E (cs_opt s) tests))) ?s"
  have fin: "finish_tests (\<lparr>suites_listed = [], query_results = selected s (order_tests E (cs_opt s) tests)\<rparr>, ?s2) =
      emit (report_query \<lparr>query_run_stats = Some (cs_run ?s2),
        query_data = selected s (order_tests E (cs_opt s) tests)\<rparr>) ?s2"
    using q by (simp add: finish_tests_def before_tests_fields f Let_def)
  have run: "run E this rl tests (p, s) =
      (case cleanup_and_return (g_cs p) (p1\<lparr>pr_signals := pr_signals p1\<rparr>,
         emit (report_query \<lparr>query_run_stats = Some (cs_run ?s2),
           query_data = selected s (order_tests E (cs_opt s) tests)\<rparr>) ?s2) of
         (code, p, s) \<Rightarrow> Some (Inr (Exit code p s)))"
    unfolding run_def Let_def 1 fst_conv prod.case using r fin by (simp add: f assms)
  show ?thesis
    unfolding Let_def run using q
    by (simp add: cleanup_and_return_def Let_def f before_tests_fields)
qed

text \<open>
  C12. A run of test functions without subcases ends, starts exactly the selected test cases in
  their order, and fails exactly when one of their verdicts is a failure, unless exit codes are
  turned off; the current context and the handling of signals are what they were before.
\<close>

theorem run_runs_selected:
  assumes "flat_tests E" "\<not> query_mode (cs_opt s)" "\<not> opt_no_run (cs_opt s)" "\<not> opt_version (cs_opt s)"
    "\<not> opt_help (cs_opt s)" "\<not> opt_list_reporters (cs_opt s)" "opt_abort_after (cs_opt s) \<le> 0"
    "nextSubcaseStack s = []" "opt_currentTest (cs_opt s) = None"
  shows "let tcs = selected s (order_tests E (cs_opt s) tests) in
     \<exists>code p' s' oks. run E this rl tests (p, s) = Some (Inr (Exit code p' s')) \<and>
       started (cs_log s') = started (cs_log s) @ tcs \<and>
       verdicts (cs_log s') = verdicts (cs_log s) @ oks \<and> length oks = length tcs \<and>
       code = (if False \<in> set oks \<and> \<not> opt_no_exitcode (cs_opt s) then 1 else 0) \<and>
       g_cs p' = g_cs p \<and> sig_actions (pr_signals p') = sig_actions (pr_signals p)"
proof -
  obtain p1 s1 where 1: "prepare_run this rl (p, s) = (p1, s1)" by (cases "prepare_run this rl (p, s)")
  note f = prepare_run_fields [where this = this and rl = rl and p = p and s = s, unfolded 1 fst_conv snd_conv]
  let ?s = "start_tests (count_tests (length tests) s1)" and ?tcs = "order_tests E (cs_opt s1) tests"
    and ?qr = "\<lparr>suites_listed = [], query_results = []\<rparr>"
  have sel: "selected_from (cs_opt s1) = selected_from (cs_opt s)" by (rule selected_from_cong) (simp_all add: f)
  have tcs: "selected_from (cs_opt ?s) (filtered_out ?s) (numTestCasesPassingFilters (cs_run ?s)) ?tcs =
      selected s (order_tests E (cs_opt s) tests)"
    by (simp add: before_tests_fields f sel selected_eq)
  obtain sg2 s2 oks where 2: "run_tests E ?tcs ?qr (pr_signals p1, ?s) = Some (Inr (Goes_on (?qr, sg2, s2)))"
    "between_tests (pr_signals p1, ?s) (sg2, s2)"
    "started (cs_log s2) = started (cs_log s) @ selected s (order_tests E (cs_opt s) tests)"
    "verdicts (cs_log s2) = verdicts (cs_log s) @ oks"
    "length oks = length (selected s (order_tests E (cs_opt s) tests))"
    "numTestCasesFailed (cs_run s2) = length (filter Not oks)"
    using run_tests_flat [OF assms(1), of ?s ?tcs ?qr "pr_signals p1", unfolded tcs] assms(2-)
    by (auto simp: before_tests_fields f)
  have opt: "cs_opt s2 = cs_opt s1" "sig_actions sg2 = sig_actions (pr_signals p)"
    using 2(2) by (simp_all add: between_tests_def before_tests_fields f)
  have fin: "finish_tests (?qr, s2) = emit (test_run_end (cs_run s2)) s2"
    using assms(2) by (simp add: finish_tests_def opt f Let_def)
  have fails: "(0 < length (filter Not oks)) = (False \<in> set oks)"
    by (induction oks) auto
  have run: "run E this rl tests (p, s) =
      (case cleanup_and_return (g_cs p) (p1\<lparr>pr_signals := sg2\<rparr>, emit (test_run_end (cs_run s2)) s2) of
         (code, p, s) \<Rightarrow> Some (Inr (Exit code p s)))"
    unfolding run_def Let_def 1 fst_conv prod.case using 2(1) by (simp add: f assms fin)
  let ?p = "p1\<lparr>pr_signals := sg2, altStackMem := False, g_cs := g_cs p, is_running_in_test := False\<rparr>"
    and ?s2 = "(emit (test_run_end (cs_run s2)) s2)\<lparr>reporters_currently_used := []\<rparr>"
  show ?thesis
    unfolding Let_def run using fails 2(3-6) opt
    by (intro exI [of _ "if False \<in> set oks \<and> \<not> opt_no_exitcode (cs_opt s) then 1 else 0"] exI [of _ ?p]
        exI [of _ ?s2] exI [of _ oks]) (simp add: cleanup_and_return_def Let_def f)
qed

section \<open>Subcases\<close>

lemma run_body_opt:
  "run_body b s = Inr s' \<Longrightarrow> cs_opt s' = cs_opt s"
  "run_subcases subs s = Inr s' \<Longrightarrow> cs_opt s' = cs_opt s"
  "run_subcase sub s = Inr s' \<Longrightarrow> cs_opt s' = cs_opt s"
proof (induction b s and subs s and sub s arbitrary: s' and s' and s' rule: run_body_run_subcases_run_subcase.induct)
  case (4 sig b s)
  obtain e s1 where 1: "new_Subcase sig s = Inr (e, s1)" using "4.prems" by auto
  have "cs_opt s1 = cs_opt s" using 1 by (auto simp: new_Subcase_def split: if_splits)
  moreover obtain s2 where 2: "(if e then run_body b s1 else Inr s1) = Inr s2" "s' = destroy_Subcase False e s2"
    using "4.prems" 1 by auto
  moreover have "cs_opt s2 = cs_opt s1" using 1 2(1) "4.IH" [of "(e, s1)" e s1 s2] by (cases e) auto
  moreover have "cs_opt s' = cs_opt s2" using 2(2) by (simp add: destroy_Subcase_def Let_def)
  ultimately show ?case by simp
next
  case (3 sub subs s)
  obtain s1 where 1: "run_subcase sub s = Inr s1" "run_subcases subs s1 = Inr s'"
    using "3.prems" by (auto simp: bindR_Inr_iff)
  show ?case using "3.IH"(1) [OF 1(1)] "3.IH"(2) [OF 1] by simp
qed simp_all

text \<open>The events of the passes over the leaves at \<open>paths\<close>: each pass but the first is announced.\<close>

fun passes_events :: "TestCase \<Rightarrow> path list \<Rightarrow> event list" where
  "passes_events tc [] = []"
| "passes_events tc (l # ls) = pass_events l @ (if ls = [] then [] else test_case_reenter tc # passes_events tc ls)"

definition runs_body :: "env \<Rightarrow> TestCase \<Rightarrow> body \<Rightarrow> bool" where
  "runs_body E tc b \<longleftrightarrow>
     (\<forall>n s. env_body E (tc_test tc) n s = bindR (run_body b s) (\<lambda>s'. Inr (Returned s')))"

lemma passes_from:
  assumes bs: "bs \<noteq> []" "distinct_siblings bs" "\<forall>q \<in> set (node_paths bs). \<forall>x \<in> set q. sig_ok x"
    and inj: "inj_on hash_stack (set (node_paths bs))" and runs: "runs_body E tc (Body bs)"
  shows "before_pass bs visited s \<Longrightarrow> opt_abort_after (cs_opt s) \<le> 0 \<Longrightarrow>
    \<exists>sg' s'. run_passes E tc n (sg, s) = Some (Inr (Goes_on (sg', s'))) \<and>
      cs_log s' = cs_log s @ passes_events tc (from_path bs (nextSubcaseStack s))"
proof (induction "length (from_path bs (nextSubcaseStack s))" arbitrary: n sg s visited rule: less_induct)
  case less
  obtain s1 l where 1: "run_body (Body bs) (start_pass s) = Inr s1" "cs_log s1 = cs_log s @ pass_events l"
    "from_path bs (nextSubcaseStack s) = l # (if nextSubcaseStack s1 = [] then [] else from_path bs (nextSubcaseStack s1))"
    "nextSubcaseStack s1 \<noteq> [] \<Longrightarrow> before_pass bs (visited @ [l]) s1"
    using one_more_leaf [OF bs inj less.prems(1)] by metis
  have opt: "cs_opt s1 = cs_opt s" using run_body_opt(1) [OF 1(1)] by (simp add: start_pass_def)
  have go: "\<not> too_many_failed s1" using opt less.prems(2) by (simp add: too_many_failed_def)
  let ?sg = "FatalConditionHandler_reset (new_FatalConditionHandler 1 sg)"
  have one: "one_pass E tc n (sg, s) = Inr (Goes_on (?sg, s1))"
    using runs 1(1) by (simp add: one_pass_def runs_body_def Let_def)
  show ?case
  proof (cases "nextSubcaseStack s1 = []")
    case True
    then show ?thesis using go one 1(2,3) by (subst run_passes.simps) (simp add: Let_def)
  next
    case False
    let ?s = "emit (test_case_reenter tc) s1"
    have b: "before_pass bs (visited @ [l]) ?s" using 1(4) [OF False] by (simp add: before_pass_def)
    have "length (from_path bs (nextSubcaseStack ?s)) < length (from_path bs (nextSubcaseStack s))"
      using 1(3) False by simp
    from less.hyps [OF this b, of "n + 1" ?sg] obtain sg' s' where
      2: "run_passes E tc (n + 1) (?sg, ?s) = Some (Inr (Goes_on (sg', s')))"
      "cs_log s' = cs_log ?s @ passes_events tc (from_path bs (nextSubcaseStack ?s))"
      using less.prems(2) opt by auto
    have "run_passes E tc n (sg, s) = run_passes E tc (n + 1) (?sg, ?s)"
      using False go one by (subst run_passes.simps) (simp add: Let_def)
    moreover have "from_path bs (nextSubcaseStack s1) \<noteq> []"
      using one_more_leaf [OF bs inj 1(4) [OF False]] by (metis list.discI)
    ultimately show ?thesis using 2 1(2,3) False by simp
  qed
qed

text \<open>
  C13. A test case made of nested subcases ends, and runs every leaf exactly once in the order of the
  program text: what the reporters are told is, for each leaf in turn, that the subcases on the way to
  it are started and ended, with the announcement of another pass between two leaves. This holds if
  siblings have different signatures, no filters for subcases are set, no two paths of the tree have the
  same hash, and the run is not to be aborted after a number of failed assertions.
\<close>

theorem subcases_run_every_leaf_once:
  assumes "bs \<noteq> []" "distinct_siblings bs" "\<forall>q \<in> set (node_paths bs). \<forall>x \<in> set q. sig_ok x"
    "inj_on hash_stack (set (node_paths bs))" "no_filters s" "nextSubcaseStack s = []"
    "fullyTraversedSubcases s = []" "opt_abort_after (cs_opt s) \<le> 0" "runs_body E tc (Body bs)"
  shows "\<exists>sg' s'. run_passes E tc 0 (sg, s) = Some (Inr (Goes_on (sg', s'))) \<and>
     cs_log s' = cs_log s @ passes_events tc (leaf_paths bs) \<and> distinct (leaf_paths bs)"
proof -
  have "before_pass bs [] s" using assms(5-7) by (simp add: before_pass_def valid_def)
  from passes_from [OF assms(1-4,9) this assms(8)] distinct_leaf_paths [OF assms(2)] show ?thesis
    using assms(6) by simp
qed

theorem subcases_run_every_leaf_once_witness:
  "let a = \<lparr>sig_name = ''a'', sig_file = ''t'', sig_line = 2\<rparr>; b = \<lparr>sig_name = ''b'', sig_file = ''t'', sig_line = 3\<rparr>;
       c = \<lparr>sig_name = ''c'', sig_file = ''t'', sig_line = 4\<rparr>; bs = [(a, Body [(b, Body []), (c, Body [])])];
       tc = new_TestCase 0 ''t'' 1 new_TestSuite '''' (-1);
       E = \<lparr>env_body = \<lambda>k n s. bindR (run_body (Body bs) s) (\<lambda>s'. Inr (Returned s')), env_translators = [],
         env_rand = \<lambda>_ _. 0, env_rnd = id, env_start = \<lambda>_. 0, env_stop = \<lambda>_. 0\<rparr> in
   \<forall>sg. \<exists>sg' s'. run_passes E tc 0 (sg, new_ContextState) = Some (Inr (Goes_on (sg', s'))) \<and>
     cs_log s' = [subcase_start a, subcase_start b, subcase_end, subcase_end, test_case_reenter tc,
       subcase_start a, subcase_start c, subcase_end, subcase_end]"
proof -
  define a where "a = \<lparr>sig_name = ''a'', sig_file = ''t'', sig_line = 2\<rparr>"
  define b where "b = \<lparr>sig_name = ''b'', sig_file = ''t'', sig_line = 3\<rparr>"
  define c where "c = \<lparr>sig_name = ''c'', sig_file = ''t'', sig_line = 4\<rparr>"
  define bs where "bs = [(a, Body [(b, Body []), (c, Body [])])]"
  define tc where "tc = new_TestCase 0 ''t'' 1 new_TestSuite '''' (-1)"
  define E where "E = \<lparr>env_body = \<lambda>k n s. bindR (run_body (Body bs) s) (\<lambda>s'. Inr (Returned s')),
    env_translators = [], env_rand = \<lambda>_ _. 0, env_rnd = id, env_start = \<lambda>_. 0, env_stop = \<lambda>_. 0\<rparr>"
  have n: "node_paths bs = [[a], [a, b], [a, c]]" "leaf_paths bs = [[a, b], [a, c]]" by (simp_all add: bs_def)
  have ok: "sig_ok a" "sig_ok b" "sig_ok c" by (simp_all add: a_def b_def c_def sig_ok_def NUL_def)
  have inj: "inj_on hash_stack (set (node_paths bs))"
    unfolding n by (simp add: inj_on_def a_def b_def c_def hash_stack_def hash_SubcaseSignature_def hash_pair_def
        hash_cstr_def schar_def)
  have "distinct_siblings bs" by (simp add: bs_def b_def c_def)
  moreover have "runs_body E tc (Body bs)" by (simp add: runs_body_def E_def)
  moreover have "\<forall>q \<in> set (node_paths bs). \<forall>x \<in> set q. sig_ok x" using ok by (simp only: n) simp
  moreover have "cs_log new_ContextState = []" by (simp add: new_ContextState_def)
  ultimately have "\<exists>sg' s'. run_passes E tc 0 (sg, new_ContextState) = Some (Inr (Goes_on (sg', s'))) \<and>
     cs_log s' = passes_events tc (leaf_paths bs)" for sg
    using subcases_run_every_leaf_once [of bs new_ContextState E tc sg] inj
    by (auto simp: no_filters_def new_ContextState_def raw_options_def bs_def)
  then have "\<forall>sg. \<exists>sg' s'. run_passes E tc 0 (sg, new_ContextState) = Some (Inr (Goes_on (sg', s'))) \<and>
     cs_log s' = [subcase_start a, subcase_start b, subcase_end, subcase_end, test_case_reenter tc,
       subcase_start a, subcase_start c, subcase_end, subcase_end]"
    unfolding n by (simp add: pass_events_def numeral_2_eq_2)
  then show ?thesis by (simp only: Let_def E_def bs_def tc_def a_def b_def c_def simp_thms)
qed

section \<open>A test without end\<close>

text \<open>Two signatures, for the examples.\<close>

definition sig_a :: SubcaseSignature where "sig_a = \<lparr>sig_name = ''a'', sig_file = ''t.cpp'', sig_line = 3\<rparr>"
definition sig_b :: SubcaseSignature where "sig_b = \<lparr>sig_name = ''b'', sig_file = ''t.cpp'', sig_line = 5\<rparr>"

text \<open>
  Two subcases with an assertion between them that holds only when the first one was entered:
  \<^verbatim>\<open>int x = u; SUBCASE("a") { x = v; } REQUIRE_EQ(x, v); SUBCASE("b") {}\<close>, with the signatures of the
  subcases, the place and the text of the assertion, and the two values as parameters.
\<close>

definition guarded_body ::
  "SubcaseSignature \<Rightarrow> SubcaseSignature \<Rightarrow> string \<Rightarrow> int \<Rightarrow> string \<Rightarrow> int \<Rightarrow> int \<Rightarrow> ContextState \<Rightarrow> finish result" where
  "guarded_body a b src k ex u v s =
     bindR (new_Subcase a s) (\<lambda>(entered, s).
       let x = (if entered then v else u); s = destroy_Subcase False entered s in
       case binary_assert True False C_eq (DT REQUIRE EQ) src k ex x v s of
         Throws s \<Rightarrow> Inr (Failed s)
       | Aborts \<Rightarrow> Inr (Signalled 6 s)
       | Continues _ s \<Rightarrow>
           bindR (new_Subcase b s) (\<lambda>(entered, s). Inr (Returned (destroy_Subcase False entered s))))"

lemma require_eq:
  "\<exists>rb. binary_assert True False C_eq (DT REQUIRE EQ) src k ex x v s =
     (if x = v then Continues True (counted rb (DT REQUIRE EQ) False s)
      else Throws (throwException (counted rb (DT REQUIRE EQ) True s)))"
proof -
  obtain rb where rb: "assert_in_tests False (DT REQUIRE EQ) src k ex (x \<noteq> v)
      (stringifyBinaryExpr x '', '' v) s =
    (if x \<noteq> v \<and> checkIfShouldThrow (DT REQUIRE EQ) (counted rb (DT REQUIRE EQ) (x \<noteq> v) s)
     then Throws (throwException (counted rb (DT REQUIRE EQ) (x \<noteq> v) s))
     else Continues (\<not> x \<noteq> v) (counted rb (DT REQUIRE EQ) (x \<noteq> v) s))"
    using assert_in_tests_plain [of "DT REQUIRE EQ"] plain_flags [of EQ REQUIRE] by blast
  show ?thesis
    by (rule exI [of _ rb]) (use rb in \<open>simp add: binary_assert_def run_assert_def checkIfShouldThrow_def level_flags\<close>)
qed

lemma counted_sub_view [simp]:
  "sub_view (counted rb ty failed s) = sub_view s" "no_filters (counted rb ty failed s) = no_filters s"
  "cs_opt (counted rb ty failed s) = cs_opt s"
  "sub_view (throwException s) = sub_view s" "no_filters (throwException s) = no_filters s"
  by (simp_all add: counted_def addFailedAssert_def addAssert_def throwException_def sub_view_def no_filters_def)

text \<open>A loop whose every round leaves a next subcase does not end.\<close>

lemma run_passes_diverges:
  assumes step: "\<And>n ms. P ms \<Longrightarrow> \<exists>sg s. one_pass E tc n ms = Inr (Goes_on (sg, s)) \<and> \<not> too_many_failed s \<and>
      nextSubcaseStack s \<noteq> [] \<and> P (sg, emit (test_case_reenter tc) s)"
  shows "P ms \<Longrightarrow> run_passes E tc n ms = None"
proof -
  have "E' = E \<longrightarrow> tc' = tc \<longrightarrow> \<not> P ms" if "run_passes E' tc' n ms = Some r" for E' tc' n ms r
  proof (rule run_passes.raw_induct [where P = "\<lambda>E' tc' n ms r. E' = E \<longrightarrow> tc' = tc \<longrightarrow> \<not> P ms", OF _ that])
    fix rec E' tc' n ms r
    assume 1: "\<And>E' tc' n ms r. rec E' tc' n ms = Some r \<Longrightarrow> E' = E \<longrightarrow> tc' = tc \<longrightarrow> \<not> P ms"
      and 2: "(case one_pass E' tc' n ms of
         Inl f \<Rightarrow> Some (Inl f)
       | Inr (Goes_on (sg, s)) \<Rightarrow>
         (let run_test = (\<not> too_many_failed s);
              s = (if run_test then s else add_failure_flags TooManyFailedAsserts s) in
          if nextSubcaseStack s \<noteq> [] \<and> run_test
          then rec E' tc' (n + 1) (sg, emit (test_case_reenter tc') s)
          else Some (Inr (Goes_on (sg, s))))
       | Inr (Dies k s) \<Rightarrow> Some (Inr (Dies k s))) = Some r"
    show "E' = E \<longrightarrow> tc' = tc \<longrightarrow> \<not> P ms"
    proof (intro impI notI)
      assume e: "E' = E" "tc' = tc" and "P ms"
      then obtain sg s where s: "one_pass E tc n ms = Inr (Goes_on (sg, s))" "\<not> too_many_failed s"
        "nextSubcaseStack s \<noteq> []" "P (sg, emit (test_case_reenter tc) s)"
        using step by blast
      have "rec E tc (n + 1) (sg, emit (test_case_reenter tc) s) = Some r"
        using 2 s(1-3) e by (simp add: Let_def)
      with 1 s(4) show False by blast
    qed
  qed
  then show "P ms \<Longrightarrow> run_passes E tc n ms = None" by (cases "run_passes E tc n ms") auto
qed

lemma guarded_round:
  assumes "nextSubcaseStack s = [b]" "no_filters s" "reachedLeaf s = False" "subcaseStack s = []"
    and ab: "sig_ok a" "sig_ok b" "a \<noteq> b" and uv: "u \<noteq> v"
  shows "\<exists>s'. guarded_body a b src k ex u v s = Inr (Failed s') \<and> nextSubcaseStack s' = [b] \<and> no_filters s' \<and>
    cs_opt s' = cs_opt s"
proof -
  have "new_Subcase a s = Inr (False, s)"
    using assms(1-4) ab signature_eq [OF ab(2,1)] by (simp add: new_Subcase_def)
  moreover obtain rb where "binary_assert True False C_eq (DT REQUIRE EQ) src k ex u v s =
      Throws (throwException (counted rb (DT REQUIRE EQ) True s))"
    using require_eq [of src k ex u v s] uv by auto
  ultimately show ?thesis
    using assms(1-4) counted_sub_view(1-3) [of rb "DT REQUIRE EQ" True s]
    by (simp add: guarded_body_def sub_view_def throwException_def no_filters_def)
qed

lemma guarded_first_round:
  assumes "sub_view s = (False, [], [], {}, 0)" "no_filters s"
    and ab: "sig_ok a" "sig_ok b" "a \<noteq> b" "hash_stack [a] \<noteq> hash_stack [b]"
  shows "\<exists>s'. guarded_body a b src k ex u v s = Inr (Returned s') \<and> nextSubcaseStack s' = [b] \<and> no_filters s' \<and>
    cs_opt s' = cs_opt s"
proof -
  obtain s1 where s1: "new_Subcase a s = Inr (True, s1)" "sub_view s1 = (False, [a], [], {}, 1)"
    "no_filters s1" "cs_opt s1 = cs_opt s"
    using assms by (auto simp: new_Subcase_def sub_view_def checkFilters_none no_filters_def)
  let ?s2 = "destroy_Subcase False True s1"
  have s2: "sub_view ?s2 = (True, [a], [], {hash_stack [a]}, 0)" "no_filters ?s2" "cs_opt ?s2 = cs_opt s"
    using s1 by (auto simp: destroy_Subcase_def Let_def sub_view_def no_filters_def)
  obtain rb where rb: "binary_assert True False C_eq (DT REQUIRE EQ) src k ex v v ?s2 =
      Continues True (counted rb (DT REQUIRE EQ) False ?s2)"
    using require_eq [of src k ex v v ?s2] by auto
  let ?s3 = "counted rb (DT REQUIRE EQ) False ?s2"
  have s3: "sub_view ?s3 = (True, [a], [], {hash_stack [a]}, 0)" "no_filters ?s3" "cs_opt ?s3 = cs_opt s"
    using s2 by simp_all
  have "hash_pair (hash_stack_count [a] 0) (hash_SubcaseSignature b) \<noteq> hash_stack [a]"
    using ab(4) hash_snoc [of "[]" b] by (simp add: hash_stack_count_def)
  moreover have "\<not> SubcaseSignature_eq a b" using signature_eq [OF ab(1,2)] ab(3) by simp
  ultimately have "new_Subcase b ?s3 = Inr (False, ?s3\<lparr>nextSubcaseStack := [b]\<rparr>)"
    using s3 by (auto simp: new_Subcase_def sub_view_def checkFilters_none)
  then show ?thesis using s1(1) rb s3 by (simp add: guarded_body_def no_filters_def)
qed

text \<open>
  C20. The test case above never ends, whatever the two subcases, the place of the assertion and the two
  values are, as long as the subcases have different signatures and different hashes, the values differ,
  and the run is not to be aborted after a number of failed assertions: the first pass runs \<^verbatim>\<open>a\<close>; the
  second goes to \<^verbatim>\<open>b\<close>, fails at the assertion before it gets there, and leaves the path to \<^verbatim>\<open>b\<close> as the
  one to go to next, as does every later pass.
\<close>

theorem failing_guard_never_ends:
  assumes "\<forall>n. env_body E (tc_test tc) n = guarded_body a b src k ex u v" "no_filters s" "nextSubcaseStack s = []"
    "opt_abort_after (cs_opt s) \<le> 0" "sig_ok a" "sig_ok b" "a \<noteq> b" "hash_stack [a] \<noteq> hash_stack [b]" "u \<noteq> v"
  shows "execute_test E tc (sg, s) = None"
proof -
  let ?body = "guarded_body a b src k ex u v"
  let ?P = "\<lambda>(sg :: signal_state, s). nextSubcaseStack s = [b] \<and> no_filters s \<and> opt_abort_after (cs_opt s) \<le> 0"
  have later: "run_passes E tc n ms = None" if "?P ms" for n ms
  proof (rule run_passes_diverges [where P = ?P, OF _ that])
    fix n ms assume "?P ms"
    then obtain sg s where ms: "ms = (sg, s)" "nextSubcaseStack s = [b]" "no_filters s"
      "opt_abort_after (cs_opt s) \<le> 0" by (cases ms) auto
    obtain s' where s': "?body (start_pass s) = Inr (Failed s')" "nextSubcaseStack s' = [b]"
      "no_filters s'" "cs_opt s' = cs_opt (start_pass s)"
      using guarded_round [of "start_pass s" b a u v src k ex] ms assms(5-9) by (auto simp: start_pass_def no_filters_def)
    show "\<exists>sg s. one_pass E tc n ms = Inr (Goes_on (sg, s)) \<and> \<not> too_many_failed s \<and>
        nextSubcaseStack s \<noteq> [] \<and> ?P (sg, emit (test_case_reenter tc) s)"
      using s' ms assms(1)
      by (simp add: one_pass_def Let_def add_failure_flags_def too_many_failed_def no_filters_def start_pass_def)
  qed
  let ?b = "begin_test E tc s"
  have "sub_view (start_pass ?b) = (False, [], [], {}, 0)" "no_filters (start_pass ?b)"
    "cs_opt (start_pass ?b) = cs_opt ?b" "opt_abort_after (cs_opt ?b) \<le> 0"
    using assms(2-4)
    by (simp_all add: sub_view_def start_pass_def begin_test_def set_currentTest_def no_filters_def Let_def emit_def)
  then obtain s1 where s1: "?body (start_pass ?b) = Inr (Returned s1)" "nextSubcaseStack s1 = [b]"
    "no_filters s1" "opt_abort_after (cs_opt s1) \<le> 0"
    using guarded_first_round [of "start_pass ?b" a b src k ex u v] assms(5-8) by auto
  have "run_passes E tc 0 (sg, ?b) = None"
    using s1 assms(1) later by (subst run_passes.simps) (simp add: one_pass_def Let_def too_many_failed_def)
  then show ?thesis by (simp add: execute_test_def)
qed

theorem failing_guard_never_ends_witness:
  "execute_test \<lparr>env_body = \<lambda>_ _. guarded_body sig_a sig_b ''t.cpp'' 4 ''x, 1'' 0 1, env_translators = [],
       env_rand = \<lambda>_ _. 0, env_rnd = id, env_start = \<lambda>_. 0, env_stop = \<lambda>_. 0\<rparr>
     (new_TestCase 0 ''t.cpp'' 1 new_TestSuite '''' (-1))
     (\<lparr>sig_actions = \<lambda>_. Previous 0, old_actions = \<lambda>_. Previous 0, alt_stack = 0, old_stack = 0, fh_isSet = False\<rparr>,
      new_ContextState) = None"
proof -
  have "hash_stack [sig_a] \<noteq> hash_stack [sig_b]" "sig_a \<noteq> sig_b" "(0 :: int) \<noteq> 1"
    by (simp_all add: hash_stack_def hash_SubcaseSignature_def hash_pair_def hash_cstr_def schar_def sig_a_def sig_b_def)
  moreover have "sig_ok sig_a" "sig_ok sig_b" by (simp_all add: sig_ok_def NUL_def sig_a_def sig_b_def)
  ultimately show ?thesis
    by (intro failing_guard_never_ends [where a = sig_a and b = sig_b and u = 0 and v = 1])
      (simp_all add: no_filters_def new_ContextState_def raw_options_def)
qed

text \<open>Two test cases, and functions that return and fail, for the examples.\<close>

definition alpha_test :: TestCase where
  "alpha_test = TestCase_name ''alpha'' (new_TestCase 0 ''t.cpp'' 1 (TestSuite_name ''one'' new_TestSuite) '''' (-1))"

definition beta_test :: TestCase where
  "beta_test = TestCase_name ''beta'' (new_TestCase 1 ''t.cpp'' 9 (TestSuite_name ''one'' new_TestSuite) '''' (-1))"

definition sample_env :: env where
  "sample_env = \<lparr>env_body = \<lambda>k n s. Inr (if k = 0 then Returned s else Failed s), env_translators = [],
     env_rand = \<lambda>_ _. 0, env_rnd = id, env_start = \<lambda>_. 0, env_stop = \<lambda>_. 0\<rparr>"

definition sample_process :: process where
  "sample_process = \<lparr>g_cs = None, is_running_in_test = False, g_no_colors = False, pr_signals =
     \<lparr>sig_actions = \<lambda>_. Previous 0, old_actions = \<lambda>_. Previous 0, alt_stack = 0, old_stack = 0, fh_isSet = False\<rparr>,
     altStackMem = False\<rparr>"

text \<open>The options after the defaults: no order, and all test cases but those whose name begins with b.\<close>

definition sample_state :: ContextState where
  "sample_state = new_ContextState\<lparr>cs_filters := (replicate 9 [])[5 := [''b*'']],
     cs_opt := raw_options\<lparr>opt_order_by := ''none'', opt_last := 100\<rparr>\<rparr>"

lemma order_none: "opt_order_by q = ''none'' \<Longrightarrow> order_tests E q tests = tests"
  by (simp add: order_tests_def tolower_def schar_def)

lemma sample_order: "opt_order_by (cs_opt sample_state) = ''none''"
  by (simp add: sample_state_def raw_options_def)

lemma sample_selected: "selected sample_state [alpha_test, beta_test] = [alpha_test]"
  by (simp add: selected_eq out_of_range_def filtered_out_def Let_def matchesAny_def wildcmp_def chars_match_def
      alpha_test_def beta_test_def TestCase_name_def new_TestCase_def TestSuite_name_def new_TestSuite_def
      sample_state_def new_ContextState_def raw_options_def tolower_def schar_def)

theorem list_query_lists_selected_witness:
  "\<exists>p' s'. run sample_env 0 ([((0, ''console''), 0)], []) [alpha_test, beta_test]
       (sample_process, sample_state\<lparr>cs_opt := (cs_opt sample_state)\<lparr>opt_list_test_cases := True\<rparr>\<rparr>) =
     Some (Inr (Exit 0 p' s')) \<and>
     cs_log s' = [report_query \<lparr>query_run_stats = Some (cs_run s'), query_data = [alpha_test]\<rparr>]"
proof -
  let ?s = "sample_state\<lparr>cs_opt := (cs_opt sample_state)\<lparr>opt_list_test_cases := True\<rparr>\<rparr>"
  have "filtered_out ?s = filtered_out sample_state" by (simp add: filtered_out_def fun_eq_iff Let_def)
  then have "selected ?s [alpha_test, beta_test] = [alpha_test]"
    using sample_selected(1) by (simp add: selected_def Let_def)
  moreover have "order_tests sample_env (cs_opt ?s) [alpha_test, beta_test] = [alpha_test, beta_test]"
    by (rule order_none) (simp add: sample_order)
  ultimately show ?thesis
    using list_query_lists_selected [of ?s sample_env "[alpha_test, beta_test]" 0 "([((0, ''console''), 0)], [])"
        sample_process]
    by (auto simp: sample_state_def new_ContextState_def raw_options_def)
qed

theorem run_runs_selected_witness:
  "\<exists>code p' s'. run sample_env 0 ([((0, ''console''), 0)], []) [alpha_test, beta_test]
       (sample_process, sample_state) = Some (Inr (Exit code p' s')) \<and>
     started (cs_log s') = [alpha_test] \<and> g_cs p' = None"
proof -
  have "flat_tests sample_env" by (simp add: flat_tests_def sample_env_def keeps_def)
  then show ?thesis
    using run_runs_selected [of sample_env sample_state "[alpha_test, beta_test]" 0 "([((0, ''console''), 0)], [])"
        sample_process] sample_selected order_none [OF sample_order]
    by (auto simp: sample_state_def new_ContextState_def raw_options_def query_mode_def sample_process_def)
qed

theorem test_case_verdict_witness:
  "testCaseSuccess (cs_cur (finalizeTestCaseData id 0 (set_currentTest (Some (alpha_test\<lparr>tc_should_fail := True\<rparr>))
     (add_failure_flags FR_Exception new_ContextState))))"
  using test_case_verdict [of "set_currentTest (Some (alpha_test\<lparr>tc_should_fail := True\<rparr>))
      (add_failure_flags FR_Exception new_ContextState)" "alpha_test\<lparr>tc_should_fail := True\<rparr>" id 0]
  by (simp add: set_currentTest_def add_failure_flags_def FR_Exception_def new_ContextState_def)

theorem test_order_by_keys_witness:
  "std_sort nameOrderComparator [beta_test, alpha_test] =
     sort_key (\<lambda>t. (the (tc_name t), the (tc_test_suite t), file_key t)) [beta_test, alpha_test]"
  using test_order_by_keys [of "[beta_test, alpha_test]"]
  by (simp add: c_names_def alpha_test_def beta_test_def TestCase_name_def new_TestCase_def TestSuite_name_def
      new_TestSuite_def NUL_def)

end
