(* ===== verification/Doctest_Reporter.thy ===== *)
theory Doctest_Reporter
  imports Doctest_Run
begin

text \<open>
  What the reporters of \<^verbatim>\<open>src/Utils/doctest.h\<close> share: what they are told with each event, the
  settings they read, the text of an assertion, and the contract between a run and its reporters:
  the order in which events may come, as an automaton over phases, and the locale that says that a
  reporter can take every event that may come in its phase.
\<close>

section \<open>What a reporter is told\<close>

text \<open>
  An event comes with what a reporter can ask for at that moment: the active contexts as they print,
  the contexts kept from an exception, the first, second, ... reading of the clock while the event
  is handled, and the counters of the current context.
\<close>

record report =
  rp_event :: event
  rp_contexts :: "string list"
  rp_stringified :: "string list"
  rp_ticks :: "nat \<Rightarrow> 64 word"
  rp_stats :: TestRunStats

text \<open>
  The settings: the options, the registered reporters, whether colours are off and the output is a
  terminal, how a stream prints a \<open>double\<close>, by default and with six decimals, the rounding of
  arithmetic, and the present time as text.
\<close>

record settings =
  st_opt :: ContextOptions
  st_reporters :: "((int \<times> string) \<times> nat) list"
  st_listeners :: "((int \<times> string) \<times> nat) list"
  st_no_colors :: bool
  st_isatty :: bool
  st_double :: "double \<Rightarrow> string"
  st_fixed :: "double \<Rightarrow> string"
  st_rnd :: "double \<Rightarrow> double"
  st_timestamp :: string

definition col :: "settings \<Rightarrow> Color \<Rightarrow> string" where
  "col S c = color_to_stream (st_no_colors S) (st_isatty S) (opt_force_colors (st_opt S)) c"

definition VERSION_STR :: string where
  "VERSION_STR = ''2.4.9''"

text \<open>\<open>unsigned\<close> arguments and results.\<close>

definition to_unsigned :: "int \<Rightarrow> int" where
  "to_unsigned x = x mod 2 ^ 32"

definition reporter_line :: "settings \<Rightarrow> int \<Rightarrow> int" where
  "reporter_line S l = (if opt_no_line_numbers (st_opt S) then 0 else to_unsigned l)"

definition shown_file :: "settings \<Rightarrow> string \<Rightarrow> string" where
  "shown_file S f = skipPathFromFilename (opt_no_path_in_filenames (st_opt S)) f"

definition quoted :: "string \<Rightarrow> string" where
  "quoted t = [CHR 0x22] @ t @ [CHR 0x22]"

definition newline :: string where
  "newline = [CHR 0x0A]"

text \<open>The active contexts, one in a line, from the second on below the first.\<close>

fun context_lines :: "nat \<Rightarrow> string list \<Rightarrow> string" where
  "context_lines i [] = ''''"
| "context_lines i (c # cs) = (if i = 0 then '''' else ''          '') @ c @ newline @ context_lines (i + 1) cs"

section \<open>The text of an assertion\<close>

definition assert_name :: "assertType \<Rightarrow> string result" where
  "assert_name ty = (case assertString ty of None \<Rightarrow> Inl LogicError | Some t \<Rightarrow> Inr t)"

lemma assert_name_ok: "assertString ty \<noteq> None \<Longrightarrow> \<exists>n. assert_name ty = Inr n"
  by (auto simp: assert_name_def)

definition fulltext_throws_with_as :: "settings \<Rightarrow> AssertData \<Rightarrow> string \<Rightarrow> string" where
  "fulltext_throws_with_as S rb name =
     col S Cyan @ name @ ''( '' @ ad_expr rb @ '', '' @ quoted (StringContains_c_str (ad_exception_string rb)) @ '', '' @
     ad_exception_type rb @ '' ) '' @ col S Color_None @
     (if ad_threw rb then
        (if \<not> ad_failed rb then ''threw as expected!'' @ newline
         else ''threw a DIFFERENT exception! (contents: '' @ ad_exception rb @ '')'' @ newline)
      else ''did NOT throw at all!'' @ newline)"

definition fulltext_throws_as :: "settings \<Rightarrow> AssertData \<Rightarrow> string \<Rightarrow> string" where
  "fulltext_throws_as S rb name =
     col S Cyan @ name @ ''( '' @ ad_expr rb @ '', '' @ ad_exception_type rb @ '' ) '' @ col S Color_None @
     (if ad_threw rb then (if ad_threw_as rb then ''threw as expected!'' else ''threw a DIFFERENT exception: '')
      else ''did NOT throw at all!'') @
     col S Cyan @ ad_exception rb @ newline"

definition fulltext_throws_with :: "settings \<Rightarrow> AssertData \<Rightarrow> string \<Rightarrow> string" where
  "fulltext_throws_with S rb name =
     col S Cyan @ name @ ''( '' @ ad_expr rb @ '', '' @ quoted (StringContains_c_str (ad_exception_string rb)) @ '' ) '' @
     col S Color_None @
     (if ad_threw rb then (if \<not> ad_failed rb then ''threw as expected!'' else ''threw a DIFFERENT exception: '')
      else ''did NOT throw at all!'') @
     col S Cyan @ ad_exception rb @ newline"

definition fulltext_values :: "AssertData \<Rightarrow> string \<Rightarrow> string" where
  "fulltext_values rb name =
     (if ad_threw rb then ''THREW exception: ''
      else if \<not> ad_failed rb then ''is correct!'' @ newline else ''is NOT correct!'' @ newline) @
     (if ad_threw rb then ad_exception rb @ newline
      else ''  values: '' @ name @ ''( '' @ ad_decomp rb @ '' )'' @ newline)"

definition fulltext_log_assert_to_stream :: "settings \<Rightarrow> AssertData \<Rightarrow> string result" where
  "fulltext_log_assert_to_stream S rb =
     (let ty = ad_at rb in
      bindR (assert_name ty) (\<lambda>name. Inr (
        (if \<not> has_flag ty (or is_throws_as is_throws_with)
         then col S Cyan @ name @ ''( '' @ ad_expr rb @ '' ) '' @ col S Color_None else '''') @
        (if has_flag ty is_throws then
           (if ad_threw rb then ''threw as expected!'' else ''did NOT throw at all!'') @ newline
         else if has_flag ty is_throws_as \<and> has_flag ty is_throws_with then fulltext_throws_with_as S rb name
         else if has_flag ty is_throws_as then fulltext_throws_as S rb name
         else if has_flag ty is_throws_with then fulltext_throws_with S rb name
         else if has_flag ty is_nothrow then
           (if ad_threw rb then ''THREW exception: '' else ''didn't throw!'') @ col S Cyan @ ad_exception rb @ newline
         else fulltext_values rb name))))"

lemma fulltext_ok: "assertString (ad_at rb) \<noteq> None \<Longrightarrow> \<exists>t. fulltext_log_assert_to_stream S rb = Inr t"
  using assert_name_ok [of "ad_at rb"] by (auto simp: fulltext_log_assert_to_stream_def Let_def)

section \<open>The order of events\<close>

text \<open>Before the run, between test cases, inside of one with some subcases open, and at the end.\<close>

datatype phase = Before | Between | Inside nat | After

fun phase_step :: "phase \<Rightarrow> event \<Rightarrow> phase option" where
  "phase_step Before (report_query q) = Some After"
| "phase_step Before test_run_start = Some Between"
| "phase_step Between (test_case_start tc) = Some (Inside 0)"
| "phase_step Between (test_case_skipped tc) = Some Between"
| "phase_step Between (test_run_end st) = Some After"
| "phase_step (Inside d) (test_case_reenter tc) = (if d = 0 then Some (Inside 0) else None)"
| "phase_step (Inside d) (test_case_end st) = (if d = 0 then Some Between else None)"
| "phase_step (Inside d) (test_case_exception e) = Some (Inside d)"
| "phase_step (Inside d) (subcase_start sig) = Some (Inside (Suc d))"
| "phase_step (Inside d) subcase_end = (if d = 0 then None else Some (Inside (d - 1)))"
| "phase_step (Inside d) (log_assert rb) = Some (Inside d)"
| "phase_step (Inside d) (log_message mb) = Some (Inside d)"
| "phase_step p e = None"

fun phase_steps :: "phase \<Rightarrow> event list \<Rightarrow> phase option" where
  "phase_steps p [] = Some p"
| "phase_steps p (e # es) = (case phase_step p e of None \<Rightarrow> None | Some p' \<Rightarrow> phase_steps p' es)"

lemma phase_steps_append:
  "phase_steps p (es @ es') = (case phase_steps p es of None \<Rightarrow> None | Some p' \<Rightarrow> phase_steps p' es')"
  by (induction es arbitrary: p) (auto split: option.splits)

text \<open>
  What the data of an event has to satisfy: registered test cases have a name and a suite, the kind
  of an assertion is one of the macros', a query about tests comes with the statistics.
\<close>

definition named_test :: "TestCase \<Rightarrow> bool" where
  "named_test tc \<longleftrightarrow> tc_name tc \<noteq> None \<and> tc_test_suite tc \<noteq> None"

fun legal_event :: "ContextOptions \<Rightarrow> event \<Rightarrow> bool" where
  "legal_event q (report_query qd) \<longleftrightarrow>
     (query_run_stats qd \<noteq> None \<or> opt_list_reporters q \<or>
      \<not> (opt_count q \<or> opt_list_test_cases q \<or> opt_list_test_suites q)) \<and>
     (\<forall>tc \<in> set (query_data qd). named_test tc)"
| "legal_event q (test_case_start tc) \<longleftrightarrow> named_test tc"
| "legal_event q (test_case_skipped tc) \<longleftrightarrow> named_test tc"
| "legal_event q (test_case_reenter tc) \<longleftrightarrow> named_test tc"
| "legal_event q (log_assert rb) \<longleftrightarrow> assertString (ad_at rb) \<noteq> None"
| "legal_event q e \<longleftrightarrow> True"

text \<open>A reporter is told the events one by one.\<close>

fun reports :: "(report \<Rightarrow> 'r \<Rightarrow> 'r result) \<Rightarrow> report list \<Rightarrow> 'r \<Rightarrow> 'r result" where
  "reports handle [] r = Inr r"
| "reports handle (e # es) r = bindR (handle e r) (reports handle es)"

lemma reports_append: "reports handle (es @ es') r = bindR (reports handle es r) (reports handle es')"
  by (induction es arbitrary: r) (simp_all add: bindR_assoc bindR_def split: sum.splits)

text \<open>An outcome that is not a fault and satisfies a predicate.\<close>

definition yields :: "'a result \<Rightarrow> ('a \<Rightarrow> bool) \<Rightarrow> bool" where
  "yields m P \<longleftrightarrow> (\<exists>x. m = Inr x \<and> P x)"

lemma yields_Inr [simp]: "yields (Inr x) P = P x"
  by (simp add: yields_def)

lemma yields_Inl [simp]: "\<not> yields (Inl f) P"
  by (simp add: yields_def)

lemma yields_bind: "yields m P \<Longrightarrow> (\<And>x. P x \<Longrightarrow> yields (f x) Q) \<Longrightarrow> yields (bindR m f) Q"
  by (auto simp: yields_def)

lemma yields_mono: "yields m P \<Longrightarrow> (\<And>x. P x \<Longrightarrow> Q x) \<Longrightarrow> yields m Q"
  by (auto simp: yields_def)

locale reporter =
  fixes handle :: "report \<Rightarrow> 'r \<Rightarrow> 'r result"
    and ok :: "phase \<Rightarrow> 'r \<Rightarrow> bool"
    and legal :: "event \<Rightarrow> bool"
  assumes handle_ok: "ok p r \<Longrightarrow> phase_step p (rp_event e) = Some p' \<Longrightarrow> legal (rp_event e) \<Longrightarrow>
    yields (handle e r) (ok p')"
begin

lemma reports_ok:
  "ok p r \<Longrightarrow> phase_steps p (map rp_event es) = Some p' \<Longrightarrow> \<forall>e \<in> set es. legal (rp_event e) \<Longrightarrow>
   yields (reports handle es r) (ok p')"
proof (induction es arbitrary: p r)
  case (Cons e es)
  obtain p1 where p1: "phase_step p (rp_event e) = Some p1" "phase_steps p1 (map rp_event es) = Some p'"
    using Cons.prems(2) by (auto split: option.splits)
  have "yields (handle e r) (ok p1)" using handle_ok Cons.prems(1,3) p1(1) by simp
  then show ?case using Cons.IH [OF _ p1(2)] Cons.prems(3) by (auto intro: yields_bind)
qed simp

end

end
