(* ===== verification/Doctest_Xml.thy ===== *)
theory Doctest_Xml
  imports Doctest_Text
begin

text \<open>
  \<open>XmlEncode\<close> and \<open>XmlWriter\<close> of \<^verbatim>\<open>src/Utils/doctest.h\<close>. The encoder works on the bytes of a
  string by index; the writer is a record with the text written so far. The lemmas show that
  encoding never fails and what its output cannot contain, that plain text survives a round trip,
  and that writing a tree of elements prints it as the reference \<open>render\<close> does.
\<close>

section \<open>Encoding\<close>

text \<open>The error of \<open>trailingBytes\<close> and \<open>headerValue\<close>, a \<open>logic_error\<close>, is \<open>None\<close>.\<close>

definition byte :: "char \<Rightarrow> nat" where
  "byte c = of_char c"

definition trailingBytes :: "nat \<Rightarrow> nat option" where
  "trailingBytes c =
     (if and c 0xE0 = 0xC0 then Some 2
      else if and c 0xF0 = 0xE0 then Some 3
      else if and c 0xF8 = 0xF0 then Some 4 else None)"

definition headerValue :: "nat \<Rightarrow> nat option" where
  "headerValue c =
     (if and c 0xE0 = 0xC0 then Some (and c 0x1F)
      else if and c 0xF0 = 0xE0 then Some (and c 0x0F)
      else if and c 0xF8 = 0xF0 then Some (and c 0x07) else None)"

definition hex_digit :: "nat \<Rightarrow> char" where
  "hex_digit d = ''0123456789ABCDEF'' ! d"

definition hexEscapeChar :: "nat \<Rightarrow> string" where
  "hexEscapeChar c = [CHR 0x5C, CHR ''x'', hex_digit (c div 16), hex_digit (c mod 16)]"

text \<open>The trailing bytes: are they all continuation bytes, and which \<open>uint32_t\<close> results.\<close>

fun trailing_value :: "bool \<Rightarrow> nat \<Rightarrow> string \<Rightarrow> bool \<times> nat" where
  "trailing_value valid v [] = (valid, v)"
| "trailing_value valid v (nc # rest) =
     trailing_value (valid \<and> and (byte nc) 0xC0 = 0x80)
       (take_bit 32 (or (push_bit 6 v) (and (byte nc) 0x3F))) rest"

definition bad_utf8 :: "bool \<Rightarrow> nat \<Rightarrow> nat \<Rightarrow> bool" where
  "bad_utf8 valid v encBytes \<longleftrightarrow>
     \<not> valid \<or> v < 0x80 \<or> (v < 0x800 \<and> encBytes > 2) \<or> (0x800 < v \<and> v < 0x10000 \<and> encBytes > 3) \<or>
     v \<ge> 0x110000"

text \<open>A byte of UTF-8: what is written and by how much the index advances besides the loop.\<close>

definition encode_utf8 :: "string \<Rightarrow> nat \<Rightarrow> (string \<times> nat) option" where
  "encode_utf8 str idx =
     (let c = byte (str ! idx) in
      if c < 0xC0 \<or> c \<ge> 0xF8 then Some (hexEscapeChar c, 0)
      else case trailingBytes c of
        None \<Rightarrow> None
      | Some encBytes \<Rightarrow>
          if idx + encBytes - 1 \<ge> length str then Some (hexEscapeChar c, 0)
          else case headerValue c of
            None \<Rightarrow> None
          | Some v0 \<Rightarrow>
              let (valid, v) = trailing_value True v0 (take (encBytes - 1) (drop (idx + 1) str)) in
              if bad_utf8 valid v encBytes then Some (hexEscapeChar c, 0)
              else Some (take encBytes (drop idx str), encBytes - 1))"

definition encode_at :: "bool \<Rightarrow> string \<Rightarrow> nat \<Rightarrow> (string \<times> nat) option" where
  "encode_at ForAttributes str idx =
     (let ch = str ! idx; c = byte ch in
      if ch = CHR ''<'' then Some (''&lt;'', 0)
      else if ch = CHR ''&'' then Some (''&amp;'', 0)
      else if ch = CHR ''>'' then
        (if idx > 2 \<and> str ! (idx - 1) = CHR '']'' \<and> str ! (idx - 2) = CHR '']''
         then Some (''&gt;'', 0) else Some ([ch], 0))
      else if ch = CHR 0x22 then (if ForAttributes then Some (''&quot;'', 0) else Some ([ch], 0))
      else if c < 0x09 \<or> (c > 0x0D \<and> c < 0x20) \<or> c = 0x7F then Some (hexEscapeChar c, 0)
      else if c < 0x7F then Some ([ch], 0)
      else encode_utf8 str idx)"

function encode_loop :: "bool \<Rightarrow> string \<Rightarrow> nat \<Rightarrow> string option" where
  "encode_loop fa str idx =
     (if idx < length str
      then (case encode_at fa str idx of
          None \<Rightarrow> None
        | Some (out, k) \<Rightarrow> map_option ((@) out) (encode_loop fa str (idx + k + 1)))
      else Some [])"
  by pat_completeness auto
termination by (relation "measure (\<lambda>(fa, str, idx). length str - idx)") auto

declare encode_loop.simps [simp del]

definition encodeTo :: "bool \<Rightarrow> string \<Rightarrow> string option" where
  "encodeTo ForAttributes str = encode_loop ForAttributes str 0"

section \<open>The writer\<close>

record XmlWriter =
  xw_tagIsOpen :: bool
  xw_needsNewline :: bool
  xw_tags :: "string list"
  xw_indent :: string
  xw_os :: string

definition new_XmlWriter :: XmlWriter where
  "new_XmlWriter = \<lparr>xw_tagIsOpen = False, xw_needsNewline = False, xw_tags = [], xw_indent = '''', xw_os = ''''\<rparr>"

definition endl :: string where
  "endl = [CHR 0x0A]"

definition xw_put :: "string \<Rightarrow> XmlWriter \<Rightarrow> XmlWriter" where
  "xw_put t w = w\<lparr>xw_os := xw_os w @ t\<rparr>"

definition ensureTagClosed :: "XmlWriter \<Rightarrow> XmlWriter" where
  "ensureTagClosed w =
     (if xw_tagIsOpen w then (xw_put (''>'' @ endl) w)\<lparr>xw_tagIsOpen := False\<rparr> else w)"

definition newlineIfNecessary :: "XmlWriter \<Rightarrow> XmlWriter" where
  "newlineIfNecessary w =
     (if xw_needsNewline w then (xw_put endl w)\<lparr>xw_needsNewline := False\<rparr> else w)"

definition startElement :: "string \<Rightarrow> XmlWriter \<Rightarrow> XmlWriter" where
  "startElement name w =
     (let w = newlineIfNecessary (ensureTagClosed w) in
      (xw_put (xw_indent w @ ''<'' @ name) w)\<lparr>xw_tags := name # xw_tags w,
        xw_indent := xw_indent w @ ''  '', xw_tagIsOpen := True\<rparr>)"

text \<open>\<open>back\<close> and \<open>pop_back\<close> of the tags need an open element.\<close>

definition endElement :: "XmlWriter \<Rightarrow> XmlWriter result" where
  "endElement w =
     (let w = newlineIfNecessary w;
          ind = take (length (xw_indent w) - 2) (xw_indent w) in
      case xw_tags w of
        [] \<Rightarrow> Inl OutOfRange
      | tag # rest \<Rightarrow>
          (let t = (if xw_tagIsOpen w then ''/>'' else ind @ ''</'' @ tag @ ''>'') in
           Inr ((xw_put (t @ endl) w)\<lparr>xw_indent := ind, xw_tagIsOpen := False, xw_tags := rest\<rparr>)))"

definition writeAttribute :: "string \<Rightarrow> string \<Rightarrow> XmlWriter \<Rightarrow> XmlWriter" where
  "writeAttribute name attribute w =
     (if name \<noteq> '''' \<and> attribute \<noteq> ''''
      then xw_put ('' '' @ name @ ''='' @ [CHR 0x22] @ the (encodeTo True attribute) @ [CHR 0x22]) w
      else w)"

text \<open>The overload for \<open>const char*\<close>, which may be null.\<close>

definition writeAttribute_cstr :: "string \<Rightarrow> string option \<Rightarrow> XmlWriter \<Rightarrow> XmlWriter" where
  "writeAttribute_cstr name attribute w = (case attribute of
       None \<Rightarrow> w
     | Some a \<Rightarrow> if name \<noteq> '''' \<and> a \<noteq> ''''
         then xw_put ('' '' @ name @ ''='' @ [CHR 0x22] @ the (encodeTo True a) @ [CHR 0x22]) w else w)"

definition writeAttribute_bool :: "string \<Rightarrow> bool \<Rightarrow> XmlWriter \<Rightarrow> XmlWriter" where
  "writeAttribute_bool name attribute w =
     xw_put ('' '' @ name @ ''='' @ [CHR 0x22] @ (if attribute then ''true'' else ''false'') @ [CHR 0x22]) w"

text \<open>The template for other types prints through a stream; here for integers.\<close>

definition writeAttribute_int :: "string \<Rightarrow> int \<Rightarrow> XmlWriter \<Rightarrow> XmlWriter" where
  "writeAttribute_int name attribute w = writeAttribute name (toString_int attribute) w"

definition writeText :: "string \<Rightarrow> bool \<Rightarrow> XmlWriter \<Rightarrow> XmlWriter" where
  "writeText txt indent w =
     (if txt \<noteq> '''' then
        (let tagWasOpen = xw_tagIsOpen w;
             w = ensureTagClosed w;
             w = (if tagWasOpen \<and> indent then xw_put (xw_indent w) w else w) in
         (xw_put (the (encodeTo False txt)) w)\<lparr>xw_needsNewline := True\<rparr>)
      else w)"

definition writeDeclaration :: "XmlWriter \<Rightarrow> XmlWriter" where
  "writeDeclaration w =
     xw_put (''<?xml version='' @ [CHR 0x22] @ ''1.0'' @ [CHR 0x22] @ '' encoding='' @ [CHR 0x22] @ ''UTF-8'' @
       [CHR 0x22] @ ''?>'' @ endl) w"

text \<open>A \<open>ScopedElement\<close> ends its element when it goes out of scope: what is done with it is \<open>body\<close>.\<close>

definition scopedElement :: "string \<Rightarrow> (XmlWriter \<Rightarrow> XmlWriter) \<Rightarrow> XmlWriter \<Rightarrow> XmlWriter result" where
  "scopedElement name body w = endElement (body (startElement name w))"

text \<open>The destructor ends whatever is open.\<close>

fun end_elements :: "nat \<Rightarrow> XmlWriter \<Rightarrow> XmlWriter result" where
  "end_elements 0 w = Inr w"
| "end_elements (Suc n) w = bindR (endElement w) (end_elements n)"

definition destroy_XmlWriter :: "XmlWriter \<Rightarrow> XmlWriter result" where
  "destroy_XmlWriter w = end_elements (length (xw_tags w)) w"

section \<open>Facts about encoding\<close>

lemma byte_bound: "byte c < 256"
  by (simp add: byte_def)

lemma lead_byte_valid:
  assumes "0xC0 \<le> c" "c < 0xF8"
  shows "trailingBytes c \<noteq> None \<and> headerValue c \<noteq> None"
proof -
  have "\<forall>c \<in> set [192..<248]. trailingBytes c \<noteq> None \<and> headerValue c \<noteq> None"
    by (simp add: upt_rec_numeral trailingBytes_def headerValue_def del: set_upt)
  moreover have "c \<in> set [192..<248]" by (simp only: set_upt atLeastLessThan_iff) (use assms in simp)
  ultimately show ?thesis by (rule bspec)
qed

lemma encode_at_total: "encode_at fa str idx \<noteq> None"
  using lead_byte_valid [of "byte (str ! idx)"]
  by (auto simp: encode_at_def encode_utf8_def Let_def split: option.splits prod.splits)

lemma encode_loop_total: "encode_loop fa str idx \<noteq> None"
proof (induction fa str idx rule: encode_loop.induct)
  case (1 fa str idx)
  obtain out k where "encode_at fa str idx = Some (out, k)" using encode_at_total by fastforce
  with 1 show ?case by (subst encode_loop.simps) auto
qed

definition encoded :: "bool \<Rightarrow> string \<Rightarrow> nat \<Rightarrow> string" where
  "encoded fa str idx = the (encode_loop fa str idx)"

lemma encode_loop_encoded: "encode_loop fa str idx = Some (encoded fa str idx)"
  using encode_loop_total [of fa str idx] by (simp add: encoded_def)

lemma encoded_step:
  assumes "idx < length str" "encode_at fa str idx = Some (out, k)"
  shows "encoded fa str idx = out @ encoded fa str (idx + k + 1)"
proof -
  obtain r where "encode_loop fa str (idx + k + 1) = Some r" using encode_loop_total by fastforce
  then show ?thesis using assms by (simp add: encoded_def encode_loop.simps [of fa str idx])
qed

lemma encoded_end: "length str \<le> idx \<Longrightarrow> encoded fa str idx = []"
  unfolding encoded_def by (subst encode_loop.simps) simp

lemma encodeTo_encoded: "encodeTo fa str = Some (encoded fa str 0)"
  by (simp add: encodeTo_def encode_loop_encoded)

text \<open>
  What the encoder writes unescaped: no less-than sign, no DEL, of the control characters only those
  from tab to carriage return, and no quotation mark in an attribute.
\<close>

definition xml_safe :: "bool \<Rightarrow> char \<Rightarrow> bool" where
  "xml_safe fa c \<longleftrightarrow> c \<noteq> CHR ''<'' \<and> (fa \<longrightarrow> c \<noteq> CHR 0x22) \<and> byte c \<noteq> 0x7F \<and>
     (byte c \<ge> 0x20 \<or> (0x09 \<le> byte c \<and> byte c \<le> 0x0D))"

lemma hex_digit_safe:
  assumes "d < 16"
  shows "xml_safe fa (hex_digit d)"
proof -
  have "\<forall>x \<in> set ''0123456789ABCDEF''. xml_safe fa x" by (simp add: xml_safe_def byte_def)
  moreover have "hex_digit d \<in> set ''0123456789ABCDEF''"
    unfolding hex_digit_def by (rule nth_mem) (use assms in simp)
  ultimately show ?thesis by (rule bspec)
qed

lemma hexEscape_safe: "c < 256 \<Longrightarrow> x \<in> set (hexEscapeChar c) \<Longrightarrow> xml_safe fa x"
  using hex_digit_safe [of "c div 16" fa] hex_digit_safe [of "c mod 16" fa]
  by (auto simp: hexEscapeChar_def) (simp_all add: xml_safe_def byte_def)

lemma high_byte_safe: "0x80 \<le> byte c \<Longrightarrow> xml_safe fa c"
  by (auto simp: xml_safe_def byte_def)

lemma trailing_valid: "fst (trailing_value valid v rest) \<longleftrightarrow> valid \<and> (\<forall>c \<in> set rest. and (byte c) 0xC0 = 0x80)"
  by (induction valid v rest rule: trailing_value.induct) auto

lemma continuation_high: "and (byte c) 0xC0 = 0x80 \<Longrightarrow> 0x80 \<le> byte c"
proof -
  assume "and (byte c) 0xC0 = 0x80"
  then have "bit (and (byte c) 0xC0) 7" by (simp add: bit_iff_odd)
  then have "bit (byte c) 7" unfolding bit_and_iff by blast
  then show ?thesis by (intro leI notI) (simp add: bit_iff_odd)
qed

lemma encode_utf8_high:
  assumes "encode_utf8 str idx = Some (out, k)" "idx < length str" "out \<noteq> hexEscapeChar (byte (str ! idx))" "x \<in> set out"
  shows "0x80 \<le> byte x"
proof -
  let ?c = "byte (str ! idx)"
  obtain n v0 valid v where n: "trailingBytes ?c = Some n" and c: "0xC0 \<le> ?c"
    and t: "trailing_value True v0 (take (n - 1) (drop (idx + 1) str)) = (valid, v)" and "valid"
    and out: "out = take n (drop idx str)"
    using assms(1,3) by (auto simp: encode_utf8_def Let_def bad_utf8_def split: if_splits option.splits prod.splits)
  then have tail: "\<forall>c \<in> set (take (n - 1) (drop (idx + 1) str)). 0x80 \<le> byte c"
    using trailing_valid [of True v0 "take (n - 1) (drop (idx + 1) str)"] continuation_high by auto
  have "n \<noteq> 0" using n by (auto simp: trailingBytes_def split: if_splits)
  then have "take n (drop idx str) = str ! idx # take (n - 1) (drop (idx + 1) str)"
    using assms(2) by (cases n) (simp_all add: Cons_nth_drop_Suc [symmetric])
  then show ?thesis using tail c assms(4) out by auto
qed

lemma encode_utf8_safe:
  assumes "encode_utf8 str idx = Some (out, k)" "idx < length str" "x \<in> set out"
  shows "xml_safe fa x"
proof (cases "out = hexEscapeChar (byte (str ! idx))")
  case True
  then show ?thesis using assms(3) hexEscape_safe byte_bound by blast
next
  case False
  show ?thesis by (rule high_byte_safe) (rule encode_utf8_high [OF assms(1,2) False assms(3)])
qed

lemma encode_at_safe:
  assumes "encode_at fa str idx = Some (out, k)" "idx < length str" "x \<in> set out"
  shows "xml_safe fa x"
proof (cases "out = hexEscapeChar (byte (str ! idx)) \<or> encode_utf8 str idx = Some (out, k)")
  case True
  then show ?thesis using encode_utf8_safe assms(2,3) hexEscape_safe byte_bound by blast
next
  case False
  then show ?thesis using assms
    by (auto simp: encode_at_def Let_def xml_safe_def byte_def split: if_splits)
qed

lemma encoded_safe: "x \<in> set (encoded fa str idx) \<Longrightarrow> xml_safe fa x"
proof (induction fa str idx rule: encode_loop.induct)
  case (1 fa str idx)
  show ?case
  proof (cases "idx < length str")
    case True
    obtain out k where e: "encode_at fa str idx = Some (out, k)" using encode_at_total by fastforce
    then show ?thesis
      using "1.IH" [OF True e refl] "1.prems" encoded_step [OF True e] encode_at_safe [OF e True] by auto
  next
    case False
    with "1.prems" show ?thesis by (simp add: encoded_end)
  qed
qed

text \<open>Every ampersand begins one of the four entities the encoder writes.\<close>

fun amp_ok :: "string \<Rightarrow> bool" where
  "amp_ok [] = True"
| "amp_ok (c # s) \<longleftrightarrow>
     (c = CHR ''&'' \<longrightarrow> take 3 s = ''lt;'' \<or> take 3 s = ''gt;'' \<or> take 4 s = ''amp;'' \<or> take 5 s = ''quot;'') \<and> amp_ok s"

lemma take_prefix_append: "take n s = t \<Longrightarrow> length t = n \<Longrightarrow> take n (s @ s') = t"
  by auto

lemma amp_ok_append: "amp_ok s \<Longrightarrow> amp_ok s' \<Longrightarrow> amp_ok (s @ s')"
  by (induction s) (auto simp: take_prefix_append simp del: take_append)

lemma no_amp_ok: "CHR ''&'' \<notin> set s \<Longrightarrow> amp_ok s"
  by (induction s) auto

lemma hex_digit_no_amp: "d < 16 \<Longrightarrow> hex_digit d \<noteq> CHR ''&''"
proof -
  assume "d < 16"
  then have "hex_digit d \<in> set ''0123456789ABCDEF''" unfolding hex_digit_def by (intro nth_mem) simp
  then show ?thesis by auto
qed

lemma hexEscape_no_amp: "c < 256 \<Longrightarrow> CHR ''&'' \<notin> set (hexEscapeChar c)"
  using hex_digit_no_amp [of "c div 16"] hex_digit_no_amp [of "c mod 16"]
  by (auto simp: hexEscapeChar_def div_less_iff_less_mult)

lemma encode_at_amp:
  assumes e: "encode_at fa str idx = Some (out, k)" and idx: "idx < length str"
  shows "amp_ok out"
proof -
  let ?c = "byte (str ! idx)"
  consider "out = hexEscapeChar ?c" | "encode_utf8 str idx = Some (out, k)" "out \<noteq> hexEscapeChar ?c"
    | "out \<in> {''&lt;'', ''&gt;'', ''&amp;'', ''&quot;''}" | "out = [str ! idx]" "str ! idx \<noteq> CHR ''&''"
    using e by (auto simp: encode_at_def Let_def split: if_splits)
  then show ?thesis
  proof cases
    case 1
    then show ?thesis using no_amp_ok hexEscape_no_amp byte_bound by blast
  next
    case 2
    have "0x80 \<le> byte x" if "x \<in> set out" for x by (rule encode_utf8_high [OF 2(1) idx 2(2) that])
    then show ?thesis by (intro no_amp_ok) (force simp: byte_def)
  next
    case 3
    then show ?thesis by auto
  next
    case 4
    then show ?thesis by (intro no_amp_ok) simp
  qed
qed

lemma encoded_amp: "amp_ok (encoded fa str idx)"
proof (induction fa str idx rule: encode_loop.induct)
  case (1 fa str idx)
  show ?case
  proof (cases "idx < length str")
    case True
    obtain out k where e: "encode_at fa str idx = Some (out, k)" using encode_at_total by fastforce
    then show ?thesis
      using "1.IH" [OF True e refl] encoded_step [OF True e] encode_at_amp [OF e True] amp_ok_append by simp
  next
    case False
    then show ?thesis by (simp add: encoded_end)
  qed
qed

section \<open>Reading text back\<close>

text \<open>The entities the encoder writes, replaced by the characters they stand for.\<close>

function xml_decode :: "string \<Rightarrow> string" where
  "xml_decode s =
     (if s = [] then []
      else if take 4 s = ''&lt;'' then CHR ''<'' # xml_decode (drop 4 s)
      else if take 4 s = ''&gt;'' then CHR ''>'' # xml_decode (drop 4 s)
      else if take 5 s = ''&amp;'' then CHR ''&'' # xml_decode (drop 5 s)
      else if take 6 s = ''&quot;'' then CHR 0x22 # xml_decode (drop 6 s)
      else hd s # xml_decode (tl s))"
  by pat_completeness auto
termination by (relation "measure length") auto

declare xml_decode.simps [simp del]

lemma xml_decode_simps [simp]:
  "xml_decode [] = []"
  "xml_decode (''&lt;'' @ s) = CHR ''<'' # xml_decode s"
  "xml_decode (''&gt;'' @ s) = CHR ''>'' # xml_decode s"
  "xml_decode (''&amp;'' @ s) = CHR ''&'' # xml_decode s"
  "xml_decode (''&quot;'' @ s) = CHR 0x22 # xml_decode s"
  by (subst xml_decode.simps, simp)+

lemma xml_decode_plain: "c \<noteq> CHR ''&'' \<Longrightarrow> xml_decode (c # s) = c # xml_decode s"
  by (subst xml_decode.simps) simp

text \<open>Printable ASCII and white space: what is written without hexadecimal escapes.\<close>

definition plain_char :: "char \<Rightarrow> bool" where
  "plain_char c \<longleftrightarrow> byte c < 0x7F \<and> (byte c \<ge> 0x20 \<or> (0x09 \<le> byte c \<and> byte c \<le> 0x0D))"

lemma decode_encode_at:
  assumes "plain_char (str ! idx)"
  shows "\<exists>out. encode_at fa str idx = Some (out, 0) \<and> (\<forall>s. xml_decode (out @ s) = str ! idx # xml_decode s)"
proof -
  let ?c = "str ! idx"
  consider "?c = CHR ''<''" | "?c = CHR ''&''" | "?c = CHR ''>''" | "?c = CHR 0x22"
    | "?c \<notin> {CHR ''<'', CHR ''&'', CHR ''>'', CHR 0x22}" by blast
  then show ?thesis
  proof cases
    case 5
    then have "encode_at fa str idx = Some ([?c], 0)"
      using assms by (auto simp: encode_at_def Let_def plain_char_def)
    with 5 show ?thesis by (auto simp: xml_decode_plain)
  qed (simp_all add: encode_at_def Let_def xml_decode_plain xml_decode_simps [simplified])
qed

lemma decode_encoded:
  "\<forall>c \<in> set str. plain_char c \<Longrightarrow> xml_decode (encoded fa str idx) = drop idx str"
proof (induction fa str idx rule: encode_loop.induct)
  case (1 fa str idx)
  show ?case
  proof (cases "idx < length str")
    case True
    then obtain out where e: "encode_at fa str idx = Some (out, 0)"
      and d: "\<And>s. xml_decode (out @ s) = str ! idx # xml_decode s"
      using decode_encode_at [of str idx fa] "1.prems" by auto
    show ?thesis
      using "1.IH" [OF True e refl] "1.prems" encoded_step [OF True e] True by (simp add: d Cons_nth_drop_Suc)
  next
    case False
    then show ?thesis by (simp add: encoded_end)
  qed
qed

section \<open>Writing trees\<close>

text \<open>
  Elements with attributes that hold other elements, and elements with text, indented or not. \<open>render\<close>
  prints a tree with two spaces per level.
\<close>

datatype xml_node =
    Node string "(string \<times> string) list" "xml_node list"
  | Leaf string "(string \<times> string) list" bool string

definition write_attributes :: "(string \<times> string) list \<Rightarrow> XmlWriter \<Rightarrow> XmlWriter" where
  "write_attributes attrs w = fold (\<lambda>(n, a). writeAttribute n a) attrs w"

fun write_node :: "xml_node \<Rightarrow> XmlWriter \<Rightarrow> XmlWriter result"
  and write_nodes :: "xml_node list \<Rightarrow> XmlWriter \<Rightarrow> XmlWriter result" where
  "write_node (Node name attrs children) w =
     bindR (write_nodes children (write_attributes attrs (startElement name w))) endElement"
| "write_node (Leaf name attrs indented txt) w =
     scopedElement name (\<lambda>w. writeText txt indented (write_attributes attrs w)) w"
| "write_nodes [] w = Inr w"
| "write_nodes (n # ns) w = bindR (write_node n w) (write_nodes ns)"

definition render_attribute :: "string \<times> string \<Rightarrow> string" where
  "render_attribute na = (case na of (n, a) \<Rightarrow>
     if n \<noteq> '''' \<and> a \<noteq> '''' then '' '' @ n @ ''='' @ [CHR 0x22] @ the (encodeTo True a) @ [CHR 0x22] else '''')"

definition render_open :: "string \<Rightarrow> string \<Rightarrow> (string \<times> string) list \<Rightarrow> string" where
  "render_open ind name attrs = ind @ ''<'' @ name @ concat (List.map render_attribute attrs)"

fun render :: "string \<Rightarrow> xml_node \<Rightarrow> string" where
  "render ind (Node name attrs children) =
     render_open ind name attrs @
     (if children = [] then ''/>'' @ endl
      else ''>'' @ endl @ concat (List.map (render (ind @ ''  '')) children) @ ind @ ''</'' @ name @ ''>'' @ endl)"
| "render ind (Leaf name attrs indented txt) =
     render_open ind name attrs @
     (if txt = '''' then ''/>'' @ endl
      else ''>'' @ endl @ (if indented then ind @ ''  '' else []) @ the (encodeTo False txt) @ endl @ ind @ ''</'' @ name @ ''>'' @ endl)"

text \<open>The writer between elements: the parent's tag closed and a pending line break written.\<close>

definition settled :: "XmlWriter \<Rightarrow> XmlWriter" where
  "settled w = newlineIfNecessary (ensureTagClosed w)"

lemma xw_put_fields [simp]:
  "xw_tagIsOpen (xw_put t w) = xw_tagIsOpen w" "xw_needsNewline (xw_put t w) = xw_needsNewline w"
  "xw_tags (xw_put t w) = xw_tags w" "xw_indent (xw_put t w) = xw_indent w"
  "xw_os (xw_put t w) = xw_os w @ t"
  by (simp_all add: xw_put_def)

lemma xw_put_put: "xw_put b (xw_put a w) = xw_put (a @ b) w"
  by (simp add: xw_put_def)

lemma settled_fields [simp]:
  "xw_tagIsOpen (settled w) = False" "xw_needsNewline (settled w) = False"
  "xw_tags (settled w) = xw_tags w" "xw_indent (settled w) = xw_indent w"
  by (simp_all add: settled_def newlineIfNecessary_def ensureTagClosed_def)

lemma settled_id: "\<not> xw_tagIsOpen w \<Longrightarrow> \<not> xw_needsNewline w \<Longrightarrow> settled w = w"
  by (simp add: settled_def newlineIfNecessary_def ensureTagClosed_def)

lemma writeAttribute_put: "writeAttribute n a w = xw_put (render_attribute (n, a)) w"
  by (simp add: writeAttribute_def render_attribute_def xw_put_def)

lemma write_attributes_put:
  "write_attributes attrs w = xw_put (concat (List.map render_attribute attrs)) w"
  unfolding write_attributes_def
proof (induction attrs arbitrary: w)
  case Nil
  then show ?case by (simp add: xw_put_def)
next
  case (Cons na attrs)
  then show ?case by (cases na) (simp add: writeAttribute_put xw_put_put)
qed

lemma startElement_attributes:
  "write_attributes attrs (startElement name w) =
     (settled w)\<lparr>xw_os := xw_os (settled w) @ render_open (xw_indent w) name attrs,
       xw_tags := name # xw_tags w, xw_indent := xw_indent w @ ''  '', xw_tagIsOpen := True\<rparr>"
  by (simp add: write_attributes_put startElement_def Let_def render_open_def settled_def [symmetric]
      xw_put_def)

text \<open>Writing a node or a list of nodes appends what \<open>render\<close> prints.\<close>

lemma write_node_render:
  "write_node n w = Inr ((settled w)\<lparr>xw_os := xw_os (settled w) @ render (xw_indent w) n\<rparr>)"
  "write_nodes ns w = Inr (if ns = [] then w
     else (settled w)\<lparr>xw_os := xw_os (settled w) @ concat (List.map (render (xw_indent w)) ns)\<rparr>)"
proof (induction n w and ns w rule: write_node_write_nodes.induct)
  case (1 name attrs children w)
  let ?w = "write_attributes attrs (startElement name w)"
  show ?case
  proof (cases "children = []")
    case True
    then show ?thesis
      by (simp add: startElement_attributes endElement_def newlineIfNecessary_def xw_put_def)
  next
    case False
    have s: "settled ?w = ?w\<lparr>xw_os := xw_os ?w @ ''>'' @ endl, xw_tagIsOpen := False\<rparr>"
      by (simp add: startElement_attributes settled_def newlineIfNecessary_def ensureTagClosed_def xw_put_def)
    show ?thesis
      using False by (simp add: 1 s) (simp add: startElement_attributes endElement_def newlineIfNecessary_def xw_put_def Let_def)
  qed
next
  case (2 name attrs indented content w)
  then show ?case
    by (simp add: scopedElement_def startElement_attributes endElement_def writeText_def Let_def
        newlineIfNecessary_def ensureTagClosed_def xw_put_def)
next
  case (4 n ns w)
  then show ?case by (cases "ns = []") (simp_all add: settled_id)
qed simp

lemma endElement_tags:
  assumes "xw_tags w = t # rest"
  shows "\<exists>w1. endElement w = Inr w1 \<and> xw_tags w1 = rest"
proof -
  have "xw_tags (newlineIfNecessary w) = t # rest" by (simp add: newlineIfNecessary_def assms)
  then show ?thesis by (simp add: endElement_def Let_def)
qed

lemma end_elements_tags:
  "length (xw_tags w) = n \<Longrightarrow> \<exists>w'. end_elements n w = Inr w' \<and> xw_tags w' = []"
proof (induction n arbitrary: w)
  case (Suc n)
  then obtain t rest where t: "xw_tags w = t # rest" "length rest = n" by (cases "xw_tags w") auto
  then obtain w1 where "endElement w = Inr w1" "xw_tags w1 = rest"
    using endElement_tags by blast
  then show ?case using Suc.IH [of w1] t(2) by simp
qed simp

section \<open>Properties\<close>

text \<open>
  C22. Encoding never throws, on any bytes, and in what it writes every ampersand begins one of the
  entities for the four special characters, there is no less-than sign, no DEL, no quotation mark in an
  attribute, and no control character but those from tab to carriage return. The vertical tab and the
  form feed are among these, and are written as they are although XML 1.0 does not allow them.
\<close>

theorem XmlEncode_safe:
  "\<exists>out. encodeTo ForAttributes str = Some out \<and> amp_ok out \<and> list_all (xml_safe ForAttributes) out"
  using encoded_safe encoded_amp by (auto simp: encodeTo_encoded list_all_iff)

lemma XmlEncode_form_feed: "encodeTo fa [CHR 0x0B, CHR 0x0C] = Some [CHR 0x0B, CHR 0x0C]"
  by (simp add: encodeTo_def encode_loop.simps encode_at_def byte_def Let_def)

text \<open>
  C24. Round trip: text of printable ASCII and white space is read back unchanged from its
  encoding, in element text and in attributes.
\<close>

theorem XmlEncode_roundtrip:
  assumes "\<forall>c \<in> set str. plain_char c"
  shows "map_option xml_decode (encodeTo ForAttributes str) = Some str"
  using decode_encoded [OF assms, of ForAttributes 0] by (simp add: encodeTo_encoded)

theorem XmlEncode_roundtrip_witness:
  "encodeTo True ''a<b]]>&c'' = Some ''a&lt;b]]&gt;&amp;c'' \<and>
   map_option xml_decode (encodeTo True ''a<b]]>&c'') = Some ''a<b]]>&c''"
proof -
  have "encodeTo True ''a<b]]>&c'' = Some ''a&lt;b]]&gt;&amp;c''"
    by (simp add: encodeTo_def encode_loop.simps encode_at_def byte_def Let_def)
  moreover have "map_option xml_decode (encodeTo True ''a<b]]>&c'') = Some ''a<b]]>&c''"
    by (rule XmlEncode_roundtrip) (simp add: plain_char_def byte_def)
  ultimately show ?thesis by blast
qed

text \<open>
  C23. Writing a tree of elements with attributes and text through the calls of the writer appends
  exactly its rendering with two spaces of indentation per level, after closing the tag of the
  parent and a pending line break, and leaves the open elements as they were.
\<close>

theorem XmlWriter_renders_trees:
  "write_node n w = Inr ((settled w)\<lparr>xw_os := xw_os (settled w) @ render (xw_indent w) n\<rparr>)"
  by (rule write_node_render)

end
