(* ===== verification/Doctest_Xml_Reporter.thy ===== *)
theory Doctest_Xml_Reporter
  imports Doctest_Reporter Doctest_Xml
begin

text \<open>
  \<open>XmlReporter\<close> of \<^verbatim>\<open>src/Utils/doctest.h\<close>: every event of a run is written through an \<open>XmlWriter\<close>.
  The suites are elements that stay open from one test case to the next. The lemmas show that for
  the events of a run the writer never ends an element that is not open, and ends all of them.
\<close>

section \<open>The reporter\<close>

record XmlReporter =
  xr_xml :: XmlWriter
  xr_tc :: "TestCase option"

definition new_XmlReporter :: XmlReporter where
  "new_XmlReporter = \<lparr>xr_xml = new_XmlWriter, xr_tc = None\<rparr>"

text \<open>Calls of the writer one after the other, as the source chains them.\<close>

definition xml_ops :: "(XmlWriter \<Rightarrow> XmlWriter) list \<Rightarrow> XmlWriter \<Rightarrow> XmlWriter" where
  "xml_ops fs w = fold (\<lambda>f. f) fs w"

fun xml_contexts :: "string list \<Rightarrow> XmlWriter \<Rightarrow> XmlWriter result" where
  "xml_contexts [] w = Inr w"
| "xml_contexts (c # cs) w = bindR (scopedElement ''Info'' (writeText c True) w) (xml_contexts cs)"

definition xml_test_case_start_impl :: "settings \<Rightarrow> TestCase \<Rightarrow> XmlReporter \<Rightarrow> XmlReporter result" where
  "xml_test_case_start_impl S tc r =
     (let open_ts_tag = (case xr_tc r of
            Some old \<Rightarrow> strcmp (the (tc_test_suite old)) (the (tc_test_suite tc)) \<noteq> 0 | None \<Rightarrow> True) in
      bindR (if xr_tc r \<noteq> None \<and> open_ts_tag then endElement (xr_xml r) else Inr (xr_xml r)) (\<lambda>x.
        let x = (if open_ts_tag
                 then xml_ops [startElement ''TestSuite'', writeAttribute_cstr ''name'' (tc_test_suite tc)] x else x);
            x = xml_ops [startElement ''TestCase'', writeAttribute_cstr ''name'' (tc_name tc),
                 writeAttribute_cstr ''filename'' (Some (shown_file S (tc_file tc))),
                 writeAttribute_int ''line'' (reporter_line S (int (tc_line tc))),
                 writeAttribute_cstr ''description'' (tc_description tc)] x;
            x = (if Approx_ne (st_rnd S) 0 (new_Approx (st_rnd S) (tc_timeout tc))
                 then writeAttribute ''timeout'' (st_double S (tc_timeout tc)) x else x);
            x = (if tc_may_fail tc then writeAttribute_bool ''may_fail'' True x else x);
            x = (if tc_should_fail tc then writeAttribute_bool ''should_fail'' True x else x) in
        Inr \<lparr>xr_xml = x, xr_tc = Some tc\<rparr>))"

definition xml_test_run_start :: "settings \<Rightarrow> XmlWriter \<Rightarrow> XmlWriter result" where
  "xml_test_run_start S w =
     (let q = st_opt S;
          w = xml_ops [writeDeclaration, startElement ''doctest'',
            writeAttribute ''binary'' (shown_file S (opt_binary_name q))] w;
          w = (if \<not> opt_no_version q then writeAttribute_cstr ''version'' (Some VERSION_STR) w else w) in
      scopedElement ''Options'' (xml_ops
        [writeAttribute_cstr ''order_by'' (Some (opt_order_by q)),
         writeAttribute_int ''rand_seed'' (uint (opt_rand_seed q)),
         writeAttribute_int ''first'' (uint (opt_first q)), writeAttribute_int ''last'' (uint (opt_last q)),
         writeAttribute_int ''abort_after'' (opt_abort_after q),
         writeAttribute_int ''subcase_filter_levels'' (opt_subcase_filter_levels q),
         writeAttribute_bool ''case_sensitive'' (opt_case_sensitive q),
         writeAttribute_bool ''no_throw'' (opt_no_throw q), writeAttribute_bool ''no_skip'' (opt_no_skip q)]) w)"

fun xml_each :: "('a \<Rightarrow> XmlWriter \<Rightarrow> XmlWriter result) \<Rightarrow> 'a list \<Rightarrow> XmlWriter \<Rightarrow> XmlWriter result" where
  "xml_each f [] w = Inr w"
| "xml_each f (a # as) w = bindR (f a w) (xml_each f as)"

definition xml_registered :: "string \<Rightarrow> (int \<times> string) \<times> nat \<Rightarrow> XmlWriter \<Rightarrow> XmlWriter result" where
  "xml_registered name r = scopedElement name (xml_ops
     [writeAttribute_int ''priority'' (fst (fst r)), writeAttribute ''name'' (snd (fst r))])"

definition xml_listed_test :: "settings \<Rightarrow> TestCase \<Rightarrow> XmlWriter \<Rightarrow> XmlWriter result" where
  "xml_listed_test S tc = scopedElement ''TestCase'' (xml_ops
     [writeAttribute_cstr ''name'' (tc_name tc), writeAttribute_cstr ''testsuite'' (tc_test_suite tc),
      writeAttribute_cstr ''filename'' (Some (shown_file S (tc_file tc))),
      writeAttribute_int ''line'' (reporter_line S (int (tc_line tc))),
      writeAttribute_bool ''skipped'' (tc_skip tc)])"

definition xml_unskipped :: "string \<Rightarrow> nat \<Rightarrow> XmlWriter \<Rightarrow> XmlWriter result" where
  "xml_unskipped name n = scopedElement name (writeAttribute_int ''unskipped'' (to_unsigned (int n)))"

definition xml_report_query :: "settings \<Rightarrow> QueryData \<Rightarrow> XmlWriter \<Rightarrow> XmlWriter result" where
  "xml_report_query S qd w =
     (let q = st_opt S in
      bindR (xml_test_run_start S w) (\<lambda>w.
      bindR
        (if opt_list_reporters q then
           bindR (xml_each (xml_registered ''Listener'') (st_listeners S) w)
             (xml_each (xml_registered ''Reporter'') (st_reporters S))
         else if opt_count q \<or> opt_list_test_cases q then
           bindR (xml_each (xml_listed_test S) (query_data qd) w) (\<lambda>w. case query_run_stats qd of
               None \<Rightarrow> Inl NullPointer
             | Some st \<Rightarrow> xml_unskipped ''OverallResultsTestCases'' (numTestCasesPassingFilters st) w)
         else if opt_list_test_suites q then
           bindR (xml_each (\<lambda>tc. scopedElement ''TestSuite'' (writeAttribute_cstr ''name'' (tc_test_suite tc)))
               (query_data qd) w) (\<lambda>w. case query_run_stats qd of
               None \<Rightarrow> Inl NullPointer
             | Some st \<Rightarrow> bindR (xml_unskipped ''OverallResultsTestCases'' (numTestCasesPassingFilters st) w)
                 (xml_unskipped ''OverallResultsTestSuites'' (numTestSuitesPassingFilters st)))
         else Inr w)
      endElement))"

definition xml_test_run_end :: "settings \<Rightarrow> TestRunStats \<Rightarrow> TestCase option \<Rightarrow> XmlWriter \<Rightarrow> XmlWriter result" where
  "xml_test_run_end S p tc w =
     bindR (if tc \<noteq> None then endElement w else Inr w) (\<lambda>w.
     bindR (scopedElement ''OverallResultsAsserts'' (xml_ops
        [writeAttribute_int ''successes'' (c_int (numAsserts p - numAssertsFailed p)),
         writeAttribute_int ''failures'' (numAssertsFailed p)]) w) (\<lambda>w.
     let w = xml_ops [startElement ''OverallResultsTestCases'',
            writeAttribute_int ''successes''
              (to_unsigned (int (numTestCasesPassingFilters p) - int (numTestCasesFailed p))),
            writeAttribute_int ''failures'' (to_unsigned (int (numTestCasesFailed p)))] w;
         w = (if \<not> opt_no_skipped_summary (st_opt S)
              then writeAttribute_int ''skipped'' (to_unsigned (int (numTestCases p) - int (numTestCasesPassingFilters p))) w
              else w) in
     bindR (endElement w) endElement))"

definition xml_test_case_end ::
  "settings \<Rightarrow> CurrentTestCaseStats \<Rightarrow> TestCase \<Rightarrow> XmlWriter \<Rightarrow> XmlWriter result" where
  "xml_test_case_end S st tc w =
     (let w = xml_ops [startElement ''OverallResultsAsserts'',
            writeAttribute_int ''successes'' (c_int (numAssertsCurrentTest st - numAssertsFailedCurrentTest st)),
            writeAttribute_int ''failures'' (numAssertsFailedCurrentTest st),
            writeAttribute_bool ''test_case_success'' (testCaseSuccess st)] w;
          w = (if opt_duration (st_opt S) then writeAttribute ''duration'' (st_double S (seconds st)) w else w);
          w = (if tc_expected_failures tc \<noteq> 0
               then writeAttribute_int ''expected_failures'' (tc_expected_failures tc) w else w) in
      bindR (endElement w) endElement)"

definition xml_test_case_exception :: "TestCaseException \<Rightarrow> XmlWriter \<Rightarrow> XmlWriter result" where
  "xml_test_case_exception e =
     scopedElement ''Exception'' (xml_ops [writeAttribute_bool ''crash'' (is_crash e), writeText (error_string e) True])"

definition xml_subcase_start :: "settings \<Rightarrow> SubcaseSignature \<Rightarrow> XmlWriter \<Rightarrow> XmlWriter" where
  "xml_subcase_start S sig = xml_ops
     [startElement ''SubCase'', writeAttribute ''name'' (sig_name sig),
      writeAttribute_cstr ''filename'' (Some (shown_file S (sig_file sig))),
      writeAttribute_int ''line'' (reporter_line S (sig_line sig)), ensureTagClosed]"

definition xml_log_assert :: "settings \<Rightarrow> string list \<Rightarrow> AssertData \<Rightarrow> XmlWriter \<Rightarrow> XmlWriter result" where
  "xml_log_assert S contexts rb w =
     (if \<not> ad_failed rb \<and> \<not> opt_success (st_opt S) then Inr w
      else bindR (assert_name (ad_at rb)) (\<lambda>name.
        let w = xml_ops [startElement ''Expression'', writeAttribute_bool ''success'' (\<not> ad_failed rb),
              writeAttribute_cstr ''type'' (Some name),
              writeAttribute_cstr ''filename'' (Some (shown_file S (ad_file rb))),
              writeAttribute_int ''line'' (reporter_line S (ad_line rb))] w in
        bindR (scopedElement ''Original'' (writeText (ad_expr rb) True) w) (\<lambda>w.
        bindR (if ad_threw rb then scopedElement ''Exception'' (writeText (ad_exception rb) True) w else Inr w) (\<lambda>w.
        bindR (if has_flag (ad_at rb) is_throws_as
               then scopedElement ''ExpectedException'' (writeText (ad_exception_type rb) True) w else Inr w) (\<lambda>w.
        bindR (if has_flag (ad_at rb) is_throws_with
               then scopedElement ''ExpectedExceptionString''
                 (writeText (StringContains_c_str (ad_exception_string rb)) True) w else Inr w) (\<lambda>w.
        bindR (if has_flag (ad_at rb) is_normal \<and> \<not> ad_threw rb
               then scopedElement ''Expanded'' (writeText (ad_decomp rb) True) w else Inr w) (\<lambda>w.
        bindR (xml_contexts contexts w) endElement)))))))"

definition xml_log_message :: "settings \<Rightarrow> string list \<Rightarrow> MessageData \<Rightarrow> XmlWriter \<Rightarrow> XmlWriter result" where
  "xml_log_message S contexts mb w =
     (let w = xml_ops [startElement ''Message'', writeAttribute_cstr ''type'' (Some (failureString (md_severity mb))),
            writeAttribute_cstr ''filename'' (Some (shown_file S (md_file mb))),
            writeAttribute_int ''line'' (reporter_line S (md_line mb))] w in
      bindR (scopedElement ''Text'' (writeText (md_string mb) True) w) (\<lambda>w.
      bindR (xml_contexts contexts w) endElement))"

definition xml_test_case_skipped :: "settings \<Rightarrow> TestCase \<Rightarrow> XmlReporter \<Rightarrow> XmlReporter result" where
  "xml_test_case_skipped S tc r =
     (if \<not> opt_no_skipped_summary (st_opt S) then
        bindR (xml_test_case_start_impl S tc r) (\<lambda>r.
        bindR (endElement (writeAttribute_cstr ''skipped'' (Some ''true'') (xr_xml r))) (\<lambda>x.
        Inr (r\<lparr>xr_xml := x\<rparr>)))
      else Inr r)"

text \<open>The overrides of the reporter's interface.\<close>

definition on_xml :: "(XmlWriter \<Rightarrow> XmlWriter result) \<Rightarrow> XmlReporter \<Rightarrow> XmlReporter result" where
  "on_xml f r = bindR (f (xr_xml r)) (\<lambda>x. Inr (r\<lparr>xr_xml := x\<rparr>))"

fun xml_handle_event :: "settings \<Rightarrow> string list \<Rightarrow> event \<Rightarrow> XmlReporter \<Rightarrow> XmlReporter result" where
  "xml_handle_event S cs (report_query qd) r = on_xml (xml_report_query S qd) r"
| "xml_handle_event S cs test_run_start r = on_xml (xml_test_run_start S) r"
| "xml_handle_event S cs (test_run_end p) r = on_xml (xml_test_run_end S p (xr_tc r)) r"
| "xml_handle_event S cs (test_case_start tc) r =
     bindR (xml_test_case_start_impl S tc r) (on_xml (\<lambda>w. Inr (ensureTagClosed w)))"
| "xml_handle_event S cs (test_case_reenter tc) r = Inr r"
| "xml_handle_event S cs (test_case_end st) r = (case xr_tc r of
       None \<Rightarrow> Inl NullPointer | Some tc \<Rightarrow> on_xml (xml_test_case_end S st tc) r)"
| "xml_handle_event S cs (test_case_exception e) r = on_xml (xml_test_case_exception e) r"
| "xml_handle_event S cs (subcase_start sig) r = on_xml (\<lambda>w. Inr (xml_subcase_start S sig w)) r"
| "xml_handle_event S cs subcase_end r = on_xml endElement r"
| "xml_handle_event S cs (log_assert rb) r = on_xml (xml_log_assert S cs rb) r"
| "xml_handle_event S cs (log_message mb) r = on_xml (xml_log_message S cs mb) r"
| "xml_handle_event S cs (test_case_skipped tc) r = xml_test_case_skipped S tc r"

definition xml_handle :: "settings \<Rightarrow> report \<Rightarrow> XmlReporter \<Rightarrow> XmlReporter result" where
  "xml_handle S e r = xml_handle_event S (rp_contexts e) (rp_event e) r"

section \<open>Open elements\<close>

lemma tags_simps [simp]:
  "xw_tags (ensureTagClosed w) = xw_tags w" "xw_tags (newlineIfNecessary w) = xw_tags w"
  "xw_tags (writeAttribute n a w) = xw_tags w" "xw_tags (writeAttribute_cstr n c w) = xw_tags w"
  "xw_tags (writeAttribute_bool n b w) = xw_tags w" "xw_tags (writeAttribute_int n i w) = xw_tags w"
  "xw_tags (writeText t indent w) = xw_tags w" "xw_tags (writeDeclaration w) = xw_tags w"
  "xw_tags (startElement n w) = n # xw_tags w"
  by (simp_all add: ensureTagClosed_def newlineIfNecessary_def writeAttribute_def writeAttribute_cstr_def
      writeAttribute_bool_def writeAttribute_int_def writeText_def writeDeclaration_def startElement_def Let_def
      split: option.splits)

lemma xml_ops_simps [simp]: "xml_ops [] w = w" "xml_ops (f # fs) w = xml_ops fs (f w)"
  by (simp_all add: xml_ops_def)

text \<open>An operation leaves these elements open, and is no fault.\<close>

definition opens :: "string list \<Rightarrow> XmlWriter result \<Rightarrow> bool" where
  "opens tags m \<longleftrightarrow> yields m (\<lambda>w. xw_tags w = tags)"

lemma opens_Inr [simp]: "opens tags (Inr w) \<longleftrightarrow> xw_tags w = tags"
  by (simp add: opens_def)

lemma opens_bind: "opens tags m \<Longrightarrow> (\<And>w. xw_tags w = tags \<Longrightarrow> opens tags' (f w)) \<Longrightarrow> opens tags' (bindR m f)"
  by (auto simp: opens_def intro: yields_bind)

lemma opens_endElement [simp]: "xw_tags w = t # tags \<Longrightarrow> opens tags (endElement w)"
  using endElement_tags [of w t tags] by (auto simp: opens_def yields_def)

lemma opens_scopedElement: "\<forall>w. xw_tags (body w) = xw_tags w \<Longrightarrow> opens (xw_tags w) (scopedElement name body w)"
  by (simp add: scopedElement_def)

lemma opens_scoped [simp]:
  "\<forall>w. xw_tags (body w) = xw_tags w \<Longrightarrow> xw_tags w = tags \<Longrightarrow> opens tags (scopedElement name body w)"
  using opens_scopedElement by blast

lemmas opens_bind_same = opens_bind [where tags = tags and tags' = tags for tags]

lemma opens_contexts [simp]: "xw_tags w = tags \<Longrightarrow> opens tags (xml_contexts cs w)"
  by (induction cs arbitrary: w) (auto intro!: opens_bind_same)

lemma opens_each:
  "(\<And>a w. xw_tags w = tags \<Longrightarrow> opens tags (f a w)) \<Longrightarrow> xw_tags w = tags \<Longrightarrow> opens tags (xml_each f as w)"
  by (induction as arbitrary: w) (auto intro!: opens_bind_same)

lemma opens_test_run_start:
  "xw_tags w = [] \<Longrightarrow> opens [''doctest''] (xml_test_run_start S w)"
  by (simp add: xml_test_run_start_def Let_def)

lemma opens_report_query:
  assumes "xw_tags w = []" "legal_event (st_opt S) (report_query qd)"
  shows "opens [] (xml_report_query S qd w)"
proof -
  have list: "opens [''doctest''] (xml_each (xml_registered n) rs w)" if "xw_tags w = [''doctest'']" for n rs w
    using that by (intro opens_each) (simp_all add: xml_registered_def)
  have tests: "opens [''doctest''] (xml_each (xml_listed_test S) ts w)" if "xw_tags w = [''doctest'']" for ts w
    using that by (intro opens_each) (simp_all add: xml_listed_test_def)
  have suites: "opens [''doctest''] (xml_each (\<lambda>tc. scopedElement ''TestSuite''
      (writeAttribute_cstr ''name'' (tc_test_suite tc))) ts w)" if "xw_tags w = [''doctest'']" for ts w
    using that by (intro opens_each) simp_all
  have count: "opens [''doctest''] (xml_unskipped n k w)" if "xw_tags w = [''doctest'']" for n k w
    using that by (simp add: xml_unskipped_def)
  show ?thesis
    unfolding xml_report_query_def Let_def
    by (rule opens_bind [OF opens_test_run_start [OF assms(1)]], rule opens_bind [where tags = "[''doctest'']"])
      (use assms(2) in \<open>auto intro!: opens_bind [OF list] opens_bind [OF tests] opens_bind [OF suites]
          opens_bind [OF count] list count split: option.splits\<close>)
qed

lemma opens_test_run_end:
  assumes "xw_tags w = (if tc = None then [''doctest''] else [''TestSuite'', ''doctest''])"
  shows "opens [] (xml_test_run_end S p tc w)"
  unfolding xml_test_run_end_def Let_def
  by (rule opens_bind [where tags = "[''doctest'']"], use assms in simp,
      rule opens_bind [where tags = "[''doctest'']"], simp,
      rule opens_bind [where tags = "[''doctest'']"], simp_all)

lemma opens_test_case_end:
  assumes "xw_tags w = [''TestCase'', ''TestSuite'', ''doctest'']"
  shows "opens [''TestSuite'', ''doctest''] (xml_test_case_end S st tc w)"
  unfolding xml_test_case_end_def Let_def
  by (rule opens_bind [where tags = "[''TestCase'', ''TestSuite'', ''doctest'']"]) (use assms in simp_all)

lemma opens_log_assert:
  assumes "xw_tags w = tags" "assertString (ad_at rb) \<noteq> None"
  shows "opens tags (xml_log_assert S cs rb w)"
proof -
  obtain n where n: "assert_name (ad_at rb) = Inr n" using assert_name_ok [OF assms(2)] by blast
  let ?tags = "''Expression'' # tags"
  show ?thesis
    unfolding xml_log_assert_def n bindR_simps Let_def
    by (auto simp: assms(1) intro!: opens_bind [where tags = ?tags])
qed

lemma opens_log_message: "xw_tags w = tags \<Longrightarrow> opens tags (xml_log_message S cs mb w)"
  unfolding xml_log_message_def Let_def by (auto intro!: opens_bind [where tags = "''Message'' # tags"])

text \<open>The elements that are open in each phase.\<close>

fun xml_ok :: "phase \<Rightarrow> XmlReporter \<Rightarrow> bool" where
  "xml_ok Before r \<longleftrightarrow> xw_tags (xr_xml r) = [] \<and> xr_tc r = None"
| "xml_ok Between r \<longleftrightarrow>
     xw_tags (xr_xml r) = (if xr_tc r = None then [''doctest''] else [''TestSuite'', ''doctest''])"
| "xml_ok (Inside d) r \<longleftrightarrow> xr_tc r \<noteq> None \<and>
     xw_tags (xr_xml r) = replicate d ''SubCase'' @ [''TestCase'', ''TestSuite'', ''doctest'']"
| "xml_ok After r \<longleftrightarrow> xw_tags (xr_xml r) = []"

lemma on_xml_ok:
  "opens tags (f (xr_xml r)) \<Longrightarrow> (\<And>w. xw_tags w = tags \<Longrightarrow> xml_ok p (r\<lparr>xr_xml := w\<rparr>)) \<Longrightarrow> yields (on_xml f r) (xml_ok p)"
  by (auto simp: opens_def yields_def on_xml_def)

lemma test_case_start_impl_ok:
  assumes "xml_ok Between r"
  shows "yields (xml_test_case_start_impl S tc r) (xml_ok (Inside 0))"
proof -
  let ?open = "case xr_tc r of Some old \<Rightarrow> strcmp (the (tc_test_suite old)) (the (tc_test_suite tc)) \<noteq> 0 | None \<Rightarrow> True"
  have "opens (if ?open then [''doctest''] else [''TestSuite'', ''doctest''])
      (if xr_tc r \<noteq> None \<and> ?open then endElement (xr_xml r) else Inr (xr_xml r))"
    using assms by (auto split: option.splits)
  then show ?thesis
    unfolding xml_test_case_start_impl_def Let_def opens_def by (auto intro!: yields_bind split: if_splits)
qed

lemma test_case_skipped_ok:
  assumes "xml_ok Between r"
  shows "yields (xml_test_case_skipped S tc r) (xml_ok Between)"
proof (cases "opt_no_skipped_summary (st_opt S)")
  case False
  have "yields (bindR (endElement (writeAttribute_cstr ''skipped'' (Some ''true'') (xr_xml r1)))
      (\<lambda>x. Inr (r1\<lparr>xr_xml := x\<rparr>))) (xml_ok Between)" if "xml_ok (Inside 0) r1" for r1
  proof -
    have "opens [''TestSuite'', ''doctest''] (endElement (writeAttribute_cstr ''skipped'' (Some ''true'') (xr_xml r1)))"
      using that by simp
    then show ?thesis using that by (auto simp: opens_def yields_def)
  qed
  then have "yields (bindR (xml_test_case_start_impl S tc r) (\<lambda>r.
      bindR (endElement (writeAttribute_cstr ''skipped'' (Some ''true'') (xr_xml r))) (\<lambda>x.
      Inr (r\<lparr>xr_xml := x\<rparr>)))) (xml_ok Between)"
    by (rule yields_bind [OF test_case_start_impl_ok [OF assms]])
  then show ?thesis using False by (simp add: xml_test_case_skipped_def)
qed (use assms in \<open>simp add: xml_test_case_skipped_def\<close>)

lemma xml_handle_event_ok:
  "xml_ok p r \<Longrightarrow> phase_step p e = Some p' \<Longrightarrow> legal_event (st_opt S) e \<Longrightarrow>
   yields (xml_handle_event S cs e r) (xml_ok p')"
proof (induction p e rule: phase_step.induct)
  case (1 q)
  then have "opens [] (xml_report_query S q (xr_xml r))" by (intro opens_report_query) simp_all
  with 1 show ?case by (auto simp: opens_def yields_def on_xml_def)
next
  case 2
  then have "opens [''doctest''] (xml_test_run_start S (xr_xml r))" by (intro opens_test_run_start) simp
  with 2 show ?case by (auto simp: opens_def yields_def on_xml_def)
next
  case (3 tc)
  then show ?case using test_case_start_impl_ok [of r S tc] by (auto intro!: yields_bind simp: on_xml_def)
next
  case (4 tc)
  then have "p' = Between" "xml_ok Between r" by simp_all
  then show ?case using test_case_skipped_ok [of r S tc] by (simp only: xml_handle_event.simps)
next
  case (5 st)
  then have "opens [] (xml_test_run_end S st (xr_tc r) (xr_xml r))" by (intro opens_test_run_end) simp
  with 5 show ?case by (auto simp: opens_def yields_def on_xml_def)
next
  case (6 d tc)
  then show ?case by (auto split: if_splits)
next
  case (7 d st)
  then have d: "d = 0" "p' = Between" by (auto split: if_splits)
  with 7 obtain tc where tc: "xr_tc r = Some tc" by auto
  have "opens [''TestSuite'', ''doctest''] (xml_test_case_end S st tc (xr_xml r))"
    using 7 d by (intro opens_test_case_end) simp
  with 7 d tc show ?case by (auto simp: opens_def yields_def on_xml_def)
next
  case (8 d ex)
  then have "opens (replicate d ''SubCase'' @ [''TestCase'', ''TestSuite'', ''doctest'']) (xml_test_case_exception ex (xr_xml r))" by (simp add: xml_test_case_exception_def)
  with 8 show ?case by (auto simp: opens_def yields_def on_xml_def)
next
  case (9 d sig)
  then show ?case by (auto simp: on_xml_def xml_subcase_start_def)
next
  case (10 d)
  then obtain k where k: "d = Suc k" "p' = Inside k" by (cases d) auto
  with 10 have "opens (replicate k ''SubCase'' @ [''TestCase'', ''TestSuite'', ''doctest'']) (endElement (xr_xml r))"
    by simp
  with 10 k show ?case by (auto simp: opens_def yields_def on_xml_def)
next
  case (11 d rb)
  then have "opens (replicate d ''SubCase'' @ [''TestCase'', ''TestSuite'', ''doctest'']) (xml_log_assert S cs rb (xr_xml r))" by (intro opens_log_assert) simp_all
  with 11 show ?case by (auto simp: opens_def yields_def on_xml_def)
next
  case (12 d mb)
  then have "opens (replicate d ''SubCase'' @ [''TestCase'', ''TestSuite'', ''doctest'']) (xml_log_message S cs mb (xr_xml r))" by (intro opens_log_message) simp
  with 12 show ?case by (auto simp: opens_def yields_def on_xml_def)
qed simp_all

interpretation xml_reporter: reporter "xml_handle S" xml_ok "legal_event (st_opt S)" for S
  by unfold_locales (simp add: xml_handle_def xml_handle_event_ok)

text \<open>
  The XML reporter takes every sequence of events that a run makes without ending an element
  that is not open, and at the end of the run every element it started has been ended.
\<close>

theorem XmlReporter_balanced:
  assumes "phase_steps Before (map rp_event es) = Some After" "\<forall>e \<in> set es. legal_event (st_opt S) (rp_event e)"
  shows "\<exists>r. reports (xml_handle S) es new_XmlReporter = Inr r \<and> xw_tags (xr_xml r) = []"
  using xml_reporter.reports_ok [OF _ assms, of new_XmlReporter]
  by (auto simp: yields_def new_XmlReporter_def new_XmlWriter_def)

end
