(* ===== verification/Doctest_JUnit.thy ===== *)
theory Doctest_JUnit
  imports Doctest_Runs Doctest_Xml_Reporter
begin

text \<open>
  \<open>JUnitReporter\<close> of \<^verbatim>\<open>src/Utils/doctest.h\<close>: the passes of the test cases are collected with
  their failures and errors, and written as one document at the end of the run. The lemmas show that
  the reporter never faults on the events of a run, and that what it writes accounts for each of them.
\<close>

section \<open>What is collected\<close>

record JUnitTestMessage =
  jm_message :: string
  jm_type :: string
  jm_details :: string

definition new_JUnitTestMessage :: "string \<Rightarrow> string \<Rightarrow> string \<Rightarrow> JUnitTestMessage" where
  "new_JUnitTestMessage m t d = \<lparr>jm_message = m, jm_type = t, jm_details = d\<rparr>"

definition new_JUnitTestMessage_untyped :: "string \<Rightarrow> string \<Rightarrow> JUnitTestMessage" where
  "new_JUnitTestMessage_untyped m d = \<lparr>jm_message = m, jm_type = '''', jm_details = d\<rparr>"

record JUnitTestCase =
  jc_classname :: string
  jc_name :: string
  jc_time :: double
  jc_failures :: "JUnitTestMessage list"
  jc_errors :: "JUnitTestMessage list"

definition new_JUnitTestCase :: "string \<Rightarrow> string \<Rightarrow> JUnitTestCase" where
  "new_JUnitTestCase c n = \<lparr>jc_classname = c, jc_name = n, jc_time = 0, jc_failures = [], jc_errors = []\<rparr>"

text \<open>The counters are \<open>int\<close>s; incrementing them wraps like the other counters of the model.\<close>

record JUnitTestCaseData =
  jd_testcases :: "JUnitTestCase list"
  jd_totalSeconds :: double
  jd_totalErrors :: int
  jd_totalFailures :: int

definition jd_add :: "string \<Rightarrow> string \<Rightarrow> JUnitTestCaseData \<Rightarrow> JUnitTestCaseData" where
  "jd_add classname name d = d\<lparr>jd_testcases := jd_testcases d @ [new_JUnitTestCase classname name]\<rparr>"

text \<open>\<open>testcases.back()\<close> needs an element.\<close>

definition jd_back :: "(JUnitTestCase \<Rightarrow> JUnitTestCase) \<Rightarrow> JUnitTestCaseData \<Rightarrow> JUnitTestCaseData result" where
  "jd_back f d =
     (if jd_testcases d = [] then Inl OutOfRange
      else Inr (d\<lparr>jd_testcases := butlast (jd_testcases d) @ [f (last (jd_testcases d))]\<rparr>))"

fun appendSubcaseNamesToLastTestcase :: "string list \<Rightarrow> JUnitTestCaseData \<Rightarrow> JUnitTestCaseData result" where
  "appendSubcaseNamesToLastTestcase [] d = Inr d"
| "appendSubcaseNamesToLastTestcase (cur # names) d =
     bindR (if length cur \<noteq> 0 then jd_back (\<lambda>c. c\<lparr>jc_name := jc_name c @ ''/'' @ c_str cur\<rparr>) d else Inr d)
       (appendSubcaseNamesToLastTestcase names)"

definition addTime :: "(double \<Rightarrow> double) \<Rightarrow> double \<Rightarrow> JUnitTestCaseData \<Rightarrow> JUnitTestCaseData result" where
  "addTime rnd t d =
     (let t = (if t < rnd (1 / 10000) then 0 else t) in
      bindR (jd_back (\<lambda>c. c\<lparr>jc_time := t\<rparr>) d) (\<lambda>d. Inr (d\<lparr>jd_totalSeconds := rnd (jd_totalSeconds d + t)\<rparr>)))"

definition addFailure :: "string \<Rightarrow> string \<Rightarrow> string \<Rightarrow> JUnitTestCaseData \<Rightarrow> JUnitTestCaseData result" where
  "addFailure m t details d =
     bindR (jd_back (\<lambda>c. c\<lparr>jc_failures := jc_failures c @ [new_JUnitTestMessage m t details]\<rparr>) d)
       (\<lambda>d. Inr (d\<lparr>jd_totalFailures := c_int (jd_totalFailures d + 1)\<rparr>))"

definition addError :: "string \<Rightarrow> string \<Rightarrow> JUnitTestCaseData \<Rightarrow> JUnitTestCaseData result" where
  "addError m details d =
     bindR (jd_back (\<lambda>c. c\<lparr>jc_errors := jc_errors c @ [new_JUnitTestMessage_untyped m details]\<rparr>) d)
       (\<lambda>d. Inr (d\<lparr>jd_totalErrors := c_int (jd_totalErrors d + 1)\<rparr>))"

section \<open>The reporter\<close>

record JUnitReporter =
  jr_xml :: XmlWriter
  jr_timer :: "64 word"
  jr_names :: "string list"
  jr_data :: JUnitTestCaseData

definition new_JUnitReporter :: JUnitReporter where
  "new_JUnitReporter = \<lparr>jr_xml = new_XmlWriter, jr_timer = 0, jr_names = [],
     jr_data = \<lparr>jd_testcases = [], jd_totalSeconds = 0, jd_totalErrors = 0, jd_totalFailures = 0\<rparr>\<rparr>"

definition on_data :: "(JUnitTestCaseData \<Rightarrow> JUnitTestCaseData result) \<Rightarrow> JUnitReporter \<Rightarrow> JUnitReporter result" where
  "on_data f r = bindR (f (jr_data r)) (\<lambda>d. Inr (r\<lparr>jr_data := d\<rparr>))"

definition junit_message :: "string \<Rightarrow> JUnitTestMessage \<Rightarrow> XmlWriter \<Rightarrow> XmlWriter result" where
  "junit_message kind m = scopedElement kind (xml_ops
     ((if kind = ''failure''
       then [writeAttribute ''message'' (jm_message m), writeAttribute ''type'' (jm_type m), writeText (jm_details m) False]
       else [writeAttribute ''message'' (jm_message m), writeText (jm_details m) True])))"

definition junit_testcase :: "settings \<Rightarrow> JUnitTestCase \<Rightarrow> XmlWriter \<Rightarrow> XmlWriter result" where
  "junit_testcase S c w =
     (let w = xml_ops [startElement ''testcase'', writeAttribute ''classname'' (jc_classname c),
            writeAttribute ''name'' (jc_name c)] w;
          w = (if \<not> opt_no_time_in_output (st_opt S) then writeAttribute ''time'' (st_double S (jc_time c)) w else w);
          w = writeAttribute_cstr ''status'' (Some ''run'') w in
      bindR (xml_each (junit_message ''failure'') (jc_failures c) w) (\<lambda>w.
      bindR (xml_each (junit_message ''error'') (jc_errors c) w) endElement))"

definition junit_test_run_end :: "settings \<Rightarrow> TestRunStats \<Rightarrow> JUnitTestCaseData \<Rightarrow> XmlWriter \<Rightarrow> XmlWriter result" where
  "junit_test_run_end S p d w =
     (let w = xml_ops [startElement ''testsuites'', startElement ''testsuite'',
            writeAttribute ''name'' (shown_file S (opt_binary_name (st_opt S))),
            writeAttribute_int ''errors'' (jd_totalErrors d), writeAttribute_int ''failures'' (jd_totalFailures d),
            writeAttribute_int ''tests'' (numAsserts p)] w;
          w = (if \<not> opt_no_time_in_output (st_opt S)
               then xml_ops [writeAttribute ''time'' (st_double S (jd_totalSeconds d)),
                 writeAttribute ''timestamp'' (st_timestamp S)] w else w);
          w = (if \<not> opt_no_version (st_opt S) then writeAttribute_cstr ''doctest_version'' (Some VERSION_STR) w else w) in
      bindR (xml_each (junit_testcase S) (jd_testcases d) w) (\<lambda>w. bindR (endElement w) endElement))"

definition junit_start :: "settings \<Rightarrow> 64 word \<Rightarrow> TestCase \<Rightarrow> JUnitReporter \<Rightarrow> JUnitReporter result" where
  "junit_start S now tc r = (case tc_name tc of
       None \<Rightarrow> Inl LogicError
     | Some n \<Rightarrow> Inr (r\<lparr>jr_data := jd_add (shown_file S (tc_file tc)) n (jr_data r), jr_timer := now\<rparr>))"

text \<open>The time of a pass and the names of the subcases it entered.\<close>

definition junit_pass_done :: "settings \<Rightarrow> 64 word \<Rightarrow> JUnitReporter \<Rightarrow> JUnitReporter result" where
  "junit_pass_done S now r =
     bindR (on_data (addTime (st_rnd S) (getElapsedSeconds (st_rnd S) now (jr_timer r))) r) (\<lambda>r.
     bindR (on_data (appendSubcaseNamesToLastTestcase (jr_names r)) r) (\<lambda>r. Inr (r\<lparr>jr_names := []\<rparr>)))"

definition junit_log_contexts :: "string list \<Rightarrow> string" where
  "junit_log_contexts cs = (if length cs \<noteq> 0 then ''  logged: '' @ context_lines 0 cs else '''')"

definition junit_log_assert :: "settings \<Rightarrow> string list \<Rightarrow> AssertData \<Rightarrow> JUnitReporter \<Rightarrow> JUnitReporter result" where
  "junit_log_assert S cs rb r =
     (if \<not> ad_failed rb then Inr r
      else
        bindR (fulltext_log_assert_to_stream S rb) (\<lambda>t.
        bindR (assert_name (ad_at rb)) (\<lambda>name.
        on_data (addFailure (ad_decomp rb) name
          (shown_file S (ad_file rb) @ (if opt_gnu_file_line (st_opt S) then '':'' else ''('') @
             toString_int (reporter_line S (ad_line rb)) @ (if opt_gnu_file_line (st_opt S) then '':'' else ''):'') @ newline @
           t @ junit_log_contexts cs)) r)))"

fun junit_handle_event :: "settings \<Rightarrow> report \<Rightarrow> event \<Rightarrow> JUnitReporter \<Rightarrow> JUnitReporter result" where
  "junit_handle_event S e (report_query qd) r = Inr (r\<lparr>jr_xml := writeDeclaration (jr_xml r)\<rparr>)"
| "junit_handle_event S e test_run_start r = Inr (r\<lparr>jr_xml := writeDeclaration (jr_xml r)\<rparr>)"
| "junit_handle_event S e (test_run_end p) r =
     bindR (junit_test_run_end S p (jr_data r) (jr_xml r)) (\<lambda>w. Inr (r\<lparr>jr_xml := w\<rparr>))"
| "junit_handle_event S e (test_case_start tc) r = junit_start S (rp_ticks e 0) tc r"
| "junit_handle_event S e (test_case_reenter tc) r =
     bindR (junit_pass_done S (rp_ticks e 0) r) (junit_start S (rp_ticks e 1) tc)"
| "junit_handle_event S e (test_case_end st) r = junit_pass_done S (rp_ticks e 0) r"
| "junit_handle_event S e (test_case_exception x) r = on_data (addError ''exception'' (c_str (error_string x))) r"
| "junit_handle_event S e (subcase_start sig) r = Inr (r\<lparr>jr_names := jr_names r @ [sig_name sig]\<rparr>)"
| "junit_handle_event S e subcase_end r = Inr r"
| "junit_handle_event S e (log_assert rb) r = junit_log_assert S (rp_contexts e) rb r"
| "junit_handle_event S e (log_message mb) r = Inr r"
| "junit_handle_event S e (test_case_skipped tc) r = Inr r"

definition junit_handle :: "settings \<Rightarrow> report \<Rightarrow> JUnitReporter \<Rightarrow> JUnitReporter result" where
  "junit_handle S e r = junit_handle_event S e (rp_event e) r"

section \<open>No faults\<close>

lemma opens_junit_message [simp]: "xw_tags w = tags \<Longrightarrow> opens tags (junit_message kind m w)"
  by (simp add: junit_message_def)

lemma opens_junit_testcase: "xw_tags w = tags \<Longrightarrow> opens tags (junit_testcase S c w)"
  unfolding junit_testcase_def Let_def
  by (rule opens_bind [where tags = "''testcase'' # tags"], rule opens_each, simp, simp,
      rule opens_bind [where tags = "''testcase'' # tags"], rule opens_each, simp_all)

lemma opens_junit_test_run_end:
  assumes "xw_tags w = []" shows "opens [] (junit_test_run_end S p d w)"
  unfolding junit_test_run_end_def Let_def
  by (rule opens_bind [where tags = "[''testsuite'', ''testsuites'']"], rule opens_each, rule opens_junit_testcase,
      assumption, use assms in simp, rule opens_bind [where tags = "[''testsuites'']"], simp_all)

text \<open>The data stay as they are but for the last test case and the counters.\<close>

definition has_case :: "JUnitTestCaseData \<Rightarrow> bool" where
  "has_case d \<longleftrightarrow> jd_testcases d \<noteq> []"

lemma jd_back_case: "has_case d \<Longrightarrow> yields (jd_back f d) has_case"
  by (simp add: has_case_def jd_back_def)

lemma append_names_case: "has_case d \<Longrightarrow> yields (appendSubcaseNamesToLastTestcase names d) has_case"
  by (induction names arbitrary: d) (auto intro!: yields_bind jd_back_case)

lemma addTime_case: "has_case d \<Longrightarrow> yields (addTime rnd t d) has_case"
  unfolding addTime_def Let_def by (auto intro!: yields_bind [OF jd_back_case] simp: has_case_def)

lemma addFailure_case: "has_case d \<Longrightarrow> yields (addFailure m t x d) has_case"
  unfolding addFailure_def by (auto intro!: yields_bind [OF jd_back_case] simp: has_case_def)

lemma addError_case: "has_case d \<Longrightarrow> yields (addError m x d) has_case"
  unfolding addError_def by (auto intro!: yields_bind [OF jd_back_case] simp: has_case_def)

fun junit_ok :: "phase \<Rightarrow> JUnitReporter \<Rightarrow> bool" where
  "junit_ok (Inside d) r \<longleftrightarrow> has_case (jr_data r) \<and> xw_tags (jr_xml r) = []"
| "junit_ok p r \<longleftrightarrow> xw_tags (jr_xml r) = []"

lemma on_data_ok:
  "yields (f (jr_data r)) has_case \<Longrightarrow> junit_ok (Inside d) r \<Longrightarrow> yields (on_data f r) (junit_ok (Inside d))"
  unfolding on_data_def by (auto intro!: yields_bind)

lemma junit_pass_done_ok:
  assumes "junit_ok (Inside d) r" shows "yields (junit_pass_done S now r) (junit_ok (Inside d))"
  unfolding junit_pass_done_def
proof (rule yields_bind [OF on_data_ok], rule addTime_case)
  show "has_case (jr_data r)" "junit_ok (Inside d) r" using assms by simp_all
  fix r1 assume "junit_ok (Inside d) r1"
  then show "yields (bindR (on_data (appendSubcaseNamesToLastTestcase (jr_names r1)) r1)
      (\<lambda>r. Inr (r\<lparr>jr_names := []\<rparr>))) (junit_ok (Inside d))"
    by (intro yields_bind [OF on_data_ok [OF append_names_case]]) simp_all
qed

lemma junit_log_assert_ok:
  assumes "junit_ok (Inside d) r" "assertString (ad_at rb) \<noteq> None"
  shows "yields (junit_log_assert S cs rb r) (junit_ok (Inside d))"
proof -
  obtain t n where "fulltext_log_assert_to_stream S rb = Inr t" "assert_name (ad_at rb) = Inr n"
    using fulltext_ok [OF assms(2)] assert_name_ok [OF assms(2)] by blast
  then show ?thesis
    using assms(1) by (simp add: junit_log_assert_def) (simp add: on_data_ok addFailure_case)
qed

lemma junit_start_ok:
  "xw_tags (jr_xml r) = [] \<Longrightarrow> named_test tc \<Longrightarrow> yields (junit_start S now tc r) (junit_ok (Inside d))"
  by (auto simp: junit_start_def named_test_def has_case_def jd_add_def)

lemma junit_handle_ok:
  "junit_ok p r \<Longrightarrow> phase_step p e = Some p' \<Longrightarrow> legal_event (st_opt S) e \<Longrightarrow>
   yields (junit_handle_event S rp e r) (junit_ok p')"
proof (induction p e rule: phase_step.induct)
  case (5 st)
  then have "opens [] (junit_test_run_end S st (jr_data r) (jr_xml r))" by (intro opens_junit_test_run_end) simp
  with 5 show ?case by (auto simp: opens_def yields_def)
next
  case (6 d tc)
  then have d: "d = 0" "p' = Inside 0" "junit_ok (Inside 0) r" "named_test tc" by (auto split: if_splits)
  then show ?case
    by (simp only: junit_handle_event.simps)
      (intro yields_bind [OF junit_pass_done_ok [OF d(3)]] junit_start_ok, simp_all)
next
  case (7 d st)
  then have d: "d = 0" "p' = Between" "junit_ok (Inside 0) r" by (auto split: if_splits)
  show ?case unfolding d(2) junit_handle_event.simps
    by (rule yields_mono [OF junit_pass_done_ok [OF d(3)]]) simp
next
  case (3 tc)
  then have "p' = Inside 0" by simp
  with 3 show ?case by (simp only: junit_handle_event.simps) (intro junit_start_ok, simp_all)
next
  case (8 d x)
  then have "p' = Inside d" by simp
  with 8 show ?case by (simp only: junit_handle_event.simps) (intro on_data_ok addError_case, simp_all)
next
  case (11 d rb)
  then have "p' = Inside d" by simp
  with 11 show ?case by (simp only: junit_handle_event.simps) (intro junit_log_assert_ok, simp_all)
qed (auto split: if_splits)

interpretation junit_reporter: reporter "junit_handle S" junit_ok "legal_event (st_opt S)" for S
  by unfold_locales (simp add: junit_handle_def junit_handle_ok)

section \<open>What is counted\<close>

text \<open>
  The test cases that are collected with the numbers of their failures and errors, and what the
  counters say; and what the events of the run amount to.
\<close>

definition junit_tally :: "JUnitTestCaseData \<Rightarrow> nat \<times> nat \<times> nat" where
  "junit_tally d = (length (jd_testcases d), sum_list (List.map (\<lambda>c. length (jc_failures c)) (jd_testcases d)),
     sum_list (List.map (\<lambda>c. length (jc_errors c)) (jd_testcases d)))"

definition counters_agree :: "JUnitTestCaseData \<Rightarrow> bool" where
  "counters_agree d \<longleftrightarrow> jd_totalFailures d = c_int (int (fst (snd (junit_tally d)))) \<and>
     jd_totalErrors d = c_int (int (snd (snd (junit_tally d))))"

fun event_tally :: "event \<Rightarrow> nat \<times> nat \<times> nat" where
  "event_tally (test_case_start tc) = (1, 0, 0)"
| "event_tally (test_case_reenter tc) = (1, 0, 0)"
| "event_tally (log_assert rb) = (0, if ad_failed rb then 1 else 0, 0)"
| "event_tally (test_case_exception x) = (0, 0, 1)"
| "event_tally e = (0, 0, 0)"

lemma jd_back_tally:
  assumes "jd_back f d = Inr d'"
  shows "jd_totalFailures d' = jd_totalFailures d" "jd_totalErrors d' = jd_totalErrors d"
    "\<exists>c cs. jd_testcases d = cs @ [c] \<and> jd_testcases d' = cs @ [f c]"
proof -
  show "jd_totalFailures d' = jd_totalFailures d" "jd_totalErrors d' = jd_totalErrors d"
    using assms by (auto simp: jd_back_def split: if_splits)
  show "\<exists>c cs. jd_testcases d = cs @ [c] \<and> jd_testcases d' = cs @ [f c]"
    using assms by (intro exI [of _ "last (jd_testcases d)"] exI [of _ "butlast (jd_testcases d)"])
      (auto simp: jd_back_def split: if_splits)
qed

fun plus3 :: "nat \<times> nat \<times> nat \<Rightarrow> nat \<times> nat \<times> nat \<Rightarrow> nat \<times> nat \<times> nat" where
  "plus3 (a, b, c) (a', b', c') = (a + a', b + b', c + c')"

lemma plus3_simps [simp]: "plus3 m (0, 0, 0) = m" "plus3 (0, 0, 0) m = m" "plus3 (plus3 l m) n = plus3 l (plus3 m n)"
  by (cases l, cases m, cases n, simp)+

text \<open>From one collection to the next, the tally grows by a given one and the counters with it.\<close>

definition tallies :: "nat \<times> nat \<times> nat \<Rightarrow> JUnitTestCaseData \<Rightarrow> JUnitTestCaseData \<Rightarrow> bool" where
  "tallies n d d' \<longleftrightarrow> junit_tally d' = plus3 (junit_tally d) n \<and> (counters_agree d \<longrightarrow> counters_agree d')"

lemma tallies_refl: "tallies (0, 0, 0) d d"
  by (simp add: tallies_def)

lemma tallies_trans: "tallies m d d' \<Longrightarrow> tallies n d' d'' \<Longrightarrow> tallies (plus3 m n) d d''"
  by (simp add: tallies_def)

lemma jd_back_same:
  assumes "jd_back f d = Inr d'" "\<And>c. jc_failures (f c) = jc_failures c" "\<And>c. jc_errors (f c) = jc_errors c"
  shows "tallies (0, 0, 0) d d'"
proof -
  obtain c cs where "jd_testcases d = cs @ [c]" "jd_testcases d' = cs @ [f c]"
    using jd_back_tally(3) [OF assms(1)] by blast
  then show ?thesis
    using jd_back_tally(1,2) [OF assms(1)] assms(2,3) by (simp add: tallies_def junit_tally_def counters_agree_def)
qed

lemma append_names_tallies:
  "appendSubcaseNamesToLastTestcase names d = Inr d' \<Longrightarrow> tallies (0, 0, 0) d d'"
proof (induction names arbitrary: d)
  case (Cons cur names)
  obtain d1 where d1: "(if length cur \<noteq> 0 then jd_back (\<lambda>c. c\<lparr>jc_name := jc_name c @ ''/'' @ c_str cur\<rparr>) d else Inr d) = Inr d1"
    "appendSubcaseNamesToLastTestcase names d1 = Inr d'"
    using Cons.prems by (auto simp: bindR_Inr_iff simp del: length_0_conv)
  have "tallies (0, 0, 0) d d1" using d1(1) jd_back_same tallies_refl by (auto split: if_splits)
  from tallies_trans [OF this Cons.IH [OF d1(2)]] show ?case by simp
qed (simp add: tallies_refl)

lemma addTime_tallies: "addTime rnd t d = Inr d' \<Longrightarrow> tallies (0, 0, 0) d d'"
proof -
  assume "addTime rnd t d = Inr d'"
  then obtain d1 t' where "jd_back (\<lambda>c. c\<lparr>jc_time := t'\<rparr>) d = Inr d1"
    "d' = d1\<lparr>jd_totalSeconds := rnd (jd_totalSeconds d1 + t')\<rparr>"
    unfolding addTime_def Let_def by (auto simp: bindR_Inr_iff)
  with jd_back_same [OF this(1)] show ?thesis by (simp add: tallies_def junit_tally_def counters_agree_def)
qed

lemma addFailure_tallies: "addFailure m t x d = Inr d' \<Longrightarrow> tallies (0, 1, 0) d d'"
proof -
  assume "addFailure m t x d = Inr d'"
  then obtain d1 where d1: "jd_back (\<lambda>c. c\<lparr>jc_failures := jc_failures c @ [new_JUnitTestMessage m t x]\<rparr>) d = Inr d1"
    "d' = d1\<lparr>jd_totalFailures := c_int (jd_totalFailures d1 + 1)\<rparr>"
    by (auto simp: addFailure_def bindR_Inr_iff)
  obtain c cs where "jd_testcases d = cs @ [c]"
    "jd_testcases d1 = cs @ [c\<lparr>jc_failures := jc_failures c @ [new_JUnitTestMessage m t x]\<rparr>]"
    using jd_back_tally(3) [OF d1(1)] by blast
  then show ?thesis
    using jd_back_tally(1,2) [OF d1(1)] by (simp add: d1(2) tallies_def junit_tally_def counters_agree_def c_int_add_left c_int_add_right add.commute)
qed

lemma addError_tallies: "addError m x d = Inr d' \<Longrightarrow> tallies (0, 0, 1) d d'"
proof -
  assume "addError m x d = Inr d'"
  then obtain d1 where d1: "jd_back (\<lambda>c. c\<lparr>jc_errors := jc_errors c @ [new_JUnitTestMessage_untyped m x]\<rparr>) d = Inr d1"
    "d' = d1\<lparr>jd_totalErrors := c_int (jd_totalErrors d1 + 1)\<rparr>"
    by (auto simp: addError_def bindR_Inr_iff)
  obtain c cs where "jd_testcases d = cs @ [c]"
    "jd_testcases d1 = cs @ [c\<lparr>jc_errors := jc_errors c @ [new_JUnitTestMessage_untyped m x]\<rparr>]"
    using jd_back_tally(3) [OF d1(1)] by blast
  then show ?thesis
    using jd_back_tally(1,2) [OF d1(1)] by (simp add: d1(2) tallies_def junit_tally_def counters_agree_def c_int_add_left c_int_add_right add.commute)
qed

lemma junit_start_tallies:
  "junit_start S now tc r = Inr r' \<Longrightarrow> tallies (1, 0, 0) (jr_data r) (jr_data r')"
  by (auto simp: junit_start_def jd_add_def new_JUnitTestCase_def tallies_def junit_tally_def counters_agree_def
      split: option.splits)

lemma junit_pass_done_tallies:
  assumes "junit_pass_done S now r = Inr r'" shows "tallies (0, 0, 0) (jr_data r) (jr_data r')"
proof -
  obtain d1 d2 where "addTime (st_rnd S) (getElapsedSeconds (st_rnd S) now (jr_timer r)) (jr_data r) = Inr d1"
    "appendSubcaseNamesToLastTestcase (jr_names r) d1 = Inr d2" "jr_data r' = d2"
    using assms by (auto simp: junit_pass_done_def on_data_def bindR_Inr_iff)
  with tallies_trans [OF addTime_tallies append_names_tallies] show ?thesis by simp
qed

lemma junit_log_assert_tallies:
  "junit_log_assert S cs rb r = Inr r' \<Longrightarrow> tallies (event_tally (log_assert rb)) (jr_data r) (jr_data r')"
  by (auto simp: junit_log_assert_def on_data_def bindR_Inr_iff tallies_refl dest: addFailure_tallies split: if_splits)

lemma junit_handle_tallies:
  assumes "junit_handle_event S rp e r = Inr r'" shows "tallies (event_tally e) (jr_data r) (jr_data r')"
proof (cases e)
  case (test_case_reenter tc)
  then obtain r1 where "junit_pass_done S (rp_ticks rp 0) r = Inr r1" "junit_start S (rp_ticks rp 1) tc r1 = Inr r'"
    using assms by (auto simp: bindR_Inr_iff)
  with tallies_trans [OF junit_pass_done_tallies junit_start_tallies] test_case_reenter show ?thesis by simp
qed (use assms in \<open>auto simp: on_data_def bindR_Inr_iff tallies_refl
    dest: junit_start_tallies junit_pass_done_tallies junit_log_assert_tallies addError_tallies\<close>)

lemma junit_reports_tallies:
  "reports (junit_handle S) es r = Inr r' \<Longrightarrow>
   tallies (foldr (\<lambda>e. plus3 (event_tally (rp_event e))) es (0, 0, 0)) (jr_data r) (jr_data r')"
proof (induction es arbitrary: r)
  case (Cons e es)
  then obtain r1 where "junit_handle S e r = Inr r1" "reports (junit_handle S) es r1 = Inr r'"
    by (auto simp: bindR_Inr_iff)
  from tallies_trans [OF junit_handle_tallies [OF this(1) [unfolded junit_handle_def]] Cons.IH [OF this(2)]]
  show ?case by simp
qed (simp add: tallies_refl)

section \<open>The document\<close>

text \<open>
  The report as a tree of elements: the attributes \<^verbatim>\<open>errors\<close> and \<^verbatim>\<open>failures\<close> are the numbers of the
  elements of these names below.
\<close>

definition failure_node :: "JUnitTestMessage \<Rightarrow> xml_node" where
  "failure_node m = Leaf ''failure'' [(''message'', jm_message m), (''type'', jm_type m)] False (jm_details m)"

definition error_node :: "JUnitTestMessage \<Rightarrow> xml_node" where
  "error_node m = Leaf ''error'' [(''message'', jm_message m)] True (jm_details m)"

definition testcase_node :: "settings \<Rightarrow> JUnitTestCase \<Rightarrow> xml_node" where
  "testcase_node S c = Node ''testcase''
     ([(''classname'', jc_classname c), (''name'', jc_name c)] @
      (if opt_no_time_in_output (st_opt S) then [] else [(''time'', st_double S (jc_time c))]) @ [(''status'', ''run'')])
     (map failure_node (jc_failures c) @ map error_node (jc_errors c))"

text \<open>How often an element of a name occurs in a tree.\<close>

fun occurrences :: "string \<Rightarrow> xml_node \<Rightarrow> nat" where
  "occurrences n (Node name attrs children) = (if name = n then 1 else 0) + sum_list (map (occurrences n) children)"
| "occurrences n (Leaf name attrs indented txt) = (if name = n then 1 else 0)"

definition testsuites_node :: "settings \<Rightarrow> int \<Rightarrow> double \<Rightarrow> JUnitTestCase list \<Rightarrow> xml_node" where
  "testsuites_node S asserts secs cs =
     (let cases = map (testcase_node S) cs in
      Node ''testsuites'' [] [Node ''testsuite''
        ([(''name'', shown_file S (opt_binary_name (st_opt S))),
          (''errors'', toString_int (int (sum_list (map (occurrences ''error'') cases)))),
          (''failures'', toString_int (int (sum_list (map (occurrences ''failure'') cases)))),
          (''tests'', toString_int asserts)] @
         (if opt_no_time_in_output (st_opt S) then []
          else [(''time'', st_double S secs), (''timestamp'', st_timestamp S)]) @
         (if opt_no_version (st_opt S) then [] else [(''doctest_version'', VERSION_STR)])) cases])"

lemma occurrences_leaves:
  "map (occurrences n) (map failure_node ms) = replicate (length ms) (if n = ''failure'' then 1 else 0)"
  "map (occurrences n) (map error_node ms) = replicate (length ms) (if n = ''error'' then 1 else 0)"
  by (auto simp: failure_node_def error_node_def map_replicate_const o_def)

lemma occurrences_testcase:
  "occurrences ''testcase'' (testcase_node S c) = 1"
  "occurrences ''failure'' (testcase_node S c) = length (jc_failures c)"
  "occurrences ''error'' (testcase_node S c) = length (jc_errors c)"
  by (simp_all add: testcase_node_def occurrences_leaves sum_list_replicate del: map_map)

lemma occurrences_cases:
  "sum_list (map (occurrences ''testcase'') (map (testcase_node S) cs)) = length cs"
  "sum_list (map (occurrences ''failure'') (map (testcase_node S) cs)) = sum_list (map (\<lambda>c. length (jc_failures c)) cs)"
  "sum_list (map (occurrences ''error'') (map (testcase_node S) cs)) = sum_list (map (\<lambda>c. length (jc_errors c)) cs)"
  by (simp_all add: o_def occurrences_testcase sum_list_triv)

text \<open>The calls of the reporter write that tree.\<close>

lemma writeAttribute_cstr_Some: "writeAttribute_cstr n (Some a) w = writeAttribute n a w"
  by (simp add: writeAttribute_cstr_def writeAttribute_def)

lemma junit_message_node:
  "junit_message ''failure'' m = write_node (failure_node m)" "junit_message ''error'' m = write_node (error_node m)"
  by (simp_all add: fun_eq_iff junit_message_def failure_node_def error_node_def scopedElement_def xml_ops_def
      write_attributes_def)

lemma xml_each_nodes: "(\<And>a. f a = write_node (g a)) \<Longrightarrow> xml_each f as = write_nodes (map g as)"
  by (rule ext) (induction as, simp_all, simp add: bindR_def split: sum.splits)

lemma write_nodes_append: "write_nodes (ns @ ms) w = bindR (write_nodes ns w) (write_nodes ms)"
  by (induction ns arbitrary: w) (simp_all add: bindR_def split: sum.splits)

lemma junit_testcase_node: "junit_testcase S c = write_node (testcase_node S c)"
proof (rule ext)
  fix w
  show "junit_testcase S c w = write_node (testcase_node S c) w"
    by (simp add: junit_testcase_def testcase_node_def Let_def xml_ops_def write_attributes_def
        writeAttribute_cstr_Some xml_each_nodes [OF junit_message_node(1)] xml_each_nodes [OF junit_message_node(2)]
        write_nodes_append bindR_assoc)
qed

lemma junit_test_run_end_node:
  assumes "jd_totalErrors d = int (sum_list (map (\<lambda>c. length (jc_errors c)) (jd_testcases d)))"
    "jd_totalFailures d = int (sum_list (map (\<lambda>c. length (jc_failures c)) (jd_testcases d)))"
  shows "junit_test_run_end S p d = write_node (testsuites_node S (numAsserts p) (jd_totalSeconds d) (jd_testcases d))"
proof (rule ext)
  fix w
  show "junit_test_run_end S p d w = write_node (testsuites_node S (numAsserts p) (jd_totalSeconds d) (jd_testcases d)) w"
    unfolding junit_test_run_end_def testsuites_node_def Let_def assms occurrences_cases
    by (simp add: xml_ops_def write_attributes_def writeAttribute_int_def
        writeAttribute_cstr_Some xml_each_nodes [OF junit_testcase_node] bindR_assoc)
qed

text \<open>The text is written at the beginning and at the end of the run only.\<close>

lemma junit_between_silent:
  assumes "junit_handle_event S rp e r = Inr r'" "phase_step p e = Some p'" "p \<noteq> Before" "p' \<noteq> After"
  shows "jr_xml r' = jr_xml r"
proof -
  have on_data: "jr_xml r2 = jr_xml r1" if "on_data f r1 = Inr r2" for f r1 r2
    using that by (auto simp: on_data_def bindR_Inr_iff)
  have start: "jr_xml r2 = jr_xml r1" if "junit_start S now tc r1 = Inr r2" for now tc r1 r2
    using that by (auto simp: junit_start_def split: option.splits)
  have pass: "jr_xml r2 = jr_xml r1" if "junit_pass_done S now r1 = Inr r2" for now r1 r2
    using that on_data by (fastforce simp: junit_pass_done_def bindR_Inr_iff)
  have asserted: "jr_xml r2 = jr_xml r1" if "junit_log_assert S cs rb r1 = Inr r2" for cs rb r1 r2
    using that on_data by (fastforce simp: junit_log_assert_def bindR_Inr_iff split: if_splits)
  show ?thesis
    using assms by (induction p e rule: phase_step.induct) (auto simp: bindR_Inr_iff dest!: on_data start pass asserted)
qed

lemma phase_step_not_Before: "phase_step p e = Some q \<Longrightarrow> q \<noteq> Before"
  by (cases p; cases e) (auto split: if_splits)

lemma phase_step_After: "phase_step After e = None"
  by (cases e) simp_all

lemma junit_middle_silent:
  "reports (junit_handle S) es r = Inr r' \<Longrightarrow> phase_steps p (map rp_event es) = Some p' \<Longrightarrow> p \<noteq> Before \<Longrightarrow> p' \<noteq> After \<Longrightarrow>
   jr_xml r' = jr_xml r"
proof (induction es arbitrary: p r)
  case (Cons e es)
  obtain r1 where r1: "junit_handle S e r = Inr r1" "reports (junit_handle S) es r1 = Inr r'"
    using Cons.prems(1) by (auto simp: bindR_Inr_iff)
  obtain q where q: "phase_step p (rp_event e) = Some q" "phase_steps q (map rp_event es) = Some p'"
    using Cons.prems(2) by (auto split: option.splits)
  have "q \<noteq> After" using q(2) Cons.prems(4) by (cases es) (auto simp: phase_step_After)
  moreover have "q \<noteq> Before" by (rule phase_step_not_Before [OF q(1)])
  ultimately show ?case
    using junit_between_silent [OF r1(1) [unfolded junit_handle_def] q(1) Cons.prems(3)] Cons.IH [OF r1(2) q(2)] Cons.prems(4)
    by simp
qed simp

lemma run_events:
  assumes "phase_steps Before (map rp_event es) = Some After" "rp_event (last es) = test_run_end p"
  obtains a mid b where "es = a # mid @ [b]" "rp_event a = test_run_start" "rp_event b = test_run_end p"
    "\<exists>q. phase_steps Between (map rp_event mid) = Some q \<and> q \<noteq> After"
proof -
  obtain a es' where a: "es = a # es'" using assms(1) by (cases es) auto
  have "es' \<noteq> []" using assms a by (cases "rp_event a") auto
  then obtain mid b where b: "es' = mid @ [b]" by (meson rev_exhaust)
  then have e: "rp_event b = test_run_end p" using assms(2) a by simp
  have "phase_steps After (map rp_event (mid @ [b])) = None" by (cases mid) (simp_all add: phase_step_After)
  then have "rp_event a = test_run_start" using assms(1) a b by (cases "rp_event a") auto
  moreover from this have "\<exists>q. phase_steps Between (map rp_event mid) = Some q \<and> q \<noteq> After"
    using assms(1) a b e by (auto simp: phase_steps_append phase_step_After split: option.splits)
  ultimately show thesis using that a b e by simp
qed

section \<open>Properties\<close>

text \<open>
  C25. The JUnit reporter takes every sequence of events that a run of tests makes, and closes its
  document. The text it writes is the declaration and the rendering of one tree, which has a test case
  for each pass, a failure for each failed assertion and an error for each exception, and whose
  attributes for the numbers of errors and failures are the numbers of these elements, as long as
  both numbers are below \<open>2\<^sup>3\<^sup>1\<close>.
\<close>

theorem JUnitReporter_accounts:
  assumes "phase_steps Before (map rp_event es) = Some After" "\<forall>e \<in> set es. legal_event (st_opt S) (rp_event e)"
    and "rp_event (last es) = test_run_end p"
    and "foldr (\<lambda>e. plus3 (event_tally (rp_event e))) es (0, 0, 0) = (passes, failures, errors)"
    and "failures < 2 ^ 31" "errors < 2 ^ 31"
  shows "\<exists>r doc. reports (junit_handle S) es new_JUnitReporter = Inr r \<and> xw_tags (jr_xml r) = [] \<and>
     doc = testsuites_node S (numAsserts p) (jd_totalSeconds (jr_data r)) (jd_testcases (jr_data r)) \<and>
     xw_os (jr_xml r) = xw_os (writeDeclaration new_XmlWriter) @ render [] doc \<and>
     occurrences ''testcase'' doc = passes \<and> occurrences ''failure'' doc = failures \<and> occurrences ''error'' doc = errors"
proof -
  have start: "junit_ok Before new_JUnitReporter" "counters_agree (jr_data new_JUnitReporter)"
    "junit_tally (jr_data new_JUnitReporter) = (0, 0, 0)"
    by (simp_all add: new_JUnitReporter_def new_XmlWriter_def counters_agree_def junit_tally_def)
  obtain r where r: "reports (junit_handle S) es new_JUnitReporter = Inr r" "xw_tags (jr_xml r) = []"
    using junit_reporter.reports_ok [OF start(1) assms(1,2)] by (auto simp: yields_def)
  obtain a mid b where es: "es = a # mid @ [b]" "rp_event a = test_run_start" "rp_event b = test_run_end p"
    "\<exists>q. phase_steps Between (map rp_event mid) = Some q \<and> q \<noteq> After" by (rule run_events [OF assms(1,3)])
  let ?r0 = "new_JUnitReporter\<lparr>jr_xml := writeDeclaration new_XmlWriter\<rparr>"
  obtain r1 where r1: "reports (junit_handle S) mid ?r0 = Inr r1" "junit_handle S b r1 = Inr r"
    using r(1) by (auto simp: es(1,2) reports_append junit_handle_def bindR_Inr_iff new_JUnitReporter_def)
  have x: "jr_xml r1 = writeDeclaration new_XmlWriter" using junit_middle_silent [OF r1(1)] es(4) by auto
  have "reports (junit_handle S) (a # mid) new_JUnitReporter = Inr r1"
    using r1(1) by (simp add: junit_handle_def es(2) new_JUnitReporter_def)
  note t = junit_reports_tallies [OF this]
  have none: "foldr (\<lambda>e. plus3 (event_tally (rp_event e))) mid (event_tally (rp_event b)) =
      foldr (\<lambda>e. plus3 (event_tally (rp_event e))) mid (0, 0, 0)" by (simp add: es(3))
  have tally: "junit_tally (jr_data r1) = (passes, failures, errors)"
    using t start(3) assms(4) none by (simp add: tallies_def es(1,2,3))
  have agree: "jd_totalErrors (jr_data r1) = int errors" "jd_totalFailures (jr_data r1) = int failures"
    using t start(2) tally assms(5,6) by (simp_all add: tallies_def counters_agree_def)
  let ?cs = "jd_testcases (jr_data r1)"
  have n: "length ?cs = passes" "sum_list (map (\<lambda>c. length (jc_failures c)) ?cs) = failures"
    "sum_list (map (\<lambda>c. length (jc_errors c)) ?cs) = errors" using tally by (simp_all add: junit_tally_def)
  let ?doc = "testsuites_node S (numAsserts p) (jd_totalSeconds (jr_data r1)) ?cs"
  have "junit_test_run_end S p (jr_data r1) = write_node ?doc"
    by (rule junit_test_run_end_node) (simp_all only: agree n)
  moreover have "jr_data r = jr_data r1" using r1(2) by (auto simp: junit_handle_def es(3) bindR_Inr_iff)
  ultimately have "jr_data r = jr_data r1" "jr_xml r = (settled (jr_xml r1))\<lparr>xw_os := xw_os (settled (jr_xml r1)) @ render (xw_indent (jr_xml r1)) ?doc\<rparr>"
    using r1(2) by (auto simp: junit_handle_def es(3) write_node_render bindR_Inr_iff)
  moreover from this have "xw_os (jr_xml r) = xw_os (writeDeclaration new_XmlWriter) @ render [] ?doc"
    by (simp add: x writeDeclaration_def xw_put_def new_XmlWriter_def settled_def newlineIfNecessary_def ensureTagClosed_def)
  moreover have "occurrences ''testcase'' ?doc = passes" "occurrences ''failure'' ?doc = failures" "occurrences ''error'' ?doc = errors"
    using occurrences_cases [where S = S and cs = ?cs] n by (simp_all add: testsuites_node_def Let_def del: map_map)
  ultimately show ?thesis using r by auto
qed

theorem JUnitReporter_accounts_witness:
  "\<exists>r doc. reports (junit_handle \<lparr>st_opt = raw_options, st_reporters = [], st_listeners = [], st_no_colors = True,
       st_isatty = False, st_double = \<lambda>_. ''0'', st_fixed = \<lambda>_. ''0'', st_rnd = id, st_timestamp = ''now''\<rparr>)
     (map (\<lambda>e. \<lparr>rp_event = e, rp_contexts = [], rp_stringified = [], rp_ticks = \<lambda>_. 0, rp_stats = cs_run new_ContextState\<rparr>)
       [test_run_start, test_case_start alpha_test, test_case_exception \<lparr>error_string = ''no'', is_crash = False\<rparr>,
        test_case_end (cs_cur new_ContextState), test_run_end (cs_run new_ContextState)]) new_JUnitReporter = Inr r \<and>
     xw_os (jr_xml r) = xw_os (writeDeclaration new_XmlWriter) @ render [] doc \<and> occurrences ''error'' doc = 1"
proof -
  let ?S = "\<lparr>st_opt = raw_options, st_reporters = [], st_listeners = [], st_no_colors = True,
    st_isatty = False, st_double = \<lambda>_. ''0'', st_fixed = \<lambda>_. ''0'', st_rnd = id, st_timestamp = ''now''\<rparr>"
  let ?es = "map (\<lambda>e. \<lparr>rp_event = e, rp_contexts = [], rp_stringified = [], rp_ticks = \<lambda>_. 0, rp_stats = cs_run new_ContextState\<rparr>)
    [test_run_start, test_case_start alpha_test, test_case_exception \<lparr>error_string = ''no'', is_crash = False\<rparr>,
     test_case_end (cs_cur new_ContextState), test_run_end (cs_run new_ContextState)]"
  have "named_test alpha_test"
    by (simp add: named_test_def alpha_test_def TestCase_name_def new_TestCase_def TestSuite_name_def)
  then show ?thesis using JUnitReporter_accounts [of ?es ?S "cs_run new_ContextState" 1 0 1] by auto
qed

end
