(* ===== verification/Doctest_Help.thy ===== *)
theory Doctest_Help
  imports Doctest_Reporter
begin

text \<open>
  What \<open>ConsoleReporter\<close> of \<^verbatim>\<open>src/Utils/doctest.h\<close> prints that depends on nothing but the settings:
  separators, names and colours of severities, the version, the introduction, the help and the list
  of reporters; and the contexts of an assertion.
\<close>

section \<open>Widths\<close>

text \<open>\<open>std::setw\<close> fills up with spaces on the left.\<close>

definition setw :: "int \<Rightarrow> string \<Rightarrow> string" where
  "setw w t = replicate (nat w - length t) (CHR '' '') @ t"

definition Whitespace :: "int \<Rightarrow> string" where
  "Whitespace n = (if n \<noteq> 0 then setw n '' '' else '''')"

section \<open>Small texts\<close>

definition doctest_tag :: "settings \<Rightarrow> string" where
  "doctest_tag S = col S Cyan @ ''[doctest] '' @ col S Color_None"

definition separator_to_stream :: "settings \<Rightarrow> string" where
  "separator_to_stream S = col S Yellow @
     ''==============================================================================='' @ newline"

definition getSuccessOrFailString :: "bool \<Rightarrow> assertType \<Rightarrow> string \<Rightarrow> string" where
  "getSuccessOrFailString success ty success_str = (if success then success_str else failureString ty)"

definition getSuccessOrFailColor :: "bool \<Rightarrow> assertType \<Rightarrow> Color" where
  "getSuccessOrFailColor success ty =
     (if success then BrightGreen else if has_flag ty is_warn then Yellow else Red)"

definition successOrFailColoredStringToStream :: "settings \<Rightarrow> bool \<Rightarrow> assertType \<Rightarrow> string \<Rightarrow> string" where
  "successOrFailColoredStringToStream S success ty success_str =
     col S (getSuccessOrFailColor success ty) @ getSuccessOrFailString success ty success_str @ '': ''"

definition log_contexts :: "settings \<Rightarrow> string list \<Rightarrow> string" where
  "log_contexts S cs =
     (if length cs \<noteq> 0 then col S Color_None @ ''  logged: '' @ context_lines 0 cs else '''') @ newline"

definition file_line_to_stream :: "settings \<Rightarrow> string \<Rightarrow> int \<Rightarrow> string \<Rightarrow> string" where
  "file_line_to_stream S f l tail =
     col S LightGrey @ shown_file S f @ (if opt_gnu_file_line (st_opt S) then '':'' else ''('') @
     toString_int (if opt_no_line_numbers (st_opt S) then 0 else l) @
     (if opt_gnu_file_line (st_opt S) then '':'' else ''):'') @ tail"

section \<open>Version, introduction and help\<close>

definition printVersion :: "settings \<Rightarrow> string" where
  "printVersion S =
     (if \<not> opt_no_version (st_opt S)
      then doctest_tag S @ ''doctest version is '' @ quoted VERSION_STR @ newline else '''')"

definition printIntro :: "settings \<Rightarrow> string" where
  "printIntro S =
     (if \<not> opt_no_intro (st_opt S)
      then printVersion S @ doctest_tag S @ ''run with '' @ quoted ''--help'' @ '' for options'' @ newline else '''')"

text \<open>
  The rows of the help: the option, the number of spaces in units of the displayed prefix, which is
  empty, and what the option does.
\<close>

definition sizePrefixDisplay :: int where
  "sizePrefixDisplay = 0"

definition help_rows :: "(string \<times> int \<times> string) list \<Rightarrow> string" where
  "help_rows rows = concat (List.map (\<lambda>(opt, k, what). opt @ Whitespace (sizePrefixDisplay * k) @ what @ newline) rows)"

definition help_queries :: "(string \<times> int \<times> string) list" where
  "help_queries =
     [('' -?,   --help, -h                      '', 0, ''prints this message''),
      ('' -v,   --version                       '', 1, ''prints the version''),
      ('' -c,   --count                         '', 1, ''prints the number of matching tests''),
      ('' -ltc, --list-test-cases               '', 1, ''lists all matching tests by name''),
      ('' -lts, --list-test-suites              '', 1, ''lists all matching test suites''),
      ('' -lr,  --list-reporters                '', 1, ''lists all registered reporters'')]"

definition help_values :: "(string \<times> int \<times> string) list" where
  "help_values =
     [('' -tc,  --test-case=<filters>           '', 1, ''filters     tests by their name''),
      ('' -tce, --test-case-exclude=<filters>   '', 1, ''filters OUT tests by their name''),
      ('' -sf,  --source-file=<filters>         '', 1, ''filters     tests by their file''),
      ('' -sfe, --source-file-exclude=<filters> '', 1, ''filters OUT tests by their file''),
      ('' -ts,  --test-suite=<filters>          '', 1, ''filters     tests by their test suite''),
      ('' -tse, --test-suite-exclude=<filters>  '', 1, ''filters OUT tests by their test suite''),
      ('' -sc,  --subcase=<filters>             '', 1, ''filters     subcases by their name''),
      ('' -sce, --subcase-exclude=<filters>     '', 1, ''filters OUT subcases by their name''),
      ('' -r,   --reporters=<filters>           '', 1, ''reporters to use (console is default)''),
      ('' -o,   --out=<string>                  '', 1, ''output filename''),
      ('' -ob,  --order-by=<string>             '', 1, ''how the tests should be ordered''),
      ('''', 3, ''                                       <string> - [file/suite/name/rand/none]''),
      ('' -rs,  --rand-seed=<int>               '', 1, ''seed for random ordering''),
      ('' -f,   --first=<int>                   '', 1, ''the first test passing the filters to''),
      ('''', 3, ''                                       execute - for range-based execution''),
      ('' -l,   --last=<int>                    '', 1, ''the last test passing the filters to''),
      ('''', 3, ''                                       execute - for range-based execution''),
      ('' -aa,  --abort-after=<int>             '', 1, ''stop after <int> failed assertions''),
      ('' -scfl,--subcase-filter-levels=<int>   '', 1, ''apply filters for the first <int> levels'')]"

definition help_flags :: "(string \<times> int \<times> string) list" where
  "help_flags =
     [('' -s,   --success=<bool>                '', 1, ''include successful assertions in output''),
      ('' -cs,  --case-sensitive=<bool>         '', 1, ''filters being treated as case sensitive''),
      ('' -e,   --exit=<bool>                   '', 1, ''exits after the tests finish''),
      ('' -d,   --duration=<bool>               '', 1, ''prints the time duration of each test''),
      ('' -m,   --minimal=<bool>                '', 1, ''minimal console output (only failures)''),
      ('' -q,   --quiet=<bool>                  '', 1, ''no console output''),
      ('' -nt,  --no-throw=<bool>               '', 1, ''skips exceptions-related assert checks''),
      ('' -ne,  --no-exitcode=<bool>            '', 1, ''returns (or exits) always with success''),
      ('' -nr,  --no-run=<bool>                 '', 1, ''skips all runtime doctest operations''),
      ('' -ni,  --no-intro=<bool>               '', 1, ''omit the framework intro in the output''),
      ('' -nv,  --no-version=<bool>             '', 1, ''omit the framework version in the output''),
      ('' -nc,  --no-colors=<bool>              '', 1, ''disables colors in output''),
      ('' -fc,  --force-colors=<bool>           '', 1, ''use colors even when not in a tty''),
      ('' -nb,  --no-breaks=<bool>              '', 1, ''disables breakpoints in debuggers''),
      ('' -ns,  --no-skip=<bool>                '', 1, ''don't skip test cases marked as skip''),
      ('' -gfl, --gnu-file-line=<bool>          '', 1, '':n: vs (n): for line numbers in output''),
      ('' -npf, --no-path-filenames=<bool>      '', 1, ''only filenames and no paths in output''),
      ('' -nln, --no-line-numbers=<bool>        '', 1, ''0 instead of real line numbers in output'')]"

definition printHelp :: "settings \<Rightarrow> string" where
  "printHelp S =
     printVersion S @
     col S Cyan @ ''[doctest]'' @ newline @ col S Color_None @
     doctest_tag S @ ''boolean values: '' @ [CHR 0x22] @ ''1/on/yes/true'' @ [CHR 0x22] @ '' or '' @ [CHR 0x22] @ ''0/off/no/false'' @ [CHR 0x22] @ newline @
     doctest_tag S @ ''filter  values: '' @ [CHR 0x22] @ ''str1,str2,str3'' @ [CHR 0x22] @ '' (comma separated strings)'' @ newline @
     col S Cyan @ ''[doctest]'' @ newline @ col S Color_None @
     doctest_tag S @ ''filters use wildcards for matching strings'' @ newline @
     doctest_tag S @ ''something passes a filter if any of the strings in a filter matches'' @ newline @
     col S Cyan @ ''[doctest]'' @ newline @ col S Color_None @
     doctest_tag S @ ''ALL FLAGS, OPTIONS AND FILTERS ALSO AVAILABLE WITH A '' @ [CHR 0x22] @ ''dt-'' @ [CHR 0x22] @ '' PREFIX!!!'' @ newline @
     col S Cyan @ ''[doctest]'' @ newline @ col S Color_None @
     doctest_tag S @ ''Query flags - the program quits after them. Available:'' @ newline @ newline @
     help_rows help_queries @ newline @
     doctest_tag S @ ''The available <int>/<string> options/filters are:'' @ newline @ newline @
     help_rows help_values @
     col S Cyan @ newline @ ''[doctest] '' @ col S Color_None @ ''Bool options - can be used like flags and true is assumed. Available:'' @ newline @ newline @
     help_rows help_flags @
     col S Cyan @ newline @ ''[doctest] '' @ col S Color_None @ ''for more information visit the project documentation'' @ newline @ newline"

section \<open>Reporters\<close>

definition print_reporter :: "(int \<times> string) \<times> nat \<Rightarrow> string" where
  "print_reporter r = ''priority: '' @ setw 5 (toString_int (fst (fst r))) @ '' name: '' @ snd (fst r) @ newline"

definition printReporters :: "settings \<Rightarrow> ((int \<times> string) \<times> nat) list \<Rightarrow> string \<Rightarrow> string" where
  "printReporters S reporters kind =
     (if length reporters \<noteq> 0
      then doctest_tag S @ ''listing all registered '' @ kind @ newline @ concat (List.map print_reporter reporters)
      else '''')"

definition printRegisteredReporters :: "settings \<Rightarrow> string" where
  "printRegisteredReporters S =
     printVersion S @ printReporters S (st_listeners S) ''listeners'' @ printReporters S (st_reporters S) ''reporters''"

end
