(* ===== verification/Doctest_Console.thy ===== *)
theory Doctest_Console
  imports Doctest_Runs Doctest_Help
begin

text \<open>
  \<open>ConsoleReporter\<close> of \<^verbatim>\<open>src/Utils/doctest.h\<close>, the default reporter: it prints a heading once before
  the first message of a stretch between subcases, with the subcases that are open. Members that the
  constructor does not set may not be read before the first test case sets them.
\<close>

section \<open>The reporter\<close>

record ConsoleReporter =
  cr_s :: string
  hasLoggedCurrentTestStart :: "bool option"
  subcasesStack :: "SubcaseSignature list"
  currentSubcaseLevel :: "64 word option"
  cr_tc :: "TestCase option"

definition new_ConsoleReporter :: ConsoleReporter where
  "new_ConsoleReporter = \<lparr>cr_s = '''', hasLoggedCurrentTestStart = None, subcasesStack = [],
     currentSubcaseLevel = None, cr_tc = None\<rparr>"

definition initialised :: "'a option \<Rightarrow> 'a result" where
  "initialised x = (case x of None \<Rightarrow> Inl UninitialisedRead | Some v \<Rightarrow> Inr v)"

definition con_put :: "string \<Rightarrow> ConsoleReporter \<Rightarrow> ConsoleReporter" where
  "con_put t r = r\<lparr>cr_s := cr_s r @ t\<rparr>"

text \<open>The names of the subcases from index \<open>i\<close> on, \<open>n\<close> of them.\<close>

fun subcase_lines :: "nat \<Rightarrow> nat \<Rightarrow> SubcaseSignature list \<Rightarrow> string result" where
  "subcase_lines 0 i stack = Inr ''''"
| "subcase_lines (Suc n) i stack =
     (if i < length stack
      then bindR (subcase_lines n (i + 1) stack) (\<lambda>t. Inr (
        (if sig_name (stack ! i) \<noteq> '''' then ''  '' @ sig_name (stack ! i) @ newline else '''') @ t))
      else Inl OutOfRange)"

definition test_heading :: "settings \<Rightarrow> TestCase \<Rightarrow> string \<Rightarrow> string" where
  "test_heading S tc name =
     separator_to_stream S @ file_line_to_stream S (tc_file tc) (c_int (int (tc_line tc))) newline @
     (case tc_description tc of
        Some d \<Rightarrow> col S Yellow @ ''DESCRIPTION: '' @ col S Color_None @ d @ newline | None \<Rightarrow> '''') @
     (case tc_test_suite tc of
        Some t \<Rightarrow> if t \<noteq> '''' then col S Yellow @ ''TEST SUITE: '' @ col S Color_None @ t @ newline else ''''
      | None \<Rightarrow> '''') @
     (if take 11 name \<noteq> ''  Scenario:'' then col S Yellow @ ''TEST CASE:  '' else '''') @
     col S Color_None @ name @ newline"

definition deepest_stack :: "settings \<Rightarrow> 64 word \<Rightarrow> SubcaseSignature list \<Rightarrow> string result" where
  "deepest_stack S level stack =
     (if level \<noteq> of_nat (length stack)
      then bindR (subcase_lines (length stack) 0 stack) (\<lambda>t. Inr (
        col S Yellow @ newline @ ''DEEPEST SUBCASE STACK REACHED (DIFFERENT FROM THE CURRENT ONE):'' @ newline @
        col S Color_None @ t))
      else Inr '''')"

definition logTestStart :: "settings \<Rightarrow> ConsoleReporter \<Rightarrow> ConsoleReporter result" where
  "logTestStart S r =
     bindR (initialised (hasLoggedCurrentTestStart r)) (\<lambda>logged.
     if logged then Inr r else
     bindR (initialised (cr_tc r)) (\<lambda>tc. case tc_name tc of
       None \<Rightarrow> Inl NullPointer
     | Some name \<Rightarrow>
         bindR (initialised (currentSubcaseLevel r)) (\<lambda>level.
         bindR (subcase_lines (unat level) 0 (subcasesStack r)) (\<lambda>lines.
         bindR (deepest_stack S level (subcasesStack r)) (\<lambda>deepest.
         Inr ((con_put (test_heading S tc name @ lines @ deepest @ newline) r)
           \<lparr>hasLoggedCurrentTestStart := Some True\<rparr>))))))"

section \<open>The end of the run\<close>

text \<open>
  \<open>int(std::ceil(log10(n + 1)))\<close> for an \<open>unsigned\<close>: the sum wraps, and the logarithm of zero has no
  \<open>int\<close>. The smallest power of ten that is not below a number, in whole numbers.
\<close>

fun ceil_log10 :: "nat \<Rightarrow> nat" where
  "ceil_log10 m = (if m \<le> 1 then 0 else 1 + ceil_log10 ((m + 9) div 10))"

declare ceil_log10.simps [simp del]

definition column_width :: "int \<Rightarrow> int result" where
  "column_width n =
     (if to_unsigned (n + 1) = 0 then Inl SignedOverflow else Inr (int (ceil_log10 (nat (to_unsigned (n + 1))))))"

definition count_line :: "settings \<Rightarrow> int \<Rightarrow> int \<Rightarrow> int \<Rightarrow> Color \<Rightarrow> Color \<Rightarrow> int \<Rightarrow> int \<Rightarrow> int \<Rightarrow> string" where
  "count_line S totwidth passwidth failwidth good bad n passed failed =
     setw totwidth (toString_int n) @ '' | '' @ col S good @ setw passwidth (toString_int passed) @ '' passed'' @
     col S Color_None @ '' | '' @ col S bad @ setw failwidth (toString_int failed) @ '' failed'' @ col S Color_None @ '' |''"

definition con_test_run_end :: "settings \<Rightarrow> TestRunStats \<Rightarrow> ConsoleReporter \<Rightarrow> ConsoleReporter result" where
  "con_test_run_end S p r =
     (if opt_minimal (st_opt S) \<and> numTestCasesFailed p = 0 then Inr r
      else
        let cases = int (numTestCasesPassingFilters p); failed_cases = int (numTestCasesFailed p);
            passed_cases = to_unsigned (cases - failed_cases);
            passed = c_int (numAsserts p - numAssertsFailed p);
            anythingFailed = (numTestCasesFailed p > 0 \<or> numAssertsFailed p > 0);
            skipped = c_int (to_unsigned (int (numTestCases p) - cases)) in
        bindR (column_width (max cases (to_unsigned (numAsserts p)))) (\<lambda>totwidth.
        bindR (column_width (max passed_cases (to_unsigned passed))) (\<lambda>passwidth.
        bindR (column_width (max failed_cases (to_unsigned (numAssertsFailed p)))) (\<lambda>failwidth.
        Inr (con_put (
          separator_to_stream S @ doctest_tag S @ ''test cases: '' @
          count_line S totwidth passwidth failwidth
            (if numTestCasesPassingFilters p = 0 \<or> anythingFailed then Color_None else Green)
            (if numTestCasesFailed p > 0 then Red else Color_None) cases passed_cases failed_cases @
          (if \<not> opt_no_skipped_summary (st_opt S)
           then '' '' @ col S (if skipped = 0 then Color_None else Yellow) @ toString_int skipped @ '' skipped'' @ col S Color_None
           else '''') @ newline @
          doctest_tag S @ ''assertions: '' @
          count_line S totwidth passwidth failwidth
            (if numAsserts p = 0 \<or> anythingFailed then Color_None else Green)
            (if numAssertsFailed p > 0 then Red else Color_None) (numAsserts p) passed (numAssertsFailed p) @ newline @
          doctest_tag S @ ''Status: '' @ col S (if numTestCasesFailed p > 0 then Red else Green) @
          (if numTestCasesFailed p > 0 then ''FAILURE!'' else ''SUCCESS!'') @ col S Color_None @ newline) r)))))"

section \<open>The other events\<close>

fun names_of :: "settings \<Rightarrow> (TestCase \<Rightarrow> string option) \<Rightarrow> TestCase list \<Rightarrow> string result" where
  "names_of S name [] = Inr ''''"
| "names_of S name (tc # tcs) = (case name tc of
       None \<Rightarrow> Inl NullPointer
     | Some n \<Rightarrow> bindR (names_of S name tcs) (\<lambda>t. Inr (col S Color_None @ n @ newline @ t)))"

definition passing_tests :: "settings \<Rightarrow> TestRunStats \<Rightarrow> string" where
  "passing_tests S st = doctest_tag S @ ''unskipped test cases passing the current filters: '' @
     toString_int (int (numTestCasesPassingFilters st)) @ newline"

definition con_report_query :: "settings \<Rightarrow> TestRunStats \<Rightarrow> QueryData \<Rightarrow> ConsoleReporter \<Rightarrow> ConsoleReporter result" where
  "con_report_query S st qd r =
     (let q = st_opt S in
      if opt_version q then Inr (con_put (printVersion S) r)
      else if opt_help q then Inr (con_put (printHelp S) r)
      else if opt_list_reporters q then Inr (con_put (printRegisteredReporters S) r)
      else if opt_count q \<or> opt_list_test_cases q then
        bindR (names_of S tc_name (query_data qd)) (\<lambda>names. Inr (con_put (
          (if opt_list_test_cases q
           then doctest_tag S @ ''listing all test case names'' @ newline @ separator_to_stream S else '''') @
          names @ separator_to_stream S @ passing_tests S st) r))
      else if opt_list_test_suites q then
        bindR (names_of S tc_test_suite (query_data qd)) (\<lambda>names. Inr (con_put (
          doctest_tag S @ ''listing all test suites'' @ newline @ separator_to_stream S @
          names @ separator_to_stream S @ passing_tests S st @
          doctest_tag S @ ''test suites with unskipped test cases passing the current filters: '' @
          toString_int (int (numTestSuitesPassingFilters st)) @ newline) r))
      else Inr r)"

definition failed_as_expected :: "settings \<Rightarrow> nat \<Rightarrow> int \<Rightarrow> string" where
  "failed_as_expected S flags expected =
     (if and flags ShouldHaveFailedButDidnt \<noteq> 0
      then col S Red @ ''Should have failed but didn't! Marking it as failed!'' @ newline
      else if and flags ShouldHaveFailedAndDid \<noteq> 0
      then col S Yellow @ ''Failed as expected so marking it as not failed'' @ newline
      else if and flags CouldHaveFailedAndDid \<noteq> 0
      then col S Yellow @ ''Allowed to fail so marking it as not failed'' @ newline
      else if and flags DidntFailExactlyNumTimes \<noteq> 0
      then col S Red @ ''Didn't fail exactly '' @ toString_int expected @ '' times so marking it as failed!'' @ newline
      else if and flags FailedExactlyNumTimes \<noteq> 0
      then col S Yellow @ ''Failed exactly '' @ toString_int expected @
        '' times as expected so marking it as not failed!'' @ newline
      else '''')"

definition con_test_case_end :: "settings \<Rightarrow> CurrentTestCaseStats \<Rightarrow> ConsoleReporter \<Rightarrow> ConsoleReporter result" where
  "con_test_case_end S st r =
     bindR (initialised (cr_tc r)) (\<lambda>tc.
     if tc_no_output tc then Inr r else
     let flags = failure_flags st; duration = opt_duration (st_opt S) in
     bindR (if duration \<or> flags \<noteq> 0 \<and> flags \<noteq> AssertFailure then logTestStart S r else Inr r) (\<lambda>r.
     bindR (if duration then (case tc_name tc of None \<Rightarrow> Inl NullPointer | Some n \<Rightarrow>
              Inr (col S Color_None @ st_fixed S (seconds st) @ '' s: '' @ n @ newline)) else Inr '''') (\<lambda>took.
     Inr (con_put (took @
       (if and flags Timeout \<noteq> 0
        then col S Red @ ''Test case exceeded time limit of '' @ st_fixed S (tc_timeout tc) @ ''!'' @ newline else '''') @
       failed_as_expected S flags (tc_expected_failures tc) @
       (if and flags TooManyFailedAsserts \<noteq> 0
        then col S Red @ ''Aborting - too many failed asserts!'' @ newline else '''') @
       col S Color_None) r))))"

definition con_test_case_exception ::
  "settings \<Rightarrow> string list \<Rightarrow> TestCaseException \<Rightarrow> ConsoleReporter \<Rightarrow> ConsoleReporter result" where
  "con_test_case_exception S stringified e r =
     bindR (initialised (cr_tc r)) (\<lambda>tc.
     if tc_no_output tc then Inr r else
     bindR (logTestStart S r) (\<lambda>r.
     Inr (con_put (
       file_line_to_stream S (tc_file tc) (c_int (int (tc_line tc))) '' '' @
       successOrFailColoredStringToStream S False (if is_crash e then is_require else is_check) ''SUCCESS'' @
       col S Red @ (if is_crash e then ''test case CRASHED: '' else ''test case THREW exception: '') @
       col S Cyan @ error_string e @ newline @
       (if length stringified \<noteq> 0
        then col S Color_None @ ''  logged: '' @ context_lines 0 (rev stringified) else '''') @
       newline @ col S Color_None) r)))"

definition con_subcase_start :: "SubcaseSignature \<Rightarrow> ConsoleReporter \<Rightarrow> ConsoleReporter result" where
  "con_subcase_start subc r =
     bindR (initialised (currentSubcaseLevel r)) (\<lambda>level. Inr (r\<lparr>subcasesStack := subcasesStack r @ [subc],
       currentSubcaseLevel := Some (level + 1), hasLoggedCurrentTestStart := Some False\<rparr>))"

definition con_subcase_end :: "ConsoleReporter \<Rightarrow> ConsoleReporter result" where
  "con_subcase_end r =
     bindR (initialised (currentSubcaseLevel r)) (\<lambda>level. Inr (r\<lparr>currentSubcaseLevel := Some (level - 1),
       hasLoggedCurrentTestStart := Some False\<rparr>))"

definition con_log_assert :: "settings \<Rightarrow> string list \<Rightarrow> AssertData \<Rightarrow> ConsoleReporter \<Rightarrow> ConsoleReporter result" where
  "con_log_assert S contexts rb r =
     (if \<not> ad_failed rb \<and> \<not> opt_success (st_opt S) then Inr r else
     bindR (initialised (cr_tc r)) (\<lambda>tc.
     if tc_no_output tc then Inr r else
     bindR (logTestStart S r) (\<lambda>r.
     bindR (fulltext_log_assert_to_stream S rb) (\<lambda>t.
     Inr (con_put (
       file_line_to_stream S (ad_file rb) (ad_line rb) '' '' @
       successOrFailColoredStringToStream S (\<not> ad_failed rb) (ad_at rb) ''SUCCESS'' @ t @
       log_contexts S contexts) r)))))"

definition con_log_message :: "settings \<Rightarrow> string list \<Rightarrow> MessageData \<Rightarrow> ConsoleReporter \<Rightarrow> ConsoleReporter result" where
  "con_log_message S contexts mb r =
     bindR (initialised (cr_tc r)) (\<lambda>tc.
     if tc_no_output tc then Inr r else
     bindR (logTestStart S r) (\<lambda>r.
     Inr (con_put (
       file_line_to_stream S (md_file mb) (md_line mb) '' '' @
       col S (getSuccessOrFailColor False (md_severity mb)) @
       getSuccessOrFailString (has_flag (md_severity mb) is_warn) (md_severity mb) ''MESSAGE'' @ '': '' @
       col S Color_None @ md_string mb @ newline @ log_contexts S contexts) r)))"

fun con_handle_event :: "settings \<Rightarrow> report \<Rightarrow> event \<Rightarrow> ConsoleReporter \<Rightarrow> ConsoleReporter result" where
  "con_handle_event S e (report_query qd) r = con_report_query S (rp_stats e) qd r"
| "con_handle_event S e test_run_start r = Inr (if \<not> opt_minimal (st_opt S) then con_put (printIntro S) r else r)"
| "con_handle_event S e (test_run_end p) r = con_test_run_end S p r"
| "con_handle_event S e (test_case_start tc) r = Inr (r\<lparr>hasLoggedCurrentTestStart := Some False, cr_tc := Some tc,
     subcasesStack := [], currentSubcaseLevel := Some 0\<rparr>)"
| "con_handle_event S e (test_case_reenter tc) r = Inr (r\<lparr>subcasesStack := []\<rparr>)"
| "con_handle_event S e (test_case_end st) r = con_test_case_end S st r"
| "con_handle_event S e (test_case_exception x) r = con_test_case_exception S (rp_stringified e) x r"
| "con_handle_event S e (subcase_start sig) r = con_subcase_start sig r"
| "con_handle_event S e subcase_end r = con_subcase_end r"
| "con_handle_event S e (log_assert rb) r = con_log_assert S (rp_contexts e) rb r"
| "con_handle_event S e (log_message mb) r = con_log_message S (rp_contexts e) mb r"
| "con_handle_event S e (test_case_skipped tc) r = Inr r"

definition con_handle :: "settings \<Rightarrow> report \<Rightarrow> ConsoleReporter \<Rightarrow> ConsoleReporter result" where
  "con_handle S e r = con_handle_event S e (rp_event e) r"

section \<open>No faults\<close>

text \<open>
  Events whose numbers can be laid out: \<open>log10\<close> is not asked for that of zero.
\<close>

definition laid_out :: "TestRunStats \<Rightarrow> bool" where
  "laid_out p \<longleftrightarrow>
     max (int (numTestCasesPassingFilters p)) (to_unsigned (numAsserts p)) < 2 ^ 32 - 1 \<and>
     max (to_unsigned (int (numTestCasesPassingFilters p) - int (numTestCasesFailed p)))
       (to_unsigned (c_int (numAsserts p - numAssertsFailed p))) < 2 ^ 32 - 1 \<and>
     max (int (numTestCasesFailed p)) (to_unsigned (numAssertsFailed p)) < 2 ^ 32 - 1"

fun con_legal :: "ContextOptions \<Rightarrow> event \<Rightarrow> bool" where
  "con_legal q (test_run_end p) \<longleftrightarrow> laid_out p"
| "con_legal q e \<longleftrightarrow> legal_event q e"

fun con_ok :: "phase \<Rightarrow> ConsoleReporter \<Rightarrow> bool" where
  "con_ok (Inside d) r \<longleftrightarrow> (\<exists>tc. cr_tc r = Some tc \<and> named_test tc) \<and> hasLoggedCurrentTestStart r \<noteq> None \<and>
     currentSubcaseLevel r = Some (of_nat d) \<and> d \<le> length (subcasesStack r)"
| "con_ok p r \<longleftrightarrow> True"

lemma subcase_lines_ok: "i + n \<le> length stack \<Longrightarrow> \<exists>t. subcase_lines n i stack = Inr t"
proof (induction n arbitrary: i)
  case (Suc n)
  then obtain t where "subcase_lines n (i + 1) stack = Inr t" by force
  with Suc.prems show ?case by simp
qed simp

lemma deepest_stack_ok: "\<exists>t. deepest_stack S level stack = Inr t"
  using subcase_lines_ok [of 0 "length stack" stack] by (auto simp: deepest_stack_def)

lemma con_put_simps [simp]:
  "hasLoggedCurrentTestStart (con_put t r) = hasLoggedCurrentTestStart r" "subcasesStack (con_put t r) = subcasesStack r"
  "currentSubcaseLevel (con_put t r) = currentSubcaseLevel r" "cr_tc (con_put t r) = cr_tc r"
  by (simp_all add: con_put_def)

lemma initialised_simps [simp]: "initialised (Some x) = Inr x" "initialised None = Inl UninitialisedRead"
  by (simp_all add: initialised_def)

lemma unat_of_nat_le: "unat (of_nat d :: 64 word) \<le> d"
  by (simp add: unat_of_nat)

lemma logTestStart_ok:
  assumes "con_ok (Inside d) r"
  shows "yields (logTestStart S r) (con_ok (Inside d))"
proof -
  obtain tc n logged where tc: "cr_tc r = Some tc" "tc_name tc = Some n" "named_test tc"
    "hasLoggedCurrentTestStart r = Some logged" "currentSubcaseLevel r = Some (of_nat d)"
    using assms by (auto simp: named_test_def)
  obtain t where t: "subcase_lines (unat (of_nat d :: 64 word)) 0 (subcasesStack r) = Inr t"
    using subcase_lines_ok [of 0 "unat (of_nat d :: 64 word)" "subcasesStack r"] unat_of_nat_le [of d] assms
    by fastforce
  obtain t' where "deepest_stack S (of_nat d) (subcasesStack r) = Inr t'" using deepest_stack_ok by blast
  with t show ?thesis using assms tc by (simp add: logTestStart_def)
qed

lemma names_of_ok: "\<forall>tc \<in> set tcs. name tc \<noteq> None \<Longrightarrow> \<exists>t. names_of S name tcs = Inr t"
  by (induction tcs) auto

lemma column_width_ok: "0 \<le> n \<Longrightarrow> n < 2 ^ 32 - 1 \<Longrightarrow> column_width n = Inr (int (ceil_log10 (nat (n + 1))))"
  by (simp add: column_width_def to_unsigned_def)

lemma to_unsigned_nonneg: "0 \<le> to_unsigned n"
  by (simp add: to_unsigned_def)

lemma con_test_run_end_ok: "laid_out p \<Longrightarrow> yields (con_test_run_end S p r) (con_ok After)"
  by (simp add: con_test_run_end_def laid_out_def Let_def column_width_ok to_unsigned_nonneg le_max_iff_disj)

lemma con_report_query_ok:
  "\<forall>tc \<in> set (query_data qd). named_test tc \<Longrightarrow> yields (con_report_query S st qd r) (con_ok After)"
  using names_of_ok [of "query_data qd" tc_name S] names_of_ok [of "query_data qd" tc_test_suite S]
  by (auto simp: con_report_query_def Let_def named_test_def)

lemma con_test_case_end_ok: "con_ok (Inside d) r \<Longrightarrow> yields (con_test_case_end S st r) (con_ok Between)"
proof -
  assume ok: "con_ok (Inside d) r"
  then obtain tc n where tc: "cr_tc r = Some tc" "tc_name tc = Some n" by (auto simp: named_test_def)
  obtain r1 where r1: "logTestStart S r = Inr r1" using logTestStart_ok [OF ok] by (auto simp: yields_def)
  show ?thesis by (simp add: con_test_case_end_def tc r1 Let_def)
qed

lemma con_test_case_exception_ok:
  assumes "con_ok (Inside d) r" shows "yields (con_test_case_exception S cs e r) (con_ok (Inside d))"
proof -
  obtain tc where "cr_tc r = Some tc" using assms by auto
  then show ?thesis
    using assms by (simp add: con_test_case_exception_def) (auto intro!: yields_bind [OF logTestStart_ok [OF assms]])
qed

lemma con_log_message_ok:
  assumes "con_ok (Inside d) r" shows "yields (con_log_message S cs mb r) (con_ok (Inside d))"
proof -
  obtain tc where "cr_tc r = Some tc" using assms by auto
  then show ?thesis
    using assms by (simp add: con_log_message_def) (auto intro!: yields_bind [OF logTestStart_ok [OF assms]])
qed

lemma con_log_assert_ok:
  assumes "con_ok (Inside d) r" "assertString (ad_at rb) \<noteq> None"
  shows "yields (con_log_assert S cs rb r) (con_ok (Inside d))"
proof -
  obtain tc where "cr_tc r = Some tc" using assms by auto
  moreover obtain t where "fulltext_log_assert_to_stream S rb = Inr t"
    using fulltext_ok [OF assms(2)] by blast
  ultimately show ?thesis
    using assms by (simp add: con_log_assert_def) (auto intro!: yields_bind [OF logTestStart_ok [OF assms(1)]])
qed

lemma con_handle_ok:
  "con_ok p r \<Longrightarrow> phase_step p e = Some p' \<Longrightarrow> con_legal (st_opt S) e \<Longrightarrow> yields (con_handle_event S rp e r) (con_ok p')"
proof (induction p e rule: phase_step.induct)
  case (1 q)
  then have "p' = After" "\<forall>tc \<in> set (query_data q). named_test tc" by simp_all
  then show ?case using con_report_query_ok by (simp only: con_handle_event.simps)
next
  case (5 st)
  then have "p' = After" "laid_out st" by simp_all
  then show ?case using con_test_run_end_ok by (simp only: con_handle_event.simps)
next
  case (7 d st)
  then have "p' = Between" "con_ok (Inside d) r" by (auto split: if_splits)
  then show ?case using con_test_case_end_ok by (simp only: con_handle_event.simps)
next
  case (8 d x)
  have "p' = Inside d" "con_ok (Inside d) r" using 8(2) 8(1) by simp+
  then show ?case using con_test_case_exception_ok by (simp only: con_handle_event.simps)
next
  case (9 d sig)
  then show ?case by (auto simp: con_subcase_start_def)
next
  case (10 d)
  then obtain k where "d = Suc k" "p' = Inside k" by (cases d) auto
  with 10 show ?case by (auto simp: con_subcase_end_def)
next
  case (11 d rb)
  have "p' = Inside d" "con_ok (Inside d) r" "assertString (ad_at rb) \<noteq> None" using 11(2) 11(1,3) by simp+
  then show ?case using con_log_assert_ok by (simp only: con_handle_event.simps)
next
  case (12 d mb)
  have "p' = Inside d" "con_ok (Inside d) r" using 12(2) 12(1) by simp+
  then show ?case using con_log_message_ok by (simp only: con_handle_event.simps)
qed (auto split: if_splits)

interpretation con_reporter: reporter "con_handle S" con_ok "con_legal (st_opt S)" for S
  by unfold_locales (simp add: con_handle_def con_handle_ok)

section \<open>Headings and columns\<close>

text \<open>Printing the heading a second time does nothing, and the messages of a test case print it first.\<close>

lemma logTestStart_result:
  assumes "logTestStart S r = Inr r1"
  shows "hasLoggedCurrentTestStart r = Some True \<and> r1 = r \<or>
    (\<exists>t. r1 = (con_put t r)\<lparr>hasLoggedCurrentTestStart := Some True\<rparr>)"
proof (cases "hasLoggedCurrentTestStart r")
  case (Some logged)
  show ?thesis
  proof (cases logged)
    case False
    obtain tc where tc: "cr_tc r = Some tc" using assms Some False
      by (cases "cr_tc r") (simp_all add: logTestStart_def)
    obtain n where n: "tc_name tc = Some n" using assms Some False tc
      by (cases "tc_name tc") (simp_all add: logTestStart_def)
    obtain l where "currentSubcaseLevel r = Some l" using assms Some False tc n
      by (cases "currentSubcaseLevel r") (simp_all add: logTestStart_def)
    then show ?thesis using assms Some False tc n by (auto simp: logTestStart_def bindR_Inr_iff)
  qed (use assms Some in \<open>simp add: logTestStart_def\<close>)
qed (use assms in \<open>simp add: logTestStart_def\<close>)

lemma logTestStart_same: "logTestStart S r = Inr r1 \<Longrightarrow> cr_tc r1 = cr_tc r \<and> hasLoggedCurrentTestStart r1 = Some True"
  using logTestStart_result [of S r r1] by auto

lemma logTestStart_again: "logTestStart S r = Inr r1 \<Longrightarrow> logTestStart S r1 = Inr r1"
  using logTestStart_same [of S r r1] by (simp add: logTestStart_def)

fun printed_message :: "settings \<Rightarrow> event \<Rightarrow> bool" where
  "printed_message S (log_assert rb) \<longleftrightarrow> ad_failed rb \<or> opt_success (st_opt S)"
| "printed_message S (log_message mb) \<longleftrightarrow> True"
| "printed_message S (test_case_exception x) \<longleftrightarrow> True"
| "printed_message S e \<longleftrightarrow> False"

lemma message_after_heading:
  assumes "logTestStart S r = Inr r1" "printed_message S (rp_event e)" "cr_tc r = Some tc" "\<not> tc_no_output tc"
  shows "con_handle S e r = con_handle S e r1"
  using assms logTestStart_again [OF assms(1)] logTestStart_same [OF assms(1)]
  by (cases "rp_event e")
    (auto simp: con_handle_def con_log_assert_def con_log_message_def con_test_case_exception_def)

lemma message_keeps_heading:
  assumes "con_handle S e r = Inr r'" "printed_message S (rp_event e)" "hasLoggedCurrentTestStart r = Some True"
  shows "hasLoggedCurrentTestStart r' = Some True \<and> cr_tc r' = cr_tc r"
proof -
  have "logTestStart S r = Inr r" using assms(3) by (simp add: logTestStart_def)
  with assms show ?thesis
    by (cases "rp_event e")
      (auto simp: con_handle_def con_log_assert_def con_log_message_def con_test_case_exception_def bindR_Inr_iff
        initialised_def split: if_splits option.splits)
qed

text \<open>
  A stretch of messages without subcases between them has one heading, in front: the reporter
  prints the same when the heading is printed first, and prints no second one after any of them.
\<close>

theorem heading_once:
  assumes "logTestStart S r = Inr r1" "cr_tc r = Some tc" "\<not> tc_no_output tc" "es \<noteq> []"
    "\<forall>e \<in> set es. printed_message S (rp_event e)"
  shows "reports (con_handle S) es r = reports (con_handle S) es r1 \<and>
     (\<forall>r'. reports (con_handle S) es r = Inr r' \<longrightarrow> logTestStart S r' = Inr r')"
proof -
  have keeps: "hasLoggedCurrentTestStart r' = Some True"
    if "reports (con_handle S) es r = Inr r'" "hasLoggedCurrentTestStart r = Some True"
      "\<forall>e \<in> set es. printed_message S (rp_event e)" for es r r'
    using that
  proof (induction es arbitrary: r)
    case (Cons e es)
    then obtain r2 where "con_handle S e r = Inr r2" "reports (con_handle S) es r2 = Inr r'"
      by (auto simp: bindR_Inr_iff)
    with Cons message_keeps_heading [OF this(1)] show ?case by simp
  qed simp
  obtain e es' where es: "es = e # es'" using assms(4) by (cases es) auto
  then have same: "reports (con_handle S) es r = reports (con_handle S) es r1"
    using message_after_heading [OF assms(1) _ assms(2,3)] assms(5) by simp
  then show ?thesis
    using keeps [OF _ _ assms(5), of r1] logTestStart_same [OF assms(1)]
    by (auto simp: logTestStart_def)
qed

theorem heading_once_witness:
  "let S = \<lparr>st_opt = raw_options, st_reporters = [], st_listeners = [], st_no_colors = True, st_isatty = False,
         st_double = \<lambda>_. ''0'', st_fixed = \<lambda>_. ''0'', st_rnd = id, st_timestamp = ''''\<rparr>;
       r = new_ConsoleReporter\<lparr>hasLoggedCurrentTestStart := Some False, cr_tc := Some alpha_test,
         currentSubcaseLevel := Some 0\<rparr>;
       es = map (\<lambda>t. \<lparr>rp_event = log_message \<lparr>md_string = t, md_file = ''t.cpp'', md_line = 3, md_severity = is_warn\<rparr>,
         rp_contexts = [], rp_stringified = [], rp_ticks = \<lambda>_. 0, rp_stats = cs_run new_ContextState\<rparr>) [''a'', ''b''] in
   \<exists>r1. logTestStart S r = Inr r1 \<and> reports (con_handle S) es r = reports (con_handle S) es r1"
proof -
  define S where "S = \<lparr>st_opt = raw_options, st_reporters = [], st_listeners = [], st_no_colors = True, st_isatty = False,
    st_double = \<lambda>_. ''0'', st_fixed = \<lambda>_. ''0'', st_rnd = id, st_timestamp = ''''\<rparr>"
  define r where "r = new_ConsoleReporter\<lparr>hasLoggedCurrentTestStart := Some False, cr_tc := Some alpha_test,
    currentSubcaseLevel := Some 0\<rparr>"
  define es where "es = map (\<lambda>t. \<lparr>rp_event = log_message \<lparr>md_string = t, md_file = ''t.cpp'', md_line = 3, md_severity = is_warn\<rparr>,
    rp_contexts = [], rp_stringified = [], rp_ticks = \<lambda>_. 0, rp_stats = cs_run new_ContextState\<rparr>) [''a'', ''b'']"
  have t: "\<not> tc_no_output alpha_test" "named_test alpha_test"
    by (simp_all add: named_test_def alpha_test_def TestCase_name_def new_TestCase_def TestSuite_name_def new_TestSuite_def)
  then have "con_ok (Inside 0) r" by (simp add: r_def new_ConsoleReporter_def)
  then obtain r1 where r1: "logTestStart S r = Inr r1" using logTestStart_ok [of 0 r S] by (auto simp: yields_def)
  have "reports (con_handle S) es r = reports (con_handle S) es r1"
    using heading_once [OF r1, of alpha_test es] t(1) by (simp add: r_def es_def)
  with r1 show ?thesis unfolding S_def r_def es_def Let_def by blast
qed

text \<open>The width of a column is the number of digits.\<close>

lemma ceil_log10_digits: "0 < n \<Longrightarrow> ceil_log10 (n + 1) = length (to_string n)"
proof (induction n rule: to_string.induct)
  case (1 n)
  have step: "ceil_log10 (n + 1) = 1 + ceil_log10 (n div 10 + 1)"
    using "1.prems" by (subst ceil_log10.simps) simp
  show ?case
  proof (cases "n < 10")
    case True
    then have "n div 10 + 1 = 1" by simp
    then have "ceil_log10 (n + 1) = 1" using step by (simp add: ceil_log10.simps)
    then show ?thesis using True by (simp add: to_string.simps [of n])
  next
    case False
    then have "ceil_log10 (n div 10 + 1) = length (to_string (n div 10))" using "1.IH" by simp
    then show ?thesis using step False by (simp add: to_string.simps [of n])
  qed
qed

lemma length_to_string_mono: "m \<le> n \<Longrightarrow> length (to_string m) \<le> length (to_string n)"
proof (induction n arbitrary: m rule: to_string.induct)
  case (1 n)
  show ?case
  proof (cases "n < 10")
    case True
    then show ?thesis using "1.prems" by (simp add: to_string.simps)
  next
    case False
    have "length (to_string (m div 10)) \<le> length (to_string (n div 10))"
      using False "1.prems" by (intro "1.IH") (simp_all add: div_le_mono)
    then show ?thesis using False by (simp add: to_string.simps [of n] to_string.simps [of m])
  qed
qed

text \<open>
  The two numbers of a column in the summary are printed equally wide, as wide as the larger
  one needs.
\<close>

theorem summary_columns_align:
  assumes "0 \<le> a" "0 \<le> b" "max a b < 2 ^ 32 - 1"
  shows "\<exists>w. column_width (max a b) = Inr w \<and>
     length (setw w (toString_int a)) = length (toString_int (max a b)) \<and>
     length (setw w (toString_int b)) = length (toString_int (max a b))"
proof -
  let ?w = "ceil_log10 (nat (max a b + 1))"
  have w: "column_width (max a b) = Inr (int ?w)" using column_width_ok [of "max a b"] assms by simp
  have digits: "max ?w 1 = length (to_string (nat (max a b)))"
  proof (cases "max a b = 0")
    case True
    then show ?thesis by (simp add: ceil_log10.simps to_string.simps)
  next
    case False
    then have "?w = length (to_string (nat (max a b)))"
      using ceil_log10_digits [of "nat (max a b)"] assms by (simp add: nat_add_distrib)
    moreover have "1 \<le> length (to_string (nat (max a b)))" by (subst to_string.simps) simp
    ultimately show ?thesis by simp
  qed
  have "length (setw (int ?w) (toString_int c)) = length (toString_int (max a b))" if "0 \<le> c" "c \<le> max a b" for c
  proof -
    have "1 \<le> length (to_string (nat c))" by (subst to_string.simps) simp
    moreover have "length (to_string (nat c)) \<le> length (to_string (nat (max a b)))"
      using that by (intro length_to_string_mono) simp
    moreover have "length (setw (int ?w) (toString_int c)) = max ?w (length (to_string (nat c)))"
      using that by (simp add: setw_def toString_int_def max_def)
    moreover have "length (toString_int (max a b)) = length (to_string (nat (max a b)))"
      using assms by (simp add: toString_int_def)
    ultimately show ?thesis using digits by linarith
  qed
  then show ?thesis using w assms by auto
qed

theorem summary_columns_align_witness:
  "\<exists>w. column_width 123 = Inr w \<and> length (setw w (toString_int 7)) = length (toString_int 123)"
  using summary_columns_align [of 7 123] by auto

end
