(* ===== verification/Doctest_Reports.thy ===== *)
theory Doctest_Reports
  imports Doctest_Runs Doctest_Xml_Reporter Doctest_JUnit Doctest_Console
begin

text \<open>
  The events of a run and the reporters together: the order in which \<open>Context::run\<close> reports keeps
  to the contract, so that no reporter fails and the documents are closed; and the order in
  which a crash is reported, which does not.
\<close>

section \<open>The events of a run\<close>

text \<open>From one state to a later one, legal events were reported that lead from one phase to another.\<close>

definition told :: "ContextOptions \<Rightarrow> phase \<Rightarrow> ContextState \<Rightarrow> phase \<Rightarrow> ContextState \<Rightarrow> bool" where
  "told q p s p' s' \<longleftrightarrow>
     (\<exists>es. cs_log s' = cs_log s @ es \<and> phase_steps p es = Some p' \<and> (\<forall>e \<in> set es. legal_event q e))"

lemma told_refl: "cs_log s' = cs_log s \<Longrightarrow> told q p s p s'"
  by (simp add: told_def)

lemma told_trans:
  assumes "told q p s p' s'" "told q p' s' p'' s''"
  shows "told q p s p'' s''"
proof -
  obtain es es' where "cs_log s' = cs_log s @ es" "phase_steps p es = Some p'" "\<forall>e \<in> set es. legal_event q e"
    "cs_log s'' = cs_log s' @ es'" "phase_steps p' es' = Some p''" "\<forall>e \<in> set es'. legal_event q e"
    using assms by (auto simp: told_def)
  then show ?thesis
    unfolding told_def by (intro exI [of _ "es @ es'"]) (auto simp: phase_steps_append)
qed

lemma told_emit: "phase_step p e = Some p' \<Longrightarrow> legal_event q e \<Longrightarrow> told q p s p' (emit e s)"
  unfolding told_def by (intro exI [of _ "[e]"]) simp

lemma told_same: "told q p s p' s' \<Longrightarrow> cs_log t = cs_log s \<Longrightarrow> cs_log t' = cs_log s' \<Longrightarrow> told q p t p' t'"
  by (simp add: told_def)

text \<open>
  What a test function may report: whatever is allowed inside of a test case, with its subcases
  closed at the end. It does not change the options.
\<close>

fun finished :: "finish \<Rightarrow> ContextState" where
  "finished (Returned s) = s"
| "finished (Failed s) = s"
| "finished (Threw e s) = s"
| "finished (Signalled k s) = s"

definition reporting_tests :: "env \<Rightarrow> ContextOptions \<Rightarrow> bool" where
  "reporting_tests E q \<longleftrightarrow> (\<forall>k n s r. env_body E k n s = Inr r \<longrightarrow> (\<forall>sig s'. r \<noteq> Signalled sig s') \<longrightarrow>
     told q (Inside 0) s (Inside 0) (finished r) \<and> cs_opt (finished r) = cs_opt s)"

lemma start_pass_log [simp]: "cs_log (start_pass s) = cs_log s" "cs_opt (start_pass s) = cs_opt s"
  by (simp_all add: start_pass_def)

lemma add_failure_flags_log [simp]:
  "cs_log (add_failure_flags fl s) = cs_log s" "cs_opt (add_failure_flags fl s) = cs_opt s"
  by (simp_all add: add_failure_flags_def)

lemma told_simps [simp]:
  "told q p s p' (add_failure_flags fl s') = told q p s p' s'" "told q p (start_pass s) p' s' = told q p s p' s'"
  by (simp_all add: told_def)

lemma one_pass_told:
  assumes "reporting_tests E q" "one_pass E tc n (sg, s) = Inr (Goes_on (sg', s'))"
  shows "told q (Inside 0) s (Inside 0) s' \<and> cs_opt s' = cs_opt s"
proof -
  obtain r where r: "env_body E (tc_test tc) n (start_pass s) = Inr r"
    using assms(2) by (cases "env_body E (tc_test tc) n (start_pass s)") (auto simp: one_pass_def Let_def)
  show ?thesis
  proof (cases r)
    case (Threw e s1)
    then have "told q (Inside 0) s (Inside 0) s1" "cs_opt s1 = cs_opt s"
      using assms(1) r by (auto simp: reporting_tests_def dest!: spec)
    moreover have "told q (Inside 0) s1 (Inside 0) s'" "cs_opt s' = cs_opt s1"
      using assms(2) r Threw by (auto simp: one_pass_def Let_def intro!: told_emit)
    ultimately show ?thesis using told_trans by metis
  next
    case (Signalled k s1)
    then show ?thesis using assms(2) r by (simp add: one_pass_def Let_def handleSignal_def)
  qed (use assms r in \<open>auto simp: one_pass_def Let_def reporting_tests_def dest!: spec\<close>)
qed

lemma run_passes_told:
  assumes "reporting_tests E q" "named_test tc"
  shows "run_passes E tc n (sg, s) = Some (Inr (Goes_on (sg', s'))) \<Longrightarrow>
     told q (Inside 0) s (Inside 0) s' \<and> cs_opt s' = cs_opt s"
proof -
  let ?P = "\<lambda>E' tc' n ms r. E' = E \<longrightarrow> tc' = tc \<longrightarrow> (\<forall>sg' s'. r = Inr (Goes_on (sg', s')) \<longrightarrow>
     told q (Inside 0) (snd ms) (Inside 0) s' \<and> cs_opt s' = cs_opt (snd ms))"
  have all: "?P E' tc' n ms r" if run: "run_passes E' tc' n ms = Some r" for E' tc' n and ms :: "signal_state \<times> ContextState" and r
  proof (rule run_passes.raw_induct [where P = ?P, OF _ run])
    fix rec E' tc' n r and ms :: "signal_state \<times> ContextState"
    assume 1: "\<And>E' tc' n ms r. rec E' tc' n ms = Some r \<Longrightarrow> ?P E' tc' n ms r"
      and 2: "(case one_pass E' tc' n ms of
         Inl f \<Rightarrow> Some (Inl f)
       | Inr (Goes_on (sg, s)) \<Rightarrow>
         (let run_test = (\<not> too_many_failed s);
              s = (if run_test then s else add_failure_flags TooManyFailedAsserts s) in
          if nextSubcaseStack s \<noteq> [] \<and> run_test
          then rec E' tc' (n + 1) (sg, emit (test_case_reenter tc') s)
          else Some (Inr (Goes_on (sg, s))))
       | Inr (Dies k s) \<Rightarrow> Some (Inr (Dies k s))) = Some r"
    show "?P E' tc' n ms r"
    proof (intro impI allI)
      fix sg' s' assume e: "E' = E" "tc' = tc" "r = Inr (Goes_on (sg', s'))"
      obtain sg s where ms: "ms = (sg, s)" by (cases ms)
      obtain sg1 s1 where s1: "one_pass E tc n (sg, s) = Inr (Goes_on (sg1, s1))"
        using 2 e ms by (auto split: sum.splits progress.splits)
      note t = one_pass_told [OF assms(1) s1]
      show "told q (Inside 0) (snd ms) (Inside 0) s' \<and> cs_opt s' = cs_opt (snd ms)"
      proof (cases "nextSubcaseStack s1 \<noteq> [] \<and> \<not> too_many_failed s1")
        case True
        then have "rec E tc (n + 1) (sg1, emit (test_case_reenter tc) s1) = Some (Inr (Goes_on (sg', s')))"
          using 2 e ms s1 by (simp add: Let_def)
        from 1 [OF this] have "told q (Inside 0) (emit (test_case_reenter tc) s1) (Inside 0) s'" "cs_opt s' = cs_opt s1"
          by simp_all
        moreover have "told q (Inside 0) s1 (Inside 0) (emit (test_case_reenter tc) s1)"
          using assms(2) by (intro told_emit) simp_all
        ultimately show ?thesis using t ms by (metis snd_conv told_trans)
      next
        case False
        then have "s' = (if too_many_failed s1 then add_failure_flags TooManyFailedAsserts s1 else s1)"
          using 2 e ms s1 by (simp add: Let_def split: if_splits)
        then show ?thesis using t ms by simp
      qed
    qed
  qed
  assume "run_passes E tc n (sg, s) = Some (Inr (Goes_on (sg', s')))"
  from all [OF this] show "told q (Inside 0) s (Inside 0) s' \<and> cs_opt s' = cs_opt s"
    by (simp only: simp_thms snd_conv sum.inject progress.inject prod.inject)
qed

lemma execute_test_told:
  assumes "reporting_tests E q" "named_test tc" "opt_currentTest (cs_opt s) = None"
    "execute_test E tc (sg, s) = Some (Inr (Goes_on (sg', s')))"
  shows "told q Between s Between s' \<and> cs_opt s' = cs_opt s"
proof -
  obtain s1 where s1: "run_passes E tc 0 (sg, begin_test E tc s) = Some (Inr (Goes_on (sg', s1)))"
    "s' = end_test E tc s1"
    using assms(4) by (auto simp: execute_test_def split: option.splits sum.splits progress.splits)
  note passes = run_passes_told [OF assms(1,2) s1(1)]
  have "told q Between s (Inside 0) (begin_test E tc s)"
    by (rule told_same [OF told_emit [of Between "test_case_start tc" "Inside 0" q s]])
      (simp_all add: assms(2) begin_test_def set_currentTest_def Let_def emit_def)
  from told_trans [OF this conjunct1 [OF passes]]
  have "told q Between s (Inside 0) s1" .
  moreover have "told q (Inside 0) s1 Between (end_test E tc s1)"
    by (rule told_same [OF told_emit [of "Inside 0"
          "test_case_end (cs_cur (finalizeTestCaseData (env_rnd E) (env_stop E (tc_test tc)) s1))" Between q s1]])
      (simp_all add: end_test_def set_currentTest_def Let_def emit_def finalizeTestCaseData_def)
  ultimately have "told q Between s Between s'" unfolding s1(2) by (rule told_trans)
  moreover have "cs_opt s' = cs_opt s"
    unfolding s1(2) end_test_fields conjunct2 [OF passes] begin_test_fields
    using no_currentTest [OF assms(3)] by simp
  ultimately show ?thesis by simp
qed

text \<open>A test case that is neither skipped nor listed is executed.\<close>

lemma run_tests_executes:
  assumes "\<not> (filtered_out s tc \<or> out_of_range (cs_opt s)
      (numTestCasesPassingFilters (cs_run (passed_tests (if filtered_out s tc then 0 else 1) s))))"
    "\<not> query_mode (cs_opt s)"
  shows "run_tests E (tc # tcs) qr (sg, s) =
    (case execute_test E tc (sg, passed_tests (if filtered_out s tc then 0 else 1) s) of
       Some (Inr (Goes_on (sg, s))) \<Rightarrow>
         if opt_abort_after (cs_opt s) > 0 \<and> numAssertsFailed (cs_run s) \<ge> opt_abort_after (cs_opt s)
         then Some (Inr (Goes_on (qr, sg, s))) else run_tests E tcs qr (sg, s)
     | Some (Inr (Dies sig s)) \<Rightarrow> Some (Inr (Dies sig s))
     | Some (Inl f) \<Rightarrow> Some (Inl f) | None \<Rightarrow> None)"
  using assms by (auto simp: run_tests_Cons Let_def query_mode_def split: if_splits)

text \<open>The loop over the tests; a query reports nothing in it.\<close>

lemma run_tests_told:
  assumes "reporting_tests E q" "\<forall>tc \<in> set tcs. named_test tc" "opt_currentTest (cs_opt s) = None"
    "run_tests E tcs qr (sg, s) = Some (Inr (Goes_on (qr', sg', s')))"
  shows "(if query_mode (cs_opt s) then cs_log s' = cs_log s else told q Between s Between s') \<and> cs_opt s' = cs_opt s"
  using assms
proof (induction tcs arbitrary: qr sg s)
  case Nil
  then show ?case by (simp add: told_refl)
next
  case (Cons tc tcs)
  let ?s = "passed_tests (if filtered_out s tc then 0 else 1) s"
  have tc: "named_test tc" "\<forall>tc \<in> set tcs. named_test tc" using Cons.prems(2) by simp_all
  have told_passed: "told q p ?s p' t = told q p s p' t" for p p' t by (simp add: told_def)
  show ?case
  proof (cases "filtered_out s tc \<or> out_of_range (cs_opt s) (numTestCasesPassingFilters (cs_run ?s))")
    case True
    let ?t = "if query_mode (cs_opt s) then ?s else emit (test_case_skipped tc) ?s"
    have r: "run_tests E tcs qr (sg, ?t) = Some (Inr (Goes_on (qr', sg', s')))"
      using Cons.prems(4) True by (simp add: run_tests_Cons Let_def split: if_splits)
    have "told q Between s Between (emit (test_case_skipped tc) ?s)"
      unfolding told_passed [symmetric] by (rule told_emit) (simp_all add: tc)
    then show ?thesis
      using Cons.IH [OF Cons.prems(1) tc(2) _ r] Cons.prems(3) told_trans by (fastforce split: if_splits)
  next
    case go: False
    show ?thesis
    proof (cases "query_mode (cs_opt s)")
      case True
      obtain qr1 s1 where "run_tests E tcs qr1 (sg, s1) = Some (Inr (Goes_on (qr', sg', s')))"
        "cs_log s1 = cs_log s" "cs_opt s1 = cs_opt s"
      proof -
        have "cs_log (snd (list_suite tc (qr, ?s))) = cs_log s" "cs_opt (snd (list_suite tc (qr, ?s))) = cs_opt s"
          by (simp_all add: list_suite_def Let_def)
        then show thesis
          using Cons.prems(4) go True that [of qr ?s] that [of "qr\<lparr>query_results := query_results qr @ [tc]\<rparr>" ?s]
            that [of "fst (list_suite tc (qr, ?s))" "snd (list_suite tc (qr, ?s))"]
          by (auto simp: run_tests_Cons Let_def query_mode_def split: if_splits prod.splits)
      qed
      then show ?thesis using Cons.IH [OF Cons.prems(1) tc(2)] Cons.prems(3) True by metis
    next
      case False
      note run = run_tests_executes [OF go False]
      obtain sg1 s1 where s1: "execute_test E tc (sg, ?s) = Some (Inr (Goes_on (sg1, s1)))"
        using Cons.prems(4) run by (auto split: option.splits sum.splits progress.splits)
      have t: "told q Between s Between s1" "cs_opt s1 = cs_opt s"
        using execute_test_told [OF Cons.prems(1) tc(1) _ s1] Cons.prems(3) by (simp_all add: told_passed)
      show ?thesis
      proof (cases "opt_abort_after (cs_opt s1) > 0 \<and> numAssertsFailed (cs_run s1) \<ge> opt_abort_after (cs_opt s1)")
        case True
        then show ?thesis using Cons.prems(4) run s1 t False by simp
      next
        case abort: False
        then have "run_tests E tcs qr (sg1, s1) = Some (Inr (Goes_on (qr', sg', s')))"
          using Cons.prems(4) run s1 by (simp split: if_splits)
        then show ?thesis
          using Cons.IH [OF Cons.prems(1) tc(2), of s1 qr sg1] Cons.prems(3) t False told_trans by metis
      qed
    qed
  qed
qed

lemma set_shuffle_tests: "i < length xs \<Longrightarrow> set (shuffle_tests rand k i xs) = set xs"
proof (induction rand k i xs rule: shuffle_tests.induct)
  case (2 rand k i xs)
  define j where "j = rand k mod (Suc i + 1)"
  have j: "j < length xs" using 2(2) mod_less_divisor [of "Suc i + 1" "rand k"] unfolding j_def by linarith
  have "set (shuffle_tests rand (k + 1) i (xs[Suc i := xs ! j, j := xs ! Suc i])) =
      set (xs[Suc i := xs ! j, j := xs ! Suc i])"
    using 2(2) by (intro "2.IH" [OF j_def]) simp
  also have "\<dots> = set xs" using set_swap [of "Suc i" xs j] 2(2) j by simp
  finally show ?case by (simp add: Let_def j_def)
qed simp

lemma set_std_sort: "set (std_sort lt xs) = set xs"
proof -
  have "set (sort_insert lt x ys) = insert x (set ys)" for x ys by (induction ys) auto
  then show ?thesis by (induction xs) (simp_all add: std_sort_def)
qed

lemma set_order_tests: "set (order_tests E q tests) = set tests"
  using set_shuffle_tests [of "length tests - 1" tests "env_rand E (opt_rand_seed q)" 0]
  by (auto simp: order_tests_def set_std_sort)

section \<open>What a run reports\<close>

text \<open>The results of a query are registered tests.\<close>

lemma run_tests_results:
  "run_tests E tcs qr (sg, s) = Some (Inr (Goes_on (qr', ms'))) \<Longrightarrow>
   set (query_results qr') \<subseteq> set (query_results qr) \<union> set tcs"
proof (induction tcs arbitrary: qr sg s)
  case (Cons tc tcs)
  let ?s = "passed_tests (if filtered_out s tc then 0 else 1) s"
  have next_test: "set (query_results qr') \<subseteq> set (query_results qr) \<union> set (tc # tcs)"
    if "run_tests E tcs qr1 (sg1, s1) = Some (Inr (Goes_on (qr', ms')))"
      "set (query_results qr1) \<subseteq> set (query_results qr) \<union> {tc}" for qr1 sg1 s1
    using Cons.IH [OF that(1)] that(2) by auto
  note run = Cons.prems [unfolded run_tests_Cons Let_def]
  consider (skipped) "filtered_out s tc \<or> out_of_range (cs_opt ?s) (numTestCasesPassingFilters (cs_run ?s))"
    | (listed) "\<not> (filtered_out s tc \<or> out_of_range (cs_opt ?s) (numTestCasesPassingFilters (cs_run ?s)))"
        "query_mode (cs_opt ?s)"
    | (run) "\<not> (filtered_out s tc \<or> out_of_range (cs_opt ?s) (numTestCasesPassingFilters (cs_run ?s)))"
        "\<not> query_mode (cs_opt ?s)" by blast
  then show ?case
  proof cases
    case skipped
    with run have "run_tests E tcs qr (sg, if query_mode (cs_opt ?s) then ?s else emit (test_case_skipped tc) ?s) =
        Some (Inr (Goes_on (qr', ms')))" by (simp only: if_True)
    then show ?thesis by (rule next_test) auto
  next
    case listed
    show ?thesis
    proof (cases "opt_count (cs_opt ?s)")
      case True
      with run listed(1) have "run_tests E tcs qr (sg, ?s) = Some (Inr (Goes_on (qr', ms')))" by (simp only: if_True if_False)
      then show ?thesis by (rule next_test) auto
    next
      case no_count: False
      show ?thesis
      proof (cases "opt_list_test_cases (cs_opt ?s)")
        case True
        with run listed(1) no_count
        have "run_tests E tcs (qr\<lparr>query_results := query_results qr @ [tc]\<rparr>) (sg, ?s) = Some (Inr (Goes_on (qr', ms')))"
          by (simp only: if_True if_False)
        then show ?thesis by (rule next_test) auto
      next
        case False
        with listed(2) no_count have "opt_list_test_suites (cs_opt ?s)" by (simp add: query_mode_def)
        with run listed(1) no_count False
        have "run_tests E tcs (fst (list_suite tc (qr, ?s))) (sg, snd (list_suite tc (qr, ?s))) =
            Some (Inr (Goes_on (qr', ms')))"
          by (simp only: if_True if_False case_prod_beta)
        then show ?thesis by (rule next_test) (auto simp: list_suite_def Let_def)
      qed
    qed
  next
    case executed: run
    have go: "\<not> (filtered_out s tc \<or> out_of_range (cs_opt s) (numTestCasesPassingFilters (cs_run ?s)))"
      using executed(1) by (cases "filtered_out s tc") simp_all
    have "\<not> query_mode (cs_opt s)" using executed(2) by simp
    note run = run_tests_executes [OF go this, of E tcs qr sg]
    obtain sg1 s1 where s1: "execute_test E tc (sg, ?s) = Some (Inr (Goes_on (sg1, s1)))"
      using Cons.prems run by (auto split: option.splits sum.splits progress.splits)
    show ?thesis
    proof (cases "opt_abort_after (cs_opt s1) > 0 \<and> numAssertsFailed (cs_run s1) \<ge> opt_abort_after (cs_opt s1)")
      case True
      then show ?thesis using Cons.prems run s1 by auto
    next
      case False
      then have "run_tests E tcs qr (sg1, s1) = Some (Inr (Goes_on (qr', ms')))" using Cons.prems run s1 by auto
      then show ?thesis by (rule next_test) auto
    qed
  qed
qed simp

lemma finish_tests_told:
  assumes "query_mode (cs_opt s)" "\<forall>tc \<in> set (query_results qr). named_test tc"
  shows "told q Before s After (finish_tests (qr, s))"
  using assms by (simp add: finish_tests_def Let_def) (intro told_emit; simp)

lemma run_told:
  assumes "reporting_tests E (cs_opt s)" "\<forall>tc \<in> set tests. named_test tc" "opt_currentTest (cs_opt s) = None"
    "query_mode (cs_opt s) \<Longrightarrow> opt_list_reporters (cs_opt s) \<or>
      \<not> (opt_no_run (cs_opt s) \<or> opt_version (cs_opt s) \<or> opt_help (cs_opt s))"
    "run E this rl tests (p, s) = Some (Inr (Exit code p' s'))"
  shows "told (cs_opt s) Before s After s'"
proof -
  obtain p1 s1 where 1: "prepare_run this rl (p, s) = (p1, s1)" by (cases "prepare_run this rl (p, s)")
  note f = prepare_run_fields [where this = this and rl = rl and p = p and s = s, unfolded 1 fst_conv snd_conv]
  show ?thesis
  proof (cases "opt_no_run (cs_opt s) \<or> opt_version (cs_opt s) \<or> opt_help (cs_opt s) \<or> opt_list_reporters (cs_opt s)")
    case True
    then have "legal_event (cs_opt s) (report_query \<lparr>query_run_stats = None, query_data = []\<rparr>)"
      using assms(4) by (auto simp: query_mode_def)
    then have "told (cs_opt s) Before s After (emit (report_query \<lparr>query_run_stats = None, query_data = []\<rparr>) s)"
      by (intro told_emit) simp_all
    moreover have "cs_log s' = cs_log s @ [report_query \<lparr>query_run_stats = None, query_data = []\<rparr>]"
      using assms(5) True by (auto simp: run_def Let_def 1 f cleanup_and_return_def)
    ultimately show ?thesis using told_same by fastforce
  next
    case False
    let ?s = "start_tests (count_tests (length tests) s1)"
    obtain qr sg2 s2 where 2: "run_tests E (order_tests E (cs_opt s) tests)
        \<lparr>suites_listed = [], query_results = []\<rparr> (pr_signals p1, ?s) = Some (Inr (Goes_on (qr, sg2, s2)))"
      "cs_log s' = cs_log (finish_tests (qr, s2))"
      using assms(5) False
      by (auto simp: run_def Let_def 1 f cleanup_and_return_def split: option.splits sum.splits progress.splits)
    have q: "query_mode (cs_opt ?s) = query_mode (cs_opt s)" "opt_currentTest (cs_opt ?s) = None"
      using assms(3) by (simp_all add: before_tests_fields f)
    have tests: "(if query_mode (cs_opt ?s) then cs_log s2 = cs_log ?s else told (cs_opt s) Between ?s Between s2) \<and>
        cs_opt s2 = cs_opt ?s"
      using run_tests_told [OF assms(1) _ q(2) 2(1)] assms(2) by (simp add: set_order_tests)
    show ?thesis
    proof (cases "query_mode (cs_opt s)")
      case True
      then have "cs_log s2 = cs_log s" using tests q by (simp add: before_tests_fields f)
      moreover have "told (cs_opt s) Before s2 After (finish_tests (qr, s2))"
        using True tests q run_tests_results [OF 2(1)] assms(2)
        by (intro finish_tests_told) (auto simp: set_order_tests)
      ultimately show ?thesis using 2(2) told_same by metis
    next
      case run: False
      have "told (cs_opt s) Before s Between ?s"
        by (rule told_same [OF told_emit [of Before test_run_start Between "cs_opt s" s]])
          (use run in \<open>simp_all add: start_tests_def count_tests_def f emit_def\<close>)
      moreover have "told (cs_opt s) Between ?s Between s2" using tests q run by simp
      moreover have "told (cs_opt s) Between s2 After (finish_tests (qr, s2))"
        using run tests q by (simp add: finish_tests_def Let_def) (intro told_emit; simp)
      ultimately show ?thesis using told_trans told_same 2(2) by metis
    qed
  qed
qed

text \<open>
  C14. If a run exits, then the reporters that were told its events took them without a fault: the
  XML and the JUnit reporter ended every element they started, and so did the console reporter if
  the numbers of the summary can be laid out. The test functions may report whatever belongs inside
  of a test case, and queries are not mixed with \<open>no-run\<close>, \<open>version\<close> or \<open>help\<close>.
\<close>

theorem run_reports_accepted:
  assumes "reporting_tests E (cs_opt s)" "\<forall>tc \<in> set tests. named_test tc" "opt_currentTest (cs_opt s) = None"
    "query_mode (cs_opt s) \<longrightarrow> opt_list_reporters (cs_opt s) \<or>
      \<not> (opt_no_run (cs_opt s) \<or> opt_version (cs_opt s) \<or> opt_help (cs_opt s))"
    "run E this rl tests (p, s) = Some (Inr (Exit code p' s'))"
    "st_opt S = cs_opt s" "cs_log s' = cs_log s @ map rp_event es"
  shows "(\<exists>r. reports (xml_handle S) es new_XmlReporter = Inr r \<and> xw_tags (xr_xml r) = []) \<and>
    (\<exists>r. reports (junit_handle S) es new_JUnitReporter = Inr r \<and> xw_tags (jr_xml r) = []) \<and>
    ((\<forall>st. test_run_end st \<in> set (map rp_event es) \<longrightarrow> laid_out st) \<longrightarrow>
      (\<exists>r. reports (con_handle S) es new_ConsoleReporter = Inr r))"
proof -
  have es: "phase_steps Before (map rp_event es) = Some After" "\<forall>e \<in> set es. legal_event (st_opt S) (rp_event e)"
    using run_told [OF assms(1-3) _ assms(5)] assms(4,6,7) by (auto simp: told_def)
  have con: "con_legal (st_opt S) e"
    if "legal_event (st_opt S) e" "\<forall>st. e = test_run_end st \<longrightarrow> laid_out st" for e using that by (cases e) auto
  have "\<exists>r. reports (con_handle S) es new_ConsoleReporter = Inr r"
    if "\<forall>st. test_run_end st \<in> set (map rp_event es) \<longrightarrow> laid_out st"
  proof -
    have "\<forall>e \<in> set es. con_legal (st_opt S) (rp_event e)"
    proof
      fix e assume e: "e \<in> set es"
      then have "laid_out st" if "rp_event e = test_run_end st" for st
        using \<open>\<forall>st. test_run_end st \<in> set (map rp_event es) \<longrightarrow> laid_out st\<close> that by (metis image_eqI set_map)
      then show "con_legal (st_opt S) (rp_event e)" using con [of "rp_event e"] es(2) e by simp
    qed
    then show ?thesis using con_reporter.reports_ok [of Before new_ConsoleReporter es After S] es(1)
      by (auto simp: yields_def)
  qed
  then show ?thesis
    using xml_reporter.reports_ok [of Before new_XmlReporter es After S] es
      junit_reporter.reports_ok [of Before new_JUnitReporter es After S]
    by (auto simp: yields_def new_XmlReporter_def new_JUnitReporter_def new_XmlWriter_def)
qed

text \<open>Flat tests keep to this, and their runs exit.\<close>

lemma flat_run_exits:
  assumes "flat_tests E" "\<not> query_mode (cs_opt s)" "opt_abort_after (cs_opt s) \<le> 0"
    "nextSubcaseStack s = []" "opt_currentTest (cs_opt s) = None"
  shows "\<exists>code p' s'. run E this rl tests (p, s) = Some (Inr (Exit code p' s'))"
proof -
  obtain p1 s1 where 1: "prepare_run this rl (p, s) = (p1, s1)" by (cases "prepare_run this rl (p, s)")
  note f = prepare_run_fields [where this = this and rl = rl and p = p and s = s, unfolded 1 fst_conv snd_conv]
  obtain sg2 s2 where "run_tests E (order_tests E (cs_opt s1) tests) \<lparr>suites_listed = [], query_results = []\<rparr>
      (pr_signals p1, start_tests (count_tests (length tests) s1)) =
      Some (Inr (Goes_on (\<lparr>suites_listed = [], query_results = []\<rparr>, sg2, s2)))"
    using run_tests_flat [OF assms(1), of "start_tests (count_tests (length tests) s1)"
        "order_tests E (cs_opt s1) tests" "\<lparr>suites_listed = [], query_results = []\<rparr>" "pr_signals p1"] assms(2-)
    by (auto simp: before_tests_fields f)
  then show ?thesis by (simp add: run_def 1 Let_def cleanup_and_return_def)
qed

theorem run_reports_accepted_witness:
  "\<exists>code p' s' es r. run sample_env 0 ([((0, ''xml''), 0)], []) [alpha_test, beta_test] (sample_process, sample_state) =
       Some (Inr (Exit code p' s')) \<and> map rp_event es = cs_log s' \<and>
     reports (xml_handle \<lparr>st_opt = cs_opt sample_state, st_reporters = [((0, ''xml''), 0)], st_listeners = [],
       st_no_colors = False, st_isatty = False, st_double = \<lambda>_. ''0'', st_fixed = \<lambda>_. ''0'', st_rnd = id,
       st_timestamp = ''''\<rparr>) es new_XmlReporter = Inr r \<and> xw_tags (xr_xml r) = []"
proof -
  have s: "\<not> query_mode (cs_opt sample_state)" "opt_abort_after (cs_opt sample_state) \<le> 0"
    "nextSubcaseStack sample_state = []" "opt_currentTest (cs_opt sample_state) = None" "cs_log sample_state = []"
    by (simp_all add: sample_state_def new_ContextState_def raw_options_def query_mode_def)
  have t: "\<forall>tc \<in> set [alpha_test, beta_test]. named_test tc"
    by (simp add: named_test_def alpha_test_def beta_test_def TestCase_name_def new_TestCase_def TestSuite_name_def)
  have r: "reporting_tests sample_env q" for q
    by (simp add: reporting_tests_def sample_env_def told_refl)
  have "flat_tests sample_env" by (simp add: flat_tests_def sample_env_def keeps_def)
  from flat_run_exits [OF this s(1-4)] obtain code p' s' where e:
    "run sample_env 0 ([((0, ''xml''), 0)], []) [alpha_test, beta_test] (sample_process, sample_state) =
       Some (Inr (Exit code p' s'))" by blast
  define es where "es = map (\<lambda>e. \<lparr>rp_event = e, rp_contexts = [], rp_stringified = [], rp_ticks = \<lambda>_. 0, rp_stats = cs_run s'\<rparr>) (cs_log s')"
  have es: "map rp_event es = cs_log s'" by (simp add: es_def comp_def)
  show ?thesis
    using run_reports_accepted [OF r t s(4) _ e, of _ es] e es s by auto
qed

section \<open>Subcases and crashes\<close>

lemma new_Subcase_told:
  "new_Subcase sig s = Inr (e, s') \<Longrightarrow> told q (Inside d) s (Inside (if e then Suc d else d)) s'"
  by (auto simp: new_Subcase_def told_def split: if_splits)

lemma destroy_Subcase_told: "told q (Inside (if e then Suc d else d)) s (Inside d) (destroy_Subcase u e s)"
  by (auto simp: destroy_Subcase_def told_def Let_def late_exception_def)

lemma run_body_told:
  "run_body b s = Inr s' \<Longrightarrow> told q (Inside d) s (Inside d) s'"
  "run_subcases subs s = Inr s' \<Longrightarrow> told q (Inside d) s (Inside d) s'"
  "run_subcase sub s = Inr s' \<Longrightarrow> told q (Inside d) s (Inside d) s'"
proof (induction b s and subs s and sub s arbitrary: s' d and s' d and s' d
    rule: run_body_run_subcases_run_subcase.induct)
  case (3 sub subs s)
  obtain s1 where 1: "run_subcase sub s = Inr s1" "run_subcases subs s1 = Inr s'"
    using "3.prems" by (auto simp: bindR_Inr_iff)
  show ?case by (rule told_trans [OF "3.IH"(1) [OF 1(1)] "3.IH"(2) [OF 1]])
next
  case (4 sig b s)
  obtain e s1 where 1: "new_Subcase sig s = Inr (e, s1)" using "4.prems" by auto
  obtain s2 where 2: "(if e then run_body b s1 else Inr s1) = Inr s2" "s' = destroy_Subcase False e s2"
    using "4.prems" 1 by auto
  let ?p = "Inside (if e then Suc d else d)"
  have "told q ?p s1 ?p s2" using 1 2(1) "4.IH" [of "(e, s1)" e s1 s2 "Suc d"] by (cases e) (auto simp: told_refl)
  with new_Subcase_told [OF 1] destroy_Subcase_told [of q e d s2 False] show ?case
    unfolding 2(2) by (blast intro: told_trans)
qed (simp_all add: told_refl)

text \<open>Tests made of subcases report what belongs inside of a test case.\<close>

lemma reporting_runs_body:
  assumes "\<And>k n s. env_body E k n s = bindR (run_body (bodies k) s) (\<lambda>s'. Inr (Returned s'))"
  shows "reporting_tests E q"
  unfolding reporting_tests_def
proof (intro allI impI)
  fix k n s r assume "env_body E k n s = Inr r"
  then obtain s' where "run_body (bodies k) s = Inr s'" "r = Returned s'"
    by (auto simp: assms bindR_Inr_iff)
  then show "told q (Inside 0) s (Inside 0) (finished r) \<and> cs_opt (finished r) = cs_opt s"
    using run_body_told(1) run_body_opt(1) by simp
qed

lemma opens_Inr_ex: "opens tags m \<Longrightarrow> \<exists>w. m = Inr w \<and> xw_tags w = tags"
  by (simp add: opens_def yields_def)

text \<open>One subcase too many is ended: the writer has no element left at the end of the run.\<close>

lemma xml_test_run_end_empty:
  assumes "xw_tags w = [t]"
  shows "xml_test_run_end S p (Some tc) w = Inl OutOfRange"
proof -
  obtain w1 where 1: "endElement w = Inr w1" "xw_tags w1 = []"
    using opens_Inr_ex [OF opens_endElement [OF assms]] by blast
  let ?b = "xml_ops [writeAttribute_int ''successes'' (c_int (numAsserts p - numAssertsFailed p)),
     writeAttribute_int ''failures'' (numAssertsFailed p)]"
  obtain w2 where 2: "scopedElement ''OverallResultsAsserts'' ?b w1 = Inr w2" "xw_tags w2 = []"
    using opens_Inr_ex [OF opens_scoped [of ?b w1 "[]"]] 1 by auto
  have 3: "bindR (endElement w3) endElement = Inl OutOfRange" if w3: "xw_tags w3 = [t]" for w3 t
  proof -
    obtain w4 where "endElement w3 = Inr w4" "xw_tags w4 = []"
      using opens_Inr_ex [OF opens_endElement [OF w3]] by blast
    then show ?thesis by (simp add: endElement_def)
  qed
  show ?thesis unfolding xml_test_run_end_def by (simp add: 1 2 Let_def 3)
qed

lemma xml_extra_subcase_end:
  assumes "xml_ok (Inside 0) r" "map rp_event es = [subcase_end, test_case_end st, test_run_end p]"
  shows "reports (xml_handle S) es r = Inl OutOfRange"
proof -
  obtain a b c where es: "es = [a, b, c]" "rp_event a = subcase_end" "rp_event b = test_case_end st"
    "rp_event c = test_run_end p" using assms(2) by auto
  obtain tc where tc: "xr_tc r = Some tc" "xw_tags (xr_xml r) = [''TestCase'', ''TestSuite'', ''doctest'']"
    using assms(1) by auto
  obtain w1 where 1: "endElement (xr_xml r) = Inr w1" "xw_tags w1 = [''TestSuite'', ''doctest'']"
    using opens_Inr_ex [OF opens_endElement [OF tc(2)]] by blast
  have "opens [''doctest''] (xml_test_case_end S st tc w1)"
    unfolding xml_test_case_end_def Let_def
    by (rule opens_bind [where tags = "[''TestSuite'', ''doctest'']"]) (simp_all add: 1)
  then obtain w2 where 2: "xml_test_case_end S st tc w1 = Inr w2" "xw_tags w2 = [''doctest'']"
    using opens_Inr_ex by blast
  show ?thesis
    by (simp add: es xml_handle_def on_xml_def tc 1 2 xml_test_run_end_empty [OF 2(2)])
qed

text \<open>A test function that enters and leaves one subcase and then gets a signal.\<close>

definition crash_body :: "SubcaseSignature \<Rightarrow> nat \<Rightarrow> ContextState \<Rightarrow> finish result" where
  "crash_body sg k s = bindR (run_body (Body [(sg, Body [])]) s) (\<lambda>s'. Inr (Signalled k s'))"

lemma decorated_flags_keep: "bit flags n \<Longrightarrow> bit (decorated_flags tc failed flags) n"
  by (auto simp: decorated_flags_def bit_or_iff)

lemma crash_flag: "bit (failure_flags (cs_cur s)) 2 \<Longrightarrow> bit (failure_flags (cs_cur (finalizeTestCaseData rnd now s))) 2"
  by (simp add: finalizeTestCaseData_def Let_def decorated_flags_keep bit_or_iff)

lemma end_subcases_flags [simp]: "cs_cur (end_subcases subs s) = cs_cur s"
  by (induction subs s rule: end_subcases.induct) simp_all

lemma crash_events:
  assumes "env_body E (tc_test tc) 0 = crash_body sub k" "nextSubcaseStack s = []" "no_filters s"
  shows "\<exists>s' st p. bit (failure_flags st) 2 \<and> execute_test E tc (sg, s) = Some (Inr (Dies k s')) \<and>
     cs_log s' = cs_log s @ [test_case_start tc, subcase_start sub, subcase_end,
      test_case_exception \<lparr>error_string = signal_name k, is_crash = True\<rparr>] @
     [subcase_end, test_case_end st, test_run_end p]"
proof -
  define s1 where "s1 = start_pass (begin_test E tc s)"
  have 1: "nextSubcaseStack s1 = []" "subcaseStack s1 = []" "\<not> reachedLeaf s1" "\<not> checkFilters sub s1"
    "cs_log s1 = cs_log s @ [test_case_start tc]" "currentSubcaseDepth s1 = 0"
    using assms(2,3) by (simp_all add: s1_def start_pass_def begin_test_def set_currentTest_def Let_def no_filters_def
        checkFilters_def matchesAny_def)
  define s2 where "s2 = destroy_Subcase False True (emit (subcase_start sub) (s1\<lparr>subcaseStack := [sub], currentSubcaseDepth := 1\<rparr>))"
  have 2: "crash_body sub k s1 = Inr (Signalled k s2)"
    using 1 by (simp add: crash_body_def new_Subcase_def s2_def)
  have 3: "cs_log s2 = cs_log s @ [test_case_start tc, subcase_start sub, subcase_end]" "subcaseStack s2 = [sub]"
    using 1 by (simp_all add: s2_def destroy_Subcase_def Let_def)
  define s3 where "s3 = end_subcases [sub] (emit (test_case_exception \<lparr>error_string = signal_name k, is_crash = True\<rparr>)
    (s2\<lparr>cs_cur := (cs_cur s2)\<lparr>failure_flags := or (failure_flags (cs_cur s2)) Crash\<rparr>\<rparr>))"
  define s4 where "s4 = finalizeTestCaseData (env_rnd E) (env_stop E (tc_test tc)) s3"
  have "bit (Crash :: nat) 2" by (simp add: Crash_def bit_iff_odd)
  then have "bit (failure_flags (cs_cur s4)) 2"
    unfolding s4_def by (intro crash_flag) (simp add: s3_def bit_or_iff)
  moreover have "run_passes E tc 0 (sg, begin_test E tc s) =
      Some (Inr (Dies k (reportFatal (env_rnd E) (env_stop E (tc_test tc)) (signal_name k) s2)))"
    using 2 by (subst run_passes.simps) (simp add: one_pass_def assms(1) s1_def [symmetric] handleSignal_def Let_def)
  then have "execute_test E tc (sg, s) =
      Some (Inr (Dies k (emit (test_run_end (cs_run s4)) (emit (test_case_end (cs_cur s4)) s4))))"
    by (simp add: execute_test_def) (simp add: reportFatal_def Let_def 3(2) s4_def s3_def)
  moreover have "cs_log s4 = cs_log s @ [test_case_start tc, subcase_start sub, subcase_end,
      test_case_exception \<lparr>error_string = signal_name k, is_crash = True\<rparr>, subcase_end]"
    by (simp add: s4_def s3_def finalizeTestCaseData_def Let_def 3)
  ultimately show ?thesis
    by (intro exI [of _ "emit (test_run_end (cs_run s4)) (emit (test_case_end (cs_cur s4)) s4)"]
        exI [of _ "cs_cur s4"] exI [of _ "cs_run s4"]) simp
qed

text \<open>The console reporter's level of subcases wraps to the largest \<open>size_t\<close>.\<close>

lemma subcase_lines_beyond: "i \<le> length stack \<Longrightarrow> length stack < i + n \<Longrightarrow> subcase_lines n i stack = Inl OutOfRange"
proof (induction n arbitrary: i)
  case (Suc n)
  show ?case using Suc.IH [of "i + 1"] Suc.prems by (cases "i < length stack") simp_all
qed simp

lemma con_crash:
  assumes "map rp_event es = [test_case_start tc, subcase_start sub, subcase_end,
      test_case_exception x, subcase_end, test_case_end st, test_run_end p]"
    "\<not> tc_no_output tc" "named_test tc" "bit (failure_flags st) 2"
  shows "reports (con_handle S) es r = Inl OutOfRange"
proof -
  obtain a b c d e f g where es: "es = [a, b, c, d, e, f, g]" "rp_event a = test_case_start tc"
    "rp_event b = subcase_start sub" "rp_event c = subcase_end" "rp_event d = test_case_exception x"
    "rp_event e = subcase_end" "rp_event f = test_case_end st"
    using assms(1) by auto
  define r0 where "r0 = r\<lparr>hasLoggedCurrentTestStart := Some False, cr_tc := Some tc, subcasesStack := [sub],
    currentSubcaseLevel := Some 0\<rparr>"
  have r0: "reports (con_handle S) [a, b, c] r = Inr r0" "con_ok (Inside 0) r0" "cr_tc r0 = Some tc"
      "subcasesStack r0 = [sub]" "currentSubcaseLevel r0 = Some 0"
    using assms(3) by (simp_all add: r0_def es con_handle_def con_subcase_start_def con_subcase_end_def)
  obtain r1 where r1: "logTestStart S r0 = Inr r1" using logTestStart_ok [OF r0(2)] by (auto simp: yields_def)
  have same: "cr_tc r1 = Some tc" "subcasesStack r1 = [sub]" "currentSubcaseLevel r1 = Some 0"
    using logTestStart_result [OF r1] r0(3-5) by auto
  obtain t where d: "con_handle S d r0 = Inr (con_put t r1)"
    using r1 r0(3) assms(2) by (simp add: con_handle_def es con_test_case_exception_def)
  define r2 where "r2 = (con_put t r1)\<lparr>currentSubcaseLevel := Some (- 1), hasLoggedCurrentTestStart := Some False\<rparr>"
  have e: "con_handle S e (con_put t r1) = Inr r2"
    using same by (simp add: con_handle_def es con_subcase_end_def r2_def)
  obtain n where n: "tc_name tc = Some n" using assms(3) by (auto simp: named_test_def)
  have flags: "failure_flags st \<noteq> 0" "failure_flags st \<noteq> AssertFailure"
    using assms(4) by (auto simp: AssertFailure_def bit_iff_odd intro: Nat.gr0I)
  have "subcase_lines (unat (- 1 :: 64 word)) 0 [sub] = Inl OutOfRange"
    by (rule subcase_lines_beyond) (simp_all add: unsigned_minus_1_eq_mask mask_eq_exp_minus_1)
  then have "logTestStart S r2 = Inl OutOfRange" using same n by (simp add: logTestStart_def r2_def)
  moreover have "cr_tc r2 = Some tc" using same by (simp add: r2_def)
  ultimately have f: "con_handle S f r2 = Inl OutOfRange"
    using assms(2) flags by (simp add: con_handle_def es con_test_case_end_def Let_def)
  have "es = [a, b, c] @ [d, e, f, g]" by (simp add: es(1))
  then show ?thesis using r0(1) d e f by (simp only: reports_append) (simp only: reports.simps bindR_simps)
qed

text \<open>
  C15. A signal that arrives after a subcase was left is reported with one more end of a subcase,
  which is not open any more: the XML reporter ends elements that are still needed and then faults
  on an empty list of open elements, and the console reporter, for which the level of subcases
  wraps around, reads beyond its stack of subcases.
\<close>

theorem crash_after_subcase_faults:
  assumes "env_body E (tc_test tc) 0 = crash_body sub k" "nextSubcaseStack s = []" "no_filters s" "named_test tc"
    "xml_ok Between r" "\<not> tc_no_output tc"
  shows "\<exists>s'. execute_test E tc (sg, s) = Some (Inr (Dies k s')) \<and>
     (\<forall>S es. cs_log s' = cs_log s @ map rp_event es \<longrightarrow> reports (xml_handle S) es r = Inl OutOfRange) \<and>
     (\<forall>S es r. cs_log s' = cs_log s @ map rp_event es \<longrightarrow> reports (con_handle S) es r = Inl OutOfRange)"
proof -
  obtain s' st p where s': "execute_test E tc (sg, s) = Some (Inr (Dies k s'))"
    "cs_log s' = cs_log s @ [test_case_start tc, subcase_start sub, subcase_end,
      test_case_exception \<lparr>error_string = signal_name k, is_crash = True\<rparr>] @
     [subcase_end, test_case_end st, test_run_end p]" "bit (failure_flags st) 2"
    using crash_events [OF assms(1-3)] by blast
  have "reports (xml_handle S) es r = Inl OutOfRange" if "cs_log s' = cs_log s @ map rp_event es" for S es
  proof -
    have m: "map rp_event es = [test_case_start tc, subcase_start sub, subcase_end,
        test_case_exception \<lparr>error_string = signal_name k, is_crash = True\<rparr>] @
        [subcase_end, test_case_end st, test_run_end p]"
      using that s'(2) by simp
    define as bs where "as = take 4 es" and "bs = drop 4 es"
    have es: "es = as @ bs" "map rp_event as = [test_case_start tc, subcase_start sub, subcase_end,
        test_case_exception \<lparr>error_string = signal_name k, is_crash = True\<rparr>]"
      "map rp_event bs = [subcase_end, test_case_end st, test_run_end p]"
      unfolding as_def bs_def take_map [symmetric] drop_map [symmetric] m by simp_all
    have "\<forall>e \<in> set (map rp_event as). legal_event (st_opt S) e"
      using assms(4) by (simp only: es(2)) simp
    then have "yields (reports (xml_handle S) as r) (xml_ok (Inside 0))"
      by (intro xml_reporter.reports_ok [OF assms(5)]) (simp add: es(2) assms(4), simp only: set_map image_iff ball_simps)
    then obtain r1 where "reports (xml_handle S) as r = Inr r1" "xml_ok (Inside 0) r1" by (auto simp only: yields_def)
    then show ?thesis
      using xml_extra_subcase_end [OF _ es(3), of r1 S] by (simp only: es(1) reports_append bindR_simps)
  qed
  moreover have "reports (con_handle S) es r = Inl OutOfRange" if "cs_log s' = cs_log s @ map rp_event es" for S es r
  proof (rule con_crash [OF _ assms(6,4) s'(3)])
    show "map rp_event es = [test_case_start tc, subcase_start sub, subcase_end,
        test_case_exception \<lparr>error_string = signal_name k, is_crash = True\<rparr>, subcase_end, test_case_end st, test_run_end p]"
      using that s'(2) by simp
  qed
  ultimately show ?thesis using s'(1) by blast
qed

theorem crash_after_subcase_faults_witness:
  "\<exists>s'. execute_test (sample_env\<lparr>env_body := \<lambda>_ _. crash_body sig_a 11\<rparr>) alpha_test (pr_signals sample_process, sample_state) =
       Some (Inr (Dies 11 s')) \<and>
     (\<forall>S es. cs_log s' = map rp_event es \<longrightarrow>
        reports (xml_handle S) es \<lparr>xr_xml = new_XmlWriter\<lparr>xw_tags := [''doctest'']\<rparr>, xr_tc = None\<rparr> = Inl OutOfRange \<and>
        reports (con_handle S) es new_ConsoleReporter = Inl OutOfRange)"
proof -
  have s: "nextSubcaseStack sample_state = []" "no_filters sample_state" "cs_log sample_state = []"
    by (simp_all add: sample_state_def new_ContextState_def no_filters_def raw_options_def)
  have t: "tc_test alpha_test = 0" "named_test alpha_test" "\<not> tc_no_output alpha_test"
    by (simp_all add: named_test_def alpha_test_def TestCase_name_def new_TestCase_def TestSuite_name_def new_TestSuite_def)
  show ?thesis
    using crash_after_subcase_faults [where E = "sample_env\<lparr>env_body := \<lambda>_ _. crash_body sig_a 11\<rparr>", OF _ s(1,2) t(2) _ t(3),
        of sig_a 11 "\<lparr>xr_xml = new_XmlWriter\<lparr>xw_tags := [''doctest'']\<rparr>, xr_tc = None\<rparr>"]
    by (simp add: s t) blast
qed

end
