(* ===== verification/Doctest_Names.thy ===== *)
theory Doctest_Names
  imports Doctest_State
begin

text \<open>
  Smaller services of \<^verbatim>\<open>src/Utils/doctest.h\<close>: the name of a type cut out of the signature that the
  compiler gives for a function, the printing of arrays, the current test suite, and the question
  whether a debugger is attached, on Linux.
\<close>

section \<open>Names of types\<close>

text \<open>\<open>toString<T>()\<close> from \<open>__PRETTY_FUNCTION__\<close>; positions and sizes are 32 bits wide.\<close>

definition toString_type :: "dt_String \<Rightarrow> dt_String result" where
  "toString_type ret =
     bindR (String_find ret (CHR ''='') 0) (\<lambda>pos.
     bindR (String_size ret) (\<lambda>sz.
     let begin_pos = u32 (int pos + 2) in
     String_substr ret begin_pos (u32 (int sz - int begin_pos - 1))))"

section \<open>Arrays\<close>

fun fill_rest :: "string list \<Rightarrow> string" where
  "fill_rest [] = ''''"
| "fill_rest (x # xs) = '', '' @ x @ fill_rest xs"

text \<open>The elements as they print.\<close>

definition fill_array :: "string list \<Rightarrow> string" where
  "fill_array xs = ''['' @ (case xs of [] \<Rightarrow> '''' | x # xs \<Rightarrow> x @ fill_rest xs) @ '']''"

text \<open>An array of characters is cut at its end if that is a terminating null.\<close>

definition fill_char_array :: "string \<Rightarrow> dt_String result" where
  "fill_char_array cs =
     (if cs = [] then Inl OutOfRange
      else String_from (List.map Some cs) (if last cs \<noteq> NUL then length cs else length cs - 1))"

section \<open>The current test suite\<close>

definition setTestSuite :: "TestSuite \<Rightarrow> TestSuite \<Rightarrow> int \<times> TestSuite" where
  "setTestSuite ts current = (0, ts)"

section \<open>Debuggers\<close>

text \<open>
  The lines of \<^verbatim>\<open>/proc/self/status\<close>, none if it cannot be read. Reading them may change \<open>errno\<close>, which
  the guard restores.
\<close>

definition TracerPid :: string where
  "TracerPid = ''TracerPid:'' @ [CHR 0x09]"

fun tracer_line :: "string list \<Rightarrow> bool" where
  "tracer_line [] = False"
| "tracer_line (line # lines) =
     (if take 11 line = TracerPid then length line > 11 \<and> line ! 11 \<noteq> CHR ''0'' else tracer_line lines)"

definition isDebuggerActive :: "string list \<Rightarrow> (int \<Rightarrow> int) \<Rightarrow> int \<Rightarrow> bool \<times> int" where
  "isDebuggerActive lines reading errno =
     (let m_oldErrno = errno; errno = reading errno in (tracer_line lines, m_oldErrno))"

section \<open>Properties\<close>

text \<open>
  The default count of \<open>substr\<close> and the one computed here both leave out the closing bracket, so the
  name is what stands between the equals sign and it.
\<close>

lemma toString_type_name:
  assumes "represents ret (before @ ''= '' @ name @ '']'')" "CHR ''='' \<notin> set before"
  shows "\<exists>t. toString_type ret = Inr t \<and> represents t name"
proof -
  let ?xs = "before @ ''= '' @ name @ '']''"
  have len: "length ?xs < 2 ^ 32" using represents_length [OF assms(1)] by simp
  have before: "takeWhile (\<lambda>c. c \<noteq> CHR ''='') ?xs = before"
    using assms(2) by (auto simp: takeWhile_append takeWhile_eq_all_conv [THEN iffD2])
  have find: "String_find ret (CHR ''='') 0 = Inr (length before)"
    using String_find_ok [OF assms(1), of "CHR ''=''" 0] before by simp
  have size: "String_size ret = Inr (length ?xs)" using assms(1) by simp
  have u: "u32 (int (length before) + 2) = length before + 2"
    "u32 (int (length ?xs) - int (length before + 2) - 1) = length name"
    using len by (simp_all add: u32_def nat_mod_distrib)
  obtain t where "String_substr ret (length before + 2) (length name) = Inr t" "represents t name"
    using String_substr_ok [OF assms(1), of "length before + 2" "length name"] by auto
  then show ?thesis using find size u by (simp add: toString_type_def Let_def)
qed

lemma fill_char_array_text:
  assumes "length cs + 1 < 2 ^ 32"
  shows "\<exists>t. fill_char_array (cs @ [NUL]) = Inr t \<and> represents t cs"
  using String_from_ok [of "length cs" "List.map Some (cs @ [NUL])" cs] assms
  by (auto simp: fill_char_array_def)

text \<open>Without a tracer the kernel writes the number 0 in that line.\<close>

lemma isDebuggerActive_tracer:
  assumes "\<forall>l \<in> set before. take 11 l \<noteq> TracerPid"
  shows "isDebuggerActive (before @ [TracerPid @ to_string pid] @ rest) reading e = (pid \<noteq> 0, e)"
proof -
  have first: "hd (to_string n) = CHR ''0'' \<longleftrightarrow> n = 0" for n
  proof (induction n rule: to_string.induct)
    case (1 n)
    have small: "digit_char n = CHR ''0'' \<longleftrightarrow> n = 0" if "n < 10"
    proof -
      have "n \<in> {0, 1, 2, 3, 4, 5, 6, 7, 8, 9}" using that by auto
      then show ?thesis by (auto simp: digit_char_def)
    qed
    have "to_string (n div 10) \<noteq> []" by (subst to_string.simps) simp
    then show ?case using 1 small by (subst to_string.simps) (auto simp: hd_append)
  qed
  have "to_string pid \<noteq> []" by (subst to_string.simps) simp
  then have "tracer_line ((TracerPid @ to_string pid) # rest) = (pid \<noteq> 0)"
    using first [of pid] by (simp add: TracerPid_def nth_append hd_conv_nth)
  moreover have "tracer_line (before @ lines) = tracer_line lines" for lines using assms by (induction before) auto
  ultimately show ?thesis by (simp add: isDebuggerActive_def)
qed

end
