(* ===== verification/Doctest_Macros.thy ===== *)
theory Doctest_Macros
  imports Doctest_Assert Doctest_Names
begin

text \<open>
  The macros of \<^verbatim>\<open>src/Utils/doctest.h\<close> through which tests are written: the ones that evaluate an
  expression under a \<open>try\<close> block, messages and contexts, and the registration of test cases, suites
  and templated tests. The expression of a macro is an action on the state of the run with a value
  or an exception; \<open>__FILE__\<close>, \<open>__LINE__\<close> and the text of the expression are arguments. The macros
  are those of the default configuration, and give the value that they return where assertions are
  configured to return one.
\<close>

section \<open>Evaluating expressions\<close>

type_synonym 'a evaluation = "ContextState \<Rightarrow> (exn + 'a) \<times> ContextState"

text \<open>What stands behind \<open>ExpressionDecomposer <<\<close>: a value alone, or one compared with another.\<close>

datatype operands = Operand int | Operands comparison int int

fun operands_result :: "assertType \<Rightarrow> bool \<Rightarrow> operands \<Rightarrow> Result" where
  "operands_result ty success (Operand lhs) = unary_result ty success lhs"
| "operands_result ty success (Operands c lhs rhs) = compare_result ty success c lhs rhs"

definition ASSERT_LOG_REACT_RETURN :: "bool \<Rightarrow> bool \<Rightarrow> AssertData \<Rightarrow> ContextState \<Rightarrow> outcome" where
  "ASSERT_LOG_REACT_RETURN running debugger b s = (case RB_log running debugger b s of
       None \<Rightarrow> Aborts
     | Some (_, b, s) \<Rightarrow> RB_react b s)"

text \<open>The value is used by \<open>x\<close>; an exception of the expression is translated by \<open>catch(...)\<close>.\<close>

definition WRAP_IN_TRY ::
  "translator list \<Rightarrow> ('a \<Rightarrow> ContextState \<Rightarrow> AssertData \<Rightarrow> AssertData) \<Rightarrow> (exn + 'a) \<times> ContextState \<Rightarrow>
    AssertData \<Rightarrow> AssertData" where
  "WRAP_IN_TRY ts x r rb = (case fst r of
       Inl ex \<Rightarrow> RB_translateException ts ex rb
     | Inr v \<Rightarrow> x v (snd r) rb)"

definition ASSERT_IMPLEMENT ::
  "bool \<Rightarrow> bool \<Rightarrow> translator list \<Rightarrow> assertType \<Rightarrow> string \<Rightarrow> int \<Rightarrow> string \<Rightarrow> operands evaluation \<Rightarrow>
    ContextState \<Rightarrow> outcome" where
  "ASSERT_IMPLEMENT running debugger ts ty file line expr e s =
     (let rb = new_AssertData (opt_currentTest (cs_opt s)) ty file line expr '''' (SC_string '''');
          r = e s;
          rb = WRAP_IN_TRY ts (\<lambda>v s rb. let res = operands_result ty (opt_success (cs_opt s)) v in
            RB_setResult (m_passed res) (m_decomp res) rb) r rb in
      ASSERT_LOG_REACT_RETURN running debugger rb (snd r))"

definition BINARY_ASSERT ::
  "bool \<Rightarrow> bool \<Rightarrow> translator list \<Rightarrow> assertType \<Rightarrow> comparison \<Rightarrow> string \<Rightarrow> int \<Rightarrow> string \<Rightarrow>
    (int \<times> int) evaluation \<Rightarrow> ContextState \<Rightarrow> outcome" where
  "BINARY_ASSERT running debugger ts ty c file line expr e s =
     (let rb = new_AssertData (opt_currentTest (cs_opt s)) ty file line expr '''' (SC_string '''');
          r = e s;
          rb = WRAP_IN_TRY ts (\<lambda>v s rb.
            snd (RB_binary_assert (opt_success (cs_opt s)) c (fst v) (snd v) rb)) r rb in
      ASSERT_LOG_REACT_RETURN running debugger rb (snd r))"

definition UNARY_ASSERT ::
  "bool \<Rightarrow> bool \<Rightarrow> translator list \<Rightarrow> assertType \<Rightarrow> string \<Rightarrow> int \<Rightarrow> string \<Rightarrow> int evaluation \<Rightarrow>
    ContextState \<Rightarrow> outcome" where
  "UNARY_ASSERT running debugger ts ty file line expr e s =
     (let rb = new_AssertData (opt_currentTest (cs_opt s)) ty file line expr '''' (SC_string '''');
          r = e s;
          rb = WRAP_IN_TRY ts (\<lambda>v s rb. snd (RB_unary_assert (opt_success (cs_opt s)) v rb)) r rb in
      ASSERT_LOG_REACT_RETURN running debugger rb (snd r))"

text \<open>The assertions named after a comparison, such as \<open>CHECK_EQ\<close>.\<close>

fun comparison_kind :: "comparison \<Rightarrow> kind" where
  "comparison_kind C_eq = EQ"
| "comparison_kind C_ne = NE"
| "comparison_kind C_gt = GT"
| "comparison_kind C_lt = LT"
| "comparison_kind C_ge = GE"
| "comparison_kind C_le = LE"

definition COMPARISON_ASSERT ::
  "bool \<Rightarrow> bool \<Rightarrow> translator list \<Rightarrow> level \<Rightarrow> comparison \<Rightarrow> string \<Rightarrow> int \<Rightarrow> string \<Rightarrow>
    (int \<times> int) evaluation \<Rightarrow> ContextState \<Rightarrow> outcome" where
  "COMPARISON_ASSERT running debugger ts l c = BINARY_ASSERT running debugger ts (DT l (comparison_kind c)) c"

section \<open>Exceptions that are asked for\<close>

text \<open>\<open>catches\<close> tells the exceptions that the first handler, the one for the given type, catches.\<close>

definition ASSERT_THROWS_AS ::
  "bool \<Rightarrow> bool \<Rightarrow> translator list \<Rightarrow> (exn \<Rightarrow> bool) \<Rightarrow> assertType \<Rightarrow> string \<Rightarrow> int \<Rightarrow> string \<Rightarrow> string \<Rightarrow>
    StringContains \<Rightarrow> 'a evaluation \<Rightarrow> ContextState \<Rightarrow> outcome" where
  "ASSERT_THROWS_AS running debugger ts catches ty file line expr type message e s =
     (if \<not> opt_no_throw (cs_opt s) then
        (let rb = new_AssertData (opt_currentTest (cs_opt s)) ty file line expr type message;
             r = e s;
             rb = (case fst r of
                 Inl ex \<Rightarrow>
                   (if catches ex then (RB_translateException ts ex rb)\<lparr>ad_threw_as := True\<rparr>
                    else RB_translateException ts ex rb)
               | Inr _ \<Rightarrow> rb) in
         ASSERT_LOG_REACT_RETURN running debugger rb (snd r))
      else Continues False s)"

definition ASSERT_THROWS_WITH ::
  "bool \<Rightarrow> bool \<Rightarrow> translator list \<Rightarrow> assertType \<Rightarrow> string \<Rightarrow> int \<Rightarrow> string \<Rightarrow> StringContains \<Rightarrow>
    'a evaluation \<Rightarrow> ContextState \<Rightarrow> outcome" where
  "ASSERT_THROWS_WITH running debugger ts ty file line expr message e s =
     (if \<not> opt_no_throw (cs_opt s) then
        (let rb = new_AssertData (opt_currentTest (cs_opt s)) ty file line expr '''' message;
             r = e s;
             rb = (case fst r of Inl ex \<Rightarrow> RB_translateException ts ex rb | Inr _ \<Rightarrow> rb) in
         ASSERT_LOG_REACT_RETURN running debugger rb (snd r))
      else Continues False s)"

definition ASSERT_NOTHROW ::
  "bool \<Rightarrow> bool \<Rightarrow> translator list \<Rightarrow> assertType \<Rightarrow> string \<Rightarrow> int \<Rightarrow> string \<Rightarrow> 'a evaluation \<Rightarrow>
    ContextState \<Rightarrow> outcome" where
  "ASSERT_NOTHROW running debugger ts ty file line expr e s =
     (let rb = new_AssertData (opt_currentTest (cs_opt s)) ty file line expr '''' (SC_string '''');
          r = e s;
          rb = (case fst r of Inl ex \<Rightarrow> RB_translateException ts ex rb | Inr _ \<Rightarrow> rb) in
      ASSERT_LOG_REACT_RETURN running debugger rb (snd r))"

section \<open>Messages and contexts\<close>

text \<open>\<open>mb * a * b\<close> writes the texts of the operands; \<open>None\<close> is an access to an empty stack of starts.\<close>

definition ADD_AT ::
  "bool \<Rightarrow> level \<Rightarrow> string \<Rightarrow> int \<Rightarrow> string list \<Rightarrow> tlss \<Rightarrow> ContextState \<Rightarrow> (tlss \<times> outcome) option" where
  "ADD_AT debugger l file line texts g s =
     (let (mb, g) = new_MessageBuilder file line (level_flag l) g;
          g = fold MB_put texts g in
      case MB_log debugger mb g s of
        None \<Rightarrow> None
      | Some (_, mb, g, s) \<Rightarrow>
          (case destroy_MessageBuilder mb g of
             None \<Rightarrow> None
           | Some g \<Rightarrow> Some (g, MB_react mb s)))"

text \<open>A scope that begins with \<open>INFO\<close>; the context leaves it normally or with an exception.\<close>

definition INFO_scope ::
  "string \<Rightarrow> (ContextState \<Rightarrow> outcome) \<Rightarrow> string list \<Rightarrow> ContextState \<Rightarrow> string list \<times> outcome" where
  "INFO_scope t body contexts s =
     (let contexts = new_ContextScope t contexts in
      case body s of
        Continues b s \<Rightarrow> (case ContextScope_destroy False t (contexts, s) of (cs, s) \<Rightarrow> (cs, Continues b s))
      | Throws s \<Rightarrow> (case ContextScope_destroy True t (contexts, s) of (cs, s) \<Rightarrow> (cs, Throws s))
      | Aborts \<Rightarrow> (contexts, Aborts))"

section \<open>Registration\<close>

text \<open>What stands behind \<open>*\<close> in the declaration of a test case or suite: a name or a decorator.\<close>

datatype decoration = Named string | Decorated decorator

fun decorate_TestCase :: "decoration \<Rightarrow> TestCase \<Rightarrow> TestCase" where
  "decorate_TestCase (Named name) t = TestCase_name name t"
| "decorate_TestCase (Decorated d) t = fill_TestCase d t"

fun decorate_TestSuite :: "decoration \<Rightarrow> TestSuite \<Rightarrow> TestSuite" where
  "decorate_TestSuite (Named name) t = TestSuite_name name t"
| "decorate_TestSuite (Decorated d) t = fill_TestSuite d t"

definition REGISTER_FUNCTION ::
  "nat \<Rightarrow> string \<Rightarrow> nat \<Rightarrow> TestSuite \<Rightarrow> decoration list \<Rightarrow> TestCase list \<Rightarrow> TestCase list" where
  "REGISTER_FUNCTION f file line suite decorators registered =
     regTest (fold decorate_TestCase decorators (new_TestCase f file line suite '''' (-1))) registered"

text \<open>
  The constructors of \<open>iter\<close>: one test case for every type, here given by the instance of the
  function and the printed type. The arithmetic is that of \<open>int\<close>.
\<close>

fun TEMPLATE_iter ::
  "(nat \<times> string) list \<Rightarrow> string \<Rightarrow> nat \<Rightarrow> int \<Rightarrow> TestSuite \<Rightarrow> decoration list \<Rightarrow> TestCase list \<Rightarrow> TestCase list"
where
  "TEMPLATE_iter [] file line index suite dec registered = registered"
| "TEMPLATE_iter ((f, type) # rest) file line index suite dec registered =
     TEMPLATE_iter rest file line (c_int (index + 1)) suite dec
       (regTest (fold decorate_TestCase dec
          (new_TestCase f file line suite type (c_int (c_int (int line) * 1000 + index)))) registered)"

text \<open>The static data of a suite block; \<open>True\<close> once the decorators have been applied.\<close>

definition getCurrentTestSuite :: "decoration list \<Rightarrow> TestSuite \<times> bool \<Rightarrow> TestSuite \<times> bool" where
  "getCurrentTestSuite decorators d =
     (if \<not> snd d then (fold decorate_TestSuite decorators (fst d), True) else d)"

definition TEST_SUITE_BEGIN :: "decoration list \<Rightarrow> TestSuite \<Rightarrow> TestSuite" where
  "TEST_SUITE_BEGIN decorators current =
     snd (setTestSuite (fold decorate_TestSuite decorators new_TestSuite) current)"

definition TEST_SUITE_END :: "TestSuite \<Rightarrow> TestSuite" where
  "TEST_SUITE_END current = snd (setTestSuite (TestSuite_name '''' new_TestSuite) current)"

section \<open>Properties\<close>

fun holds :: "outcome \<Rightarrow> bool" where
  "holds (Continues b s) = b"
| "holds (Throws s) = False"
| "holds Aborts = False"

lemma ASSERT_holds: "holds (ASSERT_LOG_REACT_RETURN True debugger rb s) \<longleftrightarrow> \<not> RB_verdict rb"
  by (simp add: ASSERT_LOG_REACT_RETURN_def RB_log_def RB_react_def Let_def)

lemma throws_flags:
  "has_flag (DT l k) is_throws \<longleftrightarrow> k = THROWS"
  "has_flag (DT l k) is_throws_as \<longleftrightarrow> k \<in> {THROWS_AS, THROWS_WITH_AS}"
  "has_flag (DT l k) is_throws_with \<longleftrightarrow> k \<in> {THROWS_WITH, THROWS_WITH_AS}"
  "has_flag (DT l k) is_nothrow \<longleftrightarrow> k = NOTHROW"
  by (induction l; induction k; simp add: has_flag_def assert_flags DT_values)+

lemma new_AssertData_fields [simp]:
  "ad_at (new_AssertData c ty file line expr type msg) = ty"
  "ad_threw (new_AssertData c ty file line expr type msg) = False"
  "ad_threw_as (new_AssertData c ty file line expr type msg) = False"
  "ad_failed (new_AssertData c ty file line expr type msg) = True"
  "ad_exception (new_AssertData c ty file line expr type msg) = ''''"
  "ad_exception_string (new_AssertData c ty file line expr type msg) = msg"
  by (simp_all add: new_AssertData_def)

lemma RB_translateException_fields [simp]:
  "ad_at (RB_translateException ts ex rb) = ad_at rb"
  "ad_threw (RB_translateException ts ex rb) = True"
  "ad_threw_as (RB_translateException ts ex rb) = ad_threw_as rb"
  "ad_failed (RB_translateException ts ex rb) = ad_failed rb"
  "ad_exception (RB_translateException ts ex rb) = translateActiveException ts ex"
  "ad_exception_string (RB_translateException ts ex rb) = ad_exception_string rb"
  by (simp_all add: RB_translateException_def)

lemmas throw_assertion_simps =
  ASSERT_THROWS_AS_def ASSERT_THROWS_WITH_def ASSERT_NOTHROW_def Let_def ASSERT_holds RB_verdict_def throws_flags

text \<open>
  C38. The assertions on exceptions, inside of a test and unless exceptions are switched off: the one
  for a type holds exactly if the expression throws and the handler of that type catches it, the one
  with a text as well if in addition the translated exception meets the text; \<open>THROWS\<close> holds exactly
  if it throws and \<open>NOTHROW\<close> if it does not. \<open>THROWS_WITH\<close> does not ask whether anything was thrown:
  without an exception it holds if the empty text meets what is expected.
\<close>

theorem exception_assertions:
  assumes "\<not> opt_no_throw (cs_opt s)"
  shows
    "(holds (ASSERT_THROWS_AS True debugger ts catches (DT l THROWS_AS) file line expr type msg e s) \<longleftrightarrow>
       (\<exists>ex. fst (e s) = Inl ex \<and> catches ex)) \<and>
     (holds (ASSERT_THROWS_AS True debugger ts catches (DT l THROWS_WITH_AS) file line expr type msg e s) \<longleftrightarrow>
       (\<exists>ex. fst (e s) = Inl ex \<and> catches ex \<and> StringContains_check msg (translateActiveException ts ex))) \<and>
     (holds (ASSERT_THROWS_WITH True debugger ts (DT l THROWS) file line expr msg e s) \<longleftrightarrow>
       (\<exists>ex. fst (e s) = Inl ex)) \<and>
     (holds (ASSERT_THROWS_WITH True debugger ts (DT l THROWS_WITH) file line expr msg e s) \<longleftrightarrow>
       StringContains_check msg
         (case fst (e s) of Inl ex \<Rightarrow> translateActiveException ts ex | Inr _ \<Rightarrow> '''')) \<and>
     (holds (ASSERT_NOTHROW True debugger ts (DT l NOTHROW) file line expr e s) \<longleftrightarrow>
       (\<exists>v. fst (e s) = Inr v))"
  using assms by (cases "fst (e s)") (simp_all add: throw_assertion_simps)

theorem exception_assertions_witness:
  "holds (ASSERT_THROWS_WITH True False [] (DT CHECK THROWS_WITH) ''f.cpp'' 3 ''f()'' (SC_string '''')
     (\<lambda>s. (Inr (1::int), s)) new_ContextState) \<and>
   \<not> holds (ASSERT_THROWS_AS True False [] (\<lambda>ex. ex = Other_exn 1) (DT CHECK THROWS_AS) ''f.cpp'' 3 ''f()'' ''E''
     (SC_string '''') (\<lambda>s. (Inl (Std_exception ''x'') :: exn + int, s)) new_ContextState)"
proof -
  have "\<not> opt_no_throw (cs_opt new_ContextState)"
    by (simp add: new_ContextState_def raw_options_def)
  then show ?thesis
    using exception_assertions [of new_ContextState False "[]" "\<lambda>ex. ex = Other_exn 1" CHECK "''f.cpp''" 3
          "''f()''" "''E''" "SC_string ''''" "\<lambda>s. (Inl (Std_exception ''x'') :: exn + int, s)"]
      exception_assertions [of new_ContextState False "[]" "\<lambda>ex. False" CHECK "''f.cpp''" 3
          "''f()''" "''E''" "SC_string ''''" "\<lambda>s. (Inr (1::int), s)"]
    by (simp add: StringContains_check_def)
qed

text \<open>With exceptions switched off the expression is not even evaluated.\<close>

lemma no_throw_skips:
  assumes "opt_no_throw (cs_opt s)"
  shows "ASSERT_THROWS_AS running debugger ts catches ty file line expr type msg e s = Continues False s"
    "ASSERT_THROWS_WITH running debugger ts ty file line expr msg e s = Continues False s"
  using assms by (simp_all add: ASSERT_THROWS_AS_def ASSERT_THROWS_WITH_def)

text \<open>An exception in the expression of a plain assertion fails it.\<close>

lemma exception_fails_assertion:
  assumes "fst (e s) = Inl ex"
  shows "\<not> holds (ASSERT_IMPLEMENT True debugger ts (DT l PLAIN) file line expr e s)"
  using assms by (simp add: ASSERT_IMPLEMENT_def WRAP_IN_TRY_def Let_def ASSERT_holds RB_verdict_def throws_flags)

text \<open>Decorating a test case keeps what tells the instances of a template apart.\<close>

lemma decorate_TestCase_keeps:
  "tc_line (decorate_TestCase d t) = tc_line t" "tc_test (decorate_TestCase d t) = tc_test t"
  "tc_template_id (decorate_TestCase d t) = tc_template_id t"
proof -
  have "tc_line (fill_TestCase d t) = tc_line t \<and> tc_test (fill_TestCase d t) = tc_test t \<and>
    tc_template_id (fill_TestCase d t) = tc_template_id t" for d
    by (cases d) simp_all
  then show "tc_line (decorate_TestCase d t) = tc_line t" "tc_test (decorate_TestCase d t) = tc_test t"
    "tc_template_id (decorate_TestCase d t) = tc_template_id t"
    by (cases d; simp add: TestCase_name_def Let_def)+
qed

lemma decorate_all_keeps [simp]:
  "tc_line (fold decorate_TestCase ds t) = tc_line t" "tc_test (fold decorate_TestCase ds t) = tc_test t"
  "tc_template_id (fold decorate_TestCase ds t) = tc_template_id t"
  by (induction ds arbitrary: t) (simp_all add: decorate_TestCase_keeps)

lemma TestCase_copy_keeps [simp]:
  "tc_line (TestCase_copy t) = tc_line t" "tc_test (TestCase_copy t) = tc_test t"
  "tc_template_id (TestCase_copy t) = tc_template_id t"
  by (simp_all add: TestCase_copy_def)

lemma TestCase_less_total:
  assumes "tc_line a \<noteq> tc_line b \<or> tc_template_id a \<noteq> tc_template_id b"
  shows "TestCase_less a b \<or> TestCase_less b a"
  using assms strcmp_swap [of "the (tc_name a)" "the (tc_name b)"] strcmp_swap [of "tc_file a" "tc_file b"]
  by (auto simp: TestCase_less_def Let_def)

lemma set_insert_new:
  "\<forall>y \<in> set ys. lt x y \<or> lt y x \<Longrightarrow>
   set (set_insert lt x ys) = insert x (set ys) \<and> length (set_insert lt x ys) = Suc (length ys)"
  by (induction ys) auto

text \<open>
  A templated test case registers one test for every type, even for types that print alike, as long
  as the number made of line and index is an \<open>int\<close> and no other test of that line has it.
\<close>

lemma TEMPLATE_iter_registers:
  assumes "0 \<le> index" "int line * 1000 + index + int (length types) < 2 ^ 31"
    "\<forall>t \<in> set registered. tc_line t = line \<longrightarrow> tc_template_id t < int line * 1000 + index"
  shows "tc_test ` set (TEMPLATE_iter types file line index suite dec registered) =
      tc_test ` set registered \<union> fst ` set types \<and>
    length (TEMPLATE_iter types file line index suite dec registered) = length registered + length types"
  using assms
proof (induction types arbitrary: index registered)
  case (Cons ft rest)
  obtain f type where ft: "ft = (f, type)" by (cases ft)
  let ?t = "fold decorate_TestCase dec
    (new_TestCase f file line suite type (c_int (c_int (int line) * 1000 + index)))"
  let ?r = "regTest ?t registered"
  have id: "c_int (c_int (int line) * 1000 + index) = int line * 1000 + index" "c_int (index + 1) = index + 1"
    using Cons(2,3) by (simp_all add: c_int_small)
  have t: "tc_line ?t = line" "tc_test ?t = f" "tc_template_id ?t = int line * 1000 + index"
    by (simp_all add: new_TestCase_def id)
  have less: "\<forall>y \<in> set registered. TestCase_less (TestCase_copy ?t) y \<or> TestCase_less y (TestCase_copy ?t)"
    using Cons(4) t by (intro ballI TestCase_less_total) auto
  have r: "set ?r = insert (TestCase_copy ?t) (set registered)" "length ?r = Suc (length registered)"
    using set_insert_new [OF less] by (simp_all only: regTest_def)
  have ids: "\<forall>u \<in> set ?r. tc_line u = line \<longrightarrow> tc_template_id u < int line * 1000 + (index + 1)"
    using Cons(4) t by (auto simp: r)
  have rest: "tc_test ` set (TEMPLATE_iter rest file line (index + 1) suite dec ?r) =
      tc_test ` set ?r \<union> fst ` set rest \<and>
    length (TEMPLATE_iter rest file line (index + 1) suite dec ?r) = length ?r + length rest"
    using Cons(2,3) by (intro Cons(1) ids) simp_all
  have "TEMPLATE_iter (ft # rest) file line index suite dec registered =
    TEMPLATE_iter rest file line (index + 1) suite dec ?r"
    by (simp only: ft TEMPLATE_iter.simps id)
  moreover have "tc_test ` set ?r = insert f (tc_test ` set registered)" using t by (simp add: r)
  ultimately show ?case using rest r(2) by (simp add: ft)
qed simp

lemma TEMPLATE_registers_all:
  assumes "int line * 1000 + int (length types) < 2 ^ 31"
  shows "tc_test ` set (TEMPLATE_iter types file line 0 suite dec []) = fst ` set types"
    "length (TEMPLATE_iter types file line 0 suite dec []) = length types"
  using TEMPLATE_iter_registers [of 0 line types "[]"] assms by simp_all

text \<open>The decorators of a suite apply once, however often its tests ask for it.\<close>

lemma getCurrentTestSuite_once:
  "getCurrentTestSuite ds (getCurrentTestSuite ds d) = getCurrentTestSuite ds d"
  by (simp add: getCurrentTestSuite_def)

text \<open>Leaving a scope restores the contexts, and an exception keeps the text for the reporters.\<close>

lemma INFO_scope_contexts:
  assumes "body s \<noteq> Aborts"
  shows "fst (INFO_scope t body contexts s) = contexts"
    "body s = Throws s' \<Longrightarrow> snd (INFO_scope t body contexts s) =
      Throws (s'\<lparr>stringifiedContexts := stringifiedContexts s' @ [c_str t]\<rparr>)"
  using assms by (simp_all add: INFO_scope_def Let_def new_ContextScope_def ContextScope_destroy_def split: outcome.splits)

lemma false_flag: "has_flag (DT l k) is_false \<longleftrightarrow> k \<in> {FALSE, UNARY_FALSE}"
  by (induction l; induction k; simp add: has_flag_def assert_flags DT_values)

lemma comparison_kind_flags:
  "\<not> has_flag (DT l (comparison_kind c)) is_throws" "\<not> has_flag (DT l (comparison_kind c)) is_throws_as"
  "\<not> has_flag (DT l (comparison_kind c)) is_throws_with" "\<not> has_flag (DT l (comparison_kind c)) is_nothrow"
  by (cases c; simp add: throws_flags)+

text \<open>The three ways to write a comparison have the same verdict.\<close>

lemma comparison_assertions_agree:
  "holds (COMPARISON_ASSERT True debugger ts l c file line expr (\<lambda>s. (Inr (a, b), s)) s) \<longleftrightarrow> comparison_op c a b"
  "holds (ASSERT_IMPLEMENT True debugger ts (DT l PLAIN) file line expr (\<lambda>s. (Inr (Operands c a b), s)) s) \<longleftrightarrow>
    comparison_op c a b"
  "holds (ASSERT_IMPLEMENT True debugger ts (DT l FALSE) file line expr (\<lambda>s. (Inr (Operands c a b), s)) s) \<longleftrightarrow>
    \<not> comparison_op c a b"
  "holds (binary_assert True debugger c (DT l (comparison_kind c)) file line expr a b s) \<longleftrightarrow> comparison_op c a b"
proof -
  note flags = false_flag throws_flags
  show "holds (COMPARISON_ASSERT True debugger ts l c file line expr (\<lambda>s. (Inr (a, b), s)) s) \<longleftrightarrow> comparison_op c a b"
    by (simp add: COMPARISON_ASSERT_def BINARY_ASSERT_def WRAP_IN_TRY_def Let_def ASSERT_holds RB_verdict_def
        RB_binary_assert_def comparison_kind_flags)
  show "holds (ASSERT_IMPLEMENT True debugger ts (DT l PLAIN) file line expr (\<lambda>s. (Inr (Operands c a b), s)) s) \<longleftrightarrow>
    comparison_op c a b"
    by (simp add: ASSERT_IMPLEMENT_def WRAP_IN_TRY_def Let_def ASSERT_holds RB_verdict_def RB_setResult_def
        compare_result_def flags)
  show "holds (ASSERT_IMPLEMENT True debugger ts (DT l FALSE) file line expr (\<lambda>s. (Inr (Operands c a b), s)) s) \<longleftrightarrow>
    \<not> comparison_op c a b"
    by (simp add: ASSERT_IMPLEMENT_def WRAP_IN_TRY_def Let_def ASSERT_holds RB_verdict_def RB_setResult_def
        compare_result_def flags)
  show "holds (binary_assert True debugger c (DT l (comparison_kind c)) file line expr a b s) \<longleftrightarrow> comparison_op c a b"
    using assert_in_tests_plain [OF comparison_kind_flags [of l c], of debugger "file" line expr "\<not> comparison_op c a b"
        "stringifyBinaryExpr a '', '' b" s]
    by (auto simp: binary_assert_def run_assert_def split: if_splits)
qed

end
