(* ===== verification/Spec2Isabelle.thy ===== *)
theory Spec2Isabelle
  imports Loop_Deliver Server_Shutdown Demos Doctest_Reports Doctest_Macros
begin

text \<open>
  A verification development for FlashWebserver, an HTTP server in C++ built on epoll, and for the
  test framework doctest that it carries as \<^verbatim>\<open>src/Utils/doctest.h\<close>.

  \<^bold>\<open>The program.\<close> The main thread runs a \<open>Server\<close>: it starts a pool of worker threads, each with an
  \<open>EventLoop\<close> of its own, listens, and deals accepted connections to the workers in turn by putting
  a callback into the worker's list and waking it up. A loop polls its \<open>Epoll\<close>, expires timers, runs
  the callbacks of the active \<open>Channel\<close>s and then the queued ones. Three callbacks of a channel are
  the handlers of an \<open>Http\<close> object: reading and parsing requests, writing responses, and arming the
  next round. A \<open>TimerNode\<close> closes a connection that is silent too long when it is destroyed. The
  framework is a program of its own: registered test cases, a command line, the loop of
  \<open>Context::run\<close> over test cases and their subcases, assertions, and three reporters.

  \<^bold>\<open>Conventions\<close> (\<open>Flash_Prelude\<close>). Anything that leaves the defined behaviour of C++ is a value of
  type \<open>fault\<close>, and an operation that can reach it has the type \<open>'a result\<close>, a sum. Integers are
  unbounded with the conversions of the source written out (\<open>c_int\<close>, \<open>size_t\<close>, \<open>u32\<close>), or words where
  bits matter. Objects on the heap have numbers, and reference counts where \<open>shared_ptr\<close> decides the
  lifetime; using a destroyed object is a fault. System calls answer from scripts that are part of
  the state, and the calls made are logged. Names are those of the source, with a prefix where they
  would clash.

  \<^bold>\<open>Theories of the server.\<close>
  \<^item> \<open>Http_Data\<close>, \<open>Http_URI\<close>, \<open>Http_Headers\<close>, \<open>Http_Response\<close>: \<^verbatim>\<open>src/Server/Http.{h,cpp}\<close>, class
    \<open>Http\<close>, \<open>ParseURI\<close>, \<open>ParseHeaders\<close> with its indices, \<open>ProcessRequest\<close> and \<open>HandleError\<close>. The
    header loop is proved equal to an automaton over characters, and that automaton to a grammar.
  \<^item> \<open>SocketIO\<close>, \<open>Socket_Setup\<close>: \<^verbatim>\<open>src/Utils/Utils.cpp\<close>, the loops over \<open>read\<close> and \<open>write\<close>, and the
    calls that configure descriptors. The laws of an output stream are the locale \<open>output_stream\<close>.
  \<^item> \<open>Channel\<close>, \<open>Timer\<close>, \<open>Epoll\<close>: the classes of these names. The priority queue of the timers and the
    table of descriptors are used through the locales \<open>min_queue\<close> and \<open>fd_table\<close>.
  \<^item> \<open>Reactor_State\<close>, \<open>Http_Conn\<close>: the state of one loop thread and the handlers of \<open>Http\<close> on it, with
    the lifetime of connections.
  \<^item> \<open>Reactor_Inv\<close>: the invariant \<open>reactor_ok\<close> over tables, timers, connections and counts; expiring
    timers and the connection callback keep it and never fault.
  \<^item> \<open>Http_Serve\<close>: the handlers put together: what a client gets for a request that is well formed,
    missing, pipelined or a POST, and that writing conserves the bytes.
  \<^item> \<open>Event_Loop\<close>: \<^verbatim>\<open>src/Server/EventLoop.cpp\<close>, and the hand-over of callbacks between threads as a
    step relation with its invariant: order, no loss, no lost wake-up.
  \<^item> \<open>Thread_Pool\<close>: \<open>EventLoopThread\<close> (a step relation for the pointer to the local loop) and
    \<open>EventLoopThreadPool\<close>, which interprets the locale \<open>round_robin\<close>. \<open>GetLoop\<close> reads the pointer twice
    and may return null; \<open>pool_start\<close> is the case in which it does not.
  \<^item> \<open>Server\<close>: \<^verbatim>\<open>src/Server/Server.cpp\<close> and \<^verbatim>\<open>src/Main.cpp\<close>, whose \<open>main\<close> is \<open>main_serve\<close> up to the
    return of \<open>start\<close>, the steps of the pool's destructor after \<open>shutdown\<close>, and \<open>main_end\<close>. \<open>Server_Accept\<close>: the way of a connection
    from the listening socket through the pool and the list of callbacks into the tables of the
    worker whose turn it was. \<open>Loop_Serve\<close>: an iteration of the loop from the poll through channel,
    parser, response and timers to the answer of the client. \<open>Demos\<close>: the two demonstration programs.
  \<^item> \<open>Reactor_Frame\<close>: what every handler keeps, as interpretations of the locale \<open>frame\<close>; closing is
    counted. \<open>Loop_Life\<close>: the life of a worker's loop as a step relation whose stages are the test of the
    \<open>while\<close>, the poll with its channels, the callbacks and the expiry; connections are handed over and
    \<open>Quit\<close> is called between them: the invariant over all reachable states, and the only way to fault. \<open>Loop_Teardown\<close>: the destructors after any such life close every descriptor
    exactly once. \<open>Loop_Deliver\<close>: a response that the socket takes in pieces, over as many iterations.
  \<^item> \<open>System_Life\<close>: the acceptor with all threads of the pool as one step relation over \<open>accept_one\<close>, the
    steps of the workers' loops, \<open>quit_worker\<close> and the destruction of loops that end, with an invariant
    over the pool's position, every worker and the descriptors of all of them; one pass of
    \<open>HandleNewConn\<close> and one part of a worker's iteration are single steps.
  \<^item> \<open>Server_Shutdown\<close>: the destructor of the pool, one \<open>Quit\<close> and one \<open>join\<close> at a time, interleaved with
    the threads, which finish their iteration and destroy their loops: when it faults, that joining ends,
    and that every descriptor of the workers has then been closed as often as it was opened.

  \<^bold>\<open>Theories of doctest.\<close>
  \<^item> \<open>Doctest_String\<close>, \<open>Doctest_Text\<close>, \<open>Doctest_Types\<close>, \<open>Doctest_Names\<close>: the string class over cells
    that may be indeterminate, refined to lists; wildcards, hashes, paths; kinds of assertions,
    \<open>Approx\<close>; names of types, arrays, the look for a debugger.
  \<^item> \<open>Doctest_State\<close>, \<open>Doctest_Stats\<close>: the records, registration and orders, counters over lanes, and
    the verdict over a test case.
  \<^item> \<open>Doctest_Options\<close>: the command line. \<open>Doctest_Assert\<close>, \<open>Doctest_Macros\<close>: assertions, messages,
    signals, and the macros through which they are reached.
  \<^item> \<open>Doctest_Subcase\<close>, \<open>Doctest_Run\<close>, \<open>Doctest_Runs\<close>: \<open>Subcase\<close>, \<open>Context::run\<close>, and what a run
    does: selection, results, the exact events of nested subcases with every leaf once, and the run
    without end.
  \<^item> \<open>Doctest_Xml\<close>, \<open>Doctest_Reporter\<close>, \<open>Doctest_Xml_Reporter\<close>, \<open>Doctest_JUnit\<close>, \<open>Doctest_Help\<close>,
    \<open>Doctest_Console\<close>: XML and the reporters, each an interpretation of the locale \<open>reporter\<close>.
  \<^item> \<open>Doctest_Reports\<close>: the events of a whole run are accepted by all three; those of a crash are not.

  \<^bold>\<open>Termination, bounds and fuel.\<close> No definition takes fuel. The handlers and the expiry of timers
  recurse with measures on what is left to read and on the queue. \<open>Loop\<close> consumes the list of what its
  polls return and says whether it has stopped. The loop over the passes of a test case may not end;
  it is a \<open>partial_function\<close>, so that \<open>None\<close> is a run without end, and theorems that a run ends say
  \<open>Some\<close>. Assumptions on sizes stand in the statements: strings shorter than \<open>2 ^ 32\<close>, counters of the
  JUnit report below \<open>2 ^ 31\<close>, column widths for counts below \<open>2 ^ 32 - 1\<close>, and clock readings of one
  iteration less than a minute apart where a response is followed over many iterations. Counters of type
  \<open>int\<close> wrap where C++ leaves their overflow undefined (the sum over the lanes, the numbers of assertions,
  the numbers in the JUnit report), and counts of test cases, \<open>unsigned\<close> in the source, are natural numbers.

  \<^bold>\<open>Parameters.\<close> Answers of system calls, the clock, the file system, the bodies of test functions, the
  random numbers and \<open>uncaught_exceptions\<close> are arguments. A \<open>double\<close> is a rational number with the
  rounding and the printing as parameters, without infinities and not-a-number. Assertions compare
  operands of type \<open>int\<close>. Strings that reporters print hold no null character. The previous handlers
  of signals are taken to return. A \<open>unique_ptr\<close> that is
  being destroyed is taken to hold its value still, as in libstdc++, and the order in which containers
  destroy their elements is an argument. Test functions without subcases and tests that are nested
  subcases are the two classes of bodies for which runs are described completely.

  \<^bold>\<open>Not modelled.\<close> Type traits and configuration macros of doctest, which have no behaviour at run
  time; its branches for Windows and macOS, the builds without tests or exceptions, and the macros of
  the super fast assertions (the functions they call are modelled). \<^verbatim>\<open>src/Utils/Timer.h.discard\<close>, which
  is not compiled. The external logger FlashLogger, whose set-up in \<^verbatim>\<open>Server::start\<close> is commented out, so that
  \<^verbatim>\<open>output\<close> in \<^verbatim>\<open>src/Server/Server.cpp\<close> is never called. Output for tracing. The fill character that \<open>hexEscapeChar\<close> leaves in its
  stream, which only shows when the console reporter pads columns of the same stream. Appending a doctest string to itself. The
  memory order of atomic operations: the steps of threads interleave.
\<close>

end
